(* ===== verification/Prelude.thy ===== *)
theory Prelude
  imports
    Complex_Main
    "HOL-Library.Char_ord"
    "HOL-Library.List_Lexorder"
    "HOL-Library.Product_Lexorder"
    "HOL-Library.Multiset"
begin

text \<open>
  The parts of Python and of its standard library that every component uses: dictionaries that
  remember insertion order, dynamically typed metadata values, strings, floating point scores with
  their non-finite values, datetimes with and without a time zone, and raised exceptions as values.

  Conventions of the whole development:
  \<^item> A Python \<open>str\<close> is a \<^typ>\<open>string\<close>: every \<^typ>\<open>char\<close> is one code point below 256. On these
    strings NFC normalisation is the identity (no code point below U+0300 is changed or composed
    by NFC), so \<open>unicodedata.normalize\<close> leaves no trace in the model, and \<open>casefold\<close>,
    \<open>lower\<close>, \<open>isspace\<close> and \<open>category\<close> are total functions below.
  \<^item> A \<open>float\<close> is an exact real or one of the three non-finite values; rounding is not modelled.
  \<^item> An instant is a number of microseconds since 1970-01-01 UTC. A \<open>datetime\<close> that a caller
    passes may be naive, and the code reads such a value as UTC.
\<close>

named_theorems dict_simps \<open>lookups and keys of Python dictionaries after an update\<close>
named_theorems str_simps \<open>the Python string operations on literals and on constructors\<close>

section \<open>Exceptions\<close>

datatype py_error =
    ValueError string
  | TypeError string
  | KeyError string
  | PermissionError string
  | ConfigurationError string
  | LegRejected string
  | AssertionError string
  | RuntimeError string

type_synonym 'a result = "py_error + 'a"

text \<open>Statements in sequence: the first that raises is the outcome.\<close>

definition and_then :: "'e + 'a \<Rightarrow> ('a \<Rightarrow> 'e + 'b) \<Rightarrow> 'e + 'b" where
  "and_then m f = (case m of Inl e \<Rightarrow> Inl e | Inr x \<Rightarrow> f x)"

lemma and_then_simps [simp]: "and_then (Inl e) f = Inl e" "and_then (Inr x) f = f x"
  by (simp_all add: and_then_def)

lemma and_then_Inr [simp]: "and_then m f = Inr y \<longleftrightarrow> (\<exists>x. m = Inr x \<and> f x = Inr y)"
  by (cases m) auto

section \<open>Dictionaries\<close>

text \<open>
  A dictionary is an association list in insertion order with distinct keys; lookup is
  \<^const>\<open>map_of\<close>. Assigning to a present key keeps its position, as Python does.
\<close>

type_synonym ('k, 'v) dict = "('k \<times> 'v) list"

fun dict_set :: "'k \<Rightarrow> 'v \<Rightarrow> ('k, 'v) dict \<Rightarrow> ('k, 'v) dict" where
  "dict_set k v [] = [(k, v)]"
| "dict_set k v ((k', v') # d) = (if k' = k then (k, v) # d else (k', v') # dict_set k v d)"

definition dict_pop :: "'k \<Rightarrow> ('k, 'v) dict \<Rightarrow> ('k, 'v) dict" where
  "dict_pop k d = filter (\<lambda>(k', v). k' \<noteq> k) d"

definition dict_get :: "('k, 'v) dict \<Rightarrow> 'k \<Rightarrow> 'v \<Rightarrow> 'v" where
  "dict_get d k v = (case map_of d k of None \<Rightarrow> v | Some x \<Rightarrow> x)"

definition dict_setdefault :: "'k \<Rightarrow> 'v \<Rightarrow> ('k, 'v) dict \<Rightarrow> ('k, 'v) dict" where
  "dict_setdefault k v d = (if map_of d k = None then d @ [(k, v)] else d)"

text \<open>\<open>d.setdefault(k, []).append(x)\<close>, the list-valued update the code uses throughout.\<close>

definition dict_append :: "'k \<Rightarrow> 'v \<Rightarrow> ('k, 'v list) dict \<Rightarrow> ('k, 'v list) dict" where
  "dict_append k x d = dict_set k (dict_get d k [] @ [x]) d"

abbreviation dict_keys :: "('k, 'v) dict \<Rightarrow> 'k list" where
  "dict_keys d \<equiv> map fst d"

definition dict_ok :: "('k, 'v) dict \<Rightarrow> bool" where
  "dict_ok d \<longleftrightarrow> distinct (dict_keys d)"

lemma map_of_dict_set [dict_simps, simp]: "map_of (dict_set k v d) = (map_of d)(k \<mapsto> v)"
  by (induction d) (auto simp: fun_eq_iff)

lemma keys_dict_set [dict_simps, simp]: "fst ` set (dict_set k v d) = insert k (fst ` set d)"
proof (induction d)
  case (Cons p d)
  show ?case
  proof (cases "fst p = k")
    case True
    then show ?thesis by (cases p) auto
  next
    case False
    then have "dict_set k v (p # d) = p # dict_set k v d" by (cases p) simp
    then show ?thesis using Cons.IH by auto
  qed
qed simp

lemma dict_ok_set [intro]: "dict_ok d \<Longrightarrow> dict_ok (dict_set k v d)"
  unfolding dict_ok_def
proof (induction d)
  case (Cons p d)
  obtain k' v' where p: "p = (k', v')" by (cases p)
  show ?case
  proof (cases "k' = k")
    case False
    then have "k' \<notin> set (dict_keys (dict_set k v d))" using Cons.prems p by simp
    with Cons p False show ?thesis by simp
  qed (use Cons p in simp)
qed simp

lemma map_of_dict_pop [dict_simps, simp]: "map_of (dict_pop k d) = (map_of d)(k := None)"
  by (induction d) (auto simp: dict_pop_def fun_eq_iff)

lemma keys_dict_pop [dict_simps, simp]: "fst ` set (dict_pop k d) = fst ` set d - {k}"
  by (force simp: dict_pop_def)

lemma dict_ok_pop [intro]: "dict_ok d \<Longrightarrow> dict_ok (dict_pop k d)"
  by (auto simp: dict_ok_def dict_pop_def distinct_map inj_on_def)

lemma map_of_dict_append [dict_simps, simp]:
  "map_of (dict_append k x d) = (map_of d)(k \<mapsto> dict_get d k [] @ [x])"
  by (simp add: dict_append_def)

lemma keys_dict_append [dict_simps, simp]:
  "fst ` set (dict_append k x d) = insert k (fst ` set d)"
  by (simp add: dict_append_def)

lemma dict_ok_append [intro]: "dict_ok d \<Longrightarrow> dict_ok (dict_append k x d)"
  by (auto simp: dict_append_def)

lemma map_of_dict_setdefault [dict_simps, simp]:
  "map_of (dict_setdefault k v d) k' =
     (if k' = k \<and> map_of d k = None then Some v else map_of d k')"
  by (auto simp: dict_setdefault_def map_add_def split: option.splits)

lemma dict_get_set [dict_simps, simp]: "dict_get (dict_set k v d) p x = (if p = k then v else dict_get d p x)"
  by (simp add: dict_get_def)

lemma dict_get_pop [dict_simps, simp]: "dict_get (dict_pop k d) p x = (if p = k then x else dict_get d p x)"
  by (simp add: dict_get_def)

lemma dict_get_append [dict_simps, simp]:
  "dict_get (dict_append k y d) p [] = (if p = k then dict_get d k [] @ [y] else dict_get d p [])"
  by (simp add: dict_append_def)

lemma dict_get_Nil [simp]: "dict_get [] p x = x"
  by (simp add: dict_get_def)

lemma map_of_keys_iff: "(\<exists>v. map_of d k = Some v) \<longleftrightarrow> k \<in> set (dict_keys d)"
  by (metis map_of_eq_None_iff not_None_eq set_map)

lemma dict_ok_Nil [simp, intro]: "dict_ok []"
  by (simp add: dict_ok_def)

lemma set_dict_set: "set (dict_set k v d) \<subseteq> insert (k, v) (set d)"
  by (induction d) (auto split: if_splits)

text \<open>A dictionary filled in a loop: what it holds comes from the loop, and every key of the loop is held.\<close>

lemma set_fold_dict_set: "set (fold (\<lambda>x. dict_set (k x) (v x)) xs d) \<subseteq> set d \<union> (\<lambda>x. (k x, v x)) ` set xs"
proof (induction xs arbitrary: d)
  case (Cons x xs)
  show ?case using Cons.IH [of "dict_set (k x) (v x) d"] set_dict_set [of "k x" "v x" d] by auto
qed simp

lemma map_of_fold_dict_set:
  assumes "q \<in> k ` set xs"
  shows "\<exists>x\<in>set xs. k x = q \<and> map_of (fold (\<lambda>x. dict_set (k x) (v x)) xs d) q = Some (v x)"
  using assms
proof (induction xs rule: rev_induct)
  case (snoc x xs)
  then show ?case by (cases "q = k x") auto
qed simp

lemma set_map_filter: "set (List.map_filter f xs) = {y. \<exists>x\<in>set xs. f x = Some y}"
  by (induction xs) (auto simp: List.map_filter_simps split: option.splits)

lemma map_map_filter:
  "(\<And>x. x \<in> set xs \<Longrightarrow> \<exists>y. f x = Some y \<and> g y = h x) \<Longrightarrow> map g (List.map_filter f xs) = map h xs"
proof (induction xs)
  case (Cons x xs)
  then obtain y where "f x = Some y" "g y = h x" by auto
  then show ?case using Cons by (simp add: List.map_filter_simps)
qed (simp add: List.map_filter_simps)

text \<open>\<open>list(dict.fromkeys(xs))\<close>: the first occurrence of every item, in order.\<close>

definition dedup :: "'a list \<Rightarrow> 'a list" where
  "dedup xs = rev (remdups (rev xs))"

lemma set_dedup [simp]: "set (dedup xs) = set xs"
  by (simp add: dedup_def)

lemma distinct_dedup [simp]: "distinct (dedup xs)"
  by (simp add: dedup_def)

section \<open>Dynamically typed values\<close>

type_synonym instant = int

datatype pyval =
    PNone
  | PBool bool
  | PInt int
  | PStr string
  | PTime instant
  | PList "pyval list"
  | PDict "(string \<times> pyval) list"

type_synonym metadata = "(string, pyval) dict"

text \<open>\<open>d.get(key)\<close> on a metadata dictionary: \<open>None\<close> when the key is absent.\<close>

definition py_get :: "metadata \<Rightarrow> string \<Rightarrow> pyval" where
  "py_get d k = dict_get d k PNone"

fun truthy :: "pyval \<Rightarrow> bool" where
  "truthy PNone = False"
| "truthy (PBool b) = b"
| "truthy (PInt i) = (i \<noteq> 0)"
| "truthy (PStr s) = (s \<noteq> [])"
| "truthy (PTime t) = True"
| "truthy (PList xs) = (xs \<noteq> [])"
| "truthy (PDict d) = (d \<noteq> [])"

fun as_str :: "pyval \<Rightarrow> string option" where
  "as_str (PStr s) = Some s"
| "as_str v = None"

fun as_time :: "pyval \<Rightarrow> instant option" where
  "as_time (PTime t) = Some t"
| "as_time v = None"

text \<open>\<open>isinstance(v, int)\<close>: a \<open>bool\<close> is an \<open>int\<close> in Python.\<close>

fun as_int :: "pyval \<Rightarrow> int option" where
  "as_int (PInt i) = Some i"
| "as_int (PBool b) = Some (if b then 1 else 0)"
| "as_int v = None"

section \<open>Datetimes\<close>

datatype datetime = Aware instant | Naive instant

text \<open>
  \<open>value if value.tzinfo is not None else value.replace(tzinfo=UTC)\<close>: the helper that
  \<open>_as_utc\<close>, \<open>_aware\<close> and \<open>_utc\<close> each define. The result is compared with the stores'
  instants, which are time zone aware, so it is the instant itself.
\<close>

fun as_utc :: "datetime \<Rightarrow> instant" where
  "as_utc (Aware t) = t"
| "as_utc (Naive t) = t"

section \<open>Floating point scores\<close>

datatype pyfloat = Fin real | PInf | NInf | NaN

fun isfinite :: "pyfloat \<Rightarrow> bool" where
  "isfinite (Fin r) = True"
| "isfinite _ = False"

text \<open>\<open>a < b\<close>, False as soon as one side is NaN.\<close>

fun flt_less :: "pyfloat \<Rightarrow> pyfloat \<Rightarrow> bool" where
  "flt_less NaN _ = False"
| "flt_less _ NaN = False"
| "flt_less PInf _ = False"
| "flt_less _ NInf = False"
| "flt_less NInf _ = True"
| "flt_less _ PInf = True"
| "flt_less (Fin a) (Fin b) = (a < b)"

fun flt_le :: "pyfloat \<Rightarrow> pyfloat \<Rightarrow> bool" where
  "flt_le NaN _ = False"
| "flt_le _ NaN = False"
| "flt_le _ PInf = True"
| "flt_le NInf _ = True"
| "flt_le PInf _ = False"
| "flt_le _ NInf = False"
| "flt_le (Fin a) (Fin b) = (a \<le> b)"

abbreviation flt_ge :: "pyfloat \<Rightarrow> pyfloat \<Rightarrow> bool" where
  "flt_ge a b \<equiv> flt_le b a"

lemma isfinite_iff: "isfinite x \<longleftrightarrow> (\<exists>r. x = Fin r)"
  by (cases x) auto

lemma flt_finite_not_less: "isfinite a \<Longrightarrow> isfinite b \<Longrightarrow> \<not> flt_less a b \<longleftrightarrow> flt_ge a b"
  by (auto simp: isfinite_iff)

text \<open>\<open>max(xs, key=f)\<close> keeps the first of the items no later one is greater than.\<close>

fun max_by :: "('a \<Rightarrow> pyfloat) \<Rightarrow> 'a \<Rightarrow> 'a list \<Rightarrow> 'a" where
  "max_by f best [] = best"
| "max_by f best (x # xs) = max_by f (if flt_less (f best) (f x) then x else best) xs"

lemma max_by_in: "max_by f b xs \<in> insert b (set xs)"
proof (induction xs arbitrary: b)
  case (Cons x xs)
  show ?case using Cons.IH [of x] Cons.IH [of b] by auto
qed simp

end
