(* ===== verification/PyString.thy ===== *)
theory PyString
  imports Prelude
begin

text \<open>
  The \<open>str\<close> methods and the \<open>posixpath\<close> and \<open>urllib.parse\<close> functions the sources call, on strings
  of code points below 256 (see theory Prelude), and the lemmas on them that the components share.
\<close>

section \<open>Characters\<close>

abbreviation code :: "char \<Rightarrow> int" where
  "code c \<equiv> of_char c"

definition py_isspace :: "char \<Rightarrow> bool" where
  "py_isspace c \<longleftrightarrow> code c \<in> {9, 10, 11, 12, 13, 28, 29, 30, 31, 32, 133, 160}"

text \<open>\<open>str.lower\<close>: ASCII and Latin-1 capitals (the multiplication sign is not a letter).\<close>

definition lower_char :: "char \<Rightarrow> char" where
  "lower_char c = (let n = code c in
     if (65 \<le> n \<and> n \<le> 90) \<or> (192 \<le> n \<and> n \<le> 222 \<and> n \<noteq> 215) then char_of (n + 32) else c)"

definition py_lower :: "string \<Rightarrow> string" where
  "py_lower s = map lower_char s"

text \<open>
  \<open>str.casefold\<close>: lower case, and the sharp s is two letters. The micro sign folds to a Greek letter
  outside the alphabet that nothing else folds to, so it is kept: folded names are only compared.
\<close>

definition casefold :: "string \<Rightarrow> string" where
  "casefold s = concat (map (\<lambda>c. if code c = 223 then ''ss'' else [lower_char c]) s)"

text \<open>\<open>unicodedata.category(c)\<close> is one of Cc, Cf, Zl, Zp.\<close>

definition is_control :: "char \<Rightarrow> bool" where
  "is_control c \<longleftrightarrow> code c < 32 \<or> (127 \<le> code c \<and> code c < 160) \<or> code c = 173"

section \<open>Strings\<close>

definition starts_with :: "string \<Rightarrow> string \<Rightarrow> bool" where
  "starts_with s p \<longleftrightarrow> take (length p) s = p"

definition ends_with :: "string \<Rightarrow> string \<Rightarrow> bool" where
  "ends_with s p \<longleftrightarrow> length p \<le> length s \<and> drop (length s - length p) s = p"

fun has_substring :: "string \<Rightarrow> string \<Rightarrow> bool" where
  "has_substring [] p = (p = [])"
| "has_substring (c # s) p = (starts_with (c # s) p \<or> has_substring s p)"

definition replace_char :: "char \<Rightarrow> char \<Rightarrow> string \<Rightarrow> string" where
  "replace_char a b s = map (\<lambda>c. if c = a then b else c) s"

definition lstrip_by :: "(char \<Rightarrow> bool) \<Rightarrow> string \<Rightarrow> string" where
  "lstrip_by p s = dropWhile p s"

definition strip_by :: "(char \<Rightarrow> bool) \<Rightarrow> string \<Rightarrow> string" where
  "strip_by p s = rev (dropWhile p (rev (dropWhile p s)))"

abbreviation py_strip :: "string \<Rightarrow> string" where
  "py_strip s \<equiv> strip_by py_isspace s"

fun split_on :: "char \<Rightarrow> string \<Rightarrow> string list" where
  "split_on c [] = [[]]"
| "split_on c (x # s) =
     (if x = c then [] # split_on c s
      else case split_on c s of [] \<Rightarrow> [[x]] | w # ws \<Rightarrow> (x # w) # ws)"

fun join_with :: "string \<Rightarrow> string list \<Rightarrow> string" where
  "join_with sep [] = []"
| "join_with sep [x] = x"
| "join_with sep (x # y # xs) = x @ sep @ join_with sep (y # xs)"

text \<open>\<open>s.split()\<close>: the maximal runs of non-space characters.\<close>

fun words_acc :: "string \<Rightarrow> string \<Rightarrow> string list" where
  "words_acc w [] = (if w = [] then [] else [rev w])"
| "words_acc w (c # s) =
     (if py_isspace c then (if w = [] then words_acc [] s else rev w # words_acc [] s)
      else words_acc (c # w) s)"

definition py_words :: "string \<Rightarrow> string list" where
  "py_words s = words_acc [] s"

text \<open>\<open>s.rsplit("/", 1)[-1]\<close>: what follows the last slash, the whole string without one.\<close>

text \<open>
  \<open>int(s)\<close>: surrounding white space, a sign, and decimal digits with single underscores between them; more
  than 4300 digits are refused. None is \<open>ValueError\<close>.
\<close>

definition digit_val :: "char \<Rightarrow> int option" where
  "digit_val c = (if 48 \<le> code c \<and> code c \<le> 57 then Some (code c - 48) else None)"

fun int_digits :: "int \<Rightarrow> string \<Rightarrow> int option" where
  "int_digits n [] = Some n"
| "int_digits n (c # cs) =
     (if c = CHR ''_'' then (case cs of [] \<Rightarrow> None | d # ds \<Rightarrow>
        (case digit_val d of None \<Rightarrow> None | Some v \<Rightarrow> int_digits (10 * n + v) ds))
      else (case digit_val c of None \<Rightarrow> None | Some v \<Rightarrow> int_digits (10 * n + v) cs))"

definition int_body :: "string \<Rightarrow> int option" where
  "int_body s = (if length (filter (\<lambda>c. digit_val c \<noteq> None) s) > 4300 then None
     else (case s of [] \<Rightarrow> None | c # cs \<Rightarrow>
       (case digit_val c of None \<Rightarrow> None | Some v \<Rightarrow> int_digits v cs)))"

definition py_int :: "string \<Rightarrow> int option" where
  "py_int raw = (case py_strip raw of
     c # cs \<Rightarrow> if c = CHR ''-'' then map_option uminus (int_body cs)
       else if c = CHR ''+'' then int_body cs else int_body (c # cs)
   | [] \<Rightarrow> None)"

definition last_segment :: "string \<Rightarrow> string" where
  "last_segment s = last (split_on (CHR ''/'') s)"

abbreviation posix :: "string \<Rightarrow> string" where
  "posix s \<equiv> replace_char (CHR 92) (CHR ''/'') s"

lemma length_strip_by: "length (strip_by p s) \<le> length s"
  unfolding strip_by_def by (metis length_dropWhile_le length_rev le_trans)

lemma split_on_ne [simp]: "split_on c s \<noteq> []"
  by (induction s) (auto split: list.splits)

lemma split_on_no_sep: "x \<in> set (split_on c s) \<Longrightarrow> c \<notin> set x"
  by (induction s arbitrary: x) (auto split: if_splits list.splits)

lemma join_split_on: "join_with [c] (split_on c s) = s"
proof (induction s)
  case (Cons x s)
  obtain a as where as: "split_on c s = a # as" by (cases "split_on c s") auto
  show ?case using Cons as by (cases as) auto
qed simp

lemma split_on_id: "c \<notin> set s \<Longrightarrow> split_on c s = [s]"
  by (induction s) auto

lemma last_segment_no_slash: "CHR ''/'' \<notin> set (last_segment s)"
  unfolding last_segment_def by (rule split_on_no_sep [OF last_in_set]) simp

lemma last_segment_id: "CHR ''/'' \<notin> set s \<Longrightarrow> last_segment s = s"
  by (simp add: last_segment_def split_on_id)

lemma starts_with_iff: "starts_with s p \<longleftrightarrow> (\<exists>t. s = p @ t)"
  by (metis append_eq_conv_conj append_take_drop_id starts_with_def)

lemma ends_with_iff: "ends_with s p \<longleftrightarrow> (\<exists>t. s = t @ p)"
  by (auto simp: ends_with_def) (metis append_take_drop_id)

lemma starts_with_trans: "starts_with a b \<Longrightarrow> starts_with b c \<Longrightarrow> starts_with a c"
  by (auto simp: starts_with_iff)

lemma starts_with_refl [simp]: "starts_with s s"
  by (simp add: starts_with_def)

lemma starts_with_append [simp]: "starts_with (p @ s) p"
  by (simp add: starts_with_def)

section \<open>posixpath and pathlib\<close>

text \<open>The component loop of \<open>posixpath.normpath\<close>; \<open>new\<close> is \<open>new_comps\<close> reversed.\<close>

fun norm_comps :: "bool \<Rightarrow> string list \<Rightarrow> string list \<Rightarrow> string list" where
  "norm_comps rooted new [] = rev new"
| "norm_comps rooted new (c # cs) =
     (if c = [] \<or> c = ''.'' then norm_comps rooted new cs
      else if c \<noteq> ''..'' \<or> (\<not> rooted \<and> new = []) \<or> (new \<noteq> [] \<and> hd new = ''..'')
      then norm_comps rooted (c # new) cs
      else norm_comps rooted (tl new) cs)"

definition leading_slashes :: "string \<Rightarrow> string" where
  "leading_slashes s =
     (if \<not> starts_with s ''/'' then []
      else if starts_with s ''//'' \<and> \<not> starts_with s ''///'' then ''//'' else ''/'')"

definition normpath :: "string \<Rightarrow> string" where
  "normpath s =
     (if s = [] then ''.''
      else let root = leading_slashes s;
               p = root @ join_with ''/'' (norm_comps (root \<noteq> []) [] (split_on (CHR ''/'') s))
           in if p = [] then ''.'' else p)"

text \<open>\<open>PurePosixPath(s)\<close>: the root and the components that are neither empty nor a single dot.\<close>

definition path_tail :: "string \<Rightarrow> string list" where
  "path_tail s = filter (\<lambda>c. c \<noteq> [] \<and> c \<noteq> ''.'') (split_on (CHR ''/'') s)"

definition path_parts :: "string \<Rightarrow> string list" where
  "path_parts s = (if leading_slashes s = [] then path_tail s else leading_slashes s # path_tail s)"

definition path_as_posix :: "string \<Rightarrow> string" where
  "path_as_posix s = (let p = leading_slashes s @ join_with ''/'' (path_tail s) in
     if p = [] then ''.'' else p)"

section \<open>urllib.parse\<close>

text \<open>
  \<open>urlsplit\<close> as far as the sources use it: scheme, authority and path. A URL with an
  unbalanced bracket in its authority raises \<open>ValueError\<close>.
\<close>

definition url_delim :: "char \<Rightarrow> bool" where
  "url_delim c \<longleftrightarrow> c \<in> {CHR ''/'', CHR ''?'', CHR ''#''}"

definition scheme_char :: "char \<Rightarrow> bool" where
  "scheme_char c \<longleftrightarrow> (let n = code c in
     (65 \<le> n \<and> n \<le> 90) \<or> (97 \<le> n \<and> n \<le> 122) \<or> (48 \<le> n \<and> n \<le> 57)
     \<or> c = CHR ''+'' \<or> c = CHR ''-'' \<or> c = CHR ''.'')"

definition ascii_alpha :: "char \<Rightarrow> bool" where
  "ascii_alpha c \<longleftrightarrow> (let n = code c in (65 \<le> n \<and> n \<le> 90) \<or> (97 \<le> n \<and> n \<le> 122))"

definition url_scheme :: "string \<Rightarrow> string \<times> string" where
  "url_scheme url = (let s = takeWhile (\<lambda>c. c \<noteq> CHR '':'') url in
     if s \<noteq> [] \<and> length s < length url \<and> ascii_alpha (hd s) \<and> list_all scheme_char s
     then (py_lower s, drop (Suc (length s)) url) else ([], url))"

definition urlsplit :: "string \<Rightarrow> (string \<times> string \<times> string) result" where
  "urlsplit raw =
     (let url = filter (\<lambda>c. code c \<notin> {9, 10, 13}) (lstrip_by (\<lambda>c. code c \<le> 32) raw);
          (scheme, rest) = url_scheme url;
          (netloc, rest') = (if starts_with rest ''//''
             then (takeWhile (\<lambda>c. \<not> url_delim c) (drop 2 rest),
                   dropWhile (\<lambda>c. \<not> url_delim c) (drop 2 rest))
             else ([], rest));
          path = takeWhile (\<lambda>c. c \<noteq> CHR ''?'' \<and> c \<noteq> CHR ''#'') rest'
      in if (CHR ''['' \<in> set netloc) \<noteq> (CHR '']'' \<in> set netloc) then Inl (ValueError ''Invalid IPv6 URL'')
         else Inr (scheme, netloc, path))"

definition hex_digit :: "char \<Rightarrow> int option" where
  "hex_digit c = (let n = code c in
     if 48 \<le> n \<and> n \<le> 57 then Some (n - 48)
     else if 65 \<le> n \<and> n \<le> 70 then Some (n - 55)
     else if 97 \<le> n \<and> n \<le> 102 then Some (n - 87)
     else None)"

text \<open>
  \<open>unquote_to_bytes\<close>, then UTF-8 decoding. A decoded code point outside the alphabet, and every
  byte of an invalid sequence, is written as the substitute character (code 26).
\<close>

fun unquote_bytes :: "string \<Rightarrow> int list" where
  "unquote_bytes [] = []"
| "unquote_bytes [c] = [code c]"
| "unquote_bytes [c, d] = [code c, code d]"
| "unquote_bytes (c # d # e # s) =
     (if c = CHR ''%'' then
        (case (hex_digit d, hex_digit e) of
           (Some h, Some l) \<Rightarrow> (16 * h + l) # unquote_bytes s
         | _ \<Rightarrow> code c # unquote_bytes (d # e # s))
      else code c # unquote_bytes (d # e # s))"

fun utf8_decode :: "int list \<Rightarrow> string" where
  "utf8_decode [] = []"
| "utf8_decode [b] = [if b < 128 then char_of b else CHR 26]"
| "utf8_decode (b # c # bs) =
     (if b < 128 then char_of b # utf8_decode (c # bs)
      else if b \<in> {194, 195} \<and> 128 \<le> c \<and> c < 192
      then char_of ((b - 192) * 64 + (c - 128)) # utf8_decode bs
      else CHR 26 # utf8_decode (c # bs))"

text \<open>\<open>unquote\<close> decodes each maximal run of ASCII characters and keeps the others as they are.\<close>

fun unquote_acc :: "string \<Rightarrow> string \<Rightarrow> string" where
  "unquote_acc run [] = utf8_decode (unquote_bytes (rev run))"
| "unquote_acc run (c # s) =
     (if code c < 128 then unquote_acc (c # run) s
      else utf8_decode (unquote_bytes (rev run)) @ [c] @ unquote_acc [] s)"

definition unquote :: "string \<Rightarrow> string" where
  "unquote s = (if CHR ''%'' \<in> set s then unquote_acc [] s else s)"

end
