(* ===== verification/Frontmatter.thy ===== *)
theory Frontmatter
  imports PyString
begin

text \<open>
  The readers of authored memo metadata (\<open>src/recall/frontmatter.py\<close>): the authority tier and the
  declared dependencies of a memo, the references a \<open>supersedes\<close> value declares, and the validity
  window. Every reader fails with a \<open>ValueError\<close> value on malformed metadata, as the code raises.
\<close>

section \<open>Authority and dependencies\<close>

datatype authority = Policy | UserConfirmedDecision | ToolObservation | ModelInference | UnknownAuthority

definition authority_name :: "authority \<Rightarrow> string" where
  "authority_name a = (case a of
     Policy \<Rightarrow> ''policy''
   | UserConfirmedDecision \<Rightarrow> ''user_confirmed_decision''
   | ToolObservation \<Rightarrow> ''tool_observation''
   | ModelInference \<Rightarrow> ''model_inference''
   | UnknownAuthority \<Rightarrow> ''unknown'')"

text \<open>The tiers an author may write, in source order; \<open>unknown\<close> is excluded.\<close>

definition authored_authority_values :: "authority list" where
  "authored_authority_values = [Policy, UserConfirmedDecision, ToolObservation, ModelInference]"

definition authored_authority :: "string \<Rightarrow> authority option" where
  "authored_authority s = find (\<lambda>a. authority_name a = s) authored_authority_values"

definition recall_graph_metadata :: "metadata \<Rightarrow> metadata option result" where
  "recall_graph_metadata meta = (case py_get meta ''recall_graph'' of
     PNone \<Rightarrow> Inr None
   | PDict g \<Rightarrow>
       (case map_of g ''__parse_error__'' of
          None \<Rightarrow> Inr (Some g)
        | Some (PStr msg) \<Rightarrow> Inl (ValueError msg)
        | Some _ \<Rightarrow> Inl (ValueError ''parse error''))
   | _ \<Rightarrow> Inl (ValueError ''recall_graph must be a JSON object''))"

definition authority_from_metadata :: "metadata \<Rightarrow> authority result" where
  "authority_from_metadata meta = (case recall_graph_metadata meta of
     Inl e \<Rightarrow> Inl e
   | Inr None \<Rightarrow> Inr UnknownAuthority
   | Inr (Some g) \<Rightarrow>
       (case map_of g ''authority'' of
          None \<Rightarrow> Inr UnknownAuthority
        | Some v \<Rightarrow>
            (case as_str v of
               None \<Rightarrow> Inl (ValueError ''recall_graph.authority'')
             | Some s \<Rightarrow>
                 (case authored_authority s of
                    None \<Rightarrow> Inl (ValueError ''recall_graph.authority'')
                  | Some a \<Rightarrow> Inr a))))"

fun dependency_items :: "pyval list \<Rightarrow> string list result" where
  "dependency_items [] = Inr []"
| "dependency_items (v # vs) = (case as_str v of
     None \<Rightarrow> Inl (ValueError ''recall_graph.depends_on entries must be non-empty strings'')
   | Some s \<Rightarrow>
       (if py_strip s = []
        then Inl (ValueError ''recall_graph.depends_on entries must be non-empty strings'')
        else (case dependency_items vs of Inl e \<Rightarrow> Inl e | Inr xs \<Rightarrow> Inr (py_strip s # xs))))"

definition dependencies_from_metadata :: "metadata \<Rightarrow> string list result" where
  "dependencies_from_metadata meta = (case recall_graph_metadata meta of
     Inl e \<Rightarrow> Inl e
   | Inr None \<Rightarrow> Inr []
   | Inr (Some g) \<Rightarrow>
       (case map_of g ''depends_on'' of
          None \<Rightarrow> Inr []
        | Some (PList vs) \<Rightarrow>
            (case dependency_items vs of Inl e \<Rightarrow> Inl e | Inr xs \<Rightarrow> Inr (sort (remdups xs)))
        | Some _ \<Rightarrow> Inl (ValueError ''recall_graph.depends_on must be a JSON array of source strings'')))"

section \<open>The references a supersedes value declares\<close>

definition unquote_scalar :: "string \<Rightarrow> string" where
  "unquote_scalar v =
     (if 2 \<le> length v \<and> hd v = last v \<and> hd v \<in> {CHR 39, CHR 34}
      then py_strip (butlast (tl v)) else v)"

definition flow_items :: "string \<Rightarrow> string list option" where
  "flow_items value =
     (let v = py_strip value in
      if length v < 2 \<or> hd v \<noteq> CHR ''['' \<or> last v \<noteq> CHR '']'' \<or> starts_with v ''[['' then None
      else let inner = butlast (tl v) in
        if py_strip inner \<noteq> [] \<and> CHR '','' \<notin> set inner then None
        else Some (map (\<lambda>item. unquote_scalar (py_strip item))
                    (filter (\<lambda>item. py_strip item \<noteq> []) (split_on (CHR '','') inner))))"

definition reference_items :: "string \<Rightarrow> string list" where
  "reference_items value = (case flow_items value of
     Some items \<Rightarrow> items
   | None \<Rightarrow> (let single = unquote_scalar (py_strip value) in if single = [] then [] else [single]))"

definition supersedes_targets :: "pyval \<Rightarrow> string list" where
  "supersedes_targets value = (case value of
     PStr s \<Rightarrow> (if py_strip s = [] then [] else reference_items s)
   | PList vs \<Rightarrow> map py_strip (filter (\<lambda>s. py_strip s \<noteq> []) (List.map_filter as_str vs))
   | _ \<Rightarrow> [])"

text \<open>The bracket loop shared by \<open>supersedes_key\<close> and \<open>reference_path_key\<close>.\<close>

function strip_brackets :: "string \<Rightarrow> string" where
  "strip_brackets v =
     (if 2 \<le> length v \<and> hd v = CHR ''['' \<and> last v = CHR '']''
      then strip_brackets (py_strip (butlast (tl v))) else v)"
  by pat_completeness auto
termination
proof (relation "measure length")
  fix v :: string
  assume "2 \<le> length v \<and> hd v = CHR ''['' \<and> last v = CHR '']''"
  then show "(py_strip (butlast (tl v)), v) \<in> measure length"
    using length_strip_by [of py_isspace "butlast (tl v)"] by auto
qed simp

declare strip_brackets.simps [simp del]

definition supersedes_key :: "string \<Rightarrow> string" where
  "supersedes_key value =
     (let v = strip_brackets (py_strip value);
          w = (if ends_with (py_lower v) ''.md'' then take (length v - 3) v else v)
      in py_strip (last_segment w))"

text \<open>The loop of \<open>_supersedes_value\<close>: the first spelling of every distinct document.\<close>

fun unique_targets :: "string list \<Rightarrow> string list \<Rightarrow> string list" where
  "unique_targets seen [] = []"
| "unique_targets seen (t # ts) =
     (if t \<noteq> [] \<and> supersedes_key t \<notin> set seen
      then t # unique_targets (supersedes_key t # seen) ts
      else unique_targets seen ts)"

definition supersedes_value :: "string list \<Rightarrow> pyval" where
  "supersedes_value targets = (case unique_targets [] targets of
     [] \<Rightarrow> PStr []
   | [t] \<Rightarrow> PStr t
   | ts \<Rightarrow> PList (map PStr ts))"

section \<open>Validity windows\<close>

definition digit :: "char \<Rightarrow> nat option" where
  "digit c = (let n = code c in if 48 \<le> n \<and> n \<le> 57 then Some (nat (n - 48)) else None)"

fun year_field :: "string \<Rightarrow> nat option" where
  "year_field [a, b, c, d] = (case (digit a, digit b, digit c, digit d) of
     (Some w, Some x, Some y, Some z) \<Rightarrow> Some (1000 * w + 100 * x + 10 * y + z)
   | _ \<Rightarrow> None)"
| "year_field _ = None"

text \<open>\<open>%m\<close> is \<open>1[0-2]|0[1-9]|[1-9]\<close>; \<open>%d\<close> is \<open>3[0-1]|[1-2][0-9]|0[1-9]|[1-9]| [1-9]\<close>.\<close>

fun month_field :: "string \<Rightarrow> nat option" where
  "month_field [a] = (case digit a of Some n \<Rightarrow> if 1 \<le> n then Some n else None | None \<Rightarrow> None)"
| "month_field [a, b] = (case (digit a, digit b) of
     (Some x, Some y) \<Rightarrow> if 1 \<le> 10 * x + y \<and> 10 * x + y \<le> 12 then Some (10 * x + y) else None
   | _ \<Rightarrow> None)"
| "month_field _ = None"

fun day_field :: "string \<Rightarrow> nat option" where
  "day_field [a] = (case digit a of Some n \<Rightarrow> if 1 \<le> n then Some n else None | None \<Rightarrow> None)"
| "day_field [a, b] = (case (if a = CHR '' '' then Some 0 else digit a, digit b) of
     (Some x, Some y) \<Rightarrow> if 1 \<le> 10 * x + y \<and> 10 * x + y \<le> 31 then Some (10 * x + y) else None
   | _ \<Rightarrow> None)"
| "day_field _ = None"

definition leap_year :: "nat \<Rightarrow> bool" where
  "leap_year y \<longleftrightarrow> 4 dvd y \<and> (\<not> 100 dvd y \<or> 400 dvd y)"

definition days_in_month :: "nat \<Rightarrow> nat \<Rightarrow> nat" where
  "days_in_month y m =
     (if m = 2 then (if leap_year y then 29 else 28)
      else if m \<in> {4, 6, 9, 11} then 30 else 31)"

text \<open>\<open>datetime.date.toordinal\<close>: day 1 is the first of January of year 1.\<close>

definition days_before_year :: "nat \<Rightarrow> nat" where
  "days_before_year y = (let p = y - 1 in p * 365 + p div 4 + p div 400 - p div 100)"

definition days_before_month :: "nat \<Rightarrow> nat \<Rightarrow> nat" where
  "days_before_month y m = sum_list (map (days_in_month y) [1..<m])"

definition toordinal :: "nat \<times> nat \<times> nat \<Rightarrow> nat" where
  "toordinal ymd = (case ymd of (y, m, d) \<Rightarrow> days_before_year y + days_before_month y m + d)"

definition valid_ymd :: "nat \<times> nat \<times> nat \<Rightarrow> bool" where
  "valid_ymd ymd = (case ymd of (y, m, d) \<Rightarrow>
     1 \<le> y \<and> 1 \<le> m \<and> m \<le> 12 \<and> 1 \<le> d \<and> d \<le> days_in_month y m)"

text \<open>\<open>datetime.strptime(value, "%Y-%m-%d")\<close>, as a date of the calendar.\<close>

definition strptime_date :: "string \<Rightarrow> (nat \<times> nat \<times> nat) option" where
  "strptime_date s = (case split_on (CHR ''-'') s of
     [ys, ms, ds] \<Rightarrow>
       (case (year_field ys, month_field ms, day_field ds) of
          (Some y, Some m, Some d) \<Rightarrow> if valid_ymd (y, m, d) then Some (y, m, d) else None
        | _ \<Rightarrow> None)
   | _ \<Rightarrow> None)"

definition day_length :: int where
  "day_length = 86400 * 1000000"

definition epoch_ordinal :: nat where
  "epoch_ordinal = 719163"

definition day_start :: "nat \<times> nat \<times> nat \<Rightarrow> instant" where
  "day_start ymd = (int (toordinal ymd) - int epoch_ordinal) * day_length"

text \<open>
  \<open>_parse_date(str(v), key)\<close>. The text of a value that is not a string (a number, a Boolean, a
  list, a datetime) is never of the form YYYY-MM-DD, so it is refused with the same error.
\<close>

definition parse_date :: "pyval \<Rightarrow> string \<Rightarrow> (nat \<times> nat \<times> nat) result" where
  "parse_date v key = (case as_str v of
     None \<Rightarrow> Inl (ValueError (''bad '' @ key @ '' date''))
   | Some s \<Rightarrow> (case strptime_date s of
       None \<Rightarrow> Inl (ValueError (''bad '' @ key @ '' date''))
     | Some ymd \<Rightarrow> Inr ymd))"

type_synonym window = "instant option \<times> instant option"

definition date_bound :: "metadata \<Rightarrow> string \<Rightarrow> (nat \<times> nat \<times> nat) option result" where
  "date_bound meta key =
     (let v = py_get meta key in
      if truthy v then (case parse_date v key of Inl e \<Rightarrow> Inl e | Inr ymd \<Rightarrow> Inr (Some ymd))
      else Inr None)"

text \<open>\<open>valid_from\<close> starts its day; \<open>valid_until\<close> runs to the last microsecond of its day.\<close>

definition validity_bounds :: "metadata \<Rightarrow> window result" where
  "validity_bounds meta = (case date_bound meta ''valid_from'' of
     Inl e \<Rightarrow> Inl e
   | Inr f \<Rightarrow> (case date_bound meta ''valid_until'' of
       Inl e \<Rightarrow> Inl e
     | Inr u \<Rightarrow>
         (let start = map_option day_start f;
              stop = map_option (\<lambda>ymd. day_start ymd + day_length - 1) u
          in case (start, stop) of
               (Some s, Some e) \<Rightarrow>
                 if s > e then Inl (ValueError ''empty validity window'') else Inr (start, stop)
             | _ \<Rightarrow> Inr (start, stop))))"

section \<open>The calendar order\<close>

lemma leap_day_count:
  fixes p q4 q100 q400 :: nat
  assumes "C \<Longrightarrow> B" "B \<Longrightarrow> A" "q100 \<le> p * 365"
  shows "Suc p * 365 + (q4 + (if A then 1 else 0)) + (q400 + (if C then 1 else 0))
           - (q100 + (if B then 1 else 0)) =
         (p * 365 + q4 + q400 - q100) + (if A \<and> (\<not> B \<or> C) then 366 else 365)"
proof -
  have s: "Suc p * 365 = p * 365 + 365" by simp
  show ?thesis
    using assms(3) assms(1,2) unfolding s by (cases A; cases B; cases C) simp_all
qed

lemma days_before_year_Suc:
  assumes "1 \<le> y"
  shows "days_before_year (Suc y) = days_before_year y + (if leap_year y then 366 else 365)"
proof -
  obtain p where y: "y = Suc p" using assms by (cases y) auto
  have le: "p div 100 \<le> p * 365" using div_le_dividend [of p 100] by linarith
  have div_step: "Suc p div k = p div k + (if k dvd Suc p then 1 else 0)" for k
    by (simp add: div_Suc dvd_eq_mod_eq_0)
  have "(100::nat) dvd 400" "(4::nat) dvd 100" by simp_all
  then have "400 dvd Suc p \<Longrightarrow> 100 dvd Suc p" "100 dvd Suc p \<Longrightarrow> 4 dvd Suc p"
    by (metis dvd_trans)+
  note dvds = this
  have "days_before_year (Suc y) =
      Suc p * 365 + Suc p div 4 + Suc p div 400 - Suc p div 100"
    by (simp add: days_before_year_def y)
  moreover have "days_before_year y = p * 365 + p div 4 + p div 400 - p div 100"
    by (simp add: days_before_year_def y)
  ultimately show ?thesis
    unfolding leap_year_def y div_step
    by (simp only:) (rule leap_day_count [OF dvds le])
qed

lemma days_before_month_Suc:
  "1 \<le> m \<Longrightarrow> days_before_month y (Suc m) = days_before_month y m + days_in_month y m"
  by (simp add: days_before_month_def)

lemma days_before_month_mono: "m \<le> m' \<Longrightarrow> days_before_month y m \<le> days_before_month y m'"
proof (induction rule: dec_induct)
  case (step n)
  then show ?case by (cases "1 \<le> n") (simp_all add: days_before_month_def)
qed simp

lemma days_before_month_13: "days_before_month y 13 = (if leap_year y then 366 else 365)"
proof -
  have "[1..<13] = [1, 2, 3, 4, 5, 6, 7, 8, 9, 10, 11, 12::nat]" by (simp add: upt_rec)
  then show ?thesis by (simp add: days_before_month_def days_in_month_def)
qed

lemma days_before_year_mono: "y \<le> y' \<Longrightarrow> 1 \<le> y \<Longrightarrow> days_before_year y \<le> days_before_year y'"
proof (induction rule: dec_induct)
  case (step n)
  then show ?case using days_before_year_Suc [of n] by (simp split: if_splits)
qed simp

lemma day_of_year_bound:
  assumes "valid_ymd (y, m, d)"
  shows "1 \<le> days_before_month y m + d"
    and "days_before_month y m + d \<le> days_before_year (Suc y) - days_before_year y"
proof -
  have m: "1 \<le> m" "m \<le> 12" "1 \<le> d" "d \<le> days_in_month y m" "1 \<le> y"
    using assms by (auto simp: valid_ymd_def)
  show "1 \<le> days_before_month y m + d" using m by simp
  have "days_before_month y m + d \<le> days_before_month y (Suc m)"
    using m days_before_month_Suc [of m y] by simp
  also have "\<dots> \<le> days_before_month y 13" using m by (intro days_before_month_mono) simp
  finally show "days_before_month y m + d \<le> days_before_year (Suc y) - days_before_year y"
    using days_before_year_Suc [of y] m by (simp add: days_before_month_13)
qed

lemma toordinal_less:
  assumes "valid_ymd a" "valid_ymd b" "a < b"
  shows "toordinal a < toordinal b"
proof -
  obtain y m d where a: "a = (y, m, d)" by (cases a) auto
  obtain y' m' d' where b: "b = (y', m', d')" by (cases b) auto
  consider "y < y'" | "y = y'" "m < m'" | "y = y'" "m = m'" "d < d'"
    using assms(3) unfolding a b less_prod_simp by linarith
  then show ?thesis
  proof cases
    case 1
    have "toordinal a \<le> days_before_year (Suc y)"
      using day_of_year_bound(2) [of y m d] assms(1) days_before_year_mono [of y "Suc y"]
      by (auto simp: a toordinal_def valid_ymd_def)
    also have "\<dots> \<le> days_before_year y'"
      using 1 by (intro days_before_year_mono) auto
    also have "\<dots> < toordinal b"
      using day_of_year_bound(1) [of y' m' d'] assms(2) by (simp add: b toordinal_def) arith
    finally show ?thesis .
  next
    case 2
    have "days_before_month y m + d \<le> days_before_month y (Suc m)"
      using assms(1) days_before_month_Suc [of m y] by (simp add: a valid_ymd_def)
    also have "\<dots> \<le> days_before_month y m'" using 2 by (intro days_before_month_mono) simp
    finally show ?thesis using 2 assms(2) by (simp add: a b toordinal_def valid_ymd_def)
  next
    case 3
    then show ?thesis by (simp add: a b toordinal_def)
  qed
qed

lemma toordinal_le_iff:
  assumes "valid_ymd a" "valid_ymd b"
  shows "toordinal a \<le> toordinal b \<longleftrightarrow> a \<le> b"
  using toordinal_less [OF assms] toordinal_less [OF assms(2,1)] by force

lemma strptime_date_valid: "strptime_date s = Some ymd \<Longrightarrow> valid_ymd ymd"
  by (auto simp: strptime_date_def split: list.splits option.splits if_splits)

lemma day_window_le: "day_start a \<le> day_start b + day_length - 1 \<longleftrightarrow> toordinal a \<le> toordinal b"
proof -
  have "day_start a \<le> day_start b + day_length - 1
        \<longleftrightarrow> int (toordinal a) * day_length < (int (toordinal b) + 1) * day_length"
    by (auto simp: day_start_def algebra_simps)
  then show ?thesis unfolding day_length_def by (simp only: mult_less_cancel_right) linarith
qed

section \<open>Properties of the readers\<close>

lemma date_bound_Inr:
  "date_bound meta key = Inr (Some ymd) \<longleftrightarrow>
     (\<exists>s. py_get meta key = PStr s \<and> strptime_date s = Some ymd)"
proof (cases "py_get meta key")
  case (PStr s)
  have "strptime_date [] = None" by (simp add: strptime_date_def)
  with PStr show ?thesis
    by (auto simp: date_bound_def parse_date_def Let_def split: option.splits)
qed (auto simp: date_bound_def parse_date_def Let_def split: if_splits)

lemma date_bound_valid: "date_bound meta key = Inr (Some ymd) \<Longrightarrow> valid_ymd ymd"
  by (auto simp: date_bound_Inr dest: strptime_date_valid)

lemma validity_bounds_ordered:
  "validity_bounds meta = Inr (Some s, Some e) \<Longrightarrow> s \<le> e"
  by (auto simp: validity_bounds_def Let_def split: sum.splits option.splits if_splits)

text \<open>
  A memo's declared window is refused as empty exactly when its \<open>valid_until\<close> date lies before
  its \<open>valid_from\<close> date in the calendar; otherwise the bounds are the first instant of the first
  day and the last microsecond of the last day, so a one-day window holds all day.
\<close>

theorem validity_bounds_spec:
  assumes "py_get meta ''valid_from'' = PStr f" and "strptime_date f = Some a"
    and "py_get meta ''valid_until'' = PStr u" and "strptime_date u = Some b"
  shows "validity_bounds meta =
     (if b < a then Inl (ValueError ''empty validity window'')
      else Inr (Some (day_start a), Some (day_start b + day_length - 1)))"
proof -
  have v: "valid_ymd a" "valid_ymd b" using assms strptime_date_valid by auto
  have "date_bound meta ''valid_from'' = Inr (Some a)" "date_bound meta ''valid_until'' = Inr (Some b)"
    using assms by (auto simp: date_bound_Inr)
  moreover have "day_start b + day_length - 1 < day_start a \<longleftrightarrow> b < a"
    using day_window_le [of a b] toordinal_le_iff [OF v] by auto
  ultimately show ?thesis by (simp add: validity_bounds_def Let_def)
qed

theorem validity_bounds_spec_witness:
  "validity_bounds [(''valid_from'', PStr ''2024-02-29''), (''valid_until'', PStr ''2024-2-29'')] =
     Inr (Some (day_start (2024, 2, 29)), Some (day_start (2024, 2, 29) + day_length - 1))"
proof -
  have p: "strptime_date ''2024-02-29'' = Some (2024, 2, 29)"
    "strptime_date ''2024-2-29'' = Some (2024, 2, 29)"
    by (simp_all add: strptime_date_def digit_def valid_ymd_def days_in_month_def leap_year_def)
  show ?thesis
    using validity_bounds_spec [of "[(''valid_from'', PStr ''2024-02-29''), (''valid_until'', PStr ''2024-2-29'')]"
        "''2024-02-29''" "(2024, 2, 29)" "''2024-2-29''" "(2024, 2, 29)"]
    by (simp add: py_get_def dict_get_def p)
qed

end
