(* ===== verification/SourceIdentity.thy ===== *)
theory SourceIdentity
  imports PyString
begin

text \<open>
  One identity for an indexed document (\<open>src/recall/source_identity.py\<close>) and the location decoder
  and upload staging test it rests on (\<open>src/recall/uploads.py\<close>).

  What a \<open>file://\<close> URI names on the local file system (\<open>recall.manifest.local_path_for\<close>, which
  resolves symbolic links and so asks the operating system) is an argument \<open>local_path_for\<close> of the
  definitions: \<open>Some\<close> of the resolved path in posix form, \<open>None\<close> where it raises
  \<open>ObjectNotAllowed\<close>. NFC normalisation is the identity on the alphabet of the model.
\<close>

type_synonym file_uris = "string \<Rightarrow> string option"

fun map_result :: "('a \<Rightarrow> 'b result) \<Rightarrow> 'a list \<Rightarrow> 'b list result" where
  "map_result f [] = Inr []"
| "map_result f (x # xs) = (case f x of
     Inl e \<Rightarrow> Inl e
   | Inr y \<Rightarrow> (case map_result f xs of Inl e \<Rightarrow> Inl e | Inr ys \<Rightarrow> Inr (y # ys)))"

definition fold_path :: "string \<Rightarrow> string" where
  "fold_path p = (if p \<noteq> [] then normpath p else p)"

definition source_location :: "file_uris \<Rightarrow> string \<Rightarrow> string result" where
  "source_location local_path_for source =
     (if \<not> has_substring source ''://'' then Inr (fold_path (path_as_posix source))
      else (case urlsplit source of
        Inl e \<Rightarrow> Inl e
      | Inr (scheme, netloc, path) \<Rightarrow>
          (if scheme = ''file''
           then (case local_path_for source of
                   None \<Rightarrow> Inr source
                 | Some p \<Rightarrow> Inr (fold_path p))
           else Inr (scheme @ ''://'' @ netloc @ unquote path))))"

fun runs_through_uploads :: "string list \<Rightarrow> string \<Rightarrow> bool" where
  "runs_through_uploads (a # b # parts) tenant =
     ((casefold a = ''uploads'' \<and> casefold b = casefold tenant)
      \<or> runs_through_uploads (b # parts) tenant)"
| "runs_through_uploads _ tenant = False"

definition in_upload_staging :: "file_uris \<Rightarrow> string \<Rightarrow> string \<Rightarrow> bool result" where
  "in_upload_staging local_path_for source tenant = (case source_location local_path_for source of
     Inl e \<Rightarrow> Inl e
   | Inr loc \<Rightarrow> Inr (runs_through_uploads (path_parts loc) tenant))"

definition root_of :: "string option \<Rightarrow> string \<Rightarrow> string option" where
  "root_of source file = (case source of
     None \<Rightarrow> None
   | Some s \<Rightarrow>
       (if s = [] then None
        else let posix_source = posix s; posix_file = posix file in
          if posix_source = posix_file then Some []
          else if ends_with posix_source (''/'' @ posix_file)
          then Some (take (length posix_source - length posix_file) posix_source)
          else Some posix_source))"

record source_id =
  id_root :: "string option"
  id_file :: string

text \<open>The decoded file: only a URI whose raw path ends in it is percent-decoded.\<close>

definition decoded_file :: "string \<Rightarrow> string \<Rightarrow> string result" where
  "decoded_file source file =
     (if has_substring source ''://''
      then (case urlsplit source of
              Inl e \<Rightarrow> Inl e
            | Inr (scheme, netloc, path) \<Rightarrow>
                (if path = posix file \<or> ends_with path (''/'' @ posix file)
                 then Inr (unquote file) else Inr file))
      else Inr file)"

definition source_identity :: "file_uris \<Rightarrow> string option \<Rightarrow> string \<Rightarrow> source_id result" where
  "source_identity local_path_for source file = (case source of
     None \<Rightarrow> Inr \<lparr>id_root = None, id_file = posix file\<rparr>
   | Some s \<Rightarrow>
       (if s = [] then Inr \<lparr>id_root = None, id_file = posix file\<rparr>
        else (case decoded_file s file of
          Inl e \<Rightarrow> Inl e
        | Inr f \<Rightarrow> (case source_location local_path_for s of
            Inl e \<Rightarrow> Inl e
          | Inr loc \<Rightarrow> Inr \<lparr>id_root = root_of (Some loc) f, id_file = posix f\<rparr>))))"

section \<open>Properties\<close>

lemma root_of_cases:
  assumes "root_of (Some s) file = Some r"
  shows "r @ posix file = posix s \<or> r = posix s"
proof (cases "ends_with (posix s) (''/'' @ posix file)")
  case True
  then obtain t where "posix s = (t @ ''/'') @ posix file" by (auto simp: ends_with_iff)
  with assms True show ?thesis by (auto simp: root_of_def Let_def split: if_splits)
next
  case False
  with assms show ?thesis by (auto simp: root_of_def Let_def split: if_splits)
qed

lemma plain_source_identity:
  assumes "s \<noteq> []" "\<not> has_substring s ''://''"
  shows "source_identity u (Some s) file =
    Inr \<lparr>id_root = root_of (Some (fold_path (path_as_posix s))) file, id_file = posix file\<rparr>"
  using assms by (simp add: source_identity_def decoded_file_def source_location_def)

lemma map_result_length: "map_result f xs = Inr ys \<Longrightarrow> length ys = length xs"
  by (induction xs arbitrary: ys) (auto split: sum.splits)

lemma map_result_nth: "map_result f xs = Inr ys \<Longrightarrow> i < length xs \<Longrightarrow> f (xs ! i) = Inr (ys ! i)"
  by (induction xs arbitrary: ys i) (auto split: sum.splits simp: nth_Cons')

text \<open>
  The root of an indexed document is its absolute source without the root-relative file: for a
  plain path that is already normalised and reads root, slash, file, the identity is exactly that
  root (with its slash) and that file, so two roots holding one relative path are told apart and
  two rows of one document are not.
\<close>

theorem source_identity_recovers_root:
  assumes "s = r @ ''/'' @ file" and "\<not> has_substring s ''://''"
    and "fold_path (path_as_posix s) = s" and "CHR 92 \<notin> set s"
  shows "source_identity u (Some s) file = Inr \<lparr>id_root = Some (r @ ''/''), id_file = file\<rparr>"
proof -
  have id: "posix t = t" if "CHR 92 \<notin> set t" for t
    using that by (induction t) (auto simp: replace_char_def)
  have p: "posix s = s" "posix file = file" using assms(1,4) by (auto intro!: id)
  have ne: "s \<noteq> []" "s \<noteq> file" using assms(1) by auto
  have "root_of (Some s) file = Some (r @ ''/'')"
    using ne by (simp add: root_of_def p) (simp add: assms(1) ends_with_iff)
  then show ?thesis using plain_source_identity [OF ne(1) assms(2)] assms(3) p by simp
qed

theorem source_identity_recovers_root_witness:
  "source_identity (\<lambda>_. None) (Some ''/corpus/team/notes.md'') ''team/notes.md''
     = Inr \<lparr>id_root = Some ''/corpus/'', id_file = ''team/notes.md''\<rparr>"
proof -
  have h: "\<not> has_substring ''/corpus/team/notes.md'' ''://''"
    "fold_path (path_as_posix ''/corpus/team/notes.md'') = ''/corpus/team/notes.md''"
    by (simp_all add: fold_path_def path_as_posix_def normpath_def leading_slashes_def path_tail_def
        starts_with_def)
  show ?thesis
    using source_identity_recovers_root [of "''/corpus/team/notes.md''" "''/corpus''" "''team/notes.md''"
        "\<lambda>_. None"] h by simp
qed

end
