(* ===== verification/Supersession.thy ===== *)
theory Supersession
  imports Frontmatter SourceIdentity
begin

text \<open>
  Reading a resolved supersession graph (the reader half of \<open>src/recall/supersession.py\<close>): the
  graph itself, the claims that are live at an instant, and the walk that finds the document which
  hides a memory. The resolver that builds the graph is in theory SupersessionResolver.

  Every date that comes from a store row is time zone aware and is an \<^typ>\<open>instant\<close>; the dates of
  a candidate map and the instants a caller passes are \<^typ>\<open>datetime\<close>s, read as UTC when naive.
\<close>

section \<open>Data\<close>

type_synonym key = string
type_synonym edges = "(key, key) dict"
type_synonym edge_candidates = "(key, (key \<times> datetime option) list) dict"
type_synonym windows = "(key, window) dict"

text \<open>The matching half of the resolver, kept in the graph for later lookups.\<close>

record reference_index =
  ri_collided :: "string set"
  ri_nodes :: "(key, string \<times> string option \<times> string option) dict"
  ri_ghosts :: "key set"
  ri_staged :: "key set"
  ri_by_path :: "(string, key list) dict"
  ri_by_stem :: "(string, key list) dict"

record supersession_graph =
  sg_edges :: edges
  sg_unresolved :: "key set"
  sg_candidates :: edge_candidates
  sg_windows :: windows
  sg_collided :: "string set"
  sg_ambiguous_claims :: "(key, string list) dict"
  sg_references :: "reference_index option"

definition graph_from_parts ::
  "edges \<Rightarrow> key set \<Rightarrow> edge_candidates option \<Rightarrow> windows option \<Rightarrow> supersession_graph" where
  "graph_from_parts e u c w =
     \<lparr>sg_edges = e, sg_unresolved = u,
      sg_candidates = (case c of None \<Rightarrow> [] | Some d \<Rightarrow> d),
      sg_windows = (case w of None \<Rightarrow> [] | Some d \<Rightarrow> d),
      sg_collided = {}, sg_ambiguous_claims = [], sg_references = None\<rparr>"

definition graph_key :: "supersession_graph \<Rightarrow> string \<Rightarrow> string option \<Rightarrow> key" where
  "graph_key g file source = (case source of
     Some s \<Rightarrow> if file \<in> sg_collided g \<and> s \<noteq> [] then s else file
   | None \<Rightarrow> file)"

definition graph_parts :: "supersession_graph \<Rightarrow> edges \<times> key set \<times> edge_candidates" where
  "graph_parts g = (sg_edges g, sg_unresolved g, sg_candidates g)"

text \<open>What a caller hands to the trust gate: a resolved graph or a plain edge map.\<close>

datatype supersession_arg = GraphArg supersession_graph | EdgeMap edges

definition as_supersession_graph ::
  "supersession_arg \<Rightarrow> key set \<Rightarrow> edge_candidates option \<Rightarrow> supersession_graph" where
  "as_supersession_graph v unresolved candidates = (case v of
     GraphArg g \<Rightarrow>
       (if unresolved = {} \<and> candidates = None then g
        else g\<lparr>sg_unresolved := sg_unresolved g \<union> unresolved,
               sg_candidates := (case candidates of None \<Rightarrow> sg_candidates g | Some c \<Rightarrow> c)\<rparr>)
   | EdgeMap e \<Rightarrow> graph_from_parts e unresolved candidates None)"

text \<open>Which root-relative file a graph key names, for a source policy to decide on.\<close>

definition place_graph_key :: "key \<Rightarrow> (string, string) dict \<Rightarrow> string set \<Rightarrow> string option" where
  "place_graph_key k file_of_source collided =
     (let mapped = map_of file_of_source k;
          elsewhere = (if \<exists>name\<in>collided. ends_with (posix k) (''/'' @ posix name) then None else Some k)
      in case mapped of
           Some f \<Rightarrow> if f \<in> collided then Some f else elsewhere
         | None \<Rightarrow> elsewhere)"

definition chunk_supersedes_targets :: "metadata \<Rightarrow> string list" where
  "chunk_supersedes_targets meta =
     (if py_get meta ''record_type'' = PStr ''compiled'' then []
      else supersedes_targets (py_get meta ''supersedes''))"

section \<open>Windows\<close>

definition parse_window :: "pyval \<Rightarrow> pyval \<Rightarrow> window option" where
  "parse_window valid_from valid_until =
     (case validity_bounds [(''valid_from'', valid_from), (''valid_until'', valid_until)] of
        Inl _ \<Rightarrow> None
      | Inr (start, stop) \<Rightarrow>
          (case (start, stop) of
             (Some s, Some e) \<Rightarrow> if s > e then None else Some (start, stop)
           | _ \<Rightarrow> Some (start, stop)))"

definition window_contains :: "window option \<Rightarrow> datetime \<Rightarrow> bool" where
  "window_contains w moment = (case w of
     None \<Rightarrow> True
   | Some (start, stop) \<Rightarrow>
       (case start of None \<Rightarrow> True | Some s \<Rightarrow> s \<le> as_utc moment) \<and>
       (case stop of None \<Rightarrow> True | Some e \<Rightarrow> as_utc moment \<le> e))"

section \<open>The claims live at an instant\<close>

definition asserted_by :: "datetime option \<Rightarrow> datetime option \<Rightarrow> bool" where
  "asserted_by known_as_of when_asserted = (case (known_as_of, when_asserted) of
     (Some k, Some w) \<Rightarrow> as_utc w \<le> as_utc k
   | _ \<Rightarrow> True)"

text \<open>The claim asserted last; an undated one loses to any dated one, ties go to the later row.\<close>

fun latest_claim ::
  "key option \<Rightarrow> instant option \<Rightarrow> (key \<times> instant option) list \<Rightarrow> key option" where
  "latest_claim primary best_when [] = primary"
| "latest_claim primary best_when ((f, w) # live) =
     (if primary = None \<or> best_when = None \<or>
         (case (w, best_when) of (Some t, Some b) \<Rightarrow> t \<ge> b | _ \<Rightarrow> False)
      then latest_claim (Some f) w live
      else latest_claim primary best_when live)"

definition primary_claim ::
  "key \<Rightarrow> edges \<Rightarrow> edge_candidates option \<Rightarrow> datetime option \<Rightarrow> key option" where
  "primary_claim cur supersession edge_candidates known_as_of =
     (let p = (case (known_as_of, edge_candidates) of
          (Some k, Some cands) \<Rightarrow>
            (case map_of cands cur of
               None \<Rightarrow> map_of supersession cur
             | Some claims \<Rightarrow>
                 latest_claim None None
                   (map (\<lambda>(f, w). (f, map_option as_utc w))
                     (filter (\<lambda>(f, w). f \<noteq> cur \<and> asserted_by known_as_of w) claims)))
        | _ \<Rightarrow> map_of supersession cur)
      in if p = Some cur then None else p)"

fun other_claimants ::
  "key \<Rightarrow> datetime option \<Rightarrow> key list \<Rightarrow> (key \<times> datetime option) list \<Rightarrow> key list" where
  "other_claimants cur known_as_of listed [] = []"
| "other_claimants cur known_as_of listed ((f, w) # claims) =
     (if f = cur \<or> f \<in> set listed \<or> \<not> asserted_by known_as_of w
      then other_claimants cur known_as_of listed claims
      else f # other_claimants cur known_as_of (f # listed) claims)"

definition live_claims ::
  "key \<Rightarrow> edges \<Rightarrow> edge_candidates option \<Rightarrow> datetime option \<Rightarrow> key option \<times> key list" where
  "live_claims cur supersession edge_candidates known_as_of =
     (let primary = primary_claim cur supersession edge_candidates known_as_of;
          first = (case primary of None \<Rightarrow> [] | Some p \<Rightarrow> [p]);
          others = (case edge_candidates of
              None \<Rightarrow> []
            | Some cands \<Rightarrow> other_claimants cur known_as_of first (dict_get cands cur []))
      in (primary, first @ others))"

abbreviation next_claim :: "edges \<Rightarrow> edge_candidates option \<Rightarrow> datetime option \<Rightarrow> key \<Rightarrow> key option" where
  "next_claim e c k cur \<equiv> fst (live_claims cur e c k)"

abbreviation every_claim :: "edges \<Rightarrow> edge_candidates option \<Rightarrow> datetime option \<Rightarrow> key \<Rightarrow> key list" where
  "every_claim e c k cur \<equiv> snd (live_claims cur e c k)"

text \<open>Every name that can claim anything: a finite set, which is why the walks below stop.\<close>

definition claimants :: "edges \<Rightarrow> edge_candidates option \<Rightarrow> key set" where
  "claimants e c = snd ` set e \<union>
     (case c of None \<Rightarrow> {} | Some cands \<Rightarrow> (\<Union>(t, claims) \<in> set cands. fst ` set claims))"

lemma finite_claimants [simp]: "finite (claimants e c)"
  by (auto simp: claimants_def split: option.splits)

lemma latest_claim_in:
  "latest_claim p b live = Some f \<Longrightarrow> p = Some f \<or> f \<in> fst ` set live"
  by (induction p b live rule: latest_claim.induct) (auto split: if_splits)

lemma primary_claim_not_self: "primary_claim cur e c k \<noteq> Some cur"
  by (simp add: primary_claim_def Let_def)

lemma primary_claim_cases:
  assumes "primary_claim cur e c k = Some f"
  shows "map_of e cur = Some f \<or>
    (\<exists>cands claims w. c = Some cands \<and> map_of cands cur = Some claims \<and> (f, w) \<in> set claims
       \<and> asserted_by k w)"
  using assms
  by (auto simp: primary_claim_def Let_def split: option.splits if_splits
      dest!: latest_claim_in)

lemma other_claimants_props:
  "f \<in> set (other_claimants cur k listed claims) \<Longrightarrow>
     f \<noteq> cur \<and> f \<notin> set listed \<and> (\<exists>w. (f, w) \<in> set claims \<and> asserted_by k w)"
  by (induction cur k listed claims rule: other_claimants.induct) (auto split: if_splits)

lemma other_claimants_distinct: "distinct (other_claimants cur k listed claims)"
  by (induction cur k listed claims rule: other_claimants.induct)
    (auto split: if_splits dest: other_claimants_props)

lemma other_claimants_complete:
  "(f, w) \<in> set claims \<Longrightarrow> asserted_by k w \<Longrightarrow> f \<noteq> cur \<Longrightarrow>
     f \<in> set listed \<or> f \<in> set (other_claimants cur k listed claims)"
  by (induction cur k listed claims rule: other_claimants.induct) auto

lemma next_claim_primary: "next_claim e c k cur = primary_claim cur e c k"
  by (simp add: live_claims_def Let_def)

lemma next_claim_every: "next_claim e c k cur = Some f \<Longrightarrow> f \<in> set (every_claim e c k cur)"
  by (auto simp: live_claims_def Let_def split: option.splits)

lemma every_claim_cases:
  assumes "f \<in> set (every_claim e c k cur)"
  shows "f \<noteq> cur"
    and "map_of e cur = Some f \<or>
      (\<exists>cands claims w. c = Some cands \<and> map_of cands cur = Some claims \<and> (f, w) \<in> set claims
         \<and> asserted_by k w)"
proof -
  consider "primary_claim cur e c k = Some f"
    | cands l where "c = Some cands" "f \<in> set (other_claimants cur k l (dict_get cands cur []))"
    using assms by (fastforce simp: live_claims_def Let_def split: option.splits)
  then have "f \<noteq> cur \<and> (map_of e cur = Some f \<or>
      (\<exists>cands claims w. c = Some cands \<and> map_of cands cur = Some claims \<and> (f, w) \<in> set claims
         \<and> asserted_by k w))"
  proof cases
    case 1
    then show ?thesis using primary_claim_cases [OF 1] primary_claim_not_self by metis
  next
    case 2
    then obtain w where "f \<noteq> cur" "(f, w) \<in> set (dict_get cands cur [])" "asserted_by k w"
      using other_claimants_props by metis
    then show ?thesis using 2(1) by (cases "map_of cands cur") (auto simp: dict_get_def)
  qed
  then show "f \<noteq> cur" and "map_of e cur = Some f \<or>
      (\<exists>cands claims w. c = Some cands \<and> map_of cands cur = Some claims \<and> (f, w) \<in> set claims
         \<and> asserted_by k w)" by auto
qed

text \<open>
  The claims as the graph states them. A claim of the candidate map counts once it is asserted; the edge map
  counts where the instant is open or the candidate map does not speak of the document.
\<close>

definition stated_claim :: "edges \<Rightarrow> edge_candidates option \<Rightarrow> datetime option \<Rightarrow> key \<Rightarrow> key \<Rightarrow> bool" where
  "stated_claim e c k f m \<longleftrightarrow> m \<noteq> f \<and> (case c of
     None \<Rightarrow> map_of e f = Some m
   | Some cands \<Rightarrow> (\<exists>w. (m, w) \<in> set (dict_get cands f []) \<and> asserted_by k w)
       \<or> map_of e f = Some m \<and> (k = None \<or> map_of cands f = None))"

lemma primary_claim_stated:
  assumes "primary_claim f e c k = Some m"
  shows "stated_claim e c k f m"
  using assms
  by (auto simp: primary_claim_def stated_claim_def Let_def dict_get_def split: option.splits if_splits dest!: latest_claim_in)

lemma stated_claim_listed:
  assumes "stated_claim e c k f m"
  shows "primary_claim f e c k = Some m \<or> (\<exists>cands w. c = Some cands \<and> (m, w) \<in> set (dict_get cands f []) \<and> asserted_by k w)"
  using assms
  by (auto simp: primary_claim_def stated_claim_def Let_def split: option.splits)

lemma every_claim_iff: "m \<in> set (every_claim e c k f) \<longleftrightarrow> stated_claim e c k f m"
proof
  assume "m \<in> set (every_claim e c k f)"
  then consider "primary_claim f e c k = Some m"
    | cands l where "c = Some cands" "m \<in> set (other_claimants f k l (dict_get cands f []))"
    by (fastforce simp: live_claims_def Let_def split: option.splits)
  then show "stated_claim e c k f m"
  proof cases
    case 2
    then show ?thesis using other_claimants_props [OF 2(2)] by (auto simp: stated_claim_def)
  qed (rule primary_claim_stated)
next
  assume stated: "stated_claim e c k f m"
  then have "m \<noteq> f" by (simp add: stated_claim_def)
  with stated_claim_listed [OF stated] show "m \<in> set (every_claim e c k f)"
    using other_claimants_complete [of m _ _ k f "case primary_claim f e c k of None \<Rightarrow> [] | Some p \<Rightarrow> [p]"]
    by (fastforce simp: live_claims_def Let_def split: option.splits)
qed

lemma every_claim_claimant: "f \<in> set (every_claim e c k cur) \<Longrightarrow> f \<in> claimants e c"
  by (drule every_claim_cases(2))
    (force simp: claimants_def dest!: map_of_SomeD)

lemma next_claim_claimant: "next_claim e c k cur = Some f \<Longrightarrow> f \<in> claimants e c"
  by (metis next_claim_every every_claim_claimant)

end
