(* ===== verification/SupersessionWalk.thy ===== *)
theory SupersessionWalk
  imports Supersession
begin

text \<open>
  The walk from a memory to the document that hides it (\<open>successor_path\<close>, \<open>resolve_successor\<close> and
  the graph methods built on them in \<open>src/recall/supersession.py\<close>): the primary chain first, then
  a breadth first search over every live claimant. Both loops stop because only finitely many
  names claim anything; the climb back along the search's parents takes fuel, one unit per parent
  entry, which is proved enough.
\<close>

section \<open>Definitions\<close>

function walk_chain ::
  "edges \<Rightarrow> edge_candidates option \<Rightarrow> datetime option \<Rightarrow> key list \<Rightarrow> key \<Rightarrow> key list \<times> bool" where
  "walk_chain e c k seen cur = (case next_claim e c k cur of
     None \<Rightarrow> ([], False)
   | Some nxt \<Rightarrow>
       (if nxt \<in> set seen then ([], True)
        else let (chain, cycle) = walk_chain e c k (nxt # seen) nxt in (nxt # chain, cycle)))"
  by pat_completeness auto
termination
proof (relation "measure (\<lambda>(e, c, k, seen, cur). card (claimants e c - set seen))")
  fix e :: edges and c :: "edge_candidates option" and k :: "datetime option"
    and seen :: "key list" and cur nxt :: key
  assume "next_claim e c k cur = Some nxt" "\<not> nxt \<in> set seen"
  then have "claimants e c - set (nxt # seen) \<subset> claimants e c - set seen"
    using next_claim_claimant [where f = nxt] by fastforce
  then show "((e, c, k, nxt # seen, nxt), e, c, k, seen, cur)
      \<in> measure (\<lambda>(e, c, k, seen, cur). card (claimants e c - set seen))"
    by (simp add: psubset_card_mono)
qed simp

declare walk_chain.simps [simp del]

record bfs_state =
  bs_visited :: "key list"
  bs_parents :: "(key, key) dict"
  bs_following :: "key list"
  bs_best :: "key option"
  bs_best_depth :: int

definition bfs_claim :: "(key \<Rightarrow> bool) \<Rightarrow> int \<Rightarrow> key \<Rightarrow> key \<Rightarrow> bfs_state \<Rightarrow> bfs_state" where
  "bfs_claim valid depth node claimant st =
     (if claimant \<in> set (bs_visited st) then st
      else let st1 = st\<lparr>bs_visited := claimant # bs_visited st,
                        bs_parents := dict_set claimant node (bs_parents st),
                        bs_following := bs_following st @ [claimant]\<rparr>
           in if depth > bs_best_depth st \<and> valid claimant
              then st1\<lparr>bs_best := Some claimant, bs_best_depth := depth\<rparr> else st1)"

definition bfs_level ::
  "(key \<Rightarrow> bool) \<Rightarrow> (key \<Rightarrow> key list) \<Rightarrow> int \<Rightarrow> key list \<Rightarrow> bfs_state \<Rightarrow> bfs_state" where
  "bfs_level valid every depth frontier st =
     fold (\<lambda>node. fold (bfs_claim valid depth node) (every node)) frontier (st\<lparr>bs_following := []\<rparr>)"

definition level_inv :: "(key \<Rightarrow> key list) \<Rightarrow> key list \<Rightarrow> bfs_state \<Rightarrow> bool" where
  "level_inv every v0 st \<longleftrightarrow>
     bs_visited st = rev (bs_following st) @ v0 \<and>
     distinct (bs_following st) \<and> set (bs_following st) \<inter> set v0 = {} \<and>
     set (bs_following st) \<subseteq> (\<Union>n. set (every n))"

lemma bfs_claim_level_inv:
  "claimant \<in> set (every node) \<Longrightarrow> level_inv every v0 st \<Longrightarrow>
     level_inv every v0 (bfs_claim valid depth node claimant st)"
  by (auto simp: level_inv_def bfs_claim_def Let_def)

lemma bfs_level_inv: "level_inv every (bs_visited st) (bfs_level valid every depth frontier st)"
proof -
  have node: "level_inv every v0 (fold (bfs_claim valid depth node) (every node) s)"
    if "level_inv every v0 s" for node s v0
    by (rule fold_invariant [where Q = "\<lambda>x. x \<in> set (every node)"])
      (use that in \<open>auto intro: bfs_claim_level_inv\<close>)
  have "level_inv every (bs_visited st) (st\<lparr>bs_following := []\<rparr>)"
    by (simp add: level_inv_def)
  then show ?thesis
    unfolding bfs_level_def
    by (rule fold_invariant [where Q = "\<lambda>_. True", rotated]) (auto intro: node)
qed

function bfs_search ::
  "edges \<Rightarrow> edge_candidates option \<Rightarrow> datetime option \<Rightarrow> (key \<Rightarrow> bool) \<Rightarrow> int \<Rightarrow> key list
     \<Rightarrow> bfs_state \<Rightarrow> bfs_state" where
  "bfs_search e c k valid depth frontier st =
     (if frontier = [] then st
      else let st' = bfs_level valid (every_claim e c k) (depth + 1) frontier st
           in bfs_search e c k valid (depth + 1) (bs_following st') st')"
  by pat_completeness auto
termination
proof (relation "measures [\<lambda>(e, c, k, valid, depth, frontier, st). card (claimants e c - set (bs_visited st)),
    \<lambda>(e, c, k, valid, depth, frontier, st). length frontier]")
  fix e :: edges and c :: "edge_candidates option" and k :: "datetime option"
    and valid :: "key \<Rightarrow> bool" and depth :: int and frontier :: "key list" and st st' :: bfs_state
  assume ne: "frontier \<noteq> []" and st': "st' = bfs_level valid (every_claim e c k) (depth + 1) frontier st"
  have inv: "level_inv (every_claim e c k) (bs_visited st) st'"
    unfolding st' by (rule bfs_level_inv)
  let ?m = "\<lambda>s. card (claimants e c - set (bs_visited s))"
  have "?m st' < ?m st \<or> (?m st' = ?m st \<and> bs_following st' = [])"
  proof (cases "bs_following st' = []")
    case True
    then show ?thesis using inv by (simp add: level_inv_def)
  next
    case False
    then obtain x where x: "x \<in> set (bs_following st')" by (cases "bs_following st'") auto
    then obtain n where "x \<in> set (every_claim e c k n)" using inv unfolding level_inv_def by blast
    then have "x \<in> claimants e c" by (rule every_claim_claimant)
    moreover have "x \<notin> set (bs_visited st)" using inv x unfolding level_inv_def by blast
    ultimately have x': "x \<in> claimants e c" "x \<notin> set (bs_visited st)" by auto
    then have "claimants e c - set (bs_visited st') \<subset> claimants e c - set (bs_visited st)"
      using inv x unfolding level_inv_def by auto
    then show ?thesis by (simp add: psubset_card_mono)
  qed
  then show "((e, c, k, valid, depth + 1, bs_following st', st'), e, c, k, valid, depth, frontier, st)
    \<in> measures [\<lambda>(e, c, k, valid, depth, frontier, st). card (claimants e c - set (bs_visited st)),
        \<lambda>(e, c, k, valid, depth, frontier, st). length frontier]"
    using ne by auto
qed simp

declare bfs_search.simps [simp del]

text \<open>The climb from the best claimant to the file; \<open>None\<close> only if the fuel runs out.\<close>

fun climb :: "nat \<Rightarrow> (key, key) dict \<Rightarrow> key \<Rightarrow> key \<Rightarrow> key list option" where
  "climb 0 parents file node = None"
| "climb (Suc n) parents file node =
     (case map_of parents node of
        None \<Rightarrow> Some [node]
      | Some p \<Rightarrow> if p = file then Some [node]
                 else map_option (\<lambda>path. node # path) (climb n parents file p))"

definition valid_member :: "datetime option \<Rightarrow> windows option \<Rightarrow> key \<Rightarrow> bool" where
  "valid_member now windows member = (case (now, windows) of
     (Some t, Some w) \<Rightarrow> window_contains (map_of w member) t
   | _ \<Rightarrow> True)"

definition bfs_init :: "key \<Rightarrow> bfs_state" where
  "bfs_init f = \<lparr>bs_visited = [f], bs_parents = [], bs_following = [], bs_best = None, bs_best_depth = -1\<rparr>"

definition fan_in_path ::
  "key \<Rightarrow> edges \<Rightarrow> edge_candidates option \<Rightarrow> datetime option \<Rightarrow> (key \<Rightarrow> bool) \<Rightarrow> key list" where
  "fan_in_path file e c k valid =
     (let st = bfs_search e c k valid 0 [file] (bfs_init file)
      in case bs_best st of
           None \<Rightarrow> []
         | Some b \<Rightarrow> (case climb (Suc (length (bs_parents st))) (bs_parents st) file b of
             None \<Rightarrow> []
           | Some path \<Rightarrow> rev path))"

definition successor_path ::
  "key \<Rightarrow> edges \<Rightarrow> edge_candidates option \<Rightarrow> datetime option \<Rightarrow> datetime option \<Rightarrow> windows option
     \<Rightarrow> key list" where
  "successor_path file e c known_as_of now windows =
     (let valid = valid_member now windows;
          (chain, cycle) = walk_chain e c known_as_of [file] file;
          order = (if cycle then [0..<length chain] else rev [0..<length chain])
      in case find (\<lambda>i. valid (chain ! i)) order of
           Some i \<Rightarrow> take (Suc i) chain
         | None \<Rightarrow> fan_in_path file e c known_as_of valid)"

definition resolve_successor ::
  "key \<Rightarrow> edges \<Rightarrow> edge_candidates option \<Rightarrow> datetime option \<Rightarrow> datetime option \<Rightarrow> windows option
     \<Rightarrow> key option" where
  "resolve_successor file e c known_as_of now windows =
     (let path = successor_path file e c known_as_of now windows
      in if path = [] then None else Some (last path))"

text \<open>The methods of \<open>SupersessionGraph\<close>.\<close>

definition graph_successor ::
  "supersession_graph \<Rightarrow> key \<Rightarrow> datetime option \<Rightarrow> datetime option \<Rightarrow> key option" where
  "graph_successor g f now known_as_of =
     resolve_successor f (sg_edges g) (Some (sg_candidates g)) known_as_of now (Some (sg_windows g))"

definition graph_successor_path ::
  "supersession_graph \<Rightarrow> key \<Rightarrow> datetime option \<Rightarrow> datetime option \<Rightarrow> key list" where
  "graph_successor_path g f now known_as_of =
     successor_path f (sg_edges g) (Some (sg_candidates g)) known_as_of now (Some (sg_windows g))"

definition live_claimants ::
  "supersession_graph \<Rightarrow> key \<Rightarrow> datetime option \<Rightarrow> datetime option \<Rightarrow> key list" where
  "live_claimants g f now known_as_of =
     (let every = every_claim (sg_edges g) (Some (sg_candidates g)) known_as_of f
      in case now of
           None \<Rightarrow> every
         | Some t \<Rightarrow> filter (\<lambda>m. window_contains (map_of (sg_windows g) m) t) every)"

function cycle_walk ::
  "edges \<Rightarrow> edge_candidates option \<Rightarrow> datetime option \<Rightarrow> key list \<Rightarrow> key \<Rightarrow> bool" where
  "cycle_walk e c k seen cur = (case every_claim e c k cur of
     [] \<Rightarrow> False
   | nxt # _ \<Rightarrow> if nxt \<in> set seen then True else cycle_walk e c k (nxt # seen) nxt)"
  by pat_completeness auto
termination
proof (relation "measure (\<lambda>(e, c, k, seen, cur). card (claimants e c - set seen))")
  fix e :: edges and c :: "edge_candidates option" and k :: "datetime option"
    and seen rest :: "key list" and cur nxt :: key
  assume "every_claim e c k cur = nxt # rest" "\<not> nxt \<in> set seen"
  moreover from this(1) have "nxt \<in> claimants e c"
    using every_claim_claimant [where f = nxt and cur = cur and e = e and c = c and k = k] by simp
  ultimately have "claimants e c - set (nxt # seen) \<subset> claimants e c - set seen" by auto
  then show "((e, c, k, nxt # seen, nxt), e, c, k, seen, cur)
      \<in> measure (\<lambda>(e, c, k, seen, cur). card (claimants e c - set seen))"
    by (simp add: psubset_card_mono)
qed simp

declare cycle_walk.simps [simp del]

definition on_cycle :: "supersession_graph \<Rightarrow> key \<Rightarrow> datetime option \<Rightarrow> bool" where
  "on_cycle g f known_as_of = cycle_walk (sg_edges g) (Some (sg_candidates g)) known_as_of [f] f"

section \<open>What a walk over live claims promises\<close>

fun linked :: "(key \<Rightarrow> key list) \<Rightarrow> key \<Rightarrow> key list \<Rightarrow> bool" where
  "linked every cur [] = True"
| "linked every cur (x # xs) = (x \<in> set (every cur) \<and> linked every x xs)"

inductive claim_reach :: "(key \<Rightarrow> key list) \<Rightarrow> key \<Rightarrow> key \<Rightarrow> bool" for every :: "key \<Rightarrow> key list" where
  reach_refl: "claim_reach every a a"
| reach_step: "claim_reach every a b \<Longrightarrow> m \<in> set (every b) \<Longrightarrow> claim_reach every a m"

lemma linked_append:
  "linked every cur (xs @ ys) \<longleftrightarrow> linked every cur xs \<and> linked every (last (cur # xs)) ys"
  by (induction xs arbitrary: cur) auto

lemma linked_take: "linked every cur xs \<Longrightarrow> linked every cur (take n xs)"
  by (metis append_take_drop_id linked_append)

lemma claim_reach_trans: "claim_reach every b m \<Longrightarrow> claim_reach every a b \<Longrightarrow> claim_reach every a m"
  by (induction rule: claim_reach.induct) (auto intro: claim_reach.intros)

lemma claim_reach_iff: "claim_reach (every_claim e c k) a b \<longleftrightarrow> (a, b) \<in> {(a, b). stated_claim e c k a b}\<^sup>*"
proof
  assume "claim_reach (every_claim e c k) a b"
  then show "(a, b) \<in> {(a, b). stated_claim e c k a b}\<^sup>*"
    by (induction rule: claim_reach.induct) (auto simp: every_claim_iff intro: rtrancl_into_rtrancl)
next
  assume "(a, b) \<in> {(a, b). stated_claim e c k a b}\<^sup>*"
  then show "claim_reach (every_claim e c k) a b"
    by (induction rule: rtrancl_induct) (auto simp: every_claim_iff intro: claim_reach.intros)
qed

lemma linked_reach: "linked every a xs \<Longrightarrow> x \<in> set xs \<Longrightarrow> claim_reach every a x"
proof (induction xs arbitrary: a)
  case (Cons y ys)
  have "claim_reach every a y" using Cons.prems by (auto intro: claim_reach.intros)
  then show ?case using Cons by (auto intro: claim_reach_trans)
qed simp

text \<open>Every parent of the search was visited before its child: the tree the climb goes up.\<close>

fun tree_ok :: "(key \<Rightarrow> key list) \<Rightarrow> key set \<Rightarrow> (key, key) dict \<Rightarrow> bool" where
  "tree_ok every seen [] = True"
| "tree_ok every seen ((m, p) # ps) =
     (p \<in> seen \<and> m \<notin> seen \<and> m \<in> set (every p) \<and> tree_ok every (insert m seen) ps)"

lemma tree_ok_snoc:
  "tree_ok every seen (ps @ [(m, p)]) \<longleftrightarrow>
     tree_ok every seen ps \<and> p \<in> seen \<union> fst ` set ps \<and> m \<notin> seen \<union> fst ` set ps \<and> m \<in> set (every p)"
proof (induction ps arbitrary: seen)
  case (Cons mp ps)
  then show ?case by (cases mp) auto
qed auto

lemma tree_ok_keys: "tree_ok every seen ps \<Longrightarrow> fst ` set ps \<inter> seen = {} \<and> distinct (map fst ps)"
proof (induction ps arbitrary: seen)
  case (Cons mp ps)
  obtain m p where mp: "mp = (m, p)" by (cases mp)
  with Cons.prems have "m \<notin> seen" "tree_ok every (insert m seen) ps" by auto
  then show ?case using Cons.IH [of "insert m seen"] mp by auto
qed simp

lemma dict_set_new: "k \<notin> fst ` set d \<Longrightarrow> dict_set k v d = d @ [(k, v)]"
  by (induction d) auto

lemma climb_ignores_later:
  assumes "climb n ps file node = Some path" "set path \<subseteq> fst ` set ps" "m \<notin> fst ` set ps"
  shows "climb n (ps @ [(m, p)]) file node = Some path"
  using assms
proof (induction n arbitrary: node path)
  case (Suc n)
  have "node \<in> fst ` set ps"
    using Suc.prems(1,2) by (auto split: option.splits if_splits)
  then obtain q where q: "map_of ps node = Some q" by (metis map_of_keys_iff set_map)
  moreover have "node \<noteq> m" using Suc.prems \<open>node \<in> fst ` set ps\<close> by auto
  ultimately show ?case
    using Suc by (auto simp: map_add_def split: if_splits option.splits)
qed simp

lemma climb_mono: "climb n ps file node = Some path \<Longrightarrow> climb (Suc n) ps file node = Some path"
proof (induction n arbitrary: node path)
  case (Suc n)
  show ?case
  proof (cases "map_of ps node")
    case (Some p)
    show ?thesis
    proof (cases "p = file")
      case False
      with Suc.prems Some obtain q where q: "climb n ps file p = Some q" "path = node # q" by auto
      then have "climb (Suc n) ps file p = Some q" using Suc.IH by blast
      then show ?thesis using Some False q by (simp only: climb.simps) simp
    qed (use Suc.prems Some in simp)
  qed (use Suc.prems in simp)
qed simp

lemma climb_path:
  assumes "tree_ok every {file} ps" "node \<in> fst ` set ps"
  shows "\<exists>path. climb (length ps) ps file node = Some path \<and> linked every file (rev path) \<and>
           path \<noteq> [] \<and> hd path = node \<and> set path \<subseteq> fst ` set ps \<and> distinct path"
  using assms
proof (induction ps arbitrary: node rule: rev_induct)
  case (snoc mp ps)
  obtain m p where mp: "mp = (m, p)" by (cases mp)
  have ok: "tree_ok every {file} ps" "p = file \<or> p \<in> fst ` set ps" "m \<notin> fst ` set ps" "m \<noteq> file"
    "m \<in> set (every p)"
    using snoc.prems(1) by (auto simp: mp tree_ok_snoc)
  show ?case
  proof (cases "node = m")
    case False
    then have "node \<in> fst ` set ps" using snoc.prems(2) mp by auto
    from snoc.IH [OF ok(1) this] obtain path where
      path: "climb (length ps) ps file node = Some path" "linked every file (rev path)" "path \<noteq> []"
        "hd path = node" "set path \<subseteq> fst ` set ps" "distinct path" by blast
    then have "climb (length (ps @ [mp])) (ps @ [mp]) file node = Some path"
      using climb_mono [OF climb_ignores_later [OF path(1,5) ok(3), of p]] mp by simp
    then show ?thesis using path by fastforce
  next
    case True
    have m: "map_of (ps @ [mp]) m = Some p"
    proof -
      have "map_of ps m = None" using ok(3) by (simp add: map_of_eq_None_iff)
      then show ?thesis by (simp add: mp map_add_def)
    qed
    show ?thesis
    proof (cases "p = file")
      case root: True
      then have "climb (length (ps @ [mp])) (ps @ [mp]) file node = Some [m]" using m True by simp
      then show ?thesis using ok(5) root True mp by auto
    next
      case False
      then have p: "p \<in> fst ` set ps" using ok(2) by simp
      from snoc.IH [OF ok(1) p] obtain path where
        path: "climb (length ps) ps file p = Some path" "linked every file (rev path)" "path \<noteq> []"
          "hd path = p" "set path \<subseteq> fst ` set ps" "distinct path" by blast
      have "climb (length (ps @ [mp])) (ps @ [mp]) file node = Some (m # path)"
        using climb_ignores_later [OF path(1,5) ok(3), of p] m True False mp by simp
      moreover have "linked every file (rev (m # path))"
        using path(2,3,4) ok(5) by (simp add: linked_append last_rev)
      moreover have "distinct (m # path)" using path(5,6) ok(3) by auto
      ultimately show ?thesis using path(5) True mp by fastforce
    qed
  qed
qed simp

definition bfs_inv :: "(key \<Rightarrow> key list) \<Rightarrow> (key \<Rightarrow> bool) \<Rightarrow> key \<Rightarrow> bfs_state \<Rightarrow> bool" where
  "bfs_inv every valid file st \<longleftrightarrow>
     tree_ok every {file} (bs_parents st) \<and>
     set (bs_visited st) = insert file (fst ` set (bs_parents st)) \<and>
     (case bs_best st of
        None \<Rightarrow> bs_best_depth st = -1 \<and> (\<forall>m \<in> fst ` set (bs_parents st). \<not> valid m)
      | Some b \<Rightarrow> b \<in> fst ` set (bs_parents st) \<and> valid b)"

lemma bfs_claim_visited: "set (bs_visited (bfs_claim valid d n m st)) = insert m (set (bs_visited st))"
  by (auto simp: bfs_claim_def Let_def)

lemma bfs_claim_inv:
  assumes "bfs_inv every valid file st" "n \<in> set (bs_visited st)" "m \<in> set (every n)" "0 \<le> d"
  shows "bfs_inv every valid file (bfs_claim valid d n m st)"
proof (cases "m \<in> set (bs_visited st)")
  case False
  then have m: "m \<noteq> file" "m \<notin> fst ` set (bs_parents st)"
    using assms(1) by (auto simp: bfs_inv_def)
  have "tree_ok every {file} (dict_set m n (bs_parents st))"
    using assms(1,2,3) m by (auto simp: bfs_inv_def dict_set_new tree_ok_snoc)
  then show ?thesis
    using False assms(1,4) m
    by (auto simp: bfs_inv_def bfs_claim_def Let_def split: option.splits)
qed (use assms in \<open>simp add: bfs_claim_def\<close>)

lemma bfs_node_visited:
  "set (bs_visited (fold (bfs_claim valid d n) ms st)) = set (bs_visited st) \<union> set ms"
  by (induction ms arbitrary: st) (auto simp: bfs_claim_visited)

lemma bfs_node_inv:
  assumes "bfs_inv every valid file st" "n \<in> set (bs_visited st)" "set ms \<subseteq> set (every n)" "0 \<le> d"
  shows "bfs_inv every valid file (fold (bfs_claim valid d n) ms st)"
  using assms
proof (induction ms arbitrary: st)
  case (Cons m ms)
  then show ?case
    using bfs_claim_inv [OF Cons.prems(1,2), of m d] bfs_claim_visited [of valid d n m st] by auto
qed simp

lemma bfs_nodes:
  assumes "bfs_inv every valid file st" "set ns \<subseteq> set (bs_visited st)" "0 \<le> d"
  defines "st' \<equiv> fold (\<lambda>n. fold (bfs_claim valid d n) (every n)) ns st"
  shows "bfs_inv every valid file st' \<and>
    set (bs_visited st') = set (bs_visited st) \<union> (\<Union>n \<in> set ns. set (every n))"
  using assms(1-3) unfolding st'_def
proof (induction ns arbitrary: st)
  case (Cons n ns)
  let ?s = "fold (bfs_claim valid d n) (every n) st"
  have "bfs_inv every valid file ?s" using Cons.prems by (intro bfs_node_inv) auto
  moreover have "set (bs_visited ?s) = set (bs_visited st) \<union> set (every n)"
    by (rule bfs_node_visited)
  ultimately show ?case using Cons.IH [of ?s] Cons.prems by auto
qed simp

lemma bfs_level_props:
  assumes "bfs_inv every valid file st" "set frontier \<subseteq> set (bs_visited st)" "0 \<le> d"
  defines "st' \<equiv> bfs_level valid every d frontier st"
  shows "bfs_inv every valid file st'"
    and "set (bs_visited st') = set (bs_visited st) \<union> (\<Union>n \<in> set frontier. set (every n))"
proof -
  have "bfs_inv every valid file (st\<lparr>bs_following := []\<rparr>)"
    using assms(1) by (simp add: bfs_inv_def cong: option.case_cong)
  from bfs_nodes [OF this, of frontier d] assms(2,3)
  show "bfs_inv every valid file st'"
    and "set (bs_visited st') = set (bs_visited st) \<union> (\<Union>n \<in> set frontier. set (every n))"
    by (auto simp: st'_def bfs_level_def)
qed

lemma bfs_search_props:
  assumes "bfs_inv (every_claim e c k) valid file st" "set frontier \<subseteq> set (bs_visited st)" "0 \<le> depth"
    and "\<forall>v \<in> set (bs_visited st) - set frontier. set (every_claim e c k v) \<subseteq> set (bs_visited st)"
  defines "st' \<equiv> bfs_search e c k valid depth frontier st"
  shows "bfs_inv (every_claim e c k) valid file st' \<and>
    (\<forall>v \<in> set (bs_visited st'). set (every_claim e c k v) \<subseteq> set (bs_visited st'))"
  using assms(1-4) unfolding st'_def
proof (induction e c k valid depth frontier st rule: bfs_search.induct)
  case (1 e c k valid depth frontier st)
  show ?case
  proof (cases "frontier = []")
    case True
    then show ?thesis using "1.prems" by (simp add: bfs_search.simps)
  next
    case False
    let ?s = "bfs_level valid (every_claim e c k) (depth + 1) frontier st"
    have s: "bfs_inv (every_claim e c k) valid file ?s"
      "set (bs_visited ?s) = set (bs_visited st) \<union> (\<Union>n \<in> set frontier. set (every_claim e c k n))"
      using bfs_level_props [OF "1.prems"(1,2), of "depth + 1"] "1.prems"(3) by auto
    have new: "set (bs_visited ?s) = set (bs_following ?s) \<union> set (bs_visited st)"
      using bfs_level_inv [of "every_claim e c k" st valid "depth + 1" frontier]
      by (auto simp: level_inv_def)
    have "\<forall>v \<in> set (bs_visited ?s) - set (bs_following ?s).
        set (every_claim e c k v) \<subseteq> set (bs_visited ?s)"
      using "1.prems"(4) s(2) new by blast
    then have "bfs_inv (every_claim e c k) valid file
          (bfs_search e c k valid (depth + 1) (bs_following ?s) ?s) \<and>
        (\<forall>v \<in> set (bs_visited (bfs_search e c k valid (depth + 1) (bs_following ?s) ?s)).
           set (every_claim e c k v) \<subseteq>
             set (bs_visited (bfs_search e c k valid (depth + 1) (bs_following ?s) ?s)))"
      using "1.IH" [OF False refl s(1)] new "1.prems"(3) by auto
    then show ?thesis using False by (simp add: bfs_search.simps [of e c k valid depth frontier] Let_def)
  qed
qed

text \<open>
  The interface between the live claims and their readers: a chain step is one of the live claims,
  and no document claims itself. What a caller of the walk may rely on is proved from these laws
  and the search's invariant alone.
\<close>

locale claim_view =
  fixes nxt :: "key \<Rightarrow> key option" and every :: "key \<Rightarrow> key list"
  assumes nxt_every: "nxt m = Some p \<Longrightarrow> p \<in> set (every m)"
    and every_irrefl: "m \<notin> set (every m)"
begin

lemma chain_linked: "(\<And>i. i < length xs \<Longrightarrow> nxt ((cur # xs) ! i) = Some (xs ! i)) \<Longrightarrow> linked every cur xs"
proof (induction xs arbitrary: cur)
  case (Cons x xs)
  have "x \<in> set (every cur)" using Cons.prems [of 0] nxt_every by simp
  moreover have "nxt ((x # xs) ! i) = Some (xs ! i)" if "i < length xs" for i
    using Cons.prems [of "Suc i"] that by simp
  ultimately show ?case using Cons.IH by simp
qed simp

lemma closed_reach:
  assumes "claim_reach every f m" "f \<in> V" "\<forall>v \<in> V. set (every v) \<subseteq> V"
  shows "m \<in> V"
  using assms by (induction rule: claim_reach.induct) auto

lemma search_complete:
  assumes "bfs_inv every valid file st" "\<forall>v \<in> set (bs_visited st). set (every v) \<subseteq> set (bs_visited st)"
    and "bs_best st = None" "claim_reach every file m" "m \<noteq> file"
  shows "\<not> valid m"
proof -
  have "m \<in> set (bs_visited st)"
    using closed_reach [OF assms(4) _ assms(2)] assms(1) by (simp add: bfs_inv_def)
  then show ?thesis using assms(1,3,5) by (auto simp: bfs_inv_def)
qed

lemma search_sound:
  assumes "bfs_inv every valid file st" "bs_best st = Some b"
  obtains path where "climb (Suc (length (bs_parents st))) (bs_parents st) file b = Some path"
    "rev path \<noteq> []" "linked every file (rev path)" "distinct (file # rev path)" "valid (last (rev path))"
proof -
  have tree: "tree_ok every {file} (bs_parents st)" and b: "b \<in> fst ` set (bs_parents st)" "valid b"
    using assms by (auto simp: bfs_inv_def)
  from climb_path [OF tree b(1)] obtain path where
    path: "climb (length (bs_parents st)) (bs_parents st) file b = Some path"
      "linked every file (rev path)" "path \<noteq> []" "hd path = b" "set path \<subseteq> fst ` set (bs_parents st)"
      "distinct path" by blast
  moreover have "file \<notin> fst ` set (bs_parents st)" using tree_ok_keys [OF tree] by auto
  ultimately show thesis using that [of path] climb_mono [OF path(1)] b(2) by (auto simp: last_rev)
qed

end

interpretation lc: claim_view "next_claim e c k" "every_claim e c k" for e c k
  by unfold_locales (auto dest: next_claim_every every_claim_cases(1))

lemma walk_chain_props:
  assumes "walk_chain e c k seen cur = (chain, cyc)" "cur \<in> set seen"
  shows "(\<forall>i < length chain. next_claim e c k ((cur # chain) ! i) = Some (chain ! i)) \<and>
    distinct chain \<and> set chain \<inter> set seen = {} \<and>
    (if cyc then \<exists>n \<in> set seen \<union> set chain. next_claim e c k (last (cur # chain)) = Some n
     else next_claim e c k (last (cur # chain)) = None)"
  using assms
proof (induction e c k seen cur arbitrary: chain cyc rule: walk_chain.induct)
  case (1 e c k seen cur)
  show ?case
  proof (cases "next_claim e c k cur")
    case None
    then show ?thesis using "1.prems" by (simp add: walk_chain.simps [of e c k seen cur])
  next
    case (Some n)
    show ?thesis
    proof (cases "n \<in> set seen")
      case True
      then show ?thesis using "1.prems" Some by (auto simp: walk_chain.simps [of e c k seen cur])
    next
      case False
      obtain ch where ch: "walk_chain e c k (n # seen) n = (ch, cyc)" "chain = n # ch"
        using "1.prems"(1) Some False
        by (auto simp: walk_chain.simps [of e c k seen cur] split: prod.splits)
      note ih = "1.IH" [OF Some False ch(1)]
      have "\<forall>i < length chain. next_claim e c k ((cur # chain) ! i) = Some (chain ! i)"
        using ih Some ch(2) by (auto simp: nth_Cons split: nat.splits)
      then show ?thesis using ih Some False ch(2) by (auto split: if_splits)
    qed
  qed
qed

section \<open>Correctness of the walk\<close>

abbreviation fan_search ::
  "key \<Rightarrow> edges \<Rightarrow> edge_candidates option \<Rightarrow> datetime option \<Rightarrow> (key \<Rightarrow> bool) \<Rightarrow> bfs_state" where
  "fan_search f e c k valid \<equiv> bfs_search e c k valid 0 [f] (bfs_init f)"

lemma bfs_from_file:
  "bfs_inv (every_claim e c k) valid f (fan_search f e c k valid)"
  "\<forall>v \<in> set (bs_visited (fan_search f e c k valid)).
     set (every_claim e c k v) \<subseteq> set (bs_visited (fan_search f e c k valid))"
proof -
  have "bfs_inv (every_claim e c k) valid f (bfs_init f)" "set [f] \<subseteq> set (bs_visited (bfs_init f))"
    "\<forall>v \<in> set (bs_visited (bfs_init f)) - set [f].
       set (every_claim e c k v) \<subseteq> set (bs_visited (bfs_init f))"
    by (simp_all add: bfs_init_def bfs_inv_def)
  from bfs_search_props [OF this(1,2) order_refl this(3)]
  show "bfs_inv (every_claim e c k) valid f (fan_search f e c k valid)"
    "\<forall>v \<in> set (bs_visited (fan_search f e c k valid)).
       set (every_claim e c k v) \<subseteq> set (bs_visited (fan_search f e c k valid))" by auto
qed

lemma fan_in_path_sound:
  assumes "fan_in_path f e c k valid = p" "p \<noteq> []"
  shows "linked (every_claim e c k) f p \<and> distinct (f # p) \<and> valid (last p)"
proof -
  let ?st = "fan_search f e c k valid"
  obtain b where b: "bs_best ?st = Some b"
    using assms by (cases "bs_best ?st") (auto simp: fan_in_path_def Let_def)
  from lc.search_sound [OF bfs_from_file(1) b] obtain path where
    "climb (Suc (length (bs_parents ?st))) (bs_parents ?st) f b = Some path"
    "linked (every_claim e c k) f (rev path)" "distinct (f # rev path)" "valid (last (rev path))"
    by metis
  moreover from this(1) have "p = rev path"
    using assms(1) b unfolding fan_in_path_def Let_def by (simp del: climb.simps)
  ultimately show ?thesis by simp
qed

lemma fan_in_path_complete:
  assumes "fan_in_path f e c k valid = []" "claim_reach (every_claim e c k) f m" "m \<noteq> f"
  shows "\<not> valid m"
proof -
  let ?st = "fan_search f e c k valid"
  have "bs_best ?st = None"
  proof (cases "bs_best ?st")
    case (Some b)
    from lc.search_sound [OF bfs_from_file(1) Some] obtain path where
      "climb (Suc (length (bs_parents ?st))) (bs_parents ?st) f b = Some path" "rev path \<noteq> []"
      by metis
    then show ?thesis
      using assms(1) Some unfolding fan_in_path_def Let_def by (simp del: climb.simps)
  qed
  then show ?thesis using lc.search_complete [OF bfs_from_file _ assms(2,3)] by blast
qed

lemma chain_of_file:
  assumes "walk_chain e c k [f] f = (chain, cyc)"
  shows "linked (every_claim e c k) f chain" "distinct (f # chain)"
  using walk_chain_props [OF assms] lc.chain_linked by auto

lemma successor_path_cases:
  obtains (chain) chain cyc i where "walk_chain e c k [f] f = (chain, cyc)" "i < length chain"
      "valid_member now w (chain ! i)" "successor_path f e c k now w = take (Suc i) chain"
      "if cyc then \<forall>j < i. \<not> valid_member now w (chain ! j)
       else \<forall>j. i < j \<longrightarrow> j < length chain \<longrightarrow> \<not> valid_member now w (chain ! j)"
  | (fan) chain cyc where "walk_chain e c k [f] f = (chain, cyc)"
      "\<forall>m \<in> set chain. \<not> valid_member now w m"
      "successor_path f e c k now w = fan_in_path f e c k (valid_member now w)"
proof -
  obtain chain cyc where wc: "walk_chain e c k [f] f = (chain, cyc)" by fastforce
  let ?n = "length chain" and ?v = "\<lambda>i. valid_member now w (chain ! i)"
  let ?order = "if cyc then [0..<?n] else rev [0..<?n]"
  have sp: "successor_path f e c k now w = (case find ?v ?order of
      Some i \<Rightarrow> take (Suc i) chain | None \<Rightarrow> fan_in_path f e c k (valid_member now w))"
    by (simp add: successor_path_def wc Let_def)
  show thesis
  proof (cases "find ?v ?order")
    case None
    then have "\<forall>i < ?n. \<not> ?v i" by (auto simp: find_None_iff split: if_splits)
    then have "\<forall>m \<in> set chain. \<not> valid_member now w m" by (metis in_set_conv_nth)
    then show thesis using fan wc None sp by simp
  next
    case (Some i)
    then obtain q where q: "q < ?n" "?v i" "i = ?order ! q" "\<forall>j < q. \<not> ?v (?order ! j)"
      by (auto simp: find_Some_iff split: if_splits)
    have "if cyc then \<forall>j < i. \<not> ?v j else \<forall>j. i < j \<longrightarrow> j < ?n \<longrightarrow> \<not> ?v j"
    proof (cases cyc)
      case False
      have "\<not> ?v j" if "i < j" "j < ?n" for j
        using q(1,3) q(4) [rule_format, of "?n - Suc j"] that False by (simp add: rev_nth)
      then show ?thesis using False by simp
    qed (use q in auto)
    moreover have "i < ?n" using q(1,3) by (auto simp: rev_nth split: if_splits)
    ultimately show thesis using chain wc q(2) Some sp by simp
  qed
qed

lemma successor_path_props:
  assumes "successor_path f e c k now w = p" and "p \<noteq> []"
  shows "linked (every_claim e c k) f p \<and> distinct (f # p) \<and> valid_member now w (last p)"
proof (cases rule: successor_path_cases [of e c k f now w])
  case (chain chain cyc i)
  have "linked (every_claim e c k) f p" "distinct (f # p)"
    using chain_of_file [OF chain(1)] chain(4) assms(1)
    by (auto intro: linked_take distinct_take dest: in_set_takeD)
  moreover have "last p = chain ! i" using chain(2,4) assms(1) by (simp add: take_Suc_conv_app_nth)
  ultimately show ?thesis using chain(3) by simp
next
  case (fan chain cyc)
  then show ?thesis using fan_in_path_sound assms by metis
qed

lemma linked_nth: "linked every f p \<Longrightarrow> i < length p \<Longrightarrow> p ! i \<in> set (every ((f # p) ! i))"
  by (induction p arbitrary: f i) (auto simp: nth_Cons split: nat.splits)

lemma every_claim_replay:
  assumes "set (dict_keys e) \<subseteq> set (dict_keys cands)"
    and "y \<in> set (every_claim e (Some cands) (Some t) x)"
  shows "\<exists>claims v. map_of cands x = Some claims \<and> (y, v) \<in> set claims \<and> asserted_by (Some t) v"
proof (cases "map_of cands x")
  case None
  then have "map_of e x = None" using assms(1) by (auto simp: map_of_eq_None_iff)
  then show ?thesis using every_claim_cases(2) [OF assms(2)] by auto
next
  case (Some claims)
  have primary: "\<exists>v. (y, v) \<in> set claims \<and> asserted_by (Some t) v"
    if "primary_claim x e (Some cands) (Some t) = Some y"
  proof -
    have "latest_claim None None (map (\<lambda>(f, w). (f, map_option as_utc w))
        (filter (\<lambda>(f, w). f \<noteq> x \<and> asserted_by (Some t) w) claims)) = Some y"
      using that Some by (simp add: primary_claim_def Let_def split: if_splits)
    from latest_claim_in [OF this] show ?thesis by auto
  qed
  consider "primary_claim x e (Some cands) (Some t) = Some y"
    | l where "y \<in> set (other_claimants x (Some t) l claims)"
    using assms(2) Some
    by (cases "primary_claim x e (Some cands) (Some t)") (auto simp: live_claims_def Let_def dict_get_def)
  then have "\<exists>v. (y, v) \<in> set claims \<and> asserted_by (Some t) v"
    using primary other_claimants_props by cases blast+
  then show ?thesis using Some by blast
qed

text \<open>
  The path from a memory to what hides it is a real chain of live claims that never repeats a
  document or returns to the memory, and its last document is valid at the evaluation instant: a
  successor outside its own window hides nothing.
\<close>

theorem successor_path_sound:
  assumes "successor_path f e c k now w = p" and "p \<noteq> []"
  shows "linked (every_claim e c k) f p \<and> distinct (f # p) \<and> valid_member now w (last p)"
  using successor_path_props [OF assms] .

lemma resolve_successor_None:
  "resolve_successor f e c k now w = None \<longleftrightarrow>
     (\<forall>m. claim_reach (every_claim e c k) f m \<longrightarrow> m \<noteq> f \<longrightarrow> \<not> valid_member now w m)"
proof (cases "successor_path f e c k now w = []")
  case True
  have "\<not> valid_member now w m" if "claim_reach (every_claim e c k) f m" "m \<noteq> f" for m
  proof (cases rule: successor_path_cases [of e c k f now w])
    case (chain ch cyc i)
    then show ?thesis using True by auto
  next
    case (fan ch cyc)
    then show ?thesis using fan_in_path_complete True that by metis
  qed
  then show ?thesis using True by (simp add: resolve_successor_def)
next
  case False
  let ?p = "successor_path f e c k now w"
  have "claim_reach (every_claim e c k) f (last ?p)" "last ?p \<noteq> f" "valid_member now w (last ?p)"
    using successor_path_props [OF refl False] linked_reach last_in_set [OF False]
    by (auto simp del: last_in_set)
  then show ?thesis using False by (auto simp: resolve_successor_def Let_def)
qed

text \<open>
  C5. The hiding rule, complete in both directions: a memory is hidden exactly when some document
  reachable from it through the claims its graph states as of the instant, over any fan-in, is valid then. No valid
  successor is missed by the primary chain and the breadth first search together, and the loops
  of the search always finish.
\<close>

theorem resolve_successor_hides_iff:
  "(\<exists>s. resolve_successor f e c k now w = Some s) \<longleftrightarrow>
     (\<exists>m. (f, m) \<in> {(a, b). stated_claim e c k a b}\<^sup>* \<and> m \<noteq> f \<and> valid_member now w m)"
proof -
  have "(\<exists>s. resolve_successor f e c k now w = Some s) \<longleftrightarrow> resolve_successor f e c k now w \<noteq> None" by auto
  also have "\<dots> \<longleftrightarrow> (\<exists>m. claim_reach (every_claim e c k) f m \<and> m \<noteq> f \<and> valid_member now w m)"
    unfolding resolve_successor_None by blast
  finally show ?thesis by (simp only: claim_reach_iff)
qed

theorem successor_path_sound_witness:
  "successor_path ''a'' [(''a'', ''b''), (''b'', ''c'')] None None (Some (Aware 5))
      (Some [(''c'', (Some 10, None))]) = [''b''] \<and>
   distinct [''a'', ''b''] \<and> valid_member (Some (Aware 5)) (Some [(''c'', (Some 10, None))]) ''b''"
proof -
  have p: "successor_path ''a'' [(''a'', ''b''), (''b'', ''c'')] None None (Some (Aware 5))
      (Some [(''c'', (Some 10, None))]) = [''b'']" by code_simp
  show ?thesis using successor_path_sound [OF p] p by simp
qed

text \<open>
  The named document is the deepest valid member of the chain of primary claims, and for a
  chain that runs into a cycle the first valid one: as soon as one member of the chain is valid,
  the path is the chain up to that member and no better member was skipped.
\<close>

theorem successor_path_deepest:
  assumes "walk_chain e c k [f] f = (chain, cyc)" and "m \<in> set chain" and "valid_member now w m"
  shows "\<exists>i < length chain. successor_path f e c k now w = take (Suc i) chain \<and>
    valid_member now w (chain ! i) \<and>
    (\<forall>j < length chain. valid_member now w (chain ! j) \<longrightarrow> (if cyc then i \<le> j else j \<le> i))"
proof (cases rule: successor_path_cases [of e c k f now w])
  case (chain ch cy i)
  then have "\<forall>j < length ch. valid_member now w (ch ! j) \<longrightarrow> (if cy then i \<le> j else j \<le> i)"
    by (metis linorder_not_le)
  then show ?thesis using chain(1-4) assms(1) by auto
next
  case (fan ch cy)
  then show ?thesis using assms by auto
qed

theorem successor_path_deepest_witness:
  "\<exists>i < 3. successor_path ''a'' [(''a'', ''b''), (''b'', ''c''), (''c'', ''d'')] None None (Some (Naive 7))
        (Some [(''d'', (Some 9, None)), (''b'', (Some 0, Some 3))]) = take (Suc i) [''b'', ''c'', ''d'']"
proof -
  have h: "walk_chain [(''a'', ''b''), (''b'', ''c''), (''c'', ''d'')] None None [''a''] ''a''
      = ([''b'', ''c'', ''d''], False)" by code_simp
  have v: "valid_member (Some (Naive 7)) (Some [(''d'', (Some 9, None)), (''b'', (Some 0, Some 3))]) ''c''"
    by code_simp
  have three: "length [''b'', ''c'', ''d''] = 3" by simp
  show ?thesis using successor_path_deepest [OF h _ v] unfolding three by (auto simp del: take_Suc_Cons)
qed

text \<open>
  Point-in-time replay is honest about supersession: when the edge map and the candidate map
  come from one scan, every step of the path at a transaction time is a claim the candidate map
  holds, asserted by that time or of unknown date. A claim written later is never followed.
\<close>

theorem successor_path_replay:
  assumes "set (dict_keys e) \<subseteq> set (dict_keys cands)"
    and "i < length (successor_path f e (Some cands) (Some t) now w)"
  shows "\<exists>claims v. map_of cands ((f # successor_path f e (Some cands) (Some t) now w) ! i) = Some claims \<and>
     (successor_path f e (Some cands) (Some t) now w ! i, v) \<in> set claims \<and> asserted_by (Some t) v"
proof -
  let ?p = "successor_path f e (Some cands) (Some t) now w"
  have step: "y \<in> set (every_claim e (Some cands) (Some t) x) \<Longrightarrow>
      \<exists>claims v. map_of cands x = Some claims \<and> (y, v) \<in> set claims \<and> asserted_by (Some t) v" for x y
    by (rule every_claim_replay [OF assms(1)])
  have "linked (every_claim e (Some cands) (Some t)) f ?p"
    using successor_path_props [OF refl, of f e "Some cands" "Some t" now w] assms(2) by fastforce
  then have "?p ! i \<in> set (every_claim e (Some cands) (Some t) ((f # ?p) ! i))"
    using assms(2) by (rule linked_nth)
  then show ?thesis by (rule step)
qed

theorem successor_path_replay_witness:
  "\<exists>claims v. map_of [(''a'', [(''b'', Some (Aware 3)), (''c'', Some (Aware 8))])] ''a'' = Some claims \<and>
     (''b'', v) \<in> set claims \<and> asserted_by (Some (Aware 5)) v"
proof -
  have p: "successor_path ''a'' [(''a'', ''c'')] (Some [(''a'', [(''b'', Some (Aware 3)), (''c'', Some (Aware 8))])])
      (Some (Aware 5)) None None = [''b'']" by code_simp
  show ?thesis
    using successor_path_replay [of "[(''a'', ''c'')]" "[(''a'', [(''b'', Some (Aware 3)), (''c'', Some (Aware 8))])]"
        0 "''a''" "Aware 5" None None] unfolding p by simp
qed

end
