(* ===== verification/SupersessionResolver.thy ===== *)
theory SupersessionResolver
  imports SupersessionWalk
begin

text \<open>
  The one resolution pass of \<open>src/recall/supersession.py\<close>: scan rows and the records of removed
  memos become a supersession graph. The reference rule (\<open>ReferenceIndex\<close>), the records that
  stand in for removed memos, the row loop of \<open>_resolve_rows\<close> and the splice over withdrawn memos
  are each a group of definitions; the state of the loop is the record \<open>resolve_state\<close>.

  A Python set that is only iterated (the ghost pairs of the index) is a list without duplicates,
  in the order the pairs were given.
\<close>

section \<open>References\<close>

definition document_extensions :: "string list" where
  "document_extensions = [''.markdown'', ''.mdx'', ''.md'']"

definition strip_document_extension :: "string \<Rightarrow> string" where
  "strip_document_extension value =
     (case find (\<lambda>ext. ends_with (py_lower value) ext \<and> length value > length ext) document_extensions of
        Some ext \<Rightarrow> take (length value - length ext) value
      | None \<Rightarrow> value)"

fun drop_dot_slash :: "string \<Rightarrow> string" where
  "drop_dot_slash (a # b # s) = (if a = CHR ''.'' \<and> b = CHR ''/'' then drop_dot_slash s else a # b # s)"
| "drop_dot_slash s = s"

definition reference_path_key :: "string \<Rightarrow> string" where
  "reference_path_key value =
     (let v = posix (strip_brackets (py_strip value));
          w = lstrip_by (\<lambda>c. c = CHR ''/'') (drop_dot_slash v);
          normalised = (if w \<noteq> [] then normpath w else w)
      in casefold (strip_document_extension (if normalised \<noteq> ''.'' then normalised else [])))"

definition reference_stem_key :: "string \<Rightarrow> string" where
  "reference_stem_key value = last_segment (reference_path_key value)"

definition dangling_key :: "string \<Rightarrow> string" where
  "dangling_key reference = last_segment (posix reference)"

section \<open>The reference index\<close>

type_synonym file_pair = "string \<times> string option"

definition index_key :: "string set \<Rightarrow> string \<Rightarrow> string option \<Rightarrow> key" where
  "index_key collided file source = (case source of
     Some s \<Rightarrow> if file \<in> collided \<and> s \<noteq> [] then s else file
   | None \<Rightarrow> file)"

definition pair_root :: "file_uris \<Rightarrow> file_pair \<Rightarrow> string option result" where
  "pair_root u p = (case source_identity u (snd p) (fst p) of Inl e \<Rightarrow> Inl e | Inr i \<Rightarrow> Inr (id_root i))"

text \<open>The files that more than one root holds.\<close>

definition collided_files :: "(file_pair \<times> string option) list \<Rightarrow> string set" where
  "collided_files rooted =
     set (filter (\<lambda>f. 1 < length (remdups (List.map_filter (\<lambda>((g, s), r). if g = f then r else None) rooted)))
            (map (\<lambda>((g, s), r). g) rooted))"

definition index_nodes ::
  "string set \<Rightarrow> (file_pair \<times> string option) list \<Rightarrow> (key, string \<times> string option \<times> string option) dict" where
  "index_nodes collided rooted =
     fold (\<lambda>((file, source), r). dict_setdefault (index_key collided file source) (file, r, source)) rooted []"

definition index_by ::
  "(string \<Rightarrow> string) \<Rightarrow> (key, string \<times> string option \<times> string option) dict \<Rightarrow> (string, key list) dict" where
  "index_by name nodes = fold (\<lambda>(k, (file, r, s)). dict_append (name file) k) nodes []"

definition make_reference_index ::
  "file_uris \<Rightarrow> file_pair list \<Rightarrow> file_pair list \<Rightarrow> file_pair list \<Rightarrow> reference_index result" where
  "make_reference_index u files ghosts staged =
     (let ghost_pairs = dedup ghosts; pairs = dedup (files @ ghost_pairs)
      in case map_result (pair_root u) pairs of
           Inl e \<Rightarrow> Inl e
         | Inr roots \<Rightarrow>
             (let rooted = zip pairs roots;
                  collided = collided_files rooted;
                  nodes = index_nodes collided rooted;
                  key_of = (\<lambda>p. index_key collided (fst p) (snd p))
              in Inr \<lparr>ri_collided = collided, ri_nodes = nodes,
                      ri_ghosts = key_of ` set ghost_pairs, ri_staged = key_of ` set staged,
                      ri_by_path = index_by reference_path_key nodes,
                      ri_by_stem = index_by reference_stem_key nodes\<rparr>))"

datatype match_kind = Resolved | Ambiguous | Dangling | SelfClaim

definition node_file :: "reference_index \<Rightarrow> key \<Rightarrow> string option" where
  "node_file ri k = map_option fst (map_of (ri_nodes ri) k)"

definition node_root :: "reference_index \<Rightarrow> key \<Rightarrow> string option" where
  "node_root ri k = (case map_of (ri_nodes ri) k of None \<Rightarrow> None | Some (f, r, s) \<Rightarrow> r)"

definition indexed_first :: "reference_index \<Rightarrow> key list \<Rightarrow> key list" where
  "indexed_first ri keys =
     (if ri_ghosts ri = {} then keys
      else let indexed = filter (\<lambda>k. k \<notin> ri_ghosts ri) keys
           in if length indexed = length keys then keys
              else let honest = filter (\<lambda>k. k \<notin> ri_staged ri) indexed;
                       ghosts = filter (\<lambda>k. k \<in> ri_ghosts ri) keys
                   in if honest = [] then ghosts
                      else honest @ filter (\<lambda>k. node_file ri k \<in> node_file ri ` set honest) ghosts)"

definition pick :: "reference_index \<Rightarrow> key list \<Rightarrow> string option \<Rightarrow> match_kind \<times> key list" where
  "pick ri others claimant_root =
     (if length others = 1 then (Resolved, others)
      else if card (node_file ri ` set others) = 1 then
        (let same_root = filter (\<lambda>k. node_root ri k = claimant_root) others
         in if length same_root = 1 then (Resolved, same_root) else (Ambiguous, others))
      else (Ambiguous, others))"

definition match_stem :: "reference_index \<Rightarrow> string \<Rightarrow> key \<Rightarrow> match_kind \<times> key list" where
  "match_stem ri path claimant =
     (let stem = last_segment path
      in if stem = [] then (Dangling, [])
         else let found = dict_get (ri_by_stem ri) stem [];
                  others = indexed_first ri (filter (\<lambda>k. k \<noteq> claimant) found)
              in if others \<noteq> [] then pick ri others (node_root ri claimant)
                 else if found \<noteq> [] \<and>
                   (case node_file ri claimant of None \<Rightarrow> False | Some f \<Rightarrow> path = reference_path_key f)
                 then (SelfClaim, []) else (Dangling, []))"

definition match :: "reference_index \<Rightarrow> string \<Rightarrow> key \<Rightarrow> match_kind \<times> key list" where
  "match ri reference claimant =
     (let path = reference_path_key reference
      in if CHR ''/'' \<in> set path then
           (let found = dict_get (ri_by_path ri) path [];
                others = indexed_first ri (filter (\<lambda>k. k \<noteq> claimant) found)
            in if others \<noteq> [] then pick ri others (node_root ri claimant)
               else if found \<noteq> [] then (SelfClaim, [])
               else match_stem ri path claimant)
         else match_stem ri path claimant)"

definition resolve_reference ::
  "file_uris \<Rightarrow> string \<Rightarrow> string list \<Rightarrow> key \<Rightarrow> (match_kind \<times> key list) result" where
  "resolve_reference u reference files claimant =
     (case make_reference_index u (map (\<lambda>f. (f, None)) files) [] [] of
        Inl e \<Rightarrow> Inl e
      | Inr ri \<Rightarrow> Inr (match ri reference claimant))"

section \<open>Rows\<close>

text \<open>A scan row: three columns, four with a source, or six with the raw validity bounds.\<close>

datatype supersession_row =
    Row3 pyval pyval pyval
  | Row4 pyval pyval pyval pyval
  | Row6 pyval pyval pyval pyval pyval pyval

record row_parts =
  rp_file :: "string option"
  rp_supersedes :: "string option"
  rp_first :: "instant option"
  rp_source :: "string option"
  rp_from :: pyval
  rp_until :: pyval
  rp_window :: bool

fun parts_of_row :: "supersession_row \<Rightarrow> row_parts" where
  "parts_of_row (Row3 f s w) =
     \<lparr>rp_file = as_str f, rp_supersedes = as_str s, rp_first = as_time w, rp_source = None,
      rp_from = PNone, rp_until = PNone, rp_window = False\<rparr>"
| "parts_of_row (Row4 f s w src) =
     \<lparr>rp_file = as_str f, rp_supersedes = as_str s, rp_first = as_time w, rp_source = as_str src,
      rp_from = PNone, rp_until = PNone, rp_window = False\<rparr>"
| "parts_of_row (Row6 f s w src vf vu) =
     \<lparr>rp_file = as_str f, rp_supersedes = as_str s, rp_first = as_time w, rp_source = as_str src,
      rp_from = vf, rp_until = vu, rp_window = True\<rparr>"

definition claim_rows :: "supersession_row list \<Rightarrow> row_parts list" where
  "claim_rows rows = concat (map (\<lambda>row.
     (let parts = parts_of_row row;
          targets = (case rp_supersedes parts of
             None \<Rightarrow> [] | Some s \<Rightarrow> if s = [] then [] else supersedes_targets (PStr s))
      in if length targets > 1 then map (\<lambda>t. parts\<lparr>rp_supersedes := Some t\<rparr>) targets
         else [parts])) rows)"

section \<open>Records of removed memos\<close>

datatype record_kind = Forgotten | Withdrawn

type_synonym record_claim = "string \<times> instant option \<times> pyval \<times> pyval"

record supersession_record =
  sr_kind :: record_kind
  sr_file :: string
  sr_source :: string
  sr_claims :: "record_claim list"

definition nonempty :: "string option \<Rightarrow> string option" where
  "nonempty s = (case s of None \<Rightarrow> None | Some t \<Rightarrow> if t = [] then None else Some t)"

text \<open>The loop of \<open>records_from_rows\<close>: the file of every source, and the claims of every source.\<close>

definition record_row ::
  "row_parts \<Rightarrow> (string, string) dict \<times> (string, record_claim list) dict
     \<Rightarrow> (string, string) dict \<times> (string, record_claim list) dict" where
  "record_row parts acc = (case (nonempty (rp_file parts), nonempty (rp_source parts)) of
     (Some file, Some source) \<Rightarrow>
       (dict_setdefault source file (fst acc),
        (case nonempty (rp_supersedes parts) of
           None \<Rightarrow> snd acc
         | Some s \<Rightarrow> dict_append source (s, rp_first parts, rp_from parts, rp_until parts) (snd acc)))
   | _ \<Rightarrow> acc)"

definition records_from_rows :: "record_kind \<Rightarrow> supersession_row list \<Rightarrow> supersession_record list" where
  "records_from_rows kind rows =
     (let (files, claims) = fold (\<lambda>row. record_row (parts_of_row row)) rows ([], [])
      in map (\<lambda>(source, found).
            \<lparr>sr_kind = kind, sr_file = dict_get files source [], sr_source = source, sr_claims = found\<rparr>)
          (sort_key fst claims))"

text \<open>
  An audit event as \<open>latest_records\<close> sees it: the scope its payload names, and the record
  \<open>SupersessionRecord.from_event\<close> reads from it (None for an event of another kind).
\<close>

type_synonym record_event = "string \<times> supersession_record option"

definition latest_records :: "record_event list \<Rightarrow> string \<Rightarrow> (string, supersession_record) dict" where
  "latest_records events scope =
     fold (\<lambda>(event_scope, r) latest.
       if event_scope \<noteq> scope then latest
       else (case r of None \<Rightarrow> latest | Some rec \<Rightarrow> dict_set (sr_source rec) rec latest)) events []"

definition standing_records ::
  "file_uris \<Rightarrow> supersession_record list \<Rightarrow> string set \<Rightarrow> file_pair list \<Rightarrow> file_pair set
     \<Rightarrow> supersession_record list result" where
  "standing_records u records sources pairs staged =
     (if records = [] then Inr []
      else (case map_result (pair_root u) pairs of
        Inl e \<Rightarrow> Inl e
      | Inr roots \<Rightarrow>
          (let removed = filter (\<lambda>r. sr_source r \<notin> sources) records
           in case map_result (\<lambda>r. pair_root u (sr_file r, Some (sr_source r))) removed of
                Inl e \<Rightarrow> Inl e
              | Inr own \<Rightarrow>
                  (let by_root = zip roots (map fst pairs);
                       elsewhere = fst ` (set pairs - staged)
                   in Inr (map fst (filter (\<lambda>(rec, own_root).
                        if own_root \<in> set roots then (own_root, sr_file rec) \<notin> set by_root
                        else sr_file rec \<notin> elsewhere) (zip removed own)))))))"

section \<open>The row loop\<close>

record resolve_state =
  rs_windows :: windows
  rs_unknown :: "key set"
  rs_winner :: edges
  rs_unresolved :: "key set"
  rs_ambiguous :: "(key, string list) dict"
  rs_order :: "(key, key list) dict"
  rs_when :: "(key \<times> key, instant option) dict"
  rs_wd_targets :: "(key, key list) dict"
  rs_wd_ambiguous :: "(key, (string \<times> key list) list) dict"

definition resolve_init :: resolve_state where
  "resolve_init = \<lparr>rs_windows = [], rs_unknown = {}, rs_winner = [], rs_unresolved = {}, rs_ambiguous = [],
     rs_order = [], rs_when = [], rs_wd_targets = [], rs_wd_ambiguous = []\<rparr>"

definition note_window :: "key \<Rightarrow> row_parts \<Rightarrow> resolve_state \<Rightarrow> resolve_state" where
  "note_window claimant parts st =
     (if rp_window parts then
        (case parse_window (rp_from parts) (rp_until parts) of
           None \<Rightarrow> st\<lparr>rs_unknown := insert claimant (rs_unknown st)\<rparr>
         | Some w \<Rightarrow>
             (if dict_get (rs_windows st) claimant w \<noteq> w
              then st\<lparr>rs_unknown := insert claimant (rs_unknown st)\<rparr>
              else st\<lparr>rs_windows := dict_set claimant w (rs_windows st)\<rparr>))
      else st)"

text \<open>A withdrawn memo's claim is void: kept only as where its own claimants are spliced to.\<close>

definition note_withdrawn ::
  "key \<Rightarrow> string \<Rightarrow> match_kind \<Rightarrow> key list \<Rightarrow> resolve_state \<Rightarrow> resolve_state" where
  "note_withdrawn claimant supersedes kind found st = (case kind of
     Resolved \<Rightarrow> st\<lparr>rs_wd_targets := dict_append claimant (hd found) (rs_wd_targets st)\<rparr>
   | Ambiguous \<Rightarrow> st\<lparr>rs_wd_ambiguous := dict_append claimant (supersedes, found) (rs_wd_ambiguous st)\<rparr>
   | _ \<Rightarrow> (if dangling_key supersedes \<noteq> claimant
           then st\<lparr>rs_wd_targets := dict_append claimant (dangling_key supersedes) (rs_wd_targets st)\<rparr>
           else st))"

definition add_reference :: "key \<Rightarrow> string \<Rightarrow> (key, string list) dict \<Rightarrow> (key, string list) dict" where
  "add_reference claimant reference d =
     (let refs = dict_get d claimant []
      in dict_set claimant (if reference \<in> set refs then refs else refs @ [reference]) d)"

definition note_ambiguous :: "key \<Rightarrow> string \<Rightarrow> key list \<Rightarrow> resolve_state \<Rightarrow> resolve_state" where
  "note_ambiguous claimant supersedes found st =
     st\<lparr>rs_unresolved := rs_unresolved st \<union> set found,
        rs_ambiguous := add_reference claimant supersedes (rs_ambiguous st)\<rparr>"

text \<open>An undated row makes the whole claim undated, else the earliest date stands.\<close>

definition claim_date :: "(key \<times> key, instant option) dict \<Rightarrow> key \<times> key \<Rightarrow> instant option \<Rightarrow> instant option" where
  "claim_date d pair first = (case map_of d pair of
     None \<Rightarrow> first
   | Some prev \<Rightarrow> (case (prev, first) of (Some a, Some b) \<Rightarrow> Some (min a b) | _ \<Rightarrow> None))"

definition note_claim :: "key \<Rightarrow> key \<Rightarrow> instant option \<Rightarrow> resolve_state \<Rightarrow> resolve_state" where
  "note_claim target claimant first st =
     st\<lparr>rs_winner := dict_set target claimant (rs_winner st),
        rs_order := dict_set target (remove1 claimant (dict_get (rs_order st) target []) @ [claimant])
          (rs_order st),
        rs_when := dict_set (target, claimant) (claim_date (rs_when st) (target, claimant) first) (rs_when st)\<rparr>"

definition resolve_row :: "reference_index \<Rightarrow> key set \<Rightarrow> row_parts \<Rightarrow> resolve_state \<Rightarrow> resolve_state" where
  "resolve_row ri withdrawn parts st =
     (case (nonempty (rp_file parts), nonempty (rp_supersedes parts)) of
        (Some file, Some supersedes) \<Rightarrow>
          (let claimant = index_key (ri_collided ri) file (rp_source parts);
               st1 = note_window claimant parts st;
               (kind, found) = match ri supersedes claimant
           in if kind = SelfClaim then st1
              else if claimant \<in> withdrawn then note_withdrawn claimant supersedes kind found st1
              else if kind = Ambiguous then note_ambiguous claimant supersedes found st1
              else let target = (if kind = Resolved then hd found else dangling_key supersedes)
                   in if kind \<noteq> Resolved \<and> target = claimant then st1
                      else note_claim target claimant (rp_first parts) st1)
      | _ \<Rightarrow> st)"

section \<open>Withdrawn memos\<close>

text \<open>
  The two depth first loops over withdrawn memos. A stack is a list with its top first: the code
  pushes and pops at the end of a list and reverses what it pushes.
\<close>

definition dict_values :: "('k, 'v list) dict \<Rightarrow> 'v set" where
  "dict_values d = (\<Union>(k, vs) \<in> set d. set vs)"

lemma dict_values_get: "x \<in> set (dict_get d k []) \<Longrightarrow> x \<in> dict_values d"
proof (cases "map_of d k")
  case (Some vs)
  assume "x \<in> set (dict_get d k [])"
  then show ?thesis using Some map_of_SomeD [OF Some] by (auto simp: dict_get_def dict_values_def)
qed (simp add: dict_get_def)

lemma finite_dict_values [simp]: "finite (dict_values d)"
  by (auto simp: dict_values_def)

function splice_targets :: "key set \<Rightarrow> (key, key list) dict \<Rightarrow> key list \<Rightarrow> key list \<Rightarrow> key list" where
  "splice_targets withdrawn targets seen [] = []"
| "splice_targets withdrawn targets seen (t # stack) =
     (if t \<in> set seen then splice_targets withdrawn targets seen stack
      else if t \<in> withdrawn
      then splice_targets withdrawn targets (t # seen) (dict_get targets t [] @ stack)
      else t # splice_targets withdrawn targets (t # seen) stack)"
  by pat_completeness auto
termination
proof (relation "measures [\<lambda>(w, targets, seen, stack). card ((dict_values targets \<union> set stack) - set seen),
    \<lambda>(w, targets, seen, stack). length stack]", goal_cases)
  case (2 w targets seen t stack)
  have "card ((dict_values targets \<union> set stack) - set seen)
      \<le> card ((dict_values targets \<union> set (t # stack)) - set seen)"
    by (rule card_mono) auto
  then show ?case by auto
next
  case (3 w targets seen t stack)
  have "(dict_values targets \<union> set (dict_get targets t [] @ stack)) - set (t # seen)
      \<subset> (dict_values targets \<union> set (t # stack)) - set seen"
    using 3 dict_values_get [of _ targets t] by auto
  then show ?case by (simp add: psubset_card_mono)
next
  case (4 w targets seen t stack)
  have "(dict_values targets \<union> set stack) - set (t # seen)
      \<subset> (dict_values targets \<union> set (t # stack)) - set seen"
    using 4 by auto
  then show ?case by (simp add: psubset_card_mono)
qed simp

function claimants_through ::
  "(key, key list) dict \<Rightarrow> (key, key list) dict \<Rightarrow> key list \<Rightarrow> key list \<Rightarrow> key list \<Rightarrow> key list" where
  "claimants_through order via live seen [] = live"
| "claimants_through order via live seen (memo # stack) =
     (let live' = fold (\<lambda>m acc. if m \<in> set acc then acc else acc @ [m]) (dict_get order memo []) live;
          fresh = filter (\<lambda>m. m \<notin> set seen) (dedup (dict_get via memo []))
      in claimants_through order via live' (fresh @ seen) (rev fresh @ stack))"
  by pat_completeness auto
termination
proof (relation "measures [\<lambda>(order, via, live, seen, stack). card (dict_values via - set seen),
    \<lambda>(order, via, live, seen, stack). length stack]", goal_cases)
  case (2 order via live seen memo stack live' fresh)
  show ?case
  proof (cases "fresh = []")
    case False
    then obtain x where x: "x \<in> set fresh" by (cases fresh) auto
    then have "x \<in> dict_values via" "x \<notin> set seen"
      using 2(2) dict_values_get [of x via memo] by (auto simp: dedup_def)
    then have "dict_values via - set (fresh @ seen) \<subset> dict_values via - set seen" using x by auto
    then show ?thesis by (simp add: psubset_card_mono)
  qed simp
qed simp

definition via_withdrawn :: "(key, key list) dict \<Rightarrow> (key, key list) dict" where
  "via_withdrawn wd_targets =
     fold (\<lambda>(claimant, targets). fold (\<lambda>t. dict_append t claimant) targets) wd_targets []"

text \<open>One withdrawn memo's turn in \<open>_splice_withdrawn\<close>, on (winner, order, when).\<close>

type_synonym claim_maps = "edges \<times> (key, key list) dict \<times> (key \<times> key, instant option) dict"

definition splice_claimant :: "key \<Rightarrow> key \<Rightarrow> key \<Rightarrow>
    key list \<times> (key \<times> key, instant option) dict \<Rightarrow> key list \<times> (key \<times> key, instant option) dict" where
  "splice_claimant k target claimant acc = (case acc of (slot, dates) \<Rightarrow>
     if claimant = target \<or> claimant \<in> set slot then (slot, dates)
     else (slot @ [claimant], dict_set (target, claimant) (dict_get dates (k, claimant) None) dates))"

definition splice_target :: "key \<Rightarrow> key list \<Rightarrow> key \<Rightarrow> claim_maps \<Rightarrow> claim_maps" where
  "splice_target k moved target maps = (case maps of (winner, order, dates) \<Rightarrow>
     (let (slot, dates') = fold (splice_claimant k target) moved (dict_get order target [], dates)
      in if slot \<noteq> [] then (dict_set target (last slot) winner, dict_set target slot order, dates')
         else (winner, dict_pop target order, dates')))"

definition splice_memo :: "key set \<Rightarrow> (key, key list) dict \<Rightarrow> key \<Rightarrow> claim_maps \<Rightarrow> claim_maps" where
  "splice_memo withdrawn targets k maps = (case maps of (winner, order, dates) \<Rightarrow>
     (let moved = dict_get order k []; maps' = (dict_pop k winner, dict_pop k order, dates)
      in if moved = [] then maps'
         else fold (splice_target k moved) (splice_targets withdrawn targets [k] (dict_get targets k []))
                maps'))"

definition splice_withdrawn :: "key list \<Rightarrow> (key, key list) dict \<Rightarrow> claim_maps \<Rightarrow> claim_maps" where
  "splice_withdrawn withdrawn targets maps = fold (splice_memo (set withdrawn) targets) (sort (remdups withdrawn)) maps"

section \<open>The resolution pass\<close>

definition ghost_rows :: "supersession_record list \<Rightarrow> row_parts list" where
  "ghost_rows standing = concat (map (\<lambda>r.
     (if sr_claims r = []
      then [\<lparr>rp_file = Some (sr_file r), rp_supersedes = None, rp_first = None, rp_source = Some (sr_source r),
             rp_from = PNone, rp_until = PNone, rp_window = False\<rparr>]
      else map (\<lambda>(target, first, vf, vu).
             \<lparr>rp_file = Some (sr_file r), rp_supersedes = Some target, rp_first = first,
              rp_source = Some (sr_source r), rp_from = vf, rp_until = vu,
              rp_window = (sr_kind r = Forgotten)\<rparr>) (sr_claims r))) standing)"

definition row_pairs :: "row_parts list \<Rightarrow> file_pair list" where
  "row_pairs parsed = List.map_filter (\<lambda>p. map_option (\<lambda>f. (f, rp_source p)) (nonempty (rp_file p))) parsed"

definition staged_pairs :: "file_uris \<Rightarrow> file_pair list \<Rightarrow> string option \<Rightarrow> file_pair list result" where
  "staged_pairs u pairs tenant = (case tenant of
     None \<Rightarrow> Inr []
   | Some t \<Rightarrow>
       (case map_result (\<lambda>(f, s). case nonempty s of
            None \<Rightarrow> Inr False | Some src \<Rightarrow> in_upload_staging u src t) pairs of
          Inl e \<Rightarrow> Inl e
        | Inr flags \<Rightarrow> Inr (map fst (filter snd (zip pairs flags)))))"

definition carry_ambiguous :: "resolve_state \<Rightarrow> (key, key list) dict \<Rightarrow> resolve_state" where
  "carry_ambiguous st claimants_of =
     fold (\<lambda>(k, claims). fold (\<lambda>claimant. fold (\<lambda>(reference, found). note_ambiguous claimant reference found) claims)
             (dict_get claimants_of k []))
       (rs_wd_ambiguous st) st"

definition graph_of_state :: "reference_index \<Rightarrow> resolve_state \<Rightarrow> supersession_graph" where
  "graph_of_state ri st =
     \<lparr>sg_edges = rs_winner st,
      sg_unresolved = rs_unresolved st,
      sg_candidates = map (\<lambda>(target, cl).
          (target, map (\<lambda>f. (f, map_option Aware (dict_get (rs_when st) (target, f) None))) cl)) (rs_order st),
      sg_windows = filter (\<lambda>(k, w). k \<notin> rs_unknown st \<and> w \<noteq> (None, None)) (rs_windows st),
      sg_collided = ri_collided ri,
      sg_ambiguous_claims = rs_ambiguous st,
      sg_references = Some ri\<rparr>"

definition finish_resolution :: "reference_index \<Rightarrow> key list \<Rightarrow> resolve_state \<Rightarrow> supersession_graph" where
  "finish_resolution ri withdrawn st =
     (let via = via_withdrawn (rs_wd_targets st);
          claimants_of = map (\<lambda>(k, _). (k, claimants_through (rs_order st) via [] [k] [k])) (rs_wd_ambiguous st);
          (winner, order, dates) = splice_withdrawn withdrawn (rs_wd_targets st)
             (rs_winner st, rs_order st, rs_when st);
          st1 = st\<lparr>rs_winner := winner, rs_order := order, rs_when := dates\<rparr>
      in graph_of_state ri (carry_ambiguous st1 claimants_of))"

definition resolve_rows ::
  "file_uris \<Rightarrow> supersession_row list \<Rightarrow> supersession_record list \<Rightarrow> string option
     \<Rightarrow> supersession_graph result" where
  "resolve_rows u rows records tenant =
     (let parsed = claim_rows rows;
          pairs = dedup (row_pairs parsed);
          sources = set (List.map_filter (\<lambda>p. nonempty (rp_source p)) parsed)
      in case (if records = [] then Inr [] else staged_pairs u pairs tenant) of
           Inl e \<Rightarrow> Inl e
         | Inr staged \<Rightarrow>
             (case standing_records u records sources pairs (set staged) of
                Inl e \<Rightarrow> Inl e
              | Inr standing \<Rightarrow>
                  (case make_reference_index u (row_pairs parsed)
                          (map (\<lambda>r. (sr_file r, Some (sr_source r))) standing) staged of
                     Inl e \<Rightarrow> Inl e
                   | Inr ri \<Rightarrow>
                       (let withdrawn = map (\<lambda>r. index_key (ri_collided ri) (sr_file r) (Some (sr_source r)))
                              (filter (\<lambda>r. sr_kind r = Withdrawn) standing);
                            st = fold (resolve_row ri (set withdrawn)) (ghost_rows standing @ parsed) resolve_init
                        in Inr (finish_resolution ri withdrawn st)))))"

definition resolve_supersession_graph ::
  "file_uris \<Rightarrow> supersession_row list \<Rightarrow> supersession_record list \<Rightarrow> string option
     \<Rightarrow> supersession_graph result" where
  "resolve_supersession_graph u rows records tenant = resolve_rows u rows records tenant"

definition resolve_supersession_candidates ::
  "file_uris \<Rightarrow> supersession_row list \<Rightarrow> (edges \<times> key set \<times> edge_candidates) result" where
  "resolve_supersession_candidates u rows =
     (case resolve_rows u rows [] None of Inl e \<Rightarrow> Inl e | Inr g \<Rightarrow> Inr (graph_parts g))"

definition resolve_supersession ::
  "file_uris \<Rightarrow> (pyval \<times> pyval) list \<Rightarrow> (edges \<times> key set) result" where
  "resolve_supersession u rows =
     (case resolve_rows u (map (\<lambda>(f, s). Row3 f s PNone) rows) [] None of
        Inl e \<Rightarrow> Inl e
      | Inr g \<Rightarrow> Inr (sg_edges g, sg_unresolved g))"

end
