(* ===== verification/ResolverCorrect.thy ===== *)
theory ResolverCorrect
  imports SupersessionResolver
begin

text \<open>
  What the resolution pass guarantees: references are never guessed, the edge map and the candidate
  map of a graph agree, no document supersedes itself, and a withdrawn memo's claimants are moved
  onto exactly what it retired.
\<close>

section \<open>References\<close>

lemma indexed_first_subset: "set (indexed_first ri keys) \<subseteq> set keys"
  by (auto simp: indexed_first_def Let_def)

lemma pick_cases:
  assumes "pick ri others r = (kind, found)" "others \<noteq> []"
  shows "(kind = Resolved \<and> (\<exists>k. found = [k] \<and> k \<in> set others)) \<or>
         (kind = Ambiguous \<and> found = others \<and> 1 < length others)"
proof -
  have one: "\<exists>k. xs = [k] \<and> k \<in> set ys" if "length xs = 1" "set xs \<subseteq> set ys" for xs ys :: "key list"
    using that by (cases xs) auto
  have "others \<noteq> [] \<Longrightarrow> length others \<noteq> 1 \<Longrightarrow> 1 < length others" by (cases others) auto
  moreover have "set (filter (\<lambda>k. node_root ri k = r) others) \<subseteq> set others" by auto
  ultimately show ?thesis
    using assms one [of others others] one [of "filter (\<lambda>k. node_root ri k = r) others" others]
    by (auto simp: pick_def Let_def split: if_splits)
qed

definition candidates_of :: "reference_index \<Rightarrow> string \<Rightarrow> key set" where
  "candidates_of ri reference = (let path = reference_path_key reference in
     set (dict_get (ri_by_stem ri) (last_segment path) []) \<union>
     (if CHR ''/'' \<in> set path then set (dict_get (ri_by_path ri) path []) else {}))"

lemma match_stem_cases:
  assumes "match_stem ri path claimant = (kind, found)"
  shows "(kind = Resolved \<and> (\<exists>k. found = [k] \<and> k \<noteq> claimant
            \<and> k \<in> set (dict_get (ri_by_stem ri) (last_segment path) []))) \<or>
         (kind = Ambiguous \<and> 1 < length found \<and> claimant \<notin> set found
            \<and> set found \<subseteq> set (dict_get (ri_by_stem ri) (last_segment path) [])) \<or>
         (kind \<in> {Dangling, SelfClaim} \<and> found = [])"
proof -
  let ?f = "dict_get (ri_by_stem ri) (last_segment path) []"
  let ?o = "indexed_first ri (filter (\<lambda>k. k \<noteq> claimant) ?f)"
  have o: "set ?o \<subseteq> set ?f" "claimant \<notin> set ?o"
    using indexed_first_subset [of ri "filter (\<lambda>k. k \<noteq> claimant) ?f"] by auto
  show ?thesis
  proof (cases "last_segment path = [] \<or> ?o = []")
    case True
    then show ?thesis using assms by (auto simp: match_stem_def Let_def split: if_splits)
  next
    case False
    then have "pick ri ?o (node_root ri claimant) = (kind, found)"
      using assms by (simp add: match_stem_def Let_def)
    from pick_cases [OF this] False o show ?thesis by auto
  qed
qed

lemma match_cases:
  assumes "match ri reference claimant = (kind, found)"
  shows "(kind = Resolved \<and> (\<exists>k. found = [k] \<and> k \<noteq> claimant \<and> k \<in> candidates_of ri reference)) \<or>
         (kind = Ambiguous \<and> 1 < length found \<and> claimant \<notin> set found
            \<and> set found \<subseteq> candidates_of ri reference) \<or>
         (kind \<in> {Dangling, SelfClaim} \<and> found = [])"
proof -
  let ?path = "reference_path_key reference"
  let ?f = "dict_get (ri_by_path ri) ?path []"
  let ?o = "indexed_first ri (filter (\<lambda>k. k \<noteq> claimant) ?f)"
  have o: "set ?o \<subseteq> set ?f" "claimant \<notin> set ?o"
    using indexed_first_subset [of ri "filter (\<lambda>k. k \<noteq> claimant) ?f"] by auto
  consider (path) "CHR ''/'' \<in> set ?path" "?o \<noteq> []" "pick ri ?o (node_root ri claimant) = (kind, found)"
    | (self) "kind = SelfClaim" "found = []"
    | (stem) "match_stem ri ?path claimant = (kind, found)"
    using assms unfolding match_def Let_def
    by (cases "CHR ''/'' \<in> set ?path"; cases "?o = []"; cases "?f = []") simp_all
  then show ?thesis
  proof cases
    case path
    from pick_cases [OF path(3,2)] o path(1) show ?thesis
      by (auto simp: candidates_of_def Let_def)
  next
    case stem
    from match_stem_cases [OF stem] show ?thesis by (auto simp: candidates_of_def Let_def)
  qed simp
qed

section \<open>The index\<close>

lemma dict_ok_setdefault: "dict_ok d \<Longrightarrow> dict_ok (dict_setdefault k v d)"
  by (auto simp: dict_ok_def dict_setdefault_def map_of_eq_None_iff)

lemma index_nodes_ok: "dict_ok (index_nodes collided rooted)"
proof -
  have "dict_ok d \<Longrightarrow> dict_ok (fold (\<lambda>((file, source), r). dict_setdefault (index_key collided file source) (file, r, source)) rooted d)" for d
    by (induction rooted arbitrary: d) (auto intro: dict_ok_setdefault simp: case_prod_unfold)
  then show ?thesis by (simp add: index_nodes_def)
qed

lemma index_by_get:
  "dict_get (index_by name nodes) p [] = map fst (filter (\<lambda>(k, f, r, s). name f = p) nodes)"
proof -
  have "dict_get (fold (\<lambda>(k, (file, r, s)). dict_append (name file) k) nodes d) p [] =
      dict_get d p [] @ map fst (filter (\<lambda>(k, f, r, s). name f = p) nodes)" for d
    by (induction nodes arbitrary: d) auto
  from this [of "[]"] show ?thesis by (simp add: index_by_def)
qed

lemma make_reference_index_shape:
  assumes "make_reference_index u files ghosts staged = Inr ri"
  shows "ri_by_path ri = index_by reference_path_key (ri_nodes ri)"
    and "ri_by_stem ri = index_by reference_stem_key (ri_nodes ri)"
    and "dict_ok (ri_nodes ri)"
  using assms index_nodes_ok by (auto simp: make_reference_index_def Let_def split: sum.splits)

text \<open>The documents whose file has a given name under one of the two foldings, as lists and as sets.\<close>

definition nodes_named :: "(string \<Rightarrow> string) \<Rightarrow> reference_index \<Rightarrow> string \<Rightarrow> key set" where
  "nodes_named name ri p = {k. \<exists>f. node_file ri k = Some f \<and> name f = p}"

lemma index_by_nodes:
  assumes "dict_ok (ri_nodes ri)"
  shows "set (dict_get (index_by name (ri_nodes ri)) p []) = nodes_named name ri p"
    and "distinct (dict_get (index_by name (ri_nodes ri)) p [])"
proof -
  have "map_of (ri_nodes ri) k = Some (f, r, s) \<longleftrightarrow> (k, f, r, s) \<in> set (ri_nodes ri)" for k f r s
    using assms by (auto simp: dict_ok_def dest: map_of_SomeD intro: map_of_is_SomeI)
  then show "set (dict_get (index_by name (ri_nodes ri)) p []) = nodes_named name ri p"
    by (force simp: index_by_get nodes_named_def node_file_def)
  show "distinct (dict_get (index_by name (ri_nodes ri)) p [])"
    using assms by (simp add: index_by_get dict_ok_def distinct_map_filter)
qed

section \<open>What a reference may name\<close>

text \<open>
  A reference names the documents of its path if it has a folder and they exist, else those of its stem. Removed
  memos give way to indexed documents that are not uploads, except where they share a file with one.
\<close>

definition named_by :: "reference_index \<Rightarrow> string \<Rightarrow> key set" where
  "named_by ri reference = (let path = reference_path_key reference in
     if CHR ''/'' \<in> set path \<and> nodes_named reference_path_key ri path \<noteq> {} then nodes_named reference_path_key ri path
     else if last_segment path = [] then {} else nodes_named reference_stem_key ri (last_segment path))"

definition preferred :: "reference_index \<Rightarrow> key set \<Rightarrow> key set" where
  "preferred ri K = (let removed = K \<inter> ri_ghosts ri; indexed = K - ri_ghosts ri - ri_staged ri in
     if removed = {} then K else if indexed = {} then removed
     else indexed \<union> {g \<in> removed. node_file ri g \<in> node_file ri ` indexed})"

definition rivals :: "reference_index \<Rightarrow> string \<Rightarrow> key \<Rightarrow> key set" where
  "rivals ri reference claimant = preferred ri (named_by ri reference - {claimant})"

text \<open>The one copy under the claimant's own root, of several copies of one file.\<close>

definition own_copy :: "reference_index \<Rightarrow> key set \<Rightarrow> key \<Rightarrow> key \<Rightarrow> bool" where
  "own_copy ri K claimant k \<longleftrightarrow> k \<in> K \<and> (\<forall>j\<in>K. node_file ri j = node_file ri k)
     \<and> (\<forall>j\<in>K. (node_root ri j = node_root ri claimant) = (j = k))"

definition names_itself :: "reference_index \<Rightarrow> string \<Rightarrow> key \<Rightarrow> bool" where
  "names_itself ri reference claimant \<longleftrightarrow> reference_path_key reference \<noteq> []
     \<and> (\<exists>f. node_file ri claimant = Some f \<and> reference_path_key f = reference_path_key reference)"

text \<open>What a match may answer when \<open>K\<close> is all that the reference may name.\<close>

definition match_outcome :: "reference_index \<Rightarrow> key set \<Rightarrow> key \<Rightarrow> match_kind \<Rightarrow> key list \<Rightarrow> bool" where
  "match_outcome ri K claimant kind found = (case kind of
     Resolved \<Rightarrow> (\<exists>k. found = [k] \<and> (K = {k} \<or> own_copy ri K claimant k))
   | Ambiguous \<Rightarrow> set found = K \<and> distinct found \<and> 1 < card K \<and> \<not> (\<exists>k. own_copy ri K claimant k)
   | _ \<Rightarrow> found = [] \<and> K = {})"

lemma indexed_first_preferred:
  assumes "distinct keys"
  shows "set (indexed_first ri keys) = preferred ri (set keys)" and "distinct (indexed_first ri keys)"
proof -
  have all: "length (filter (\<lambda>k. k \<notin> ri_ghosts ri) keys) = length keys \<longleftrightarrow> set keys \<inter> ri_ghosts ri = {}"
  proof -
    have "length (filter P xs) = length xs \<longleftrightarrow> (\<forall>x\<in>set xs. P x)" for P and xs :: "key list"
    proof (induction xs)
      case (Cons x xs)
      have "length (filter P xs) \<noteq> Suc (length xs)" using length_filter_le [of P xs] by linarith
      with Cons show ?case by simp
    qed simp
    from this [of "\<lambda>k. k \<notin> ri_ghosts ri" keys] show ?thesis by auto
  qed
  have none: "filter P keys = [] \<longleftrightarrow> {k \<in> set keys. P k} = {}" for P by (auto simp: filter_empty_conv)
  show "set (indexed_first ri keys) = preferred ri (set keys)"
    by (auto simp: indexed_first_def preferred_def Let_def all none filter_empty_conv)
  show "distinct (indexed_first ri keys)" using assms by (auto simp: indexed_first_def Let_def)
qed

lemma others_of:
  assumes "distinct found"
  shows "set (indexed_first ri (filter (\<lambda>k. k \<noteq> claimant) found)) = preferred ri (set found - {claimant})"
    and "distinct (indexed_first ri (filter (\<lambda>k. k \<noteq> claimant) found))"
proof -
  have "set (filter (\<lambda>k. k \<noteq> claimant) found) = set found - {claimant}" by auto
  then show "set (indexed_first ri (filter (\<lambda>k. k \<noteq> claimant) found)) = preferred ri (set found - {claimant})"
    using indexed_first_preferred(1) [OF distinct_filter [OF assms]] by metis
  show "distinct (indexed_first ri (filter (\<lambda>k. k \<noteq> claimant) found))"
    by (rule indexed_first_preferred(2) [OF distinct_filter [OF assms]])
qed

lemma indexed_first_Nil: "indexed_first ri [] = []"
  by (simp add: indexed_first_def)

lemma preferred_empty: "preferred ri K = {} \<longleftrightarrow> K = {}"
  by (auto simp: preferred_def Let_def)

lemma distinct_singleton: "set xs = {k} \<Longrightarrow> distinct xs \<Longrightarrow> xs = [k]"
  by (cases xs; cases "tl xs") auto

lemma pick_exact:
  assumes "distinct others" "others \<noteq> []" "pick ri others (node_root ri claimant) = (kind, found)"
  shows "(kind = Resolved \<and> (\<exists>k. found = [k] \<and> (set others = {k} \<or> own_copy ri (set others) claimant k)))
     \<or> (kind = Ambiguous \<and> found = others \<and> 1 < card (set others) \<and> \<not> (\<exists>k. own_copy ri (set others) claimant k))"
proof (cases "length others = 1")
  case True
  then obtain k where "others = [k]" by (cases others) auto
  then show ?thesis using assms(3) by (auto simp: pick_def)
next
  case False
  then have card: "1 < card (set others)" using assms(1,2) by (cases others) (auto simp: distinct_card)
  let ?same = "filter (\<lambda>k. node_root ri k = node_root ri claimant) others"
  have own: "own_copy ri (set others) claimant k \<longleftrightarrow> card (node_file ri ` set others) = 1 \<and> ?same = [k]" for k
  proof
    assume o: "own_copy ri (set others) claimant k"
    then have k: "k \<in> set others" "\<forall>j\<in>set others. (node_root ri j = node_root ri claimant) = (j = k)"
      and f: "\<And>j. j \<in> set others \<Longrightarrow> node_file ri j = node_file ri k" unfolding own_copy_def by blast+
    have "node_file ri ` set others = (\<lambda>_. node_file ri k) ` set others" using f by (rule image_cong [OF refl])
    then have "node_file ri ` set others = {node_file ri k}" using k(1) by auto
    moreover have "set ?same = {k}" using k by auto
    then have "?same = [k]" using distinct_filter [OF assms(1)] by (rule distinct_singleton)
    ultimately show "card (node_file ri ` set others) = 1 \<and> ?same = [k]" by simp
  next
    assume c: "card (node_file ri ` set others) = 1 \<and> ?same = [k]"
    then have "set ?same = {k}" by simp
    then have eq: "{j \<in> set others. node_root ri j = node_root ri claimant} = {k}" by simp
    then have k: "k \<in> set others" "\<forall>j\<in>set others. (node_root ri j = node_root ri claimant) = (j = k)" by blast+
    obtain f where "node_file ri ` set others = {f}" using c card_1_singletonE by blast
    then have "\<forall>j\<in>set others. node_file ri j = f" by auto
    then show "own_copy ri (set others) claimant k" using k by (auto simp: own_copy_def)
  qed
  show ?thesis
  proof (cases "card (node_file ri ` set others) = 1 \<and> length ?same = 1")
    case True
    then obtain k where "?same = [k]" by (metis One_nat_def length_0_conv length_Suc_conv)
    then have "kind = Resolved" "found = [k]" "own_copy ri (set others) claimant k"
      using assms(3) True False own [of k] by (auto simp: pick_def Let_def)
    then show ?thesis by blast
  next
    case no: False
    then have "kind = Ambiguous" "found = others" using assms(3) False by (auto simp: pick_def Let_def split: if_splits)
    moreover have "\<not> own_copy ri (set others) claimant k" for k using no own [of k] by auto
    ultimately show ?thesis using card by blast
  qed
qed

lemma match_stem_exact:
  assumes "dict_ok (ri_nodes ri)" "ri_by_stem ri = index_by reference_stem_key (ri_nodes ri)" "last_segment path \<noteq> []"
    and "match_stem ri path claimant = (kind, found)"
    and "K = preferred ri (nodes_named reference_stem_key ri (last_segment path) - {claimant})"
  shows "match_outcome ri K claimant kind found"
    and "(kind = SelfClaim) = (K = {} \<and> (\<exists>f. node_file ri claimant = Some f \<and> reference_path_key f = path))"
proof -
  let ?f = "dict_get (ri_by_stem ri) (last_segment path) []"
  let ?o = "indexed_first ri (filter (\<lambda>k. k \<noteq> claimant) ?f)"
  have f: "set ?f = nodes_named reference_stem_key ri (last_segment path)" "distinct ?f"
    using index_by_nodes [OF assms(1)] assms(2) by simp_all
  have o: "set ?o = K" "distinct ?o"
    using others_of [OF f(2), of ri claimant] unfolding f(1) assms(5) by simp_all
  have self: "(\<exists>f. node_file ri claimant = Some f \<and> reference_path_key f = path) \<Longrightarrow> ?f \<noteq> []"
  proof -
    assume "\<exists>f. node_file ri claimant = Some f \<and> reference_path_key f = path"
    then have "claimant \<in> set ?f" unfolding f(1) by (auto simp: nodes_named_def reference_stem_key_def)
    then show ?thesis by auto
  qed
  have "match_outcome ri K claimant kind found
     \<and> (kind = SelfClaim) = (K = {} \<and> (\<exists>f. node_file ri claimant = Some f \<and> reference_path_key f = path))"
  proof (cases "?o = []")
    case True
    then have K: "K = {}" using o(1) by simp
    have "(kind, found) = (if ?f \<noteq> [] \<and> (\<exists>f. node_file ri claimant = Some f \<and> reference_path_key f = path)
        then (SelfClaim, []) else (Dangling, []))"
      using assms(3,4) True by (auto simp: match_stem_def Let_def split: option.splits if_splits)
    then show ?thesis using K self by (auto simp: match_outcome_def split: if_splits)
  next
    case False
    then have "pick ri ?o (node_root ri claimant) = (kind, found)"
      using assms(3,4) by (simp add: match_stem_def Let_def)
    note p = pick_exact [OF o(2) False this, unfolded o(1)]
    have "K \<noteq> {}" using False o(1) by auto
    then show ?thesis using p o(2) by (elim disjE conjE) (auto simp: match_outcome_def o(1))
  qed
  then show "match_outcome ri K claimant kind found"
    "(kind = SelfClaim) = (K = {} \<and> (\<exists>f. node_file ri claimant = Some f \<and> reference_path_key f = path))" by blast+
qed

lemma match_exact:
  assumes shape: "ri_by_path ri = index_by reference_path_key (ri_nodes ri)"
      "ri_by_stem ri = index_by reference_stem_key (ri_nodes ri)" "dict_ok (ri_nodes ri)"
    and m: "match ri reference claimant = (kind, found)"
  shows "match_outcome ri (rivals ri reference claimant) claimant kind found
     \<and> (kind = SelfClaim) = (rivals ri reference claimant = {} \<and> names_itself ri reference claimant)"
proof -
  define path where "path = reference_path_key reference"
  let ?self = "\<exists>f. node_file ri claimant = Some f \<and> reference_path_key f = path"
  let ?f = "dict_get (ri_by_path ri) path []"
  let ?o = "indexed_first ri (filter (\<lambda>k. k \<noteq> claimant) ?f)"
  have f: "set ?f = nodes_named reference_path_key ri path" "distinct ?f"
    using index_by_nodes [OF shape(3)] shape(1) by simp_all
  have self: "claimant \<in> nodes_named reference_path_key ri path \<longleftrightarrow> ?self" by (auto simp: nodes_named_def)
  consider (path) "CHR ''/'' \<in> set path" "?f \<noteq> []" | (stem) "\<not> (CHR ''/'' \<in> set path \<and> ?f \<noteq> [])" by blast
  then show ?thesis
  proof cases
    case path
    then have "nodes_named reference_path_key ri path \<noteq> {}" using f(1) by (metis set_empty)
    then have named: "named_by ri reference = set ?f" unfolding f(1) using path(1) by (simp add: named_by_def path_def Let_def)
    have o: "set ?o = rivals ri reference claimant" "distinct ?o"
      using others_of [OF f(2), of ri claimant] by (simp_all add: rivals_def named)
    have own: "names_itself ri reference claimant \<longleftrightarrow> ?self"
      using path(1) by (auto simp: names_itself_def path_def)
    show ?thesis
    proof (cases "?o = []")
      case True
      then have "kind = SelfClaim" "found = []" using m path by (simp_all add: match_def path_def Let_def)
      moreover have K: "rivals ri reference claimant = {}" using True o(1) by simp
      then have "set ?f - {claimant} = {}" by (simp add: rivals_def named preferred_empty)
      then have "claimant \<in> set ?f" using path(2) by (cases ?f) auto
      then have ?self using self f(1) by simp
      ultimately show ?thesis using K own by (simp add: match_outcome_def)
    next
      case False
      then have "pick ri ?o (node_root ri claimant) = (kind, found)" using m path by (simp add: match_def path_def Let_def)
      note p = pick_exact [OF o(2) False this, unfolded o(1)]
      have "rivals ri reference claimant \<noteq> {}" using False o(1) by auto
      then show ?thesis using p o(2) by (elim disjE conjE) (auto simp: match_outcome_def o(1))
    qed
  next
    case stem
    have mm: "match_stem ri path claimant = (kind, found)" 
      using m stem by (cases "CHR ''/'' \<in> set path") (simp_all add: match_def path_def [symmetric] indexed_first_Nil)
    have nopath: "CHR ''/'' \<in> set path \<Longrightarrow> \<not> ?self" using stem self f(1) by auto
    show ?thesis
    proof (cases "last_segment path = []")
      case True
      then have "kind = Dangling" "found = []" using mm by (simp_all add: match_stem_def)
      moreover have "rivals ri reference claimant = {}"
        using True stem f(1) by (auto simp: rivals_def named_by_def preferred_empty path_def Let_def)
      moreover have "\<not> names_itself ri reference claimant"
      proof (cases "CHR ''/'' \<in> set path")
        case False
        then have "path = []" using True last_segment_id by metis
        then show ?thesis by (simp add: names_itself_def path_def)
      qed (use nopath in \<open>simp add: names_itself_def path_def\<close>)
      ultimately show ?thesis by (simp add: match_outcome_def)
    next
      case False
      then have K: "rivals ri reference claimant = preferred ri (nodes_named reference_stem_key ri (last_segment path) - {claimant})"
        using stem f(1) by (auto simp: rivals_def named_by_def path_def Let_def)
      have "path \<noteq> []" using False by (auto simp: last_segment_def)
      then show ?thesis using match_stem_exact [OF shape(3,2) False mm K] by (simp add: names_itself_def path_def)
    qed
  qed
qed

text \<open>
  C6. A reference is never guessed and never lost. Of the documents it may name, the claimant left out and removed
  memos giving way to indexed ones: if there is one, it resolves to that one; if there are several, it
  resolves only when all are copies of one file and exactly one is under the claimant's root, and then to that
  copy; otherwise it is ambiguous, all of them are reported and none is chosen. It resolves to nothing only when
  there is none, and is called a self claim exactly when in that case the claimant's own path is named.
\<close>

theorem match_never_guesses:
  "(case make_reference_index u files ghosts staged of
      Inl e \<Rightarrow> True
    | Inr ri \<Rightarrow> (case match ri reference claimant of (kind, found) \<Rightarrow>
        match_outcome ri (rivals ri reference claimant) claimant kind found \<and>
        (kind = SelfClaim) = (rivals ri reference claimant = {} \<and> names_itself ri reference claimant)))"
proof (cases "make_reference_index u files ghosts staged")
  case (Inr ri)
  obtain kind found where m: "match ri reference claimant = (kind, found)" by (cases "match ri reference claimant")
  from match_exact [OF make_reference_index_shape [OF Inr] m] show ?thesis using Inr m by simp
qed simp

section \<open>The claim maps\<close>

definition slot_ok :: "key set \<Rightarrow> (key \<times> key, instant option) dict \<Rightarrow> key \<Rightarrow> key list \<Rightarrow> bool" where
  "slot_ok W dates k cl \<longleftrightarrow>
     distinct cl \<and> k \<notin> set cl \<and> set cl \<inter> W = {} \<and> (\<forall>m \<in> set cl. (k, m) \<in> fst ` set dates)"

definition claims_ok :: "key set \<Rightarrow> claim_maps \<Rightarrow> bool" where
  "claims_ok W maps = (case maps of (winner, order, dates) \<Rightarrow>
     (\<forall>k. map_of winner k = map_option last (map_of order k)) \<and>
     (\<forall>k cl. map_of order k = Some cl \<longrightarrow> cl \<noteq> [] \<and> slot_ok W dates k cl))"

lemma slot_ok_mono: "slot_ok W d k cl \<Longrightarrow> fst ` set d \<subseteq> fst ` set d' \<Longrightarrow> slot_ok W d' k cl"
  by (auto simp: slot_ok_def)

lemma slot_ok_Nil [simp]: "slot_ok W d k []"
  by (simp add: slot_ok_def)

lemma claims_ok_get: "claims_ok W (winner, order, dates) \<Longrightarrow> slot_ok W dates k (dict_get order k [])"
  by (auto simp: claims_ok_def dict_get_def split: option.splits)

lemma claims_ok_set:
  assumes "claims_ok W (winner, order, dates)" "cl \<noteq> []" "slot_ok W dates' k cl" "last cl = m"
    and "fst ` set dates \<subseteq> fst ` set dates'"
  shows "claims_ok W (dict_set k m winner, dict_set k cl order, dates')"
proof -
  have "slot_ok W dates' k' cl'" if "map_of order k' = Some cl'" for k' cl'
    using assms(1) that slot_ok_mono [OF _ assms(5)] by (auto simp: claims_ok_def)
  then show ?thesis using assms(1-4) by (auto simp: claims_ok_def)
qed

lemma claims_ok_pop:
  "claims_ok W (winner, order, dates) \<Longrightarrow> claims_ok W (dict_pop k winner, dict_pop k order, dates)"
  by (auto simp: claims_ok_def)

abbreviation maps_of_state :: "resolve_state \<Rightarrow> claim_maps" where
  "maps_of_state st \<equiv> (rs_winner st, rs_order st, rs_when st)"

lemma note_claim_ok:
  assumes "claims_ok W (maps_of_state st)" "target \<noteq> claimant" "claimant \<notin> W"
  shows "claims_ok W (maps_of_state (note_claim target claimant first st))"
proof -
  let ?cl = "remove1 claimant (dict_get (rs_order st) target []) @ [claimant]"
  let ?d = "dict_set (target, claimant) (claim_date (rs_when st) (target, claimant) first) (rs_when st)"
  have "slot_ok W (rs_when st) target (dict_get (rs_order st) target [])"
    using assms(1) by (rule claims_ok_get)
  then have "slot_ok W ?d target ?cl"
    using assms(2,3) by (auto simp: slot_ok_def distinct_remove1 dest: notin_set_remove1 set_remove1_subset [THEN subsetD])
  then show ?thesis
    using claims_ok_set [OF assms(1), of ?cl ?d target claimant] by (auto simp: note_claim_def)
qed

lemma note_others_maps [simp]:
  "maps_of_state (note_window c p st) = maps_of_state st"
  "maps_of_state (note_withdrawn c s k f st) = maps_of_state st"
  "maps_of_state (note_ambiguous c s f st) = maps_of_state st"
  by (auto simp: note_window_def note_withdrawn_def note_ambiguous_def
      split: option.splits match_kind.splits)

lemma resolve_row_ok:
  assumes "claims_ok W (maps_of_state st)"
  shows "claims_ok W (maps_of_state (resolve_row ri W parts st))"
proof (cases "nonempty (rp_file parts)"; cases "nonempty (rp_supersedes parts)")
  fix f supersedes
  assume n: "nonempty (rp_file parts) = Some f" "nonempty (rp_supersedes parts) = Some supersedes"
  define c where "c = index_key (ri_collided ri) f (rp_source parts)"
  define st1 where "st1 = note_window c parts st"
  have st1: "claims_ok W (maps_of_state st1)" using assms by (simp add: st1_def)
  obtain kind found where m: "match ri supersedes c = (kind, found)" by fastforce
  define t where "t = (if kind = Resolved then hd found else dangling_key supersedes)"
  have r: "resolve_row ri W parts st =
      (if kind = SelfClaim then st1
       else if c \<in> W then note_withdrawn c supersedes kind found st1
       else if kind = Ambiguous then note_ambiguous c supersedes found st1
       else if kind \<noteq> Resolved \<and> t = c then st1 else note_claim t c (rp_first parts) st1)"
    by (simp add: resolve_row_def n c_def [symmetric] st1_def [symmetric] m t_def Let_def)
  have "t \<noteq> c" if "kind = Resolved" using match_cases [OF m] that by (auto simp: t_def)
  then show ?thesis using st1 note_claim_ok [OF st1, of t c] by (auto simp: r)
qed (use assms in \<open>simp_all add: resolve_row_def\<close>)

lemma resolve_fold_ok: "claims_ok W (maps_of_state (fold (resolve_row ri W) parts resolve_init))"
proof -
  have "claims_ok W (maps_of_state resolve_init)" by (simp add: claims_ok_def resolve_init_def)
  then show ?thesis
    by (rule fold_invariant [where Q = "\<lambda>_. True", rotated]) (simp_all add: resolve_row_ok)
qed

section \<open>Withdrawing a memo\<close>

lemma splice_claimants_slot:
  assumes "slot_ok W dates target slot" "set moved \<inter> W = {}"
    and "fold (splice_claimant k target) moved (slot, dates) = (slot', dates')"
  shows "slot_ok W dates' target slot' \<and> fst ` set dates \<subseteq> fst ` set dates' \<and>
    set slot' = set slot \<union> (set moved - {target})"
  using assms
proof (induction moved arbitrary: slot dates)
  case (Cons m moved)
  obtain s d where sd: "splice_claimant k target m (slot, dates) = (s, d)" by fastforce
  have "slot_ok W d target s \<and> fst ` set dates \<subseteq> fst ` set d \<and> set s = set slot \<union> ({m} - {target})"
  proof (cases "m = target \<or> m \<in> set slot")
    case False
    then have s: "s = slot @ [m]" and d: "d = dict_set (target, m) (dict_get dates (k, m) None) dates"
      using sd by (auto simp: splice_claimant_def)
    have "fst ` set d = insert (target, m) (fst ` set dates)" unfolding d by (rule keys_dict_set)
    then show ?thesis using s False Cons.prems(1,2) by (auto simp: slot_ok_def)
  qed (use Cons.prems(1) sd in \<open>auto simp: splice_claimant_def\<close>)
  moreover from this have "slot_ok W dates' target slot' \<and> fst ` set d \<subseteq> fst ` set dates' \<and>
      set slot' = set s \<union> (set moved - {target})"
    using Cons.IH [of d s] Cons.prems sd by simp
  ultimately show ?case by (simp only: list.set) blast
qed simp

lemma splice_target_ok:
  assumes "claims_ok W (winner, order, dates)" "set moved \<inter> W = {}"
    and "splice_target k moved target (winner, order, dates) = (winner', order', dates')"
  shows "claims_ok W (winner', order', dates')"
    and "set (dict_get order' x []) =
      (if x = target then set (dict_get order target []) \<union> (set moved - {target}) else set (dict_get order x []))"
    and "x \<noteq> target \<Longrightarrow> map_of order' x = map_of order x"
proof -
  obtain s d where sd: "fold (splice_claimant k target) moved (dict_get order target [], dates) = (s, d)"
    by fastforce
  note slot = splice_claimants_slot [OF claims_ok_get [OF assms(1)] assms(2) sd]
  have r: "(winner', order', dates') =
      (if s \<noteq> [] then (dict_set target (last s) winner, dict_set target s order, d)
       else (winner, dict_pop target order, d))"
    using assms(3) by (simp add: splice_target_def sd split: if_splits)
  have empty: "s = [] \<Longrightarrow> dict_get order target [] = []" using slot by auto
  have "s = [] \<Longrightarrow> map_of order target = None"
    using empty assms(1) by (cases "map_of order target") (auto simp: claims_ok_def dict_get_def)
  then have pop: "s = [] \<Longrightarrow> map_of (dict_pop target order) = map_of order" by auto
  show "claims_ok W (winner', order', dates')"
  proof (cases "s = []")
    case True
    then show ?thesis using r pop assms(1) slot by (auto simp: claims_ok_def intro: slot_ok_mono)
  next
    case False
    then show ?thesis using r claims_ok_set [OF assms(1) False, of d target "last s"] slot by simp
  qed
  show "set (dict_get order' x []) =
      (if x = target then set (dict_get order target []) \<union> (set moved - {target}) else set (dict_get order x []))"
    using r slot empty by (auto split: if_splits)
  show "x \<noteq> target \<Longrightarrow> map_of order' x = map_of order x"
    using r by (auto split: if_splits)
qed

lemma splice_fold_ok:
  assumes "claims_ok W (winner, order, dates)" "set moved \<inter> W = {}"
    and "fold (splice_target k moved) ts (winner, order, dates) = (winner', order', dates')"
  shows "claims_ok W (winner', order', dates') \<and>
    (\<forall>x. set (dict_get order' x []) =
       set (dict_get order x []) \<union> (if x \<in> set ts then set moved - {x} else {})) \<and>
    (\<forall>x. x \<notin> set ts \<longrightarrow> map_of order' x = map_of order x)"
  using assms
proof (induction ts arbitrary: winner order dates)
  case (Cons t ts)
  obtain w o' d where wod: "splice_target k moved t (winner, order, dates) = (w, o', d)"
    by (metis prod_cases3)
  note one = splice_target_ok [OF Cons.prems(1,2) wod]
  have "claims_ok W (winner', order', dates') \<and>
    (\<forall>x. set (dict_get order' x []) =
       set (dict_get o' x []) \<union> (if x \<in> set ts then set moved - {x} else {})) \<and>
    (\<forall>x. x \<notin> set ts \<longrightarrow> map_of order' x = map_of o' x)"
    using Cons.IH [OF one(1) Cons.prems(2)] Cons.prems(3) wod by simp
  then show ?case using one(2,3) by auto
qed simp

text \<open>What a withdrawn memo retired, directly or through other withdrawn memos.\<close>

definition retired_by :: "key set \<Rightarrow> (key, key list) dict \<Rightarrow> (key \<times> key) set" where
  "retired_by W T = {(a, b). a \<in> W \<and> b \<in> set (dict_get T a [])}"

definition dfs_closed :: "key set \<Rightarrow> (key, key list) dict \<Rightarrow> key list \<Rightarrow> key list \<Rightarrow> bool" where
  "dfs_closed W T seen stack \<longleftrightarrow>
     (\<forall>a \<in> set seen. \<forall>b. (a, b) \<in> retired_by W T \<longrightarrow> b \<in> set seen \<union> set stack)"

lemma dfs_closed_leaves:
  assumes "(a, x) \<in> (retired_by W T)\<^sup>*" "a \<in> set seen" "x \<notin> set seen" "dfs_closed W T seen stack"
  shows "\<exists>s \<in> set stack. s \<notin> set seen \<and> (s, x) \<in> (retired_by W T)\<^sup>*"
  using assms
proof (induction rule: converse_rtrancl_induct)
  case (step a b)
  then show ?case by (cases "b \<in> set seen") (auto simp: dfs_closed_def)
qed simp

lemma retired_by_start:
  "(t, x) \<in> (retired_by W T)\<^sup>* \<longleftrightarrow>
     x = t \<or> t \<in> W \<and> (\<exists>s \<in> set (dict_get T t []). (s, x) \<in> (retired_by W T)\<^sup>*)"
  by (auto elim: converse_rtranclE intro: converse_rtrancl_into_rtrancl simp: retired_by_def)

lemma splice_targets_reach:
  assumes "dfs_closed W T seen stack"
  shows "set (splice_targets W T seen stack) =
    {x. x \<notin> W \<and> x \<notin> set seen \<and> (\<exists>s \<in> set stack. (s, x) \<in> (retired_by W T)\<^sup>*)}"
  using assms
proof (induction W T seen stack rule: splice_targets.induct)
  case (2 W T seen t stack)
  consider "t \<in> set seen" | "t \<notin> set seen" "t \<in> W" | "t \<notin> set seen" "t \<notin> W" by blast
  then show ?case
  proof cases
    case 1
    then have "dfs_closed W T seen stack" using 2(4) by (auto simp: dfs_closed_def)
    moreover from this have "\<exists>s \<in> set stack. (s, x) \<in> (retired_by W T)\<^sup>*"
      if "(t, x) \<in> (retired_by W T)\<^sup>*" "x \<notin> set seen" for x
      using dfs_closed_leaves [OF that(1) 1 that(2)] by blast
    ultimately show ?thesis using 2(1) 1 by auto
  next
    case 2
    then have "dfs_closed W T (t # seen) (dict_get T t [] @ stack)"
      using "2.prems" by (auto simp: dfs_closed_def retired_by_def)
    then show ?thesis using "2.IH"(2) 2 retired_by_start [of t _ W T] by auto
  next
    case 3
    then have "dfs_closed W T (t # seen) stack"
      using "2.prems" by (auto simp: dfs_closed_def retired_by_def)
    then show ?thesis using "2.IH"(3) 3 retired_by_start [of t _ W T] by auto
  qed
qed simp

lemma splice_targets_memo:
  assumes "k \<in> W"
  shows "set (splice_targets W T [k] (dict_get T k [])) = {x. x \<notin> W \<and> (k, x) \<in> (retired_by W T)\<^sup>+}"
proof -
  have "dfs_closed W T [k] (dict_get T k [])" by (simp add: dfs_closed_def retired_by_def)
  moreover have "(\<exists>s \<in> set (dict_get T k []). (s, x) \<in> (retired_by W T)\<^sup>*) \<longleftrightarrow> (k, x) \<in> (retired_by W T)\<^sup>+" for x
    using assms by (auto simp: retired_by_def tranclD2 dest!: tranclD intro: rtrancl_into_trancl2)
  ultimately show ?thesis using splice_targets_reach [of W T "[k]"] assms by auto
qed


lemma splice_memo_ok:
  assumes "claims_ok W (winner, order, dates)" "k \<in> W"
    and "splice_memo W T k (winner, order, dates) = (winner', order', dates')"
  shows "claims_ok W (winner', order', dates')" and "map_of order' k = None"
    and "x \<in> W \<Longrightarrow> x \<noteq> k \<Longrightarrow> map_of order' x = map_of order x"
    and "x \<notin> W \<Longrightarrow> set (dict_get order' x []) = set (dict_get order x []) \<union>
      (if (k, x) \<in> (retired_by W T)\<^sup>+ then set (dict_get order k []) - {x} else {})"
proof -
  let ?moved = "dict_get order k []" and ?ts = "splice_targets W T [k] (dict_get T k [])"
  have pop: "claims_ok W (dict_pop k winner, dict_pop k order, dates)"
    by (rule claims_ok_pop [OF assms(1)])
  have moved: "set ?moved \<inter> W = {}" using claims_ok_get [OF assms(1), of k] by (simp add: slot_ok_def)
  note ts = splice_targets_memo [OF assms(2), of T]
  have all: "claims_ok W (winner', order', dates') \<and>
    (\<forall>x. set (dict_get order' x []) =
       set (dict_get (dict_pop k order) x []) \<union> (if x \<in> set ?ts then set ?moved - {x} else {})) \<and>
    (\<forall>x. x \<notin> set ?ts \<longrightarrow> map_of order' x = map_of (dict_pop k order) x)"
  proof (cases "?moved = []")
    case True
    then show ?thesis using assms(3) pop by (auto simp: splice_memo_def)
  next
    case False
    then have "fold (splice_target k ?moved) ?ts (dict_pop k winner, dict_pop k order, dates)
        = (winner', order', dates')" using assms(3) by (simp add: splice_memo_def Let_def)
    from splice_fold_ok [OF pop moved this] show ?thesis .
  qed
  show "claims_ok W (winner', order', dates')" using all by blast
  show "map_of order' k = None" using all ts assms(2) by simp
  show "x \<in> W \<Longrightarrow> x \<noteq> k \<Longrightarrow> map_of order' x = map_of order x" using all ts by simp
  show "x \<notin> W \<Longrightarrow> set (dict_get order' x []) = set (dict_get order x []) \<union>
      (if (k, x) \<in> (retired_by W T)\<^sup>+ then set (dict_get order k []) - {x} else {})"
    using all ts assms(2) by auto
qed

lemma splice_fold_memos:
  assumes "claims_ok W (winner, order, dates)" "set ks \<subseteq> W" "distinct ks"
    and "fold (splice_memo W T) ks (winner, order, dates) = (winner', order', dates')"
  shows "claims_ok W (winner', order', dates') \<and> (\<forall>k \<in> set ks. map_of order' k = None) \<and>
    (\<forall>x \<in> W - set ks. map_of order' x = map_of order x) \<and>
    (\<forall>x. x \<notin> W \<longrightarrow> set (dict_get order' x []) = set (dict_get order x []) \<union>
      {c. c \<noteq> x \<and> (\<exists>w \<in> set ks. c \<in> set (dict_get order w []) \<and> (w, x) \<in> (retired_by W T)\<^sup>+)})"
  using assms
proof (induction ks arbitrary: winner order dates)
  case (Cons k ks)
  obtain w o' d where wod: "splice_memo W T k (winner, order, dates) = (w, o', d)"
    by (metis prod_cases3)
  have k: "k \<in> W" "k \<notin> set ks" "set ks \<subseteq> W" using Cons.prems by auto
  note one = splice_memo_ok [OF Cons.prems(1) k(1) wod]
  have same: "dict_get o' u [] = dict_get order u []" if "u \<in> set ks" for u
  proof -
    have "u \<in> W" "u \<noteq> k" using k that by auto
    then show ?thesis using one(3) [of u] by (simp add: dict_get_def)
  qed
  have IH: "claims_ok W (winner', order', dates') \<and> (\<forall>k \<in> set ks. map_of order' k = None) \<and>
    (\<forall>x \<in> W - set ks. map_of order' x = map_of o' x) \<and>
    (\<forall>x. x \<notin> W \<longrightarrow> set (dict_get order' x []) = set (dict_get o' x []) \<union>
      {c. c \<noteq> x \<and> (\<exists>w \<in> set ks. c \<in> set (dict_get o' w []) \<and> (w, x) \<in> (retired_by W T)\<^sup>+)})"
    using Cons.IH [OF one(1)] k Cons.prems wod by simp
  have "set (dict_get order' x []) = set (dict_get order x []) \<union>
      {c. c \<noteq> x \<and> (\<exists>w \<in> set (k # ks). c \<in> set (dict_get order w []) \<and> (w, x) \<in> (retired_by W T)\<^sup>+)}"
    if "x \<notin> W" for x
    using IH one(4) [OF that] that by (auto simp: same split: if_splits)
  moreover have "map_of order' k = None" using IH one(2) k by simp
  moreover have "map_of order' x = map_of order x" if "x \<in> W - set (k # ks)" for x
    using IH one(3) that by simp
  ultimately show ?case using IH by simp
qed simp

lemma splice_withdrawn_ok:
  assumes "claims_ok (set W) (winner, order, dates)"
    and "splice_withdrawn W T (winner, order, dates) = (winner', order', dates')"
  shows "claims_ok (set W) (winner', order', dates')"
    and "x \<in> set W \<Longrightarrow> map_of order' x = None"
    and "x \<notin> set W \<Longrightarrow> set (dict_get order' x []) = set (dict_get order x []) \<union>
      {c. c \<noteq> x \<and> (\<exists>w \<in> set W. c \<in> set (dict_get order w []) \<and> (w, x) \<in> (retired_by (set W) T)\<^sup>+)}"
  using splice_fold_memos [OF assms(1) _ _ assms(2) [unfolded splice_withdrawn_def]] by simp_all

section \<open>The graph\<close>

text \<open>
  The agreement of a graph's parts: the edge of a key is the last of its claimants, the claimants of
  a key are listed once, never the key itself, never empty, and none is withdrawn.
\<close>

definition graph_ok :: "key set \<Rightarrow> supersession_graph \<Rightarrow> bool" where
  "graph_ok W g \<longleftrightarrow>
     (\<forall>k. map_of (sg_edges g) k = map_option (fst \<circ> last) (map_of (sg_candidates g) k)) \<and>
     (\<forall>k. (case map_of (sg_candidates g) k of None \<Rightarrow> True
       | Some cl \<Rightarrow> k \<notin> W \<and> cl \<noteq> [] \<and> distinct (map fst cl) \<and> k \<notin> fst ` set cl \<and> fst ` set cl \<inter> W = {}))"

lemma note_ambiguous_other [simp]:
  "rs_winner (note_ambiguous c r f st) = rs_winner st" "rs_order (note_ambiguous c r f st) = rs_order st"
  "rs_when (note_ambiguous c r f st) = rs_when st" "rs_windows (note_ambiguous c r f st) = rs_windows st"
  "rs_unknown (note_ambiguous c r f st) = rs_unknown st"
  by (simp_all add: note_ambiguous_def)

lemma fold_keeps:
  assumes "\<And>x st. g (f x st) = g st"
  shows "g (fold f xs st) = g st"
  by (induction xs arbitrary: st) (simp_all add: assms)

lemma carry_ambiguous_other:
  "maps_of_state (carry_ambiguous st cs) = maps_of_state st"
proof -
  have one: "maps_of_state (fold (\<lambda>(r, f). note_ambiguous c r f) claims st') = maps_of_state st'" for c claims st'
    by (rule fold_keeps [where g = maps_of_state]) (auto split: prod.splits)
  have "maps_of_state (fold (\<lambda>c. fold (\<lambda>(r, f). note_ambiguous c r f) claims) cls st') = maps_of_state st'"
    for claims cls st' by (rule fold_keeps [where g = maps_of_state]) (rule one)
  then show ?thesis
    unfolding carry_ambiguous_def by (intro fold_keeps [where g = maps_of_state]) (auto split: prod.splits)
qed

lemma graph_of_state_candidates:
  "map_of (sg_candidates (graph_of_state ri st)) k = map_option
     (map (\<lambda>f. (f, map_option Aware (dict_get (rs_when st) (k, f) None)))) (map_of (rs_order st) k)"
proof -
  have "map_of (map (\<lambda>(t, cl). (t, h t cl)) d) k = map_option (h k) (map_of d k)"
    for h and d :: "(key, key list) dict" by (induction d) auto
  then show ?thesis by (simp add: graph_of_state_def)
qed

lemma graph_of_state_ok:
  assumes "claims_ok W (maps_of_state st)" "\<And>k. k \<in> W \<Longrightarrow> map_of (rs_order st) k = None"
  shows "graph_ok W (graph_of_state ri st)"
  unfolding graph_ok_def
proof (intro conjI allI)
  fix k
  have win: "map_of (rs_winner st) k = map_option last (map_of (rs_order st) k)"
    using assms(1) by (simp add: claims_ok_def)
  have slot: "cl \<noteq> [] \<and> slot_ok W (rs_when st) k cl" if "map_of (rs_order st) k = Some cl" for cl
    using assms(1) that by (simp add: claims_ok_def)
  show "map_of (sg_edges (graph_of_state ri st)) k
      = map_option (fst \<circ> last) (map_of (sg_candidates (graph_of_state ri st)) k)"
    using win slot unfolding graph_of_state_candidates
    by (cases "map_of (rs_order st) k") (auto simp: graph_of_state_def last_map)
  show "(case map_of (sg_candidates (graph_of_state ri st)) k of None \<Rightarrow> True
       | Some cl \<Rightarrow> k \<notin> W \<and> cl \<noteq> [] \<and> distinct (map fst cl) \<and> k \<notin> fst ` set cl \<and> fst ` set cl \<inter> W = {})"
    using slot assms(2) [of k] unfolding graph_of_state_candidates
    by (cases "map_of (rs_order st) k") (auto simp: slot_ok_def o_def image_image)
qed

definition row_state :: "reference_index \<Rightarrow> key list \<Rightarrow> row_parts list \<Rightarrow> resolve_state" where
  "row_state ri W parts = fold (resolve_row ri (set W)) parts resolve_init"

lemma finish_resolution_maps:
  assumes "splice_withdrawn W (rs_wd_targets st) (maps_of_state st) = (winner, order, dates)"
  obtains st' where "finish_resolution ri W st = graph_of_state ri st'" "maps_of_state st' = (winner, order, dates)"
  using assms carry_ambiguous_other unfolding finish_resolution_def Let_def by auto

lemma finish_resolution_ok: "graph_ok (set W) (finish_resolution ri W (row_state ri W parts))"
proof -
  let ?st = "row_state ri W parts"
  obtain w o' d where s: "splice_withdrawn W (rs_wd_targets ?st) (maps_of_state ?st) = (w, o', d)"
    by (metis prod_cases3)
  have ok: "claims_ok (set W) (maps_of_state ?st)" unfolding row_state_def by (rule resolve_fold_ok)
  note splice = splice_withdrawn_ok [OF ok s]
  obtain st' where st': "finish_resolution ri W ?st = graph_of_state ri st'" "maps_of_state st' = (w, o', d)"
    by (rule finish_resolution_maps [OF s])
  then show ?thesis using graph_of_state_ok [of "set W" st' ri] splice(1,2) by auto
qed

section \<open>What one row says\<close>

text \<open>The specification of a row, read without the loop: the claim it makes, or the documents it leaves in doubt.\<close>

definition row_claim :: "reference_index \<Rightarrow> key set \<Rightarrow> row_parts \<Rightarrow> (key \<times> key) option" where
  "row_claim ri W p = (case (nonempty (rp_file p), nonempty (rp_supersedes p)) of
     (Some f, Some s) \<Rightarrow>
       (let c = index_key (ri_collided ri) f (rp_source p)
        in if c \<in> W then None else (case match ri s c of
             (Resolved, found) \<Rightarrow> Some (hd found, c)
           | (Dangling, found) \<Rightarrow> if dangling_key s = c then None else Some (dangling_key s, c)
           | _ \<Rightarrow> None))
   | _ \<Rightarrow> None)"

definition row_doubt :: "reference_index \<Rightarrow> key set \<Rightarrow> row_parts \<Rightarrow> key set" where
  "row_doubt ri W p = (case (nonempty (rp_file p), nonempty (rp_supersedes p)) of
     (Some f, Some s) \<Rightarrow>
       (let c = index_key (ri_collided ri) f (rp_source p)
        in if c \<in> W then {} else (case match ri s c of (Ambiguous, found) \<Rightarrow> set found | _ \<Rightarrow> {}))
   | _ \<Rightarrow> {})"

lemma note_order_unresolved [simp]:
  "rs_order (note_window c p st) = rs_order st" "rs_order (note_withdrawn c s k f st) = rs_order st"
  "rs_unresolved (note_window c p st) = rs_unresolved st"
  "rs_unresolved (note_withdrawn c s k f st) = rs_unresolved st"
  "rs_unresolved (note_claim t c d st) = rs_unresolved st"
  "rs_unresolved (note_ambiguous c s f st) = rs_unresolved st \<union> set f"
  by (auto simp: note_window_def note_withdrawn_def note_claim_def note_ambiguous_def
      split: option.splits match_kind.splits)

lemma note_claim_order:
  assumes "distinct (dict_get (rs_order st) t [])"
  shows "set (dict_get (rs_order (note_claim t c d st)) x []) =
    set (dict_get (rs_order st) x []) \<union> (if x = t then {c} else {})"
  using assms by (auto simp: note_claim_def)

lemma resolve_row_effect:
  assumes "claims_ok W (maps_of_state st)"
  shows "set (dict_get (rs_order (resolve_row ri W p st)) x []) =
      set (dict_get (rs_order st) x []) \<union> {c. row_claim ri W p = Some (x, c)}"
    and "rs_unresolved (resolve_row ri W p st) = rs_unresolved st \<union> row_doubt ri W p"
proof -
  have dist: "distinct (dict_get (rs_order st) t [])" for t
    using claims_ok_get [OF assms, of t] by (simp add: slot_ok_def)
  show "set (dict_get (rs_order (resolve_row ri W p st)) x []) =
      set (dict_get (rs_order st) x []) \<union> {c. row_claim ri W p = Some (x, c)}"
  proof (cases "nonempty (rp_file p)"; cases "nonempty (rp_supersedes p)")
    fix f s
    assume n: "nonempty (rp_file p) = Some f" "nonempty (rp_supersedes p) = Some s"
    obtain kind found where m: "match ri s (index_key (ri_collided ri) f (rp_source p)) = (kind, found)"
      by fastforce
    show ?thesis
      using dist by (cases kind) (auto simp: resolve_row_def row_claim_def n m Let_def note_claim_order)
  qed (simp_all add: resolve_row_def row_claim_def)
  show "rs_unresolved (resolve_row ri W p st) = rs_unresolved st \<union> row_doubt ri W p"
  proof (cases "nonempty (rp_file p)"; cases "nonempty (rp_supersedes p)")
    fix f s
    assume n: "nonempty (rp_file p) = Some f" "nonempty (rp_supersedes p) = Some s"
    obtain kind found where m: "match ri s (index_key (ri_collided ri) f (rp_source p)) = (kind, found)"
      by fastforce
    show ?thesis
      by (cases kind) (auto simp: resolve_row_def row_doubt_def n m Let_def)
  qed (simp_all add: resolve_row_def row_doubt_def)
qed

lemma resolve_fold_effect:
  assumes "claims_ok W (maps_of_state st)"
  shows "set (dict_get (rs_order (fold (resolve_row ri W) ps st)) x []) =
      set (dict_get (rs_order st) x []) \<union> {c. \<exists>p \<in> set ps. row_claim ri W p = Some (x, c)} \<and>
    rs_unresolved (fold (resolve_row ri W) ps st) = rs_unresolved st \<union> (\<Union>p \<in> set ps. row_doubt ri W p)"
  using assms
proof (induction ps arbitrary: st)
  case (Cons p ps)
  show ?case
    using Cons.IH [OF resolve_row_ok [OF Cons.prems]] resolve_row_effect [OF Cons.prems] by auto
qed simp

lemma row_state_effect:
  "set (dict_get (rs_order (row_state ri W parts)) x []) =
     {c. \<exists>p \<in> set parts. row_claim ri (set W) p = Some (x, c)}"
  "rs_unresolved (row_state ri W parts) = (\<Union>p \<in> set parts. row_doubt ri (set W) p)"
proof -
  have "claims_ok (set W) (maps_of_state resolve_init)" by (simp add: claims_ok_def resolve_init_def)
  from resolve_fold_effect [OF this, of ri parts x]
  show "set (dict_get (rs_order (row_state ri W parts)) x []) =
     {c. \<exists>p \<in> set parts. row_claim ri (set W) p = Some (x, c)}"
    and "rs_unresolved (row_state ri W parts) = (\<Union>p \<in> set parts. row_doubt ri (set W) p)"
    by (simp_all add: row_state_def) (simp_all add: resolve_init_def)
qed

section \<open>Doubt carried over a withdrawn memo\<close>

lemma fold_union:
  assumes "\<And>x st. g (f x st) = g st \<union> h x"
  shows "g (fold f xs st) = g st \<union> (\<Union>x \<in> set xs. h x)"
  by (induction xs arbitrary: st) (auto simp: assms)

lemma carry_ambiguous_unresolved:
  "rs_unresolved (carry_ambiguous st cs) = rs_unresolved st \<union>
     (\<Union>(k, claims) \<in> set (rs_wd_ambiguous st).
        if dict_get cs k [] = [] then {} else \<Union>(r, found) \<in> set claims. set found)"
proof -
  have one: "rs_unresolved (fold (\<lambda>(r, f). note_ambiguous c r f) claims s) =
      rs_unresolved s \<union> (\<Union>(r, found) \<in> set claims. set found)" for c claims s
    by (rule fold_union) auto
  have two: "rs_unresolved (fold (\<lambda>c. fold (\<lambda>(r, f). note_ambiguous c r f) claims) cls s) =
      rs_unresolved s \<union> (if cls = [] then {} else \<Union>(r, found) \<in> set claims. set found)" for claims cls s
    using fold_union [of rs_unresolved "\<lambda>c. fold (\<lambda>(r, f). note_ambiguous c r f) claims"
        "\<lambda>_. \<Union>(r, found) \<in> set claims. set found" cls s, OF one] by auto
  show ?thesis
    unfolding carry_ambiguous_def by (rule fold_union) (auto simp: two)
qed

lemma finish_resolution_unresolved:
  "sg_unresolved (finish_resolution ri W st) = rs_unresolved st \<union>
     (\<Union>(k, claims) \<in> set (rs_wd_ambiguous st).
        if claimants_through (rs_order st) (via_withdrawn (rs_wd_targets st)) [] [k] [k] = [] then {}
        else \<Union>(r, found) \<in> set claims. set found)"
proof -
  let ?h = "\<lambda>k. claimants_through (rs_order st) (via_withdrawn (rs_wd_targets st)) [] [k] [k]"
  obtain w o' d where s: "splice_withdrawn W (rs_wd_targets st) (maps_of_state st) = (w, o', d)"
    by (metis prod_cases3)
  have get: "dict_get (map (\<lambda>(k, _). (k, h k)) dd) k [] = h k"
    if "(k, v) \<in> set dd" for h :: "key \<Rightarrow> key list" and dd :: "(key, 'b) dict" and k v
    using that by (induction dd) (auto simp: dict_get_def)
  show ?thesis
    by (simp add: finish_resolution_def Let_def s graph_of_state_def carry_ambiguous_unresolved)
      (auto simp: get split: prod.splits)
qed

section \<open>The pass is exact\<close>

text \<open>
  C37. The pass builds a graph whose parts agree, whatever rows, records and upload tenant it is
  given: the edge of every document is the last of its claimants, the claimants are listed without
  repetition, no document supersedes itself, and no edge is empty.
\<close>

theorem resolve_rows_graph_ok:
  "(case resolve_rows u rows records tenant of Inl e \<Rightarrow> True | Inr g \<Rightarrow> graph_ok {} g)"
proof -
  have weaken: "graph_ok W g \<Longrightarrow> graph_ok {} g" for W g
    by (force simp: graph_ok_def split: option.splits)
  have "graph_ok {} (finish_resolution ri W (row_state ri W parts))" for ri W parts
    by (rule weaken [OF finish_resolution_ok])
  then show ?thesis
    unfolding resolve_rows_def Let_def row_state_def [symmetric] by (simp split: sum.split)
qed

text \<open>
  The claimants of a document are exactly what the rows say, with withdrawn memos cut out:
  nothing claims a withdrawn memo, and any other document is claimed by the rows that claim it and by
  the claimants of each withdrawn memo that retired it, directly or through other withdrawn memos.
\<close>

theorem withdrawn_claims_spliced:
  "let st = row_state ri W parts;
       says = (\<lambda>t. {c. \<exists>p \<in> set parts. row_claim ri (set W) p = Some (t, c)});
       g = finish_resolution ri W st
   in fst ` set (dict_get (sg_candidates g) t []) =
     (if t \<in> set W then {}
      else says t \<union> {c. c \<noteq> t \<and> (\<exists>w \<in> set W. c \<in> says w \<and>
                            (w, t) \<in> (retired_by (set W) (rs_wd_targets st))\<^sup>+)})"
proof -
  let ?st = "row_state ri W parts"
  obtain w o' d where s: "splice_withdrawn W (rs_wd_targets ?st) (maps_of_state ?st) = (w, o', d)"
    by (metis prod_cases3)
  have ok: "claims_ok (set W) (maps_of_state ?st)" unfolding row_state_def by (rule resolve_fold_ok)
  note splice = splice_withdrawn_ok [OF ok s]
  obtain st' where st': "finish_resolution ri W ?st = graph_of_state ri st'" "maps_of_state st' = (w, o', d)"
    by (rule finish_resolution_maps [OF s])
  then have "fst ` set (dict_get (sg_candidates (finish_resolution ri W ?st)) t []) = set (dict_get o' t [])"
    using graph_of_state_candidates [of ri st' t]
    by (cases "map_of o' t") (auto simp: dict_get_def image_image)
  moreover have "t \<in> set W \<Longrightarrow> dict_get o' t [] = []" using splice(2) by (simp add: dict_get_def)
  ultimately show ?thesis
    using splice(3) [of t] unfolding row_state_effect Let_def by (cases "t \<in> set W") simp_all
qed

section \<open>Doubts a withdrawn memo leaves behind\<close>

text \<open>What a row of a withdrawn memo says: the document it retired, or the documents its ambiguous claim names.\<close>

definition row_retires :: "reference_index \<Rightarrow> key set \<Rightarrow> row_parts \<Rightarrow> (key \<times> key) option" where
  "row_retires ri W p = (case (nonempty (rp_file p), nonempty (rp_supersedes p)) of
     (Some f, Some s) \<Rightarrow>
       (let c = index_key (ri_collided ri) f (rp_source p)
        in if c \<notin> W then None else (case match ri s c of
             (Resolved, found) \<Rightarrow> Some (c, hd found)
           | (Dangling, found) \<Rightarrow> if dangling_key s = c then None else Some (c, dangling_key s)
           | _ \<Rightarrow> None))
   | _ \<Rightarrow> None)"

definition row_void_doubt :: "reference_index \<Rightarrow> key set \<Rightarrow> row_parts \<Rightarrow> (key \<times> key set) option" where
  "row_void_doubt ri W p = (case (nonempty (rp_file p), nonempty (rp_supersedes p)) of
     (Some f, Some s) \<Rightarrow>
       (let c = index_key (ri_collided ri) f (rp_source p)
        in if c \<notin> W then None else (case match ri s c of (Ambiguous, found) \<Rightarrow> Some (c, set found) | _ \<Rightarrow> None))
   | _ \<Rightarrow> None)"

definition void_doubts :: "resolve_state \<Rightarrow> (key \<times> key set) set" where
  "void_doubts st = {(k, D). D \<in> (\<lambda>(r, found). set found) ` set (dict_get (rs_wd_ambiguous st) k [])}"

definition retirements :: "resolve_state \<Rightarrow> (key \<times> key) set" where
  "retirements st = {(w, t). t \<in> set (dict_get (rs_wd_targets st) w [])}"

lemma note_void [simp]:
  "rs_wd_targets (note_window c p st) = rs_wd_targets st" "rs_wd_ambiguous (note_window c p st) = rs_wd_ambiguous st"
  "rs_wd_targets (note_claim t c d st) = rs_wd_targets st" "rs_wd_ambiguous (note_claim t c d st) = rs_wd_ambiguous st"
  "rs_wd_targets (note_ambiguous c s f st) = rs_wd_targets st" "rs_wd_ambiguous (note_ambiguous c s f st) = rs_wd_ambiguous st"
  by (auto simp: note_window_def note_claim_def note_ambiguous_def split: option.splits)

lemma resolve_row_void:
  "retirements (resolve_row ri W p st) = retirements st \<union> {x. row_retires ri W p = Some x}"
  "void_doubts (resolve_row ri W p st) = void_doubts st \<union> {x. row_void_doubt ri W p = Some x}"
  "dict_ok (rs_wd_targets st) \<Longrightarrow> dict_ok (rs_wd_targets (resolve_row ri W p st))"
  "dict_ok (rs_wd_ambiguous st) \<Longrightarrow> dict_ok (rs_wd_ambiguous (resolve_row ri W p st))"
proof -
  have "retirements (resolve_row ri W p st) = retirements st \<union> {x. row_retires ri W p = Some x}
     \<and> void_doubts (resolve_row ri W p st) = void_doubts st \<union> {x. row_void_doubt ri W p = Some x}
     \<and> (dict_ok (rs_wd_targets st) \<longrightarrow> dict_ok (rs_wd_targets (resolve_row ri W p st)))
     \<and> (dict_ok (rs_wd_ambiguous st) \<longrightarrow> dict_ok (rs_wd_ambiguous (resolve_row ri W p st)))"
  proof (cases "nonempty (rp_file p)"; cases "nonempty (rp_supersedes p)")
    fix f s
    assume n: "nonempty (rp_file p) = Some f" "nonempty (rp_supersedes p) = Some s"
    obtain kind found where m: "match ri s (index_key (ri_collided ri) f (rp_source p)) = (kind, found)"
      by fastforce
    show ?thesis
      by (cases kind) (auto simp: resolve_row_def row_retires_def row_void_doubt_def note_withdrawn_def n m Let_def
          retirements_def void_doubts_def split: if_splits)
  qed (simp_all add: resolve_row_def row_retires_def row_void_doubt_def)
  then show "retirements (resolve_row ri W p st) = retirements st \<union> {x. row_retires ri W p = Some x}"
    "void_doubts (resolve_row ri W p st) = void_doubts st \<union> {x. row_void_doubt ri W p = Some x}"
    "dict_ok (rs_wd_targets st) \<Longrightarrow> dict_ok (rs_wd_targets (resolve_row ri W p st))"
    "dict_ok (rs_wd_ambiguous st) \<Longrightarrow> dict_ok (rs_wd_ambiguous (resolve_row ri W p st))" by blast+
qed

lemma row_state_void:
  "retirements (row_state ri W parts) = {x. \<exists>p \<in> set parts. row_retires ri (set W) p = Some x}"
  "void_doubts (row_state ri W parts) = {x. \<exists>p \<in> set parts. row_void_doubt ri (set W) p = Some x}"
  "dict_ok (rs_wd_targets (row_state ri W parts))" "dict_ok (rs_wd_ambiguous (row_state ri W parts))"
proof -
  have "dict_ok (rs_wd_targets st) \<and> dict_ok (rs_wd_ambiguous st) \<Longrightarrow>
      retirements (fold (resolve_row ri W') ps st) = retirements st \<union> {x. \<exists>p \<in> set ps. row_retires ri W' p = Some x}
      \<and> void_doubts (fold (resolve_row ri W') ps st) = void_doubts st \<union> {x. \<exists>p \<in> set ps. row_void_doubt ri W' p = Some x}
      \<and> dict_ok (rs_wd_targets (fold (resolve_row ri W') ps st)) \<and> dict_ok (rs_wd_ambiguous (fold (resolve_row ri W') ps st))"
    for W' ps st
  proof (induction ps arbitrary: st)
    case (Cons p ps)
    have "dict_ok (rs_wd_targets (resolve_row ri W' p st)) \<and> dict_ok (rs_wd_ambiguous (resolve_row ri W' p st))"
      using Cons.prems resolve_row_void(3,4) by blast
    from Cons.IH [OF this] show ?case by (auto simp: resolve_row_void(1,2))
  qed simp
  from this [of resolve_init "set W" parts]
  show "retirements (row_state ri W parts) = {x. \<exists>p \<in> set parts. row_retires ri (set W) p = Some x}"
    "void_doubts (row_state ri W parts) = {x. \<exists>p \<in> set parts. row_void_doubt ri (set W) p = Some x}"
    "dict_ok (rs_wd_targets (row_state ri W parts))" "dict_ok (rs_wd_ambiguous (row_state ri W parts))"
    by (simp_all add: row_state_def) (simp_all add: resolve_init_def retirements_def void_doubts_def)
qed

lemma via_withdrawn_get:
  assumes "dict_ok T"
  shows "x \<in> set (dict_get (via_withdrawn T) a []) \<longleftrightarrow> a \<in> set (dict_get T x [])"
proof -
  have inner: "x \<in> set (dict_get (fold (\<lambda>t. dict_append t c) ts d) a []) \<longleftrightarrow>
      x \<in> set (dict_get d a []) \<or> x = c \<and> a \<in> set ts" for c ts d
    by (induction ts arbitrary: d) auto
  have "x \<in> set (dict_get (fold (\<lambda>(c, ts). fold (\<lambda>t. dict_append t c) ts) T d) a []) \<longleftrightarrow>
      x \<in> set (dict_get d a []) \<or> (\<exists>ts. (x, ts) \<in> set T \<and> a \<in> set ts)" for d
    by (induction T arbitrary: d) (auto simp: inner)
  from this [of "[]"] have "x \<in> set (dict_get (via_withdrawn T) a []) \<longleftrightarrow> (\<exists>ts. (x, ts) \<in> set T \<and> a \<in> set ts)"
    by (simp add: via_withdrawn_def)
  also have "\<dots> \<longleftrightarrow> a \<in> set (dict_get T x [])"
  proof -
    have "(x, ts) \<in> set T \<longleftrightarrow> map_of T x = Some ts" for ts using assms by (simp add: dict_ok_def)
    then show ?thesis by (cases "map_of T x") (simp_all add: dict_get_def)
  qed
  finally show ?thesis .
qed

text \<open>The walk from a document over the withdrawn memos that retired it collects every live claimant it meets.\<close>

lemma reach_split:
  assumes "(a, x) \<in> R\<^sup>*" "a \<in> D" "\<And>b c. b \<in> D \<Longrightarrow> (b, c) \<in> R \<Longrightarrow> c \<in> D \<union> S"
  shows "x \<in> D \<or> (\<exists>s \<in> S. (s, x) \<in> R\<^sup>*)"
  using assms(1,2)
proof (induction rule: converse_rtrancl_induct)
  case (step y z)
  then show ?case using assms(3) by blast
qed blast

definition via_rel :: "(key, key list) dict \<Rightarrow> (key \<times> key) set" where
  "via_rel via = {(a, b). b \<in> set (dict_get via a [])}"

lemma claimants_through_reach:
  assumes "set stack \<subseteq> set seen" "\<forall>a \<in> set seen - set stack. set (dict_get order a []) \<subseteq> set live"
    and "\<forall>a \<in> set seen - set stack. \<forall>b. (a, b) \<in> via_rel via \<longrightarrow> b \<in> set seen"
  shows "set (claimants_through order via live seen stack) =
     set live \<union> {c. \<exists>s x. s \<in> set stack \<and> (s, x) \<in> (via_rel via)\<^sup>* \<and> c \<in> set (dict_get order x [])}"
  using assms
proof (induction order via live seen stack rule: claimants_through.induct [case_names stop step])
  case (step order via live seen memo stack)
  let ?R = "via_rel via"
  define live' where "live' = fold (\<lambda>m acc. if m \<in> set acc then acc else acc @ [m]) (dict_get order memo []) live"
  define fresh where "fresh = filter (\<lambda>m. m \<notin> set seen) (dedup (dict_get via memo []))"
  have "set (fold (\<lambda>m acc. if m \<in> set acc then acc else acc @ [m]) xs l) = set l \<union> set xs" for xs and l :: "key list"
    by (induction xs arbitrary: l) auto
  then have live': "set live' = set live \<union> set (dict_get order memo [])" by (simp add: live'_def)
  have fresh: "set fresh = {b. (memo, b) \<in> ?R} - set seen" by (auto simp: fresh_def via_rel_def)
  let ?reach = "\<lambda>S. {c. \<exists>s x. s \<in> S \<and> (s, x) \<in> ?R\<^sup>* \<and> c \<in> set (dict_get order x [])}"
  have IH: "set (claimants_through order via live' (fresh @ seen) (rev fresh @ stack)) =
      set live' \<union> ?reach (set (rev fresh @ stack))"
  proof (rule step.IH [OF live'_def fresh_def])
    show "set (rev fresh @ stack) \<subseteq> set (fresh @ seen)" using step.prems(1) by auto
    show "\<forall>a \<in> set (fresh @ seen) - set (rev fresh @ stack). set (dict_get order a []) \<subseteq> set live'"
    proof
      fix a assume a: "a \<in> set (fresh @ seen) - set (rev fresh @ stack)"
      show "set (dict_get order a []) \<subseteq> set live'"
      proof (cases "a = memo")
        case False
        then have "a \<in> set seen - set (memo # stack)" using a by auto
        then have "set (dict_get order a []) \<subseteq> set live" using step.prems(2) by blast
        then show ?thesis using live' by blast
      qed (simp add: live')
    qed
    show "\<forall>a \<in> set (fresh @ seen) - set (rev fresh @ stack). \<forall>b. (a, b) \<in> ?R \<longrightarrow> b \<in> set (fresh @ seen)"
    proof (intro ballI allI impI)
      fix a b assume a: "a \<in> set (fresh @ seen) - set (rev fresh @ stack)" "(a, b) \<in> ?R"
      show "b \<in> set (fresh @ seen)"
      proof (cases "a = memo")
        case True
        then show ?thesis using a(2) fresh by auto
      next
        case False
        then have "a \<in> set seen - set (memo # stack)" using a(1) by auto
        then have "b \<in> set seen" using step.prems(3) a(2) by blast
        then show ?thesis by simp
      qed
    qed
  qed
  have "?reach (set (memo # stack)) \<union> set live = ?reach (set (rev fresh @ stack)) \<union> set live'"
  proof (intro equalityI subsetI)
    fix c assume "c \<in> ?reach (set (rev fresh @ stack)) \<union> set live'"
    then consider "c \<in> set live \<union> set (dict_get order memo [])"
      | s x where "s \<in> set fresh \<union> set stack" "(s, x) \<in> ?R\<^sup>*" "c \<in> set (dict_get order x [])" using live' by auto
    then show "c \<in> ?reach (set (memo # stack)) \<union> set live"
    proof cases
      case 2
      then show ?thesis using fresh by (cases "s \<in> set stack") (auto intro: converse_rtrancl_into_rtrancl)
    qed auto
  next
    fix c assume "c \<in> ?reach (set (memo # stack)) \<union> set live"
    then consider "c \<in> set live" | s x where "s \<in> set stack" "(s, x) \<in> ?R\<^sup>*" "c \<in> set (dict_get order x [])"
      | x where "(memo, x) \<in> ?R\<^sup>*" "c \<in> set (dict_get order x [])" by auto
    then show "c \<in> ?reach (set (rev fresh @ stack)) \<union> set live'"
    proof cases
      case 3
      have closed: "z \<in> insert memo (set seen - set (memo # stack)) \<union> (set fresh \<union> set stack)"
        if "y \<in> insert memo (set seen - set (memo # stack))" "(y, z) \<in> ?R" for y z
      proof (cases "y = memo")
        case True
        then show ?thesis using that(2) fresh by auto
      next
        case False
        then have "z \<in> set seen" using that step.prems(3) by blast
        then show ?thesis by auto
      qed
      have "x \<in> insert memo (set seen - set (memo # stack)) \<or> (\<exists>s \<in> set fresh \<union> set stack. (s, x) \<in> ?R\<^sup>*)"
        by (rule reach_split [OF 3(1) insertI1]) (rule closed)
      then consider "x = memo" | "x \<in> set seen - set (memo # stack)" | "\<exists>s \<in> set fresh \<union> set stack. (s, x) \<in> ?R\<^sup>*" by blast
      then show ?thesis
      proof cases
        case 2
        then have "c \<in> set live" using 3(2) step.prems(2) by blast
        then show ?thesis using live' by blast
      qed (use 3(2) live' in auto)
    qed (use live' in auto)
  qed
  then show ?case using IH by (simp add: live'_def [symmetric] fresh_def [symmetric] Let_def Un_commute)
qed simp

lemma doubts_union:
  fixes S :: "('k \<times> ('r \<times> 'a list) list) set"
  shows "(\<Union>(k, claims) \<in> S. if \<not> P k then {} else \<Union>(r, found) \<in> set claims. set found) =
     {d. \<exists>k. P k \<and> (\<exists>claims. (k, claims) \<in> S \<and> (\<exists>r found. (r, found) \<in> set claims \<and> d \<in> set found))}"
proof (rule set_eqI)
  fix d :: 'a
  have "d \<in> (case x of (k, claims) \<Rightarrow> if \<not> P k then {} else \<Union>(r, found) \<in> set claims. set found) \<longleftrightarrow>
      P (fst x) \<and> (\<exists>r found. (r, found) \<in> set (snd x) \<and> d \<in> set found)" for x
    by (cases x) auto
  then show "d \<in> (\<Union>(k, claims) \<in> S. if \<not> P k then {} else \<Union>(r, found) \<in> set claims. set found) \<longleftrightarrow>
      d \<in> {d. \<exists>k. P k \<and> (\<exists>claims. (k, claims) \<in> S \<and> (\<exists>r found. (r, found) \<in> set claims \<and> d \<in> set found))}"
    by (simp add: UN_iff) force
qed

text \<open>
  C38. An ambiguous reference fails closed. The unresolved documents of the graph are exactly those some standing
  row leaves in doubt: the candidates of every ambiguous reference of a memo that was not withdrawn, and the candidates
  of an ambiguous reference of a withdrawn memo when the rows of a live memo claim it, directly or through a
  chain of withdrawn memos each of which retired the next.
\<close>

theorem ambiguous_claims_fail_closed:
  "let claims = {x. \<exists>p \<in> set parts. row_claim ri (set W) p = Some x};
       retires = {x. \<exists>p \<in> set parts. row_retires ri (set W) p = Some x};
       standing = {k. \<exists>w c. (w, k) \<in> retires\<^sup>* \<and> (w, c) \<in> claims}
   in sg_unresolved (finish_resolution ri W (fold (resolve_row ri (set W)) parts resolve_init)) =
     (\<Union>p \<in> set parts. row_doubt ri (set W) p)
     \<union> {d. \<exists>p \<in> set parts. \<exists>k doubts. row_void_doubt ri (set W) p = Some (k, doubts) \<and> k \<in> standing \<and> d \<in> doubts}"
proof -
  let ?st = "row_state ri W parts"
  define claims where "claims = {x. \<exists>p \<in> set parts. row_claim ri (set W) p = Some x}"
  define retires where "retires = {x. \<exists>p \<in> set parts. row_retires ri (set W) p = Some x}"
  let ?via = "via_withdrawn (rs_wd_targets ?st)" and ?amb = "rs_wd_ambiguous ?st"
  have rel: "via_rel ?via = retires\<inverse>"
    using row_state_void(1,3) [of ri W parts] by (auto simp: via_rel_def via_withdrawn_get retirements_def retires_def)
  have order: "c \<in> set (dict_get (rs_order ?st) x []) \<longleftrightarrow> (x, c) \<in> claims" for x c
    using row_state_effect(1) [of ri W parts x] by (simp add: claims_def)
  have reach: "claimants_through (rs_order ?st) ?via [] [k] [k] = [] \<longleftrightarrow> \<not> (\<exists>w c. (w, k) \<in> retires\<^sup>* \<and> (w, c) \<in> claims)" for k
  proof -
    have "set (claimants_through (rs_order ?st) ?via [] [k] [k]) = {c. \<exists>x. (k, x) \<in> (via_rel ?via)\<^sup>* \<and> (x, c) \<in> claims}"
      using claimants_through_reach [of "[k]" "[k]" "rs_order ?st" "[]" ?via] by (simp add: order)
    moreover have "(k, x) \<in> (via_rel ?via)\<^sup>* \<longleftrightarrow> (x, k) \<in> retires\<^sup>*" for x
      by (simp add: rel rtrancl_converse)
    ultimately show ?thesis by (simp add: set_empty [symmetric] del: set_empty) blast
  qed
  have amb: "(\<exists>claims. (k, claims) \<in> set ?amb \<and> (\<exists>r found. (r, found) \<in> set claims \<and> d \<in> set found)) \<longleftrightarrow>
      (\<exists>doubts. (k, doubts) \<in> void_doubts ?st \<and> d \<in> doubts)" for k d
  proof -
    have "(k, cs) \<in> set ?amb \<longleftrightarrow> map_of ?amb k = Some cs" for cs
      using row_state_void(4) [of ri W parts] by (simp add: dict_ok_def)
    then show ?thesis by (cases "map_of ?amb k") (force simp: void_doubts_def dict_get_def)+
  qed
  have "sg_unresolved (finish_resolution ri W ?st) = rs_unresolved ?st \<union>
      {d. \<exists>k. (\<exists>w c. (w, k) \<in> retires\<^sup>* \<and> (w, c) \<in> claims)
         \<and> (\<exists>cs. (k, cs) \<in> set ?amb \<and> (\<exists>r found. (r, found) \<in> set cs \<and> d \<in> set found))}"
    unfolding finish_resolution_unresolved reach doubts_union by simp
  also have "\<dots> = (\<Union>p \<in> set parts. row_doubt ri (set W) p)
     \<union> {d. \<exists>p \<in> set parts. \<exists>k doubts. row_void_doubt ri (set W) p = Some (k, doubts)
          \<and> (\<exists>w c. (w, k) \<in> retires\<^sup>* \<and> (w, c) \<in> claims) \<and> d \<in> doubts}"
    unfolding amb row_state_void(2) row_state_effect(2) by blast
  finally show ?thesis by (simp add: Let_def claims_def retires_def row_state_def)
qed

end
