(* ===== verification/TrustTypes.thy ===== *)
theory TrustTypes
  imports Frontmatter
begin

text \<open>
  The values that cross the trust layer, from \<open>src/recall/types.py\<close>: chunks, scored chunks, retrieval
  results, verdicts, trusted hits and trusted results, and the guards of \<open>src/recall/guards.py\<close> that fill
  a retrieval result. The stores' timestamps are time zone aware instants. The two support summaries
  that other modules attach to a trusted result are not part of the record.
\<close>

section \<open>Retrieval\<close>

record chunk =
  chunk_id :: string
  chunk_source :: string
  chunk_text :: string
  chunk_metadata :: metadata

datatype score_kind = DenseCosine | Structural

record scored_chunk =
  sc_chunk :: chunk
  sc_score :: pyfloat
  sc_indexed_at :: "instant option"
  sc_first_indexed_at :: "instant option"
  sc_kind :: score_kind

record staleness_report =
  st_stale :: bool
  st_newest :: "instant option"
  st_age :: "int option"
  st_max_age :: int

record retrieval_diagnostics =
  rd_embedding_profile :: string
  rd_retrieval_profile :: string
  rd_index_generation :: string
  rd_candidate_pool_size :: int
  rd_reranking_ran :: bool
  rd_stage_ms :: "(string, real) dict"
  rd_max_dense_score :: "pyfloat option"
  rd_unknown_term_check :: string
  rd_unknown_terms :: "string list"

definition default_diagnostics :: retrieval_diagnostics where
  "default_diagnostics = \<lparr>rd_embedding_profile = ''legacy'', rd_retrieval_profile = ''legacy'',
     rd_index_generation = ''legacy'', rd_candidate_pool_size = 20, rd_reranking_ran = False,
     rd_stage_ms = [], rd_max_dense_score = None, rd_unknown_term_check = ''not_run'', rd_unknown_terms = []\<rparr>"

record retrieval_result =
  rr_query :: string
  rr_hits :: "scored_chunk list"
  rr_gap_warning :: bool
  rr_staleness :: staleness_report
  rr_diagnostics :: retrieval_diagnostics

section \<open>Guards\<close>

definition default_gap_threshold :: real where
  "default_gap_threshold = 1 / 2"

definition gap_warning :: "pyfloat list \<Rightarrow> pyfloat \<Rightarrow> bool" where
  "gap_warning scores threshold = (case scores of
     [] \<Rightarrow> True
   | s # rest \<Rightarrow> flt_less (max_by id s rest) threshold)"

definition staleness :: "instant option \<Rightarrow> instant \<Rightarrow> int \<Rightarrow> staleness_report" where
  "staleness newest now max_age = (case newest of
     None \<Rightarrow> \<lparr>st_stale = True, st_newest = None, st_age = None, st_max_age = max_age\<rparr>
   | Some t \<Rightarrow> \<lparr>st_stale = (now - t > max_age), st_newest = Some t, st_age = Some (now - t), st_max_age = max_age\<rparr>)"

section \<open>Verdicts\<close>

datatype verdict =
    Ok | Superseded | Expired | NotYetValid | NotYetKnown | LowConfidence | InvalidMetadata
  | AmbiguousSupersession | Unverified | DependencyInvalidated | UnknownTerm

fun verdict_name :: "verdict \<Rightarrow> string" where
  "verdict_name Ok = ''ok''"
| "verdict_name Superseded = ''superseded''"
| "verdict_name Expired = ''expired''"
| "verdict_name NotYetValid = ''not_yet_valid''"
| "verdict_name NotYetKnown = ''not_yet_known''"
| "verdict_name LowConfidence = ''low_confidence''"
| "verdict_name InvalidMetadata = ''invalid_metadata''"
| "verdict_name AmbiguousSupersession = ''ambiguous_supersession''"
| "verdict_name Unverified = ''unverified''"
| "verdict_name DependencyInvalidated = ''dependency_invalidated''"
| "verdict_name UnknownTerm = ''unknown_term''"

datatype decision_state = Supported | CorpusGap | NoSupportingEvidence

datatype dependency_cause =
    CauseSuperseded | CauseExpired | CauseNotYetValid | CauseNotYetKnown | CauseInvalid
  | CauseAmbiguous | CauseUnresolved | CauseCycle

fun cause_name :: "dependency_cause \<Rightarrow> string" where
  "cause_name CauseSuperseded = ''superseded''"
| "cause_name CauseExpired = ''expired''"
| "cause_name CauseNotYetValid = ''not_yet_valid''"
| "cause_name CauseNotYetKnown = ''not_yet_known''"
| "cause_name CauseInvalid = ''invalid''"
| "cause_name CauseAmbiguous = ''ambiguous''"
| "cause_name CauseUnresolved = ''unresolved''"
| "cause_name CauseCycle = ''cycle''"

record invalidation_reason =
  ir_dependency :: string
  ir_cause :: dependency_cause
  ir_path :: "string list"
  ir_authority :: authority
  ir_generation :: "string option"
  ir_as_of :: "instant option"
  ir_known_as_of :: "instant option"

definition bounded_path :: "nat \<Rightarrow> invalidation_reason \<Rightarrow> string list" where
  "bounded_path limit r = take limit (ir_path r)"

section \<open>Trusted results\<close>

record provenance =
  pv_source :: string
  pv_file :: "string option"
  pv_ord :: "int option"
  pv_indexed_at :: "instant option"
  pv_first_indexed_at :: "instant option"

record validity =
  va_from :: "instant option"
  va_until :: "instant option"
  va_superseded_by :: "string option"

record trusted_hit =
  th_chunk :: chunk
  th_cosine :: pyfloat
  th_confidence :: real
  th_verdict :: verdict
  th_provenance :: provenance
  th_validity :: validity
  th_authority :: authority
  th_dependencies :: "string list"
  th_invalidation :: "invalidation_reason option"

record trusted_result =
  tr_query :: string
  tr_hits :: "trusted_hit list"
  tr_abstained :: bool
  tr_reason :: string
  tr_gap_warning :: bool
  tr_staleness :: staleness_report
  tr_decision_state :: "decision_state option"
  tr_diagnostics :: retrieval_diagnostics
  tr_calibration_id :: "string option"
  tr_calibration_status :: string
  tr_tenant_id :: "string option"
  tr_generation_id :: "string option"
  tr_pipeline_fingerprint :: "string option"
  tr_corpus_fingerprint :: "string option"
  tr_query_set_digest :: "string option"
  tr_trust_state :: string
  tr_failure_code :: "string option"

definition result_calibrated :: "trusted_result \<Rightarrow> bool" where
  "result_calibrated r \<longleftrightarrow>
     tr_calibration_status r = ''certified'' \<and> tr_calibration_id r \<noteq> None \<and> tr_trust_state r = ''trusted''"

section \<open>Lemmas on the guards\<close>

lemma max_by_less:
  "flt_less (max_by id b xs) t \<Longrightarrow> isfinite b \<Longrightarrow> list_all isfinite xs \<Longrightarrow>
     flt_less b t \<and> (\<forall>x \<in> set xs. flt_less x t)"
proof (induction xs arbitrary: b)
  case (Cons x xs)
  have "flt_less (if flt_less b x then x else b) t \<and> (\<forall>y \<in> set xs. flt_less y t)"
    using Cons.IH [of "if flt_less b x then x else b"] Cons.prems by simp
  then show ?case using Cons.prems(2,3) by (cases b; cases x; cases t) (auto split: if_splits)
qed simp

lemma max_by_all_less: "flt_less b t \<Longrightarrow> \<forall>x \<in> set xs. flt_less x t \<Longrightarrow> flt_less (max_by id b xs) t"
  by (induction xs arbitrary: b) simp_all

lemma gap_warning_iff:
  assumes "list_all isfinite scores"
  shows "gap_warning scores t \<longleftrightarrow> (\<forall>s \<in> set scores. flt_less s t)"
proof (cases scores)
  case (Cons s rest)
  have fin: "isfinite s" "list_all isfinite rest" using assms Cons by simp_all
  have "flt_less (max_by id s rest) t \<longleftrightarrow> flt_less s t \<and> (\<forall>x \<in> set rest. flt_less x t)"
    using max_by_less [of s rest t] fin max_by_all_less [of s t rest] by blast
  then show ?thesis by (simp add: gap_warning_def Cons)
qed (simp add: gap_warning_def)

end
