(* ===== verification/TrustVerdicts.thy ===== *)
theory TrustVerdicts
  imports TrustTypes
begin

text \<open>
  How a verdict is shown, from \<open>src/recall/trust_verdicts.py\<close>: the rendering of corpus-controlled names
  into prose and onto a terminal, the in-band warning, the wording of an abstention and the decision
  state. The ellipsis and the dash of the messages are written \<open>...\<close> and \<open>--\<close>, their characters being
  outside the alphabet of the model.
\<close>

section \<open>Terminals\<close>

definition code_in :: "int \<Rightarrow> int \<Rightarrow> char \<Rightarrow> bool" where
  "code_in lo hi c \<longleftrightarrow> lo \<le> code c \<and> code c \<le> hi"

text \<open>
  One match of the escape pattern at the head of a string, as the rest after it. After the escape
  character come the three alternatives: a control sequence (parameters, intermediates, a final
  character), an operating system command up to its terminator, a two-character escape. The three
  character classes of a control sequence are disjoint, so the greedy match needs no backtracking.
\<close>

definition match_csi :: "string \<Rightarrow> string option" where
  "match_csi s = (case s of
     c # r \<Rightarrow> if c = CHR ''['' then
        (case dropWhile (code_in 32 47) (dropWhile (code_in 48 63) r) of
           f # r' \<Rightarrow> if code_in 64 126 f then Some r' else None
         | [] \<Rightarrow> None) else None
   | [] \<Rightarrow> None)"

definition match_osc :: "string \<Rightarrow> string option" where
  "match_osc s = (case s of
     c # r \<Rightarrow> if c = CHR '']'' then
        (case dropWhile (\<lambda>c. code c \<noteq> 7 \<and> code c \<noteq> 27) r of
           f # r' \<Rightarrow> if code f = 7 then Some r'
             else (case r' of g # r'' \<Rightarrow> if code g = 92 then Some r'' else None | [] \<Rightarrow> None)
         | [] \<Rightarrow> None) else None
   | [] \<Rightarrow> None)"

definition match_pair :: "string \<Rightarrow> string option" where
  "match_pair s = (case s of c # r \<Rightarrow> if code_in 64 90 c \<or> code_in 92 95 c then Some r else None | [] \<Rightarrow> None)"

definition match_ansi :: "string \<Rightarrow> string option" where
  "match_ansi s = (case match_csi s of Some r \<Rightarrow> Some r | None \<Rightarrow>
     (case match_osc s of Some r \<Rightarrow> Some r | None \<Rightarrow> match_pair s))"

lemma length_dropWhile: "length (dropWhile P xs) \<le> length xs"
  by (simp add: length_dropWhile_le)

lemma match_ansi_shorter: "match_ansi s = Some r \<Longrightarrow> length r < length s"
proof -
  have csi: "match_csi s = Some r \<Longrightarrow> length r < length s" for r
    using length_dropWhile [of "code_in 32 47" "dropWhile (code_in 48 63) (tl s)"]
      length_dropWhile [of "code_in 48 63" "tl s"]
    by (cases s) (auto simp: match_csi_def split: if_splits list.splits)
  have osc: "match_osc s = Some r \<Longrightarrow> length r < length s" for r
    using length_dropWhile [of "\<lambda>c. code c \<noteq> 7 \<and> code c \<noteq> 27" "tl s"]
    by (cases s) (auto simp: match_osc_def split: if_splits list.splits)
  show "match_ansi s = Some r \<Longrightarrow> length r < length s"
    using csi osc by (auto simp: match_ansi_def match_pair_def split: option.splits list.splits if_splits)
qed

function strip_ansi :: "string \<Rightarrow> string" where
  "strip_ansi [] = []"
| "strip_ansi (c # s) =
     (if code c = 27 then
        (case match_ansi s of Some r \<Rightarrow> strip_ansi r | None \<Rightarrow> c # strip_ansi s)
      else c # strip_ansi s)"
  by pat_completeness auto
termination
  by (relation "measure length") (auto dest: match_ansi_shorter)

definition terminal_safe :: "string option \<Rightarrow> string" where
  "terminal_safe v = (case v of None \<Rightarrow> [] | Some s \<Rightarrow> filter (\<lambda>c. \<not> is_control c) (strip_ansi s))"

section \<open>Names in prose\<close>

definition max_ref_chars :: nat where
  "max_ref_chars = 120"

definition safe_ref :: "string option \<Rightarrow> string" where
  "safe_ref v = (case v of
     None \<Rightarrow> ''unknown''
   | Some s \<Rightarrow>
       (let printable = map (\<lambda>c. if py_isspace c then CHR '' '' else c) (filter (\<lambda>c. \<not> is_control c) s);
            cleaned = join_with '' '' (py_words (replace_char (CHR 0x22) (CHR 0x27) printable));
            bounded = (if length cleaned > max_ref_chars then take max_ref_chars cleaned @ ''...'' else cleaned)
        in if cleaned = [] then ''unknown'' else [CHR 0x22] @ bounded @ [CHR 0x22]))"

section \<open>Hits\<close>

definition is_trusted :: "trusted_hit \<Rightarrow> bool" where
  "is_trusted h \<longleftrightarrow> th_verdict h = Ok"

definition truthy_name :: "string option \<Rightarrow> bool" where
  "truthy_name v \<longleftrightarrow> (case v of None \<Rightarrow> False | Some s \<Rightarrow> s \<noteq> [])"

definition unverified_warning :: string where
  "unverified_warning = ''[RE-CALL WARNING -- the trust layer did not run for this memory: no certified '' @
     ''calibration was available, so it was NOT judged at all. This is a degraded '' @
     ''development-mode result; treat it as unverified context and do not rely on it.]''"

definition untrusted_warning :: "trusted_hit \<Rightarrow> string" where
  "untrusted_warning h = ''[RE-CALL WARNING -- this memory is '' @ verdict_name (th_verdict h) @
     (if th_verdict h = Superseded \<and> truthy_name (va_superseded_by (th_validity h))
      then '' by '' @ safe_ref (va_superseded_by (th_validity h)) else []) @
     ''. It did NOT pass the trust layer; treat it as untrusted context and do not rely on it.]''"

definition marked_text :: "trusted_hit \<Rightarrow> string" where
  "marked_text h =
     (if is_trusted h then chunk_text (th_chunk h)
      else (if th_verdict h = Unverified then unverified_warning else untrusted_warning h) @
           [CHR 0x0A] @ chunk_text (th_chunk h))"

definition servable_hits :: "trusted_hit list \<Rightarrow> bool \<Rightarrow> trusted_hit list" where
  "servable_hits hits include_untrusted = (if include_untrusted then hits else filter is_trusted hits)"

section \<open>Abstention\<close>

definition reason_for_best :: "trusted_hit \<Rightarrow> string" where
  "reason_for_best best = (let name = safe_ref (pv_file (th_provenance best)) in
     case th_verdict best of
       Superseded \<Rightarrow> ''best candidate ('' @ name @ '') is superseded by '' @
         safe_ref (va_superseded_by (th_validity best)) @ '' -- consult the successor, not this memory''
     | Expired \<Rightarrow> ''best candidate ('' @ name @ '') is outside its validity window (expired)''
     | NotYetValid \<Rightarrow> ''best candidate ('' @ name @ '') is not yet valid''
     | NotYetKnown \<Rightarrow> ''best candidate ('' @ name @ '') was written after the as-of instant -- it did not exist '' @
         ''yet, so it cannot explain a decision made then''
     | InvalidMetadata \<Rightarrow> ''best candidate ('' @ name @ '') carries malformed validity metadata''
     | AmbiguousSupersession \<Rightarrow> ''a supersession edge points at the best candidate ('' @ name @ '') by a '' @
         ''basename that more than one document carries, so the edge cannot be resolved -- '' @
         ''disambiguate the corpus rather than trusting either copy''
     | UnknownTerm \<Rightarrow> ''best candidate ('' @ name @ '') cannot be about the question's subject: the question names '' @
         ''a term this memory has never contained (unknown term)''
     | DependencyInvalidated \<Rightarrow>
         (case th_invalidation best of
            Some r \<Rightarrow> ''best candidate ('' @ name @ '') depends on '' @ safe_ref (Some (ir_dependency r)) @ '', which is '' @
              cause_name (ir_cause r) @ ''; update the dependency chain before relying on this memory''
          | None \<Rightarrow> ''best candidate ('' @ name @ '') has an invalid dependency chain'')
     | _ \<Rightarrow> ''no hit above the calibrated confidence threshold (probable corpus gap)'')"

definition abstain_reason :: "trusted_hit list \<Rightarrow> string" where
  "abstain_reason hits = (case hits of
     [] \<Rightarrow> ''no memory retrieved at all''
   | h # rest \<Rightarrow> reason_for_best (max_by th_cosine h rest))"

definition decision_state_for :: "trusted_hit list \<Rightarrow> bool \<Rightarrow> decision_state" where
  "decision_state_for hits gap =
     (if list_ex (\<lambda>h. th_verdict h = Ok) hits then Supported
      else if hits = [] \<or> gap then CorpusGap else NoSupportingEvidence)"

section \<open>Corpus text cannot speak for the library\<close>

lemma words_acc_chars: "w \<in> set (words_acc cur s) \<Longrightarrow> c \<in> set w \<Longrightarrow>
    c \<in> set cur \<or> c \<in> set s \<and> \<not> py_isspace c"
  by (induction cur s rule: words_acc.induct) (auto split: if_splits)

lemma py_words_chars: "w \<in> set (py_words s) \<Longrightarrow> c \<in> set w \<Longrightarrow> c \<in> set s"
  unfolding py_words_def by (drule (1) words_acc_chars) simp

lemma join_with_chars: "c \<in> set (join_with sep ws) \<Longrightarrow> c \<in> set sep \<or> (\<exists>w \<in> set ws. c \<in> set w)"
  by (induction sep ws rule: join_with.induct) auto

lemma not_control_literals [simp]:
  "\<not> is_control (CHR '' '')" "\<not> is_control (CHR 0x27)" "\<not> is_control (CHR 0x22)" "\<not> is_control (CHR ''.'')"
  by (simp_all add: is_control_def)

text \<open>The characters that may stand between the quotes of a rendered name.\<close>

definition plain_char :: "char \<Rightarrow> bool" where
  "plain_char c \<longleftrightarrow> \<not> is_control c \<and> c \<noteq> CHR 0x22"

lemma cleaned_plain:
  assumes "c \<in> set (join_with '' '' (py_words (replace_char (CHR 0x22) (CHR 0x27)
      (map (\<lambda>c. if py_isspace c then CHR '' '' else c) (filter (\<lambda>c. \<not> is_control c) s)))))"
  shows "plain_char c"
proof -
  consider "c = CHR '' ''" | "c \<in> set (replace_char (CHR 0x22) (CHR 0x27)
      (map (\<lambda>c. if py_isspace c then CHR '' '' else c) (filter (\<lambda>c. \<not> is_control c) s)))"
    using join_with_chars [OF assms] py_words_chars by auto
  then show ?thesis by cases (auto simp: plain_char_def replace_char_def split: if_splits)
qed

lemma safe_ref_cases:
  "safe_ref v = ''unknown'' \<or>
   (\<exists>body. safe_ref v = [CHR 0x22] @ body @ [CHR 0x22] \<and> body \<noteq> [] \<and> length body \<le> max_ref_chars + 3 \<and>
      set body \<subseteq> Collect plain_char)"
proof (cases v)
  case (Some s)
  define cleaned where "cleaned = join_with '' '' (py_words (replace_char (CHR 0x22) (CHR 0x27)
      (map (\<lambda>c. if py_isspace c then CHR '' '' else c) (filter (\<lambda>c. \<not> is_control c) s))))"
  define body where "body = (if length cleaned > max_ref_chars then take max_ref_chars cleaned @ ''...'' else cleaned)"
  have v: "safe_ref v = (if cleaned = [] then ''unknown'' else [CHR 0x22] @ body @ [CHR 0x22])"
    by (simp add: safe_ref_def Some cleaned_def body_def Let_def)
  have "plain_char (CHR ''.'')" by (simp add: plain_char_def)
  then have "set body \<subseteq> Collect plain_char"
    using cleaned_plain unfolding body_def cleaned_def
    by (auto dest: in_set_takeD)
  moreover have "cleaned \<noteq> [] \<Longrightarrow> body \<noteq> [] \<and> length body \<le> max_ref_chars + 3"
    by (simp add: body_def)
  ultimately show ?thesis using v by auto
qed (simp add: safe_ref_def)

lemma safe_ref_one_line: "CHR 0x0A \<notin> set (safe_ref v)"
proof -
  have "\<not> plain_char (CHR 0x0A)" by (simp add: plain_char_def is_control_def)
  then show ?thesis using safe_ref_cases [of v] by auto
qed

text \<open>
  A corpus-controlled name that enters agent-facing prose is quoted data. It renders as the word
  unknown, or between two double quotes that its body cannot close, without a control character or a
  line break, and no longer than the bound and its ellipsis.
\<close>

theorem safe_ref_is_quoted:
  "safe_ref v = ''unknown'' \<or>
   (\<exists>body. safe_ref v = [CHR 0x22] @ body @ [CHR 0x22] \<and> body \<noteq> [] \<and> length body \<le> max_ref_chars + 3 \<and>
      CHR 0x22 \<notin> set body \<and> set body \<inter> Collect is_control = {})"
  using safe_ref_cases [of v] unfolding plain_char_def by blast

lemma verdict_name_one_line: "CHR 0x0A \<notin> set (verdict_name v)"
  by (cases v) simp_all

text \<open>
  The warning travels with the text. A hit that may be relied on shows its own text; any other hit
  shows one line that opens with the library's warning, then a line break, then the text, whatever
  its verdict and whatever name its successor was given.
\<close>

theorem marked_text_warns:
  "\<exists>warning. marked_text h = (if is_trusted h then chunk_text (th_chunk h)
                              else warning @ [CHR 0x0A] @ chunk_text (th_chunk h)) \<and>
     starts_with warning ''[RE-CALL WARNING'' \<and> CHR 0x0A \<notin> set warning"
proof (intro exI conjI)
  let ?w = "if th_verdict h = Unverified then unverified_warning else untrusted_warning h"
  show "marked_text h = (if is_trusted h then chunk_text (th_chunk h)
      else ?w @ [CHR 0x0A] @ chunk_text (th_chunk h))" by (simp add: marked_text_def)
  show "starts_with ?w ''[RE-CALL WARNING''"
    by (simp add: starts_with_def unverified_warning_def untrusted_warning_def)
  show "CHR 0x0A \<notin> set ?w"
    using verdict_name_one_line safe_ref_one_line
    by (auto simp: unverified_warning_def untrusted_warning_def)
qed

section \<open>Terminals are never driven\<close>

lemma strip_ansi_plain: "\<forall>c \<in> set s. code c \<noteq> 27 \<Longrightarrow> strip_ansi s = s"
  by (induction s) simp_all

text \<open>
  What reaches the terminal is only text: the rendering holds no control character, so no escape
  sequence survives, and rendering it again changes nothing.
\<close>

theorem terminal_safe_inert:
  "set (terminal_safe v) \<inter> Collect is_control = {} \<and> terminal_safe (Some (terminal_safe v)) = terminal_safe v"
proof -
  have none: "set (terminal_safe v) \<inter> Collect is_control = {}"
    by (auto simp: terminal_safe_def split: option.splits)
  then have "\<forall>c \<in> set (terminal_safe v). code c \<noteq> 27" by (auto simp: is_control_def)
  then have "terminal_safe (Some (terminal_safe v)) = terminal_safe v"
    using none by (auto simp: terminal_safe_def [of "Some (terminal_safe v)"] strip_ansi_plain filter_id_conv)
  then show ?thesis using none by blast
qed

end
