(* ===== verification/Calibration.thy ===== *)
theory Calibration
  imports Prelude
begin

text \<open>
  The abstention threshold of \<open>src/recall/calibration.py\<close>: how it is fitted to two sets of measured
  scores, how a fit is diagnosed, and the map from a score to a confidence. Scores are exact reals
  (theory Prelude). A calibration whose construction the code refuses does not exist, so the record
  holds finite reals and \<open>make_calibration\<close> is the only way to one.
\<close>

section \<open>Constants\<close>

definition default_scale :: real where
  "default_scale = 5 / 100"

definition answerable_floor_q :: real where
  "answerable_floor_q = 5 / 100"

definition unanswerable_ceiling_q :: real where
  "unanswerable_ceiling_q = 95 / 100"

definition min_calibration_samples :: nat where
  "min_calibration_samples = 20"

definition min_separability :: real where
  "min_separability = 90 / 100"

definition separability_z :: real where
  "separability_z = 196 / 100"

definition no_samples_threshold :: real where
  "no_samples_threshold = 1 / 2"

section \<open>Separability\<close>

definition separability :: "real list \<Rightarrow> real list \<Rightarrow> real option" where
  "separability answerable unanswerable =
     (if answerable = [] \<or> unanswerable = [] then None
      else let pairs = concat (map (\<lambda>a. map (\<lambda>u. (a, u)) unanswerable) answerable);
               wins = length (filter (\<lambda>(a, u). a > u) pairs);
               ties = length (filter (\<lambda>(a, u). a = u) pairs)
           in Some ((real wins + real ties / 2) / (real (length answerable) * real (length unanswerable))))"

definition separability_interval :: "real \<Rightarrow> nat \<Rightarrow> nat \<Rightarrow> real \<Rightarrow> real \<times> real" where
  "separability_interval auc n_answerable n_unanswerable z =
     (if n_answerable < 1 \<or> n_unanswerable < 1 then (0, 1)
      else let q1 = auc / (2 - auc);
               q2 = 2 * auc * auc / (1 + auc);
               variance = (auc * (1 - auc) + (real n_answerable - 1) * (q1 - auc * auc)
                            + (real n_unanswerable - 1) * (q2 - auc * auc))
                          / (real n_answerable * real n_unanswerable);
               half = z * sqrt (max variance 0)
           in (max 0 (auc - half), min 1 (auc + half)))"

section \<open>The threshold\<close>

definition quantile :: "real list \<Rightarrow> real \<Rightarrow> real" where
  "quantile sorted_values q =
     sorted_values ! min (length sorted_values - 1) (nat \<lfloor>q * real (length sorted_values)\<rfloor>)"

text \<open>\<open>max(0, n - 1 - k)\<close>: truncated subtraction on naturals.\<close>

definition upper_quantile :: "real list \<Rightarrow> real \<Rightarrow> real" where
  "upper_quantile sorted_values q =
     (let n = length sorted_values in sorted_values ! (n - 1 - nat \<lfloor>(1 - q) * real n\<rfloor>))"

definition floor_to_grid :: "real \<Rightarrow> real" where
  "floor_to_grid v = of_int \<lfloor>v * 1000\<rfloor> / 1000"

text \<open>The first grid step above a value: one integer step, then one division.\<close>

definition grid_above :: "real \<Rightarrow> real" where
  "grid_above v = (of_int \<lfloor>v * 1000\<rfloor> + 1) / 1000"

definition threshold_in_gap :: "real \<Rightarrow> real \<Rightarrow> real" where
  "threshold_in_gap lower_bound ceil =
     (let midpoint = (lower_bound + ceil) / 2; threshold = floor_to_grid midpoint
      in if lower_bound > ceil \<and> threshold \<le> ceil then
           (let above = grid_above ceil
            in if ceil < above \<and> above \<le> lower_bound then above
               else if midpoint > ceil then midpoint else lower_bound)
         else threshold)"

definition real_of_flt :: "pyfloat \<Rightarrow> real" where
  "real_of_flt x = (case x of Fin r \<Rightarrow> r | _ \<Rightarrow> 0)"

definition best_threshold :: "pyfloat list \<Rightarrow> pyfloat list \<Rightarrow> real result" where
  "best_threshold answerable unanswerable =
     (if \<not> list_all isfinite (answerable @ unanswerable)
      then Inl (ValueError ''calibration samples must be finite cosines'')
      else if answerable = [] \<and> unanswerable = [] then Inr no_samples_threshold
      else let a = sort (map real_of_flt answerable); u = sort (map real_of_flt unanswerable)
           in if a = [] then Inr (min 1 (grid_above (upper_quantile u unanswerable_ceiling_q)))
              else if u = [] then Inr (floor_to_grid (quantile a answerable_floor_q))
              else Inr (threshold_in_gap (quantile a answerable_floor_q) (upper_quantile u unanswerable_ceiling_q)))"

section \<open>Calibrations\<close>

record calibration =
  cal_embedder :: string
  cal_threshold :: real
  cal_scale :: real
  cal_separability :: "real option"
  cal_n_answerable :: "nat option"
  cal_n_unanswerable :: "nat option"

definition make_calibration ::
  "string \<Rightarrow> pyfloat \<Rightarrow> pyfloat \<Rightarrow> real option \<Rightarrow> nat option \<Rightarrow> nat option \<Rightarrow> calibration result" where
  "make_calibration embedder threshold scale sep n m =
     (case (threshold, scale) of
        (Fin t, Fin s) \<Rightarrow>
          if s \<le> 0 then Inl (ValueError ''calibration scale must be finite and positive'')
          else Inr \<lparr>cal_embedder = embedder, cal_threshold = t, cal_scale = s, cal_separability = sep,
                    cal_n_answerable = n, cal_n_unanswerable = m\<rparr>
      | (Fin t, _) \<Rightarrow> Inl (ValueError ''calibration scale must be finite and positive'')
      | _ \<Rightarrow> Inl (ValueError ''calibration threshold must be finite''))"

definition separability_ci :: "calibration \<Rightarrow> (real \<times> real) option" where
  "separability_ci cal = (case (cal_separability cal, cal_n_answerable cal, cal_n_unanswerable cal) of
     (Some s, Some n, Some m) \<Rightarrow> Some (separability_interval s n m separability_z)
   | _ \<Rightarrow> None)"

text \<open>The tri-state diagnosis: None is "nothing to judge", never a pass.\<close>

definition certified :: "calibration \<Rightarrow> bool option" where
  "certified cal = (case (cal_separability cal, cal_n_answerable cal, cal_n_unanswerable cal) of
     (Some s, Some n, Some m) \<Rightarrow>
       if min n m < min_calibration_samples then Some False
       else map_option (\<lambda>ci. min_separability \<le> fst ci) (separability_ci cal)
   | _ \<Rightarrow> None)"

text \<open>Why the diagnosis came out as it did: the five branches of \<open>certification_reason\<close>, without their wording.\<close>

datatype certification_reason =
  NotJudged | TooFewSamples "nat option" "nat option" | Overlapping real | IntervalTooWide real | Certified

definition reason_of :: "calibration \<Rightarrow> certification_reason" where
  "reason_of cal = (case (cal_separability cal, cal_n_answerable cal, cal_n_unanswerable cal) of
     (Some s, Some n, Some m) \<Rightarrow>
       (let thin = (\<lambda>k. if k < min_calibration_samples then Some k else None);
            lo = fst (separability_interval s n m separability_z)
        in if thin n \<noteq> None \<or> thin m \<noteq> None then TooFewSamples (thin n) (thin m)
           else if s < min_separability then Overlapping s
           else if lo < min_separability then IntervalTooWide s
           else Certified)
   | _ \<Rightarrow> NotJudged)"

definition confidence :: "calibration \<Rightarrow> pyfloat \<Rightarrow> real" where
  "confidence cal cosine = (case cosine of
     Fin c \<Rightarrow> (let x = max (- 60) (min 60 ((c - cal_threshold cal) / cal_scale cal)) in 1 / (1 + exp (- x)))
   | _ \<Rightarrow> 0)"

section \<open>Fitting a calibration\<close>

text \<open>\<open>statistics.quantiles(data, n=4, method="inclusive")[i - 1]\<close> on at least two values.\<close>

definition inclusive_quartile :: "nat \<Rightarrow> real list \<Rightarrow> real" where
  "inclusive_quartile i data =
     (let xs = sort data; m = length xs - 1; j = (i * m) div 4; delta = (i * m) mod 4
      in (xs ! j * real (4 - delta) + xs ! (j + 1) * real delta) / 4)"

text \<open>\<open>round(x, 4)\<close>: to four decimals, ties to even.\<close>

definition round4 :: "real \<Rightarrow> real" where
  "round4 x = (let y = x * 10000; f = \<lfloor>y\<rfloor>; d = y - of_int f
     in of_int (if d < 1 / 2 then f else if d > 1 / 2 then f + 1 else if even f then f else f + 1) / 10000)"

definition fitted_scale :: "real list \<Rightarrow> real list \<Rightarrow> real" where
  "fitted_scale answerable unanswerable =
     (if 2 \<le> length answerable \<and> 2 \<le> length unanswerable
      then max ((inclusive_quartile 1 answerable - inclusive_quartile 3 unanswerable) / 4) (1 / 100)
      else default_scale)"

definition from_samples :: "string \<Rightarrow> pyfloat list \<Rightarrow> pyfloat list \<Rightarrow> calibration result" where
  "from_samples embedder answerable unanswerable =
     (case best_threshold answerable unanswerable of
        Inl e \<Rightarrow> Inl e
      | Inr thr \<Rightarrow>
          (let a = map real_of_flt answerable; u = map real_of_flt unanswerable
           in make_calibration embedder (Fin thr) (Fin (round4 (fitted_scale a u))) (separability a u)
                (Some (length a)) (Some (length u))))"

section \<open>Quantiles\<close>

lemma twentieth: "nat \<lfloor>5 / 100 * real n\<rfloor> = n div 20"
proof -
  have "5 / 100 * real n = real n / real 20" by simp
  then show ?thesis by (simp only: floor_divide_of_nat_eq nat_int)
qed

lemma sort_Nil_iff [simp]: "sort xs = [] \<longleftrightarrow> xs = []"
  by (metis set_empty set_sort)

lemma length_filter_sort: "length (filter P (sort xs)) = length (filter P xs)"
  by (metis mset_filter mset_sort size_mset)

lemma sorted_below_nth:
  assumes "sorted xs" "i < length xs"
  shows "length (filter (\<lambda>x. x < xs ! i) xs) \<le> i"
proof -
  have "\<not> x < xs ! i" if x: "x \<in> set (drop i xs)" for x
  proof -
    obtain j where "j < length xs - i" "x = xs ! (i + j)" using x assms(2) by (auto simp: in_set_conv_nth)
    then show ?thesis using sorted_nth_mono [OF assms(1), of i "i + j"] assms(2) by (simp add: not_less)
  qed
  then have "filter (\<lambda>x. x < xs ! i) (drop i xs) = []" by (simp add: filter_empty_conv)
  then have "filter (\<lambda>x. x < xs ! i) xs = filter (\<lambda>x. x < xs ! i) (take i xs)"
    by (metis append_Nil2 append_take_drop_id filter_append)
  also have "length \<dots> \<le> length (take i xs)" by (rule length_filter_le)
  finally show ?thesis by simp
qed

lemma sorted_above_nth:
  assumes "sorted xs" "i < length xs"
  shows "length (filter (\<lambda>x. xs ! i < x) xs) \<le> length xs - 1 - i"
proof -
  have "\<not> xs ! i < x" if x: "x \<in> set (take (Suc i) xs)" for x
  proof -
    obtain j where "j \<le> i" "x = xs ! j" using x by (auto simp: in_set_conv_nth less_Suc_eq_le)
    then show ?thesis using sorted_nth_mono [OF assms(1), of j i] assms(2) by simp
  qed
  then have "filter (\<lambda>x. xs ! i < x) (take (Suc i) xs) = []" by (simp add: filter_empty_conv)
  then have "filter (\<lambda>x. xs ! i < x) xs = filter (\<lambda>x. xs ! i < x) (drop (Suc i) xs)"
    by (metis append_Nil append_take_drop_id filter_append)
  also have "length \<dots> \<le> length (drop (Suc i) xs)" by (rule length_filter_le)
  finally show ?thesis by simp
qed

lemma filter_length_mono: "(\<And>x. P x \<Longrightarrow> Q x) \<Longrightarrow> length (filter P xs) \<le> length (filter Q xs)"
  by (induction xs) auto

lemma floor_quantile_tail:
  assumes "xs \<noteq> []" "t \<le> quantile (sort xs) answerable_floor_q"
  shows "length (filter (\<lambda>x. x < t) xs) \<le> length xs div 20"
proof -
  let ?n = "length xs"
  have i: "?n div 20 < length (sort xs)" using assms(1) by (simp add: div_less_dividend)
  have "quantile (sort xs) answerable_floor_q = sort xs ! (?n div 20)"
    using i by (simp add: quantile_def answerable_floor_q_def twentieth [simplified])
  then have "length (filter (\<lambda>x. x < t) xs) \<le> length (filter (\<lambda>x. x < sort xs ! (?n div 20)) xs)"
    using assms(2) by (intro filter_length_mono) simp
  also have "\<dots> \<le> ?n div 20"
    using sorted_below_nth [OF sorted_sort i] by (simp add: length_filter_sort)
  finally show ?thesis .
qed

lemma ceiling_quantile_tail:
  assumes "xs \<noteq> []" "upper_quantile (sort xs) unanswerable_ceiling_q < t"
  shows "length (filter (\<lambda>x. t \<le> x) xs) \<le> length xs div 20"
proof -
  let ?n = "length xs" and ?i = "length xs - 1 - length xs div 20"
  have i: "?i < length (sort xs)" using assms(1) by (cases xs) simp_all
  have "upper_quantile (sort xs) unanswerable_ceiling_q = sort xs ! ?i"
    using twentieth [of ?n] by (simp add: upper_quantile_def unanswerable_ceiling_q_def Let_def)
  then have "length (filter (\<lambda>x. t \<le> x) xs) \<le> length (filter (\<lambda>x. sort xs ! ?i < x) xs)"
    using assms(2) by (intro filter_length_mono) simp
  also have "\<dots> \<le> ?n - 1 - ?i"
    using sorted_above_nth [OF sorted_sort i] by (simp add: length_filter_sort)
  also have "\<dots> \<le> ?n div 20" by simp
  finally show ?thesis .
qed

section \<open>The fitted threshold\<close>

lemma floor_to_grid_bounds: "floor_to_grid v \<le> v" "v < floor_to_grid v + 1 / 1000"
  by (simp_all add: floor_to_grid_def field_simps) linarith+

lemma grid_above_less: "v < grid_above v"
  by (simp add: grid_above_def field_simps) linarith

lemma threshold_in_clean_gap:
  assumes "ceil < lower_bound"
  shows "ceil < threshold_in_gap lower_bound ceil" "threshold_in_gap lower_bound ceil \<le> lower_bound"
  using assms floor_to_grid_bounds [of "(lower_bound + ceil) / 2"] grid_above_less [of ceil]
  by (auto simp: threshold_in_gap_def Let_def not_le)

lemma threshold_in_overlap:
  assumes "\<not> ceil < lower_bound"
  shows "threshold_in_gap lower_bound ceil = floor_to_grid ((lower_bound + ceil) / 2)"
  using assms by (simp add: threshold_in_gap_def Let_def)

abbreviation scores_below :: "real \<Rightarrow> pyfloat list \<Rightarrow> nat" where
  "scores_below t xs \<equiv> length (filter (\<lambda>x. x < t) (map real_of_flt xs))"

abbreviation scores_reaching :: "real \<Rightarrow> pyfloat list \<Rightarrow> nat" where
  "scores_reaching t xs \<equiv> length (filter (\<lambda>x. t \<le> x) (map real_of_flt xs))"

abbreviation floor_of :: "pyfloat list \<Rightarrow> real" where
  "floor_of xs \<equiv> quantile (sort (map real_of_flt xs)) answerable_floor_q"

abbreviation ceiling_of :: "pyfloat list \<Rightarrow> real" where
  "ceiling_of xs \<equiv> upper_quantile (sort (map real_of_flt xs)) unanswerable_ceiling_q"

lemma floor_tail: "t \<le> floor_of xs \<Longrightarrow> scores_below t xs \<le> length xs div 20"
  using floor_quantile_tail [of "map real_of_flt xs" t] by (cases "xs = []") simp_all

lemma ceiling_tail: "ceiling_of xs < t \<Longrightarrow> scores_reaching t xs \<le> length xs div 20"
  using ceiling_quantile_tail [of "map real_of_flt xs" t] by (cases "xs = []") simp_all

text \<open>
  The fitted threshold keeps its promise to both classes. Fitting fails exactly on a non-finite
  sample. When the two distributions have a clean gap, at most one answerable sample in twenty lies
  below the threshold and at most one unanswerable sample in twenty reaches it; with one class only,
  the bound holds for that class (an unanswerable ceiling at 1 caps the threshold at 1); when they
  overlap the threshold is the midpoint of the overlap, rounded down by less than a grid step.
\<close>

theorem best_threshold_margins:
  "(case best_threshold A U of
      Inl e \<Rightarrow> \<not> list_all isfinite (A @ U)
    | Inr t \<Rightarrow> list_all isfinite (A @ U) \<and>
       (if A = [] \<and> U = [] then t = no_samples_threshold
        else if U = [] then scores_below t A \<le> length A div 20
        else if A = [] then t = 1 \<or> scores_reaching t U \<le> length U div 20
        else if ceiling_of U < floor_of A
        then scores_below t A \<le> length A div 20 \<and> scores_reaching t U \<le> length U div 20
        else t \<in> {(floor_of A + ceiling_of U) / 2 - 1 / 1000 <.. (floor_of A + ceiling_of U) / 2}))"
proof (cases "list_all isfinite (A @ U)")
  case fin: True
  consider "A = []" "U = []" | "A \<noteq> []" "U = []" | "A = []" "U \<noteq> []" | "A \<noteq> []" "U \<noteq> []" by blast
  then show ?thesis
  proof cases
    case 2
    then show ?thesis
      using fin floor_tail [of "floor_to_grid (floor_of A)" A] floor_to_grid_bounds(1) [of "floor_of A"]
      by (simp add: best_threshold_def Let_def)
  next
    case 3
    then show ?thesis
      using fin ceiling_tail [of U "grid_above (ceiling_of U)"] grid_above_less [of "ceiling_of U"]
      by (simp add: best_threshold_def min_def Let_def)
  next
    case 4
    then have t: "best_threshold A U = Inr (threshold_in_gap (floor_of A) (ceiling_of U))"
      using fin by (simp add: best_threshold_def Let_def)
    show ?thesis
    proof (cases "ceiling_of U < floor_of A")
      case True
      note gap = threshold_in_clean_gap [OF True]
      show ?thesis using t True 4 fin floor_tail [OF gap(2)] ceiling_tail [OF gap(1)] by simp
    next
      case False
      then show ?thesis
        using 4 fin floor_to_grid_bounds [of "(floor_of A + ceiling_of U) / 2"]
        unfolding t threshold_in_overlap [OF False] by (simp add: field_simps)
    qed
  qed (use fin in \<open>simp add: best_threshold_def\<close>)
qed (simp add: best_threshold_def)

section \<open>Confidence\<close>

definition squash :: "real \<Rightarrow> real" where
  "squash x = 1 / (1 + exp (- max (- 60) (min 60 x)))"

lemma confidence_squash: "confidence cal (Fin c) = squash ((c - cal_threshold cal) / cal_scale cal)"
  by (simp add: confidence_def squash_def)

lemma squash_mono: "x \<le> y \<Longrightarrow> squash x \<le> squash y"
  by (auto simp: squash_def intro!: divide_left_mono add_pos_pos mult_pos_pos)

lemma squash_range: "0 < squash x" "squash x < 1"
  by (simp_all add: squash_def add_pos_pos)

lemma squash_half: "1 / 2 \<le> squash x \<longleftrightarrow> 0 \<le> x"
proof -
  have "1 / 2 \<le> squash x \<longleftrightarrow> exp (- max (- 60) (min 60 x)) \<le> 1"
    by (simp add: squash_def field_simps add_pos_pos)
  also have "\<dots> \<longleftrightarrow> 0 \<le> x" by auto
  finally show ?thesis .
qed

text \<open>
  The confidence of a calibration that could be built is a monotone map into the unit interval:
  one half exactly at the threshold, at least one half exactly for the scores the gate accepts, and
  zero for a score that is not a number or not finite.
\<close>

theorem confidence_shape:
  "(case make_calibration name t s sep n m of
      Inl e \<Rightarrow> True
    | Inr cal \<Rightarrow>
        mono (\<lambda>c. confidence cal (Fin c)) \<and> range (confidence cal) \<subseteq> {0..<1} \<and>
        confidence cal (Fin (cal_threshold cal)) = 1 / 2 \<and>
        {c. 1 / 2 \<le> confidence cal (Fin c)} = {cal_threshold cal..} \<and>
        confidence cal ` {NaN, PInf, NInf} = {0})"
proof (cases "make_calibration name t s sep n m")
  case (Inr cal)
  then have pos: "0 < cal_scale cal"
    by (auto simp: make_calibration_def split: pyfloat.splits if_splits)
  have "mono (\<lambda>c. confidence cal (Fin c))"
    using pos by (auto simp: mono_def confidence_squash intro!: squash_mono divide_right_mono)
  moreover have "range (confidence cal) \<subseteq> {0..<1}"
  proof (rule image_subsetI)
    fix c
    show "confidence cal c \<in> {0..<1}"
      using squash_range by (cases c) (auto simp: confidence_squash less_imp_le, auto simp: confidence_def)
  qed
  moreover have "{c. 1 / 2 \<le> confidence cal (Fin c)} = {cal_threshold cal..}"
    using pos unfolding confidence_squash squash_half by (auto simp: zero_le_divide_iff)
  moreover have "confidence cal (Fin (cal_threshold cal)) = 1 / 2"
    by (simp add: confidence_def)
  moreover have "confidence cal ` {NaN, PInf, NInf} = {0}"
    by (simp add: confidence_def)
  ultimately show ?thesis using Inr by simp
qed simp

section \<open>Separability and certification\<close>

definition pair_count :: "(real \<Rightarrow> real \<Rightarrow> bool) \<Rightarrow> real list \<Rightarrow> real list \<Rightarrow> nat" where
  "pair_count R xs ys = (\<Sum>x \<leftarrow> xs. length (filter (R x) ys))"

lemma pairs_filter:
  "length (filter (\<lambda>(a, u). R a u) (concat (map (\<lambda>a. map (\<lambda>u. (a, u)) us) as))) = pair_count R as us"
  by (induction as) (simp_all add: pair_count_def filter_map o_def)

lemma pair_count_flip: "pair_count R xs ys = pair_count (\<lambda>y x. R x y) ys xs"
proof (induction xs)
  case Nil
  show ?case by (induction ys) (simp_all add: pair_count_def)
next
  case (Cons x xs)
  have "(\<Sum>y \<leftarrow> ys. length (filter (\<lambda>x. R x y) (x # xs))) =
      length (filter (R x) ys) + (\<Sum>y \<leftarrow> ys. length (filter (\<lambda>x. R x y) xs))"
    by (induction ys) simp_all
  then show ?case using Cons.IH by (simp add: pair_count_def)
qed

lemma pair_count_split:
  "pair_count (>) xs ys + pair_count (=) xs ys + pair_count (<) xs ys = length xs * length ys"
proof -
  have "length (filter ((>) x) ys) + length (filter ((=) x) ys) + length (filter ((<) x) ys) = length ys"
    for x by (induction ys) auto
  then show ?thesis by (induction xs) (simp_all add: pair_count_def algebra_simps)
qed

lemma separability_count:
  assumes "xs \<noteq> []" "ys \<noteq> []"
  shows "separability xs ys = Some ((real (pair_count (>) xs ys) + real (pair_count (=) xs ys) / 2)
    / real (length xs * length ys))"
  using assms pairs_filter [of "(>)" ys xs] pairs_filter [of "(=)" ys xs]
  by (simp add: separability_def Let_def)

text \<open>
  Separability is what its description says: undefined exactly when a class is empty, a
  probability otherwise, complementary when the two classes change places (a tie is half a win on
  either side), and one exactly when every answerable sample outscores every unanswerable one.
\<close>

theorem separability_spec:
  "(case (separability xs ys, separability ys xs) of
      (Some s, Some s') \<Rightarrow> s \<in> {0..1} \<and> s + s' = 1 \<and> (s = 1) = (set xs \<times> set ys \<subseteq> {(x, y). y < x})
    | (None, None) \<Rightarrow> xs = [] \<or> ys = []
    | _ \<Rightarrow> False)"
proof (cases "xs = [] \<or> ys = []")
  case True
  then show ?thesis by (auto simp: separability_def)
next
  case False
  define w t l where "w = pair_count (>) xs ys" and "t = pair_count (=) xs ys" and "l = pair_count (<) xs ys"
  have sum: "real w + real t + real l = real (length xs * length ys)"
    using pair_count_split [of xs ys] by (simp only: w_def t_def l_def of_nat_add [symmetric])
  have pos: "0 < real (length xs * length ys)" using False by simp
  have s: "separability xs ys = Some ((real w + real t / 2) / real (length xs * length ys))"
    using False separability_count [of xs ys] by (simp add: w_def t_def)
  have "pair_count (>) ys xs = l" "pair_count (=) ys xs = t"
    using pair_count_flip [of "(<)" xs ys] pair_count_flip [of "(=)" xs ys]
    by (simp_all add: l_def t_def eq_commute)
  then have s': "separability ys xs = Some ((real l + real t / 2) / real (length xs * length ys))"
    using False separability_count [of ys xs] by (simp add: mult.commute)
  have one: "(real w + real t / 2) / real (length xs * length ys) = 1 \<longleftrightarrow> t = 0 \<and> l = 0"
    using sum pos by (auto simp: divide_eq_1_iff)
  have zero: "pair_count R xs ys = 0 \<longleftrightarrow> (\<forall>x \<in> set xs. \<forall>y \<in> set ys. \<not> R x y)" for R
    by (auto simp: pair_count_def filter_empty_conv)
  have wins: "t = 0 \<and> l = 0 \<longleftrightarrow> set xs \<times> set ys \<subseteq> {(x, y). y < x}"
    unfolding t_def l_def zero by (auto simp: not_less_iff_gr_or_eq)
  have bounds: "(real w + real t / 2) / real (length xs * length ys) \<in> {0..1}"
    using sum pos by (simp add: divide_le_eq_1)
  have comp: "(real w + real t / 2) / real (length xs * length ys)
      + (real l + real t / 2) / real (length xs * length ys) = 1"
    using sum pos False by (simp add: add_divide_distrib [symmetric])
  show ?thesis using one wins bounds comp by (simp add: s s')
qed

text \<open>
  The diagnosis and its explanation never disagree: a calibration certifies exactly when the
  explanation says so, is not judged exactly when the explanation says that, and a certified one has
  a measured separability that clears the bar itself, not only its interval.
\<close>

theorem certification_consistent:
  "(certified cal = Some True) = (reason_of cal = Certified) \<and>
   (certified cal = None) = (reason_of cal = NotJudged)"
proof -
  have low: "fst (separability_interval s n m separability_z) \<le> max 0 s" if "1 \<le> n" "1 \<le> m" for s n m
  proof -
    have "s - separability_z * sqrt (max v 0) \<le> max 0 s" for v
      by (simp add: separability_z_def le_max_iff_disj)
    then show ?thesis
      using that by (simp add: separability_interval_def Let_def)
  qed
  have bar: "\<not> s < min_separability" if "20 \<le> n" "20 \<le> m"
    "\<not> fst (separability_interval s n m separability_z) < min_separability" for s n m
    using low [of n m s] that by (simp add: min_separability_def max_def split: if_splits)
  show ?thesis
  proof (cases "cal_separability cal"; cases "cal_n_answerable cal"; cases "cal_n_unanswerable cal")
    fix s n m
    assume c: "cal_separability cal = Some s" "cal_n_answerable cal = Some n" "cal_n_unanswerable cal = Some m"
    let ?lo = "fst (separability_interval s n m separability_z)"
    have "certified cal = Some (20 \<le> n \<and> 20 \<le> m \<and> \<not> ?lo < min_separability)"
      by (auto simp: certified_def separability_ci_def min_calibration_samples_def c)
    moreover have "reason_of cal \<noteq> NotJudged"
      by (simp add: reason_of_def c Let_def)
    moreover have "reason_of cal = Certified \<longleftrightarrow>
        20 \<le> n \<and> 20 \<le> m \<and> \<not> s < min_separability \<and> \<not> ?lo < min_separability"
      by (simp add: reason_of_def c Let_def min_calibration_samples_def not_less)
    ultimately show ?thesis using bar [of n m s] by auto
  qed (simp_all add: certified_def reason_of_def)
qed

section \<open>Fitting never builds a calibration the constructor refuses\<close>

lemma round4_scale:
  assumes "1 / 100 \<le> x"
  shows "1 / 100 \<le> round4 x"
proof -
  have "100 \<le> \<lfloor>x * 10000\<rfloor>" using assms by (simp add: le_floor_iff)
  then have "100 \<le> real_of_int \<lfloor>x * 10000\<rfloor>" by linarith
  then show ?thesis by (auto simp: round4_def Let_def field_simps)
qed

lemma fitted_scale_pos: "1 / 100 \<le> fitted_scale a u"
  unfolding fitted_scale_def by (rule if_split [THEN iffD2]) (simp add: default_scale_def le_max_iff_disj)

text \<open>
  Fitting is total on finite samples: it fails exactly on a non-finite one, and otherwise gives a
  calibration with the fitted threshold and a scale of at least 0.01, which is left unjudged exactly
  when one of the two classes is empty.
\<close>

theorem from_samples_total:
  "(case from_samples name A U of
      Inl e \<Rightarrow> \<not> list_all isfinite (A @ U)
    | Inr cal \<Rightarrow> list_all isfinite (A @ U) \<and> best_threshold A U = Inr (cal_threshold cal) \<and>
        1 / 100 \<le> cal_scale cal \<and> (certified cal = None) = (A = [] \<or> U = []))"
proof (cases "best_threshold A U")
  case (Inl e)
  then show ?thesis by (auto simp: from_samples_def best_threshold_def Let_def split: if_splits)
next
  case (Inr t)
  have fin: "list_all isfinite (A @ U)" using Inr by (simp add: best_threshold_def split: if_splits)
  let ?a = "map real_of_flt A" and ?u = "map real_of_flt U"
  let ?s = "round4 (fitted_scale ?a ?u)"
  have s: "1 / 100 \<le> ?s" by (rule round4_scale [OF fitted_scale_pos])
  then have "\<not> ?s \<le> 0" by linarith
  then have f: "from_samples name A U = Inr \<lparr>cal_embedder = name, cal_threshold = t, cal_scale = ?s,
      cal_separability = separability ?a ?u, cal_n_answerable = Some (length A),
      cal_n_unanswerable = Some (length U)\<rparr>"
    by (simp add: from_samples_def Inr make_calibration_def Let_def)
  have "(separability ?a ?u = None) = (A = [] \<or> U = [])"
    by (simp add: separability_def Let_def)
  then show ?thesis
    using s fin by (cases "separability ?a ?u") (auto simp: f Inr certified_def separability_ci_def)
qed

end
