(* ===== verification/Dependencies.thy ===== *)
theory Dependencies
  imports TrustTypes SourceIdentity
begin

text \<open>
  The dependency projection of \<open>src/recall/dependency_invalidation.py\<close>: one node per document, the
  resolution of \<open>depends_on\<close> references to nodes, the cycle search, the invalidation walk with its memo,
  and the projection the gate reads. Identifiers that are digests of other fields (\<open>_edge_id\<close>, the
  projection id) are left out of the edge and projection records; writing the projection to the
  database is not modelled.

  The builder's local state is split by the loop that writes it: the nodes (\<open>dep_node\<close>), one entry per
  source (\<open>dep_entry\<close>), the cycle search (its members and visited sets) and the walk (its memo).
\<close>

definition max_invalidation_depth :: nat where
  "max_invalidation_depth = 64"

definition source_file :: "chunk \<Rightarrow> string" where
  "source_file c = (case py_get (chunk_metadata c) ''file'' of
     PStr s \<Rightarrow> if s \<noteq> [] then s else chunk_source c
   | _ \<Rightarrow> chunk_source c)"

definition dependency_key :: "chunk \<Rightarrow> string set \<Rightarrow> string" where
  "dependency_key c collided =
     (let f = source_file c in if f \<in> collided \<and> f \<noteq> chunk_source c then chunk_source c else f)"

record dependency_edge =
  dg_tenant :: string
  dg_generation :: string
  dg_dependent :: string
  dg_prerequisite :: string
  dg_asserting_chunk :: string
  dg_authority :: authority
  dg_asserted_at :: "instant option"

datatype diagnostic_kind =
    MalformedMetadata | InconsistentAuthority | DuplicateDependency | SelfDependency
  | UnresolvedDependency | DependencyCycle

definition diagnostic_name :: "diagnostic_kind \<Rightarrow> string" where
  "diagnostic_name k = (case k of
     MalformedMetadata \<Rightarrow> ''malformed_metadata''
   | InconsistentAuthority \<Rightarrow> ''inconsistent_authority''
   | DuplicateDependency \<Rightarrow> ''duplicate_dependency''
   | SelfDependency \<Rightarrow> ''self_dependency''
   | UnresolvedDependency \<Rightarrow> ''unresolved_dependency''
   | DependencyCycle \<Rightarrow> ''dependency_cycle'')"

type_synonym diagnostic = "diagnostic_kind \<times> string \<times> string option"

record dependency_projection =
  dp_authorities :: "(string, authority) dict"
  dp_dependencies :: "(string, string list) dict"
  dp_edges :: "dependency_edge list"
  dp_invalidations :: "(string, invalidation_reason) dict"
  dp_reverse :: "(string, string list) dict"
  dp_diagnostics :: "diagnostic list"
  dp_as_of :: "instant option"
  dp_known_as_of :: "instant option"
  dp_collided :: "string set"

definition reason_for :: "dependency_projection \<Rightarrow> string \<Rightarrow> invalidation_reason option" where
  "reason_for p source = map_of (dp_invalidations p) source"

definition key_for :: "dependency_projection \<Rightarrow> chunk \<Rightarrow> string" where
  "key_for p c = dependency_key c (dp_collided p)"

section \<open>Nodes\<close>

record dep_node =
  dn_file :: string
  dn_roots :: "string option set"
  dn_staged :: bool

definition chunks_by_source :: "chunk list \<Rightarrow> string set \<Rightarrow> (string, chunk list) dict" where
  "chunks_by_source chunks collided = fold (\<lambda>c. dict_append (dependency_key c collided) c) chunks []"

definition make_node :: "file_uris \<Rightarrow> string \<Rightarrow> chunk list \<Rightarrow> dep_node result" where
  "make_node u tenant members =
     (let f = source_file (hd members); sources = remdups (map chunk_source members)
      in case map_result (\<lambda>s. source_identity u (Some s) f) sources of
           Inl e \<Rightarrow> Inl e
         | Inr ids \<Rightarrow>
             (case map_result (\<lambda>s. in_upload_staging u s tenant) sources of
                Inl e \<Rightarrow> Inl e
              | Inr staged \<Rightarrow>
                  Inr \<lparr>dn_file = f, dn_roots = id_root ` set ids, dn_staged = list_all id staged\<rparr>))"

definition make_nodes ::
  "file_uris \<Rightarrow> string \<Rightarrow> (string, chunk list) dict \<Rightarrow> (string, dep_node) dict result" where
  "make_nodes u tenant by_source =
     map_result (\<lambda>(k, members). case make_node u tenant members of Inl e \<Rightarrow> Inl e | Inr n \<Rightarrow> Inr (k, n))
       (sort_key fst by_source)"

definition resolve_dependency :: "(string, dep_node) dict \<Rightarrow> string \<Rightarrow> string \<Rightarrow> string option" where
  "resolve_dependency nodes from_node reference =
     (let holders = filter (\<lambda>(k, n). dn_file n = reference) nodes;
          roots = (case map_of nodes from_node of None \<Rightarrow> {} | Some n \<Rightarrow> dn_roots n);
          own = filter (\<lambda>(k, n). dn_roots n \<inter> roots \<noteq> {}) holders;
          eligible = filter (\<lambda>(k, n). \<not> dn_staged n) holders
      in if length own = 1 then Some (fst (hd own))
         else if length eligible = 1 then Some (fst (hd eligible))
         else None)"

section \<open>One source\<close>

record dep_entry =
  en_authority :: authority
  en_dependencies :: "string list"
  en_links :: "(string \<times> string option) list"
  en_diagnostics :: "diagnostic list"
  en_edges :: "dependency_edge list"
  en_failure :: "dependency_cause option"

text \<open>The metadata of one chunk, folded into (authorities, dependencies, diagnostics, failure).\<close>

type_synonym entry_acc = "authority list \<times> string list \<times> diagnostic list \<times> dependency_cause option"

definition read_chunk :: "string \<Rightarrow> chunk \<Rightarrow> entry_acc \<Rightarrow> entry_acc" where
  "read_chunk source c acc = (case acc of (auths, deps, diags, failure) \<Rightarrow>
     (let bad = (MalformedMetadata, source, None);
          declared_authority = authority_from_metadata (chunk_metadata c);
          (auths', diags', failure', authority) = (case declared_authority of
             Inl e \<Rightarrow> (auths, diags @ [bad], Some CauseInvalid, UnknownAuthority)
           | Inr a \<Rightarrow> (auths @ [a], diags, failure, a))
      in case dependencies_from_metadata (chunk_metadata c) of
           Inl e \<Rightarrow> (auths', deps, diags' @ [bad],
                     if authority \<noteq> ModelInference then Some CauseInvalid else failure')
         | Inr declared \<Rightarrow> (auths', deps @ declared, diags', failure')))"

definition link_diagnostics :: "string \<Rightarrow> (string \<times> string option) list \<Rightarrow> diagnostic list" where
  "link_diagnostics source links = concat (map (\<lambda>(reference, p).
     if p = Some source then [(SelfDependency, source, Some reference)]
     else if p = None then [(UnresolvedDependency, source, Some reference)] else []) links)"

definition make_entry ::
  "(string, dep_node) dict \<Rightarrow> string \<Rightarrow> string \<Rightarrow> (string, instant option) dict \<Rightarrow> string \<Rightarrow> chunk list
     \<Rightarrow> dep_entry" where
  "make_entry nodes tenant generation asserted source members =
     (let source_chunks = sort_key chunk_id members;
          (auths, deps, diags, failure) = fold (read_chunk source) source_chunks ([], [], [], None);
          tiers = remdups auths;
          (diags1, failure1) = (if length tiers > 1
             then (diags @ [(InconsistentAuthority, source, None)], Some CauseAmbiguous)
             else (diags, failure));
          authority = (case sort_key authority_name tiers of [] \<Rightarrow> UnknownAuthority | a # _ \<Rightarrow> a);
          unique_dependencies = sort (remdups deps);
          diags2 = (if length deps \<noteq> length unique_dependencies
             then diags1 @ [(DuplicateDependency, source, None)] else diags1);
          links = map (\<lambda>reference. (reference, resolve_dependency nodes source reference)) unique_dependencies;
          asserted_at = (case map_of asserted source of None \<Rightarrow> None | Some t \<Rightarrow> t)
      in \<lparr>en_authority = authority,
          en_dependencies = unique_dependencies,
          en_links = sort_key fst links,
          en_diagnostics = diags2 @ link_diagnostics source links,
          en_edges = map (\<lambda>p. \<lparr>dg_tenant = tenant, dg_generation = generation, dg_dependent = source,
              dg_prerequisite = p, dg_asserting_chunk = chunk_id (hd source_chunks),
              dg_authority = authority, dg_asserted_at = asserted_at\<rparr>)
            (filter (\<lambda>p. p \<noteq> source) (List.map_filter snd links)),
          en_failure = (if Some source \<in> snd ` set links then Some CauseCycle else failure1)\<rparr>)"

section \<open>Cycles\<close>

definition adjacency :: "(string, (string \<times> string option) list) dict \<Rightarrow> string \<Rightarrow> string list" where
  "adjacency resolved source = sort (List.map_filter snd (dict_get resolved source []))"

text \<open>
  The depth first search for cycle members. The code's \<open>visiting\<close> list and \<open>active\<close> set always hold the
  same sources, so one list is passed down; the accumulator is (cycle members, visited).
\<close>

function (sequential) find_cycles ::
    "(string \<Rightarrow> string list) \<Rightarrow> string list \<Rightarrow> string list \<Rightarrow> string
       \<Rightarrow> string set \<times> string set \<Rightarrow> string set \<times> string set"
  and find_cycles_all ::
    "(string \<Rightarrow> string list) \<Rightarrow> string list \<Rightarrow> string list \<Rightarrow> string list
       \<Rightarrow> string set \<times> string set \<Rightarrow> string set \<times> string set" where
  "find_cycles adj known visiting source (members, visited) =
     (if source \<in> set visiting then (members \<union> set (dropWhile (\<lambda>s. s \<noteq> source) visiting), visited)
      else if source \<in> visited then (members, visited)
      else let (members', visited') = find_cycles_all adj known (visiting @ [source]) (adj source) (members, visited)
           in (members', insert source visited'))"
| "find_cycles_all adj known visiting [] acc = acc"
| "find_cycles_all adj known visiting (p # ps) acc =
     find_cycles_all adj known visiting ps
       (if p \<in> set known then find_cycles adj known visiting p acc else acc)"
  by pat_completeness auto
termination
proof (relation "measures
    [\<lambda>a. (case a of Inl (adj, known, visiting, source, acc) \<Rightarrow> card (insert source (set known) - set visiting)
               | Inr (adj, known, visiting, ps, acc) \<Rightarrow> card (set known - set visiting)),
     \<lambda>a. (case a of Inl (adj, known, visiting, source, acc) \<Rightarrow> 0
               | Inr (adj, known, visiting, ps, acc) \<Rightarrow> length ps)]", goal_cases)
  case (2 adj known visiting source members visited)
  have "set known - set (visiting @ [source]) \<subset> insert source (set known) - set visiting" using 2 by auto
  then show ?case by (simp add: psubset_card_mono)
qed (auto simp: insert_absorb)

definition cycle_members :: "(string \<Rightarrow> string list) \<Rightarrow> string list \<Rightarrow> string set" where
  "cycle_members adj known = fst (fold (find_cycles adj known []) known ({}, {}))"

section \<open>The walk\<close>

record dep_env =
  de_resolved :: "(string, (string \<times> string option) list) dict"
  de_authorities :: "(string, authority) dict"
  de_failures :: "(string, dependency_cause) dict"
  de_cycles :: "string set"
  de_states :: "(string, string) dict"
  de_generation :: string
  de_as_of :: "instant option"
  de_known_as_of :: "instant option"

definition env_authority :: "dep_env \<Rightarrow> string \<Rightarrow> authority" where
  "env_authority env source = dict_get (de_authorities env) source UnknownAuthority"

definition make_reason :: "dep_env \<Rightarrow> string \<Rightarrow> dependency_cause \<Rightarrow> string list \<Rightarrow> invalidation_reason" where
  "make_reason env source cause path =
     \<lparr>ir_dependency = source, ir_cause = cause, ir_path = path, ir_authority = env_authority env source,
      ir_generation = Some (de_generation env), ir_as_of = de_as_of env, ir_known_as_of = de_known_as_of env\<rparr>"

text \<open>The states of \<open>INVALIDATING_STATES\<close>, each cast to the cause of the same name.\<close>

definition invalidating_state :: "string \<Rightarrow> dependency_cause option" where
  "invalidating_state s =
     find (\<lambda>c. cause_name c = s)
       [CauseSuperseded, CauseExpired, CauseNotYetValid, CauseNotYetKnown, CauseAmbiguous, CauseInvalid]"

definition root_reason :: "dep_env \<Rightarrow> string \<Rightarrow> invalidation_reason option" where
  "root_reason env source =
     (case map_of (de_failures env) source of
        Some cause \<Rightarrow> Some (make_reason env source cause [source])
      | None \<Rightarrow>
          if source \<in> de_cycles env \<and> env_authority env source \<noteq> ModelInference
          then Some (make_reason env source CauseCycle [source])
          else (case invalidating_state (dict_get (de_states env) source ''current'') of
             Some cause \<Rightarrow> if env_authority env source \<noteq> ModelInference
               then Some (make_reason env source cause [source]) else None
           | None \<Rightarrow> None))"

type_synonym memo = "(string \<times> nat) set"

text \<open>A reason found below a source is led by that source, unless its path already is.\<close>

definition lead_path :: "string \<Rightarrow> invalidation_reason \<Rightarrow> invalidation_reason" where
  "lead_path source r =
     (if ir_path r = [] \<or> hd (ir_path r) \<noteq> source then r\<lparr>ir_path := source # ir_path r\<rparr> else r)"

definition inference_cycle :: "dep_env \<Rightarrow> string list \<Rightarrow> string \<Rightarrow> bool" where
  "inference_cycle env path prerequisite \<longleftrightarrow>
     list_all (\<lambda>m. env_authority env m = ModelInference) (dropWhile (\<lambda>m. m \<noteq> prerequisite) path)"

function (sequential) walk ::
    "dep_env \<Rightarrow> string \<Rightarrow> string list \<Rightarrow> nat \<Rightarrow> memo \<Rightarrow> invalidation_reason option \<times> memo"
  and walk_links ::
    "dep_env \<Rightarrow> string \<Rightarrow> string list \<Rightarrow> nat \<Rightarrow> (string \<times> string option) list \<Rightarrow> memo
       \<Rightarrow> invalidation_reason option \<times> memo" where
  "walk env source path depth healthy =
     (if de_cycles env = {} \<and> (source, depth) \<in> healthy then (None, healthy)
      else if depth > max_invalidation_depth
      then (Some (make_reason env source CauseCycle (path @ [source])), healthy)
      else (case root_reason env source of
         Some r \<Rightarrow> (Some r, healthy)
       | None \<Rightarrow>
           (let (reason, healthy') = walk_links env source path depth (dict_get (de_resolved env) source []) healthy
            in if reason = None \<and> de_cycles env = {} then (None, insert (source, depth) healthy')
               else (reason, healthy'))))"
| "walk_links env source path depth [] healthy = (None, healthy)"
| "walk_links env source path depth ((reference, prerequisite) # links) healthy = (case prerequisite of
     None \<Rightarrow> (Some (make_reason env reference CauseUnresolved (path @ [reference])), healthy)
   | Some p \<Rightarrow>
       (if p \<in> set path then
          (if inference_cycle env path p then walk_links env source path depth links healthy
           else (Some (make_reason env p CauseCycle (path @ [p])), healthy))
        else (let (reason, healthy') = walk env p (path @ [p]) (depth + 1) healthy
              in case reason of
                   Some r \<Rightarrow> (Some (lead_path source r), healthy')
                 | None \<Rightarrow> walk_links env source path depth links healthy')))"
  by pat_completeness auto
termination
  by (relation "measures
    [\<lambda>a. (case a of Inl (env, source, path, depth, healthy) \<Rightarrow> 66 - depth
               | Inr (env, source, path, depth, links, healthy) \<Rightarrow> 65 - depth),
     \<lambda>a. (case a of Inl (env, source, path, depth, healthy) \<Rightarrow> 0
               | Inr (env, source, path, depth, links, healthy) \<Rightarrow> length links)]")
    (auto simp: max_invalidation_depth_def)

section \<open>The projection\<close>

definition invalidate_source ::
  "dep_env \<Rightarrow> string \<Rightarrow> (string, invalidation_reason) dict \<times> memo \<Rightarrow> (string, invalidation_reason) dict \<times> memo" where
  "invalidate_source env source acc = (case acc of (invalidations, healthy) \<Rightarrow>
     (let (reason, healthy') = walk env source [source] 0 healthy
      in case reason of
           Some r \<Rightarrow> (dict_set source r invalidations, healthy')
         | None \<Rightarrow>
             (if source \<in> de_cycles env \<and> env_authority env source \<noteq> ModelInference
              then (dict_set source (make_reason env source CauseCycle [source]) invalidations, healthy')
              else (invalidations, healthy'))))"

definition reverse_edges :: "dependency_edge list \<Rightarrow> (string, string list) dict" where
  "reverse_edges es = fold (\<lambda>e. dict_append (dg_prerequisite e) (dg_dependent e)) es []"

definition build_env ::
  "(string, dep_entry) dict \<Rightarrow> (string, string) dict \<Rightarrow> string \<Rightarrow> instant option \<Rightarrow> instant option \<Rightarrow> dep_env" where
  "build_env entries base_states generation as_of known =
     (let resolved = map (\<lambda>(k, e). (k, en_links e)) entries
      in \<lparr>de_resolved = resolved,
          de_authorities = map (\<lambda>(k, e). (k, en_authority e)) entries,
          de_failures = List.map_filter (\<lambda>(k, e). map_option (Pair k) (en_failure e)) entries,
          de_cycles = cycle_members (adjacency resolved) (map fst entries),
          de_states = base_states, de_generation = generation, de_as_of = as_of, de_known_as_of = known\<rparr>)"

definition build_dependency_projection ::
  "file_uris \<Rightarrow> chunk list \<Rightarrow> string \<Rightarrow> string \<Rightarrow> (string, string) dict \<Rightarrow> datetime option \<Rightarrow> datetime option
     \<Rightarrow> (string, datetime option) dict \<Rightarrow> string set \<Rightarrow> dependency_projection result" where
  "build_dependency_projection u chunks tenant generation base_states as_of known asserted collided =
     (let by_source = sort_key fst (chunks_by_source chunks collided)
      in case make_nodes u tenant by_source of
           Inl e \<Rightarrow> Inl e
         | Inr nodes \<Rightarrow>
             (let asserted_at = map (\<lambda>(k, t). (k, map_option as_utc t)) asserted;
                  entries = map (\<lambda>(k, members).
                    (k, make_entry nodes tenant generation asserted_at k members)) by_source;
                  env = build_env entries base_states generation (map_option as_utc as_of) (map_option as_utc known);
                  known_sources = map fst entries;
                  (invalidations, healthy) = fold (invalidate_source env) known_sources ([], {});
                  edges = concat (map (\<lambda>(k, e). en_edges e) entries);
                  diagnostics = concat (map (\<lambda>(k, e). en_diagnostics e) entries) @
                    map (\<lambda>s. (DependencyCycle, s, None)) (filter (\<lambda>s. s \<in> de_cycles env) known_sources)
              in Inr \<lparr>dp_authorities = de_authorities env,
                      dp_dependencies = map (\<lambda>(k, e). (k, en_dependencies e)) entries,
                      dp_edges = edges,
                      dp_invalidations = invalidations,
                      dp_reverse = sort_key fst (map (\<lambda>(k, ds). (k, sort ds)) (reverse_edges edges)),
                      dp_diagnostics = sort_key (\<lambda>(kind, s, d). (s, diagnostic_name kind,
                          case d of None \<Rightarrow> [] | Some x \<Rightarrow> x)) diagnostics,
                      dp_as_of = map_option as_utc as_of, dp_known_as_of = map_option as_utc known,
                      dp_collided = collided\<rparr>))"

end
