(* ===== verification/TrustGate.thy ===== *)
theory TrustGate
  imports TrustVerdicts Calibration Dependencies SupersessionWalk
begin

text \<open>
  The trust gate of \<open>src/recall/trust_gate.py\<close>: the verdict of one hit, the evaluation of a retrieval
  result with successor promotion, and the reordering of what was promoted. The optional arguments of
  \<open>evaluate\<close> are the record \<open>evaluation\<close>. The \<open>file\<close> of a chunk's metadata is a string or absent;
  counting a decision (\<open>_record_metrics\<close>) has no effect on it and is left out.
\<close>

section \<open>One hit\<close>

definition uncalibrated :: calibration where
  "uncalibrated = \<lparr>cal_embedder = ''uncalibrated'', cal_threshold = default_gap_threshold, cal_scale = default_scale,
     cal_separability = None, cal_n_answerable = None, cal_n_unanswerable = None\<rparr>"

definition chunk_file :: "chunk \<Rightarrow> string option" where
  "chunk_file c = as_str (py_get (chunk_metadata c) ''file'')"

text \<open>When the store first held the hit: its first write, or its last where no first write is known.\<close>

definition first_known :: "scored_chunk \<Rightarrow> instant option" where
  "first_known hit = (case sc_first_indexed_at hit of Some t \<Rightarrow> Some t | None \<Rightarrow> sc_indexed_at hit)"

definition low_score :: "scored_chunk \<Rightarrow> pyfloat \<Rightarrow> bool" where
  "low_score hit threshold \<longleftrightarrow> sc_kind hit = DenseCosine \<and>
     (\<not> isfinite (sc_score hit) \<or> \<not> isfinite threshold \<or> flt_less (sc_score hit) threshold)"

definition verdict_of ::
  "scored_chunk \<Rightarrow> edges \<Rightarrow> pyfloat \<Rightarrow> instant \<Rightarrow> key set \<Rightarrow> instant option \<Rightarrow> edge_candidates option
     \<Rightarrow> windows option \<Rightarrow> key option \<Rightarrow> verdict \<times> validity" where
  "verdict_of hit supersession threshold now unresolved known_as_of candidates windows k =
     (let f = (case k of None \<Rightarrow> chunk_file (sc_chunk hit) | Some x \<Rightarrow> Some x)
      in case validity_bounds (chunk_metadata (sc_chunk hit)) of
        Inl e \<Rightarrow> (InvalidMetadata, \<lparr>va_from = None, va_until = None, va_superseded_by = None\<rparr>)
      | Inr (start, stop) \<Rightarrow>
          if (case (known_as_of, first_known hit) of (Some t, Some w) \<Rightarrow> w > t | _ \<Rightarrow> False)
          then (NotYetKnown, \<lparr>va_from = start, va_until = stop, va_superseded_by = None\<rparr>)
          else if (case f of None \<Rightarrow> False | Some x \<Rightarrow> x \<in> unresolved)
          then (AmbiguousSupersession, \<lparr>va_from = start, va_until = stop, va_superseded_by = None\<rparr>)
          else let successor = (case f of
                     None \<Rightarrow> None
                   | Some x \<Rightarrow> if x = [] then None
                       else resolve_successor x supersession candidates (map_option Aware known_as_of)
                              (Some (Aware now)) windows);
                   validity = \<lparr>va_from = start, va_until = stop, va_superseded_by = successor\<rparr>
               in if successor \<noteq> None then (Superseded, validity)
                  else if (case stop of None \<Rightarrow> False | Some e \<Rightarrow> now > e) then (Expired, validity)
                  else if (case start of None \<Rightarrow> False | Some s \<Rightarrow> now < s) then (NotYetValid, validity)
                  else if low_score hit threshold then (LowConfidence, validity)
                  else (Ok, validity))"

section \<open>Evaluation\<close>

record evaluation =
  ev_supersession :: supersession_arg
  ev_calibration :: "calibration option"
  ev_now :: datetime
  ev_unresolved :: "key set"
  ev_known_as_of :: "datetime option"
  ev_candidates :: "edge_candidates option"
  ev_calibration_id :: "string option"
  ev_calibration_status :: "string option"
  ev_binding :: "(string, string) dict option"
  ev_query_set_digest :: "string option"
  ev_projection :: "dependency_projection option"
  ev_dependency_mode :: string

definition aware_candidates :: "edge_candidates \<Rightarrow> edge_candidates" where
  "aware_candidates cands = map (\<lambda>(t, claims). (t, map (\<lambda>(f, w). (f, map_option (\<lambda>d. Aware (as_utc d)) w)) claims)) cands"

text \<open>What the loop over hits reads: the arguments after normalisation.\<close>

record gate_view =
  gv_graph :: supersession_graph
  gv_candidates :: "edge_candidates option"
  gv_windows :: "windows option"
  gv_now :: instant
  gv_known :: "instant option"
  gv_cal :: calibration
  gv_projection :: "dependency_projection option"

definition gate_view_of :: "evaluation \<Rightarrow> gate_view result" where
  "gate_view_of ev =
     (let is_graph = (case ev_supersession ev of GraphArg _ \<Rightarrow> True | EdgeMap _ \<Rightarrow> False)
      in if is_graph \<and> ev_candidates ev \<noteq> None
         then Inl (ValueError ''edge_candidates goes with a plain edge map; a SupersessionGraph has its own'')
         else let resolved = as_supersession_graph (ev_supersession ev) (ev_unresolved ev) None;
                  candidates = (if is_graph then Some (sg_candidates resolved) else ev_candidates ev)
              in Inr \<lparr>gv_graph = resolved,
                      gv_candidates = (if ev_known_as_of ev = None then candidates
                                       else map_option aware_candidates candidates),
                      gv_windows = (if is_graph then Some (sg_windows resolved) else None),
                      gv_now = as_utc (ev_now ev),
                      gv_known = map_option as_utc (ev_known_as_of ev),
                      gv_cal = (case ev_calibration ev of None \<Rightarrow> uncalibrated | Some c \<Rightarrow> c),
                      gv_projection = (if ev_dependency_mode ev = ''enforce'' then ev_projection ev else None)\<rparr>)"

definition hit_key :: "gate_view \<Rightarrow> scored_chunk \<Rightarrow> key option" where
  "hit_key gv hit = (case chunk_file (sc_chunk hit) of
     None \<Rightarrow> None
   | Some f \<Rightarrow> if f = [] then None else Some (graph_key (gv_graph gv) f (Some (chunk_source (sc_chunk hit)))))"

definition base_verdict :: "gate_view \<Rightarrow> scored_chunk \<Rightarrow> verdict \<times> validity" where
  "base_verdict gv hit =
     verdict_of hit (sg_edges (gv_graph gv)) (Fin (cal_threshold (gv_cal gv))) (gv_now gv)
       (sg_unresolved (gv_graph gv)) (gv_known gv) (gv_candidates gv) (gv_windows gv) (hit_key gv hit)"

definition authored_metadata :: "metadata \<Rightarrow> (authority \<times> string list) result" where
  "authored_metadata meta = (case authority_from_metadata meta of
     Inl e \<Rightarrow> Inl e
   | Inr a \<Rightarrow> (case dependencies_from_metadata meta of Inl e \<Rightarrow> Inl e | Inr ds \<Rightarrow> Inr (a, ds)))"

text \<open>
  A failed read leaves the authority that was read before the failure and no dependencies, and takes
  the dependency check away with the verdict.
\<close>

definition invalidation_of :: "gate_view \<Rightarrow> chunk \<Rightarrow> invalidation_reason option" where
  "invalidation_of gv c = (case (authored_metadata (chunk_metadata c), gv_projection gv) of
     (Inr _, Some p) \<Rightarrow> reason_for p (key_for p c)
   | _ \<Rightarrow> None)"

definition trust_hit :: "gate_view \<Rightarrow> scored_chunk \<Rightarrow> trusted_hit" where
  "trust_hit gv hit =
     (let meta = chunk_metadata (sc_chunk hit);
          (verdict, validity) = base_verdict gv hit;
          invalidation = invalidation_of gv (sc_chunk hit)
      in \<lparr>th_chunk = sc_chunk hit,
          th_cosine = sc_score hit,
          th_confidence = confidence (gv_cal gv) (sc_score hit),
          th_verdict = (case authored_metadata meta of
             Inl e \<Rightarrow> InvalidMetadata
           | Inr _ \<Rightarrow> if invalidation \<noteq> None \<and> verdict = Ok then DependencyInvalidated else verdict),
          th_provenance = \<lparr>pv_source = chunk_source (sc_chunk hit), pv_file = chunk_file (sc_chunk hit),
             pv_ord = as_int (py_get meta ''ord''), pv_indexed_at = sc_indexed_at hit,
             pv_first_indexed_at = sc_first_indexed_at hit\<rparr>,
          th_validity = validity,
          th_authority = (case authority_from_metadata meta of Inl e \<Rightarrow> UnknownAuthority | Inr a \<Rightarrow> a),
          th_dependencies = (case authored_metadata meta of Inl e \<Rightarrow> [] | Inr (a, ds) \<Rightarrow> ds),
          th_invalidation = invalidation\<rparr>)"

definition promoted_files :: "gate_view \<Rightarrow> trusted_hit list \<Rightarrow> key set" where
  "promoted_files gv hits =
     set (List.map_filter (\<lambda>h. if th_verdict h = Superseded \<and> flt_ge (th_cosine h) (Fin (cal_threshold (gv_cal gv)))
        then va_superseded_by (th_validity h) else None) hits)"

definition promote :: "key set \<Rightarrow> trusted_hit \<times> key option \<Rightarrow> trusted_hit" where
  "promote promoted hk = (case hk of (h, k) \<Rightarrow>
     if th_verdict h = LowConfidence \<and> (case k of None \<Rightarrow> False | Some x \<Rightarrow> x \<in> promoted)
     then h\<lparr>th_verdict := (if th_invalidation h \<noteq> None then DependencyInvalidated else Ok)\<rparr>
     else h)"

definition judged_hits :: "gate_view \<Rightarrow> scored_chunk list \<Rightarrow> trusted_hit list" where
  "judged_hits gv hits =
     (let trusted = map (trust_hit gv) hits; keys = map (hit_key gv) hits
      in map (promote (promoted_files gv trusted)) (zip trusted keys))"

definition ok_first :: "trusted_hit list \<Rightarrow> trusted_hit list" where
  "ok_first hits = filter (\<lambda>h. th_verdict h = Ok) hits @ filter (\<lambda>h. th_verdict h \<noteq> Ok) hits"

definition bound :: "evaluation \<Rightarrow> string \<Rightarrow> string option" where
  "bound ev name = (case ev_binding ev of None \<Rightarrow> None | Some d \<Rightarrow> map_of d name)"

definition evaluate :: "retrieval_result \<Rightarrow> evaluation \<Rightarrow> trusted_result result" where
  "evaluate result ev = (case gate_view_of ev of
     Inl e \<Rightarrow> Inl e
   | Inr gv \<Rightarrow>
       (let trusted = judged_hits gv (rr_hits result);
            ok = filter (\<lambda>h. th_verdict h = Ok) trusted;
            rest = filter (\<lambda>h. th_verdict h \<noteq> Ok) trusted
        in Inr \<lparr>tr_query = rr_query result,
                tr_hits = ok @ rest,
                tr_abstained = (ok = []),
                tr_reason = (if ok = [] then abstain_reason rest else []),
                tr_gap_warning = rr_gap_warning result,
                tr_staleness = rr_staleness result,
                tr_decision_state = Some (decision_state_for trusted (rr_gap_warning result)),
                tr_diagnostics = rr_diagnostics result,
                tr_calibration_id = ev_calibration_id ev,
                tr_calibration_status = (case ev_calibration_status ev of
                   Some s \<Rightarrow> s
                 | None \<Rightarrow> if ev_calibration ev \<noteq> None then ''legacy_unbound'' else ''missing''),
                tr_tenant_id = bound ev ''tenant_id'',
                tr_generation_id = bound ev ''generation_id'',
                tr_pipeline_fingerprint = bound ev ''pipeline_fingerprint'',
                tr_corpus_fingerprint = bound ev ''corpus_fingerprint'',
                tr_query_set_digest = ev_query_set_digest ev,
                tr_trust_state = ''trusted'',
                tr_failure_code = None\<rparr>))"

section \<open>Ordering what was promoted\<close>

datatype promotion_order = PoolOrder | PromotedFirst | InheritRank

definition inherited_ranks :: "(string, int) dict \<Rightarrow> trusted_hit list \<Rightarrow> (string, int) dict" where
  "inherited_ranks pool_index hits = fold (\<lambda>h inherited.
     (case (va_superseded_by (th_validity h), map_of pool_index (chunk_id (th_chunk h))) of
        (Some target, Some index) \<Rightarrow>
          if target \<noteq> [] \<and> index < dict_get inherited target (index + 1)
          then dict_set target index inherited else inherited
      | _ \<Rightarrow> inherited)) hits []"

definition own_rank :: "(string, int) dict \<Rightarrow> trusted_hit \<Rightarrow> int" where
  "own_rank pool_index h = dict_get pool_index (chunk_id (th_chunk h)) (int (length pool_index) + 1)"

definition order_ok :: "(string, int) dict \<Rightarrow> (string, int) dict \<Rightarrow> promotion_order \<Rightarrow> trusted_hit list
    \<Rightarrow> trusted_hit list" where
  "order_ok pool_index inherited policy ok =
     (if policy = PromotedFirst
      then sort_key (\<lambda>h. (if (case pv_file (th_provenance h) of None \<Rightarrow> False
              | Some f \<Rightarrow> map_of inherited f \<noteq> None) then 0 else 1 :: int, own_rank pool_index h)) ok
      else sort_key (\<lambda>h. dict_get inherited
              (case pv_file (th_provenance h) of None \<Rightarrow> [] | Some f \<Rightarrow> f) (own_rank pool_index h)) ok)"

definition order_promoted ::
  "trusted_result \<Rightarrow> (string, int) dict \<Rightarrow> promotion_order \<Rightarrow> trusted_result" where
  "order_promoted trusted pool_index policy =
     (let ok = filter (\<lambda>h. th_verdict h = Ok) (tr_hits trusted);
          rest = filter (\<lambda>h. th_verdict h \<noteq> Ok) (tr_hits trusted)
      in if policy = PoolOrder \<or> ok = [] then trusted
         else trusted\<lparr>tr_hits := order_ok pool_index (inherited_ranks pool_index (tr_hits trusted)) policy ok @ rest\<rparr>)"

end
