(* ===== verification/TrustGateCorrect.thy ===== *)
theory TrustGateCorrect
  imports TrustGate
begin

text \<open>
  What the gate promises: which hits it calls \<open>ok\<close>, exactly; that promotion only ever moves a hit that
  nothing else speaks against; that nothing is lost or invented; and that abstention, its reason and
  the decision state agree with the hits. The contract between judging a hit and promoting it is the
  locale \<open>promotion_pass\<close>.
\<close>

section \<open>One verdict\<close>

definition verdict_file :: "scored_chunk \<Rightarrow> key option \<Rightarrow> key option" where
  "verdict_file hit k = (case k of None \<Rightarrow> chunk_file (sc_chunk hit) | Some x \<Rightarrow> Some x)"

definition written_after :: "scored_chunk \<Rightarrow> instant option \<Rightarrow> bool" where
  "written_after hit known = (case (known, first_known hit) of (Some t, Some w) \<Rightarrow> w > t | _ \<Rightarrow> False)"

definition in_doubt :: "key set \<Rightarrow> key option \<Rightarrow> bool" where
  "in_doubt U f = (case f of None \<Rightarrow> False | Some x \<Rightarrow> x \<in> U)"

text \<open>Some document reachable over the claims live at the replayed instant is valid now.\<close>

definition hidden :: "edges \<Rightarrow> edge_candidates option \<Rightarrow> instant option \<Rightarrow> instant \<Rightarrow> windows option \<Rightarrow> key option \<Rightarrow> bool" where
  "hidden e c known now w f = (case f of
     None \<Rightarrow> False
   | Some x \<Rightarrow> x \<noteq> [] \<and> (\<exists>m. (x, m) \<in> {(a, b). stated_claim e c (map_option Aware known) a b}\<^sup>* \<and> m \<noteq> x \<and>
       valid_member (Some (Aware now)) w m))"

definition declared_valid :: "scored_chunk \<Rightarrow> instant \<Rightarrow> bool" where
  "declared_valid hit now = (case validity_bounds (chunk_metadata (sc_chunk hit)) of
     Inl e \<Rightarrow> False | Inr w \<Rightarrow> window_contains (Some w) (Aware now))"

lemma hidden_iff:
  "hidden e c known now w (Some x) \<longleftrightarrow>
     x \<noteq> [] \<and> resolve_successor x e c (map_option Aware known) (Some (Aware now)) w \<noteq> None"
  unfolding hidden_def resolve_successor_None claim_reach_iff by auto

lemma verdict_of_cases:
  "verdict_of hit e t now U known c w k =
     (case validity_bounds (chunk_metadata (sc_chunk hit)) of
        Inl err \<Rightarrow> (InvalidMetadata, \<lparr>va_from = None, va_until = None, va_superseded_by = None\<rparr>)
      | Inr (a, b) \<Rightarrow>
          if written_after hit known then (NotYetKnown, \<lparr>va_from = a, va_until = b, va_superseded_by = None\<rparr>)
          else if in_doubt U (verdict_file hit k)
          then (AmbiguousSupersession, \<lparr>va_from = a, va_until = b, va_superseded_by = None\<rparr>)
          else if hidden e c known now w (verdict_file hit k)
          then (Superseded, \<lparr>va_from = a, va_until = b, va_superseded_by =
             resolve_successor (the (verdict_file hit k)) e c (map_option Aware known) (Some (Aware now)) w\<rparr>)
          else ((if (case b of None \<Rightarrow> False | Some x \<Rightarrow> now > x) then Expired
                 else if (case a of None \<Rightarrow> False | Some x \<Rightarrow> now < x) then NotYetValid
                 else if low_score hit t then LowConfidence else Ok),
                \<lparr>va_from = a, va_until = b, va_superseded_by = None\<rparr>))"
proof (cases "verdict_file hit k")
  case None
  then show ?thesis
    unfolding verdict_of_def verdict_file_def [symmetric] written_after_def [symmetric] Let_def None
    by (simp add: in_doubt_def hidden_def split: sum.split)
next
  case (Some x)
  show ?thesis
    unfolding verdict_of_def verdict_file_def [symmetric] written_after_def [symmetric] Let_def Some
    by (auto simp: in_doubt_def hidden_iff split: sum.split)
qed

lemma window_contains_simple:
  "window_contains (Some (a, b)) (Aware now) \<longleftrightarrow>
     \<not> (case b of None \<Rightarrow> False | Some x \<Rightarrow> now > x) \<and> \<not> (case a of None \<Rightarrow> False | Some x \<Rightarrow> now < x)"
  by (cases a; cases b) (auto simp: window_contains_def)

text \<open>The verdict alone, as the first of eight conditions that holds.\<close>

lemma verdict_precedence:
  "fst (verdict_of hit e t now U known c w k) =
     (case validity_bounds (chunk_metadata (sc_chunk hit)) of
        Inl err \<Rightarrow> InvalidMetadata
      | Inr (a, b) \<Rightarrow>
          if written_after hit known then NotYetKnown
          else if in_doubt U (verdict_file hit k) then AmbiguousSupersession
          else if hidden e c known now w (verdict_file hit k) then Superseded
          else if (case b of None \<Rightarrow> False | Some x \<Rightarrow> now > x) then Expired
          else if (case a of None \<Rightarrow> False | Some x \<Rightarrow> now < x) then NotYetValid
          else if low_score hit t then LowConfidence else Ok)"
  unfolding verdict_of_cases by (simp split: sum.split prod.split)

lemma verdict_clear_iff:
  "fst (verdict_of hit e t now U known c w k) \<in> {LowConfidence, Ok} \<longleftrightarrow>
     declared_valid hit now \<and> \<not> written_after hit known \<and> \<not> in_doubt U (verdict_file hit k) \<and>
     \<not> hidden e c known now w (verdict_file hit k)"
  unfolding verdict_precedence declared_valid_def
  by (simp add: window_contains_simple split: sum.split prod.split)

lemma verdict_low_iff:
  "fst (verdict_of hit e t now U known c w k) = LowConfidence \<longleftrightarrow>
     fst (verdict_of hit e t now U known c w k) \<in> {LowConfidence, Ok} \<and> low_score hit t"
  unfolding verdict_precedence by (simp split: sum.split prod.split)

lemma verdict_ok_low: "fst (verdict_of hit e t now U known c w k) = Ok \<longleftrightarrow>
     fst (verdict_of hit e t now U known c w k) \<in> {LowConfidence, Ok} \<and> \<not> low_score hit t"
  unfolding verdict_precedence by (simp split: sum.split prod.split)

lemma verdict_superseded:
  assumes "verdict_of hit e t now U known c w k = (Superseded, v)"
  obtains x s where "verdict_file hit k = Some x" "va_superseded_by v = Some s"
    "resolve_successor x e c (map_option Aware known) (Some (Aware now)) w = Some s"
proof -
  from assms have "hidden e c known now w (verdict_file hit k)" and
    v: "va_superseded_by v =
      resolve_successor (the (verdict_file hit k)) e c (map_option Aware known) (Some (Aware now)) w"
    unfolding verdict_of_cases
    by (auto split: sum.splits if_splits option.splits)
  then obtain x where "verdict_file hit k = Some x" "hidden e c known now w (Some x)"
    by (auto simp: hidden_def split: option.splits)
  then show ?thesis using v that by (auto simp: hidden_iff)
qed

text \<open>
  C2. A single hit is called ok exactly when nothing speaks against it: its declared window parses and
  contains the instant, it had been written by the replayed instant, no ambiguous claim touches it, no
  document that claims it, over any chain of live claims, is itself valid now, and it is a structural
  hit or its score is a finite number that reaches a finite threshold.
\<close>

theorem verdict_ok_iff:
  "(fst (verdict_of hit e t now U known c w k) = Ok) =
     (declared_valid hit now \<and> \<not> written_after hit known \<and> \<not> in_doubt U (verdict_file hit k) \<and>
      \<not> hidden e c known now w (verdict_file hit k) \<and>
      (sc_kind hit = Structural \<or> isfinite (sc_score hit) \<and> isfinite t \<and> flt_ge (sc_score hit) t))"
proof -
  have "\<not> low_score hit t \<longleftrightarrow>
      sc_kind hit = Structural \<or> isfinite (sc_score hit) \<and> isfinite t \<and> flt_ge (sc_score hit) t"
    using flt_finite_not_less [of "sc_score hit" t] by (cases "sc_kind hit") (auto simp: low_score_def)
  then show ?thesis unfolding verdict_ok_low verdict_clear_iff by blast
qed

section \<open>Promotion\<close>

text \<open>
  What promotion relies on, and what it then guarantees whatever the judging rule is: a judgement that
  calls a hit superseded names a successor other than the hit, and one that calls it ok found nothing
  that blocks it.
\<close>

definition vouched :: "('h \<Rightarrow> verdict) \<Rightarrow> ('h \<Rightarrow> key option) \<Rightarrow> ('h \<Rightarrow> bool) \<Rightarrow> 'h list \<Rightarrow> key option \<Rightarrow> bool" where
  "vouched judged named confident pool k =
     (\<exists>v \<in> set pool. judged v = Superseded \<and> confident v \<and> named v = k \<and> k \<noteq> None)"

definition final_verdict ::
  "('h \<Rightarrow> verdict) \<Rightarrow> ('h \<Rightarrow> key option) \<Rightarrow> ('h \<Rightarrow> key option) \<Rightarrow> ('h \<Rightarrow> bool) \<Rightarrow> ('h \<Rightarrow> bool) \<Rightarrow> 'h list \<Rightarrow> 'h \<Rightarrow> verdict" where
  "final_verdict judged key_of named confident blocked pool h =
     (if judged h = LowConfidence \<and> vouched judged named confident pool (key_of h)
      then (if blocked h then DependencyInvalidated else Ok) else judged h)"

locale promotion_pass =
  fixes judged :: "'h \<Rightarrow> verdict" and key_of named :: "'h \<Rightarrow> key option" and confident blocked :: "'h \<Rightarrow> bool"
  assumes superseded_named: "judged h = Superseded \<Longrightarrow> \<exists>s. named h = Some s \<and> key_of h \<noteq> Some s"
    and ok_unblocked: "judged h = Ok \<Longrightarrow> \<not> blocked h"
begin

abbreviation final :: "'h list \<Rightarrow> 'h \<Rightarrow> verdict" where
  "final \<equiv> final_verdict judged key_of named confident blocked"

lemma final_ok_iff:
  "final pool h = Ok \<longleftrightarrow> \<not> blocked h \<and>
     (judged h = Ok \<or> judged h = LowConfidence \<and> vouched judged named confident pool (key_of h))"
  using ok_unblocked [of h] by (auto simp: final_verdict_def)

lemma final_other: "final pool h \<noteq> judged h \<Longrightarrow> judged h = LowConfidence \<and> final pool h \<in> {Ok, DependencyInvalidated}"
  by (auto simp: final_verdict_def split: if_splits)

text \<open>No hit vouches for itself, and a promoted hit is vouched for by a hit that stays superseded.\<close>

lemma promoted_by_another:
  assumes "final pool h = Ok" "judged h \<noteq> Ok"
  obtains v where "v \<in> set pool" "v \<noteq> h" "confident v" "final pool v = Superseded" "named v = key_of h"
    "key_of v \<noteq> key_of h"
proof -
  from assms obtain v where v: "v \<in> set pool" "judged v = Superseded" "confident v" "named v = key_of h"
    "judged h = LowConfidence" by (auto simp: final_ok_iff vouched_def)
  obtain s where s: "named v = Some s" "key_of v \<noteq> Some s" using superseded_named [OF v(2)] by blast
  have "v \<noteq> h" using v(2,5) by auto
  moreover have "final pool v = Superseded" using v(2) by (simp add: final_verdict_def)
  moreover have "key_of v \<noteq> key_of h" using s v(4) by auto
  ultimately show ?thesis using that v by blast
qed

end

text \<open>The judging rule of the gate keeps the contract.\<close>

definition gate_judged :: "gate_view \<Rightarrow> scored_chunk \<Rightarrow> verdict" where
  "gate_judged gv hit = th_verdict (trust_hit gv hit)"

definition gate_named :: "gate_view \<Rightarrow> scored_chunk \<Rightarrow> key option" where
  "gate_named gv hit = va_superseded_by (th_validity (trust_hit gv hit))"

definition gate_confident :: "gate_view \<Rightarrow> scored_chunk \<Rightarrow> bool" where
  "gate_confident gv hit \<longleftrightarrow> flt_ge (sc_score hit) (Fin (cal_threshold (gv_cal gv)))"

definition gate_blocked :: "gate_view \<Rightarrow> scored_chunk \<Rightarrow> bool" where
  "gate_blocked gv hit \<longleftrightarrow> invalidation_of gv (sc_chunk hit) \<noteq> None"

lemma resolve_successor_other:
  assumes "resolve_successor x e c k now w = Some s"
  shows "s \<noteq> x"
proof -
  let ?p = "successor_path x e c k now w"
  have p: "?p \<noteq> []" "s = last ?p" using assms by (auto simp: resolve_successor_def Let_def split: if_splits)
  have "distinct (x # ?p)" using successor_path_props [OF refl p(1)] by blast
  moreover have "last ?p \<in> set ?p" using p(1) by (rule last_in_set)
  ultimately show ?thesis using p(2) by auto
qed

lemma trust_hit_fields [simp]:
  "th_chunk (trust_hit gv hit) = sc_chunk hit" "th_cosine (trust_hit gv hit) = sc_score hit"
  "th_invalidation (trust_hit gv hit) = invalidation_of gv (sc_chunk hit)"
  "th_validity (trust_hit gv hit) = snd (base_verdict gv hit)"
  "th_confidence (trust_hit gv hit) = confidence (gv_cal gv) (sc_score hit)"
  by (simp_all add: trust_hit_def Let_def split: prod.split)

lemma gate_judged_def2:
  "gate_judged gv hit = (case authored_metadata (chunk_metadata (sc_chunk hit)) of
     Inl e \<Rightarrow> InvalidMetadata
   | Inr _ \<Rightarrow> if gate_blocked gv hit \<and> fst (base_verdict gv hit) = Ok then DependencyInvalidated
       else fst (base_verdict gv hit))"
  by (cases "base_verdict gv hit")
    (simp add: gate_judged_def trust_hit_def gate_blocked_def Let_def split: sum.split)

lemma gate_superseded:
  assumes "gate_judged gv hit = Superseded"
  shows "\<exists>s. gate_named gv hit = Some s \<and> hit_key gv hit \<noteq> Some s"
proof -
  have "fst (base_verdict gv hit) = Superseded"
    using assms by (auto simp: gate_judged_def2 split: sum.splits if_splits)
  then have v: "verdict_of hit (sg_edges (gv_graph gv)) (Fin (cal_threshold (gv_cal gv))) (gv_now gv)
       (sg_unresolved (gv_graph gv)) (gv_known gv) (gv_candidates gv) (gv_windows gv) (hit_key gv hit)
     = (Superseded, snd (base_verdict gv hit))" by (simp add: base_verdict_def prod_eq_iff)
  show ?thesis
  proof (rule verdict_superseded [OF v])
    fix x s
    assume x: "verdict_file hit (hit_key gv hit) = Some x" "va_superseded_by (snd (base_verdict gv hit)) = Some s"
      and r: "resolve_successor x (sg_edges (gv_graph gv)) (gv_candidates gv) (map_option Aware (gv_known gv))
        (Some (Aware (gv_now gv))) (gv_windows gv) = Some s"
    have "s \<noteq> x" by (rule resolve_successor_other [OF r])
    then show ?thesis using x by (cases "hit_key gv hit") (auto simp: gate_named_def verdict_file_def)
  qed
qed

interpretation gate: promotion_pass "gate_judged gv" "hit_key gv" "gate_named gv" "gate_confident gv" "gate_blocked gv"
  for gv
  by unfold_locales (auto simp: gate_superseded, auto simp: gate_judged_def2 split: sum.splits if_splits)

lemma promoted_files_vouched:
  "x \<in> promoted_files gv (map (trust_hit gv) pool) \<longleftrightarrow>
     vouched (gate_judged gv) (gate_named gv) (gate_confident gv) pool (Some x)"
  by (auto simp: promoted_files_def vouched_def gate_judged_def gate_named_def gate_confident_def
      List.map_filter_def split: if_splits) force

lemma judged_hits_map:
  "judged_hits gv pool = map (\<lambda>hit. (trust_hit gv hit)\<lparr>th_verdict := gate.final gv pool hit\<rparr>) pool"
proof -
  have "promote (promoted_files gv (map (trust_hit gv) pool)) (trust_hit gv hit, hit_key gv hit)
      = (trust_hit gv hit)\<lparr>th_verdict := gate.final gv pool hit\<rparr>" for hit
    by (cases "hit_key gv hit")
      (auto simp: promote_def final_verdict_def promoted_files_vouched gate_judged_def [symmetric]
        gate_blocked_def vouched_def [of _ _ _ _ None])
  then show ?thesis
    by (simp add: judged_hits_def Let_def zip_map_map zip_same_conv_map)
qed

section \<open>Which hits are served\<close>

text \<open>Everything that can speak against a hit except its own score.\<close>

definition unopposed :: "gate_view \<Rightarrow> scored_chunk \<Rightarrow> bool" where
  "unopposed gv hit \<longleftrightarrow>
     \<not> isl (authored_metadata (chunk_metadata (sc_chunk hit))) \<and> invalidation_of gv (sc_chunk hit) = None \<and>
     declared_valid hit (gv_now gv) \<and> \<not> written_after hit (gv_known gv) \<and>
     \<not> in_doubt (sg_unresolved (gv_graph gv)) (verdict_file hit (hit_key gv hit)) \<and>
     \<not> hidden (sg_edges (gv_graph gv)) (gv_candidates gv) (gv_known gv) (gv_now gv) (gv_windows gv)
         (verdict_file hit (hit_key gv hit))"

text \<open>A hit of the pool was replaced by this one and itself scored as a confident answer.\<close>

definition recommended :: "gate_view \<Rightarrow> scored_chunk list \<Rightarrow> scored_chunk \<Rightarrow> bool" where
  "recommended gv pool hit \<longleftrightarrow> vouched (gate_judged gv) (gate_named gv) (gate_confident gv) pool (hit_key gv hit)"

definition scores_enough :: "scored_chunk \<Rightarrow> pyfloat \<Rightarrow> bool" where
  "scores_enough hit t \<longleftrightarrow> sc_kind hit = Structural \<or> isfinite (sc_score hit) \<and> isfinite t \<and> flt_ge (sc_score hit) t"

definition may_serve :: "gate_view \<Rightarrow> scored_chunk list \<Rightarrow> scored_chunk \<Rightarrow> bool" where
  "may_serve gv pool hit \<longleftrightarrow> unopposed gv hit \<and>
     (scores_enough hit (Fin (cal_threshold (gv_cal gv))) \<or> recommended gv pool hit)"

lemma scores_enough_iff: "scores_enough hit t \<longleftrightarrow> \<not> low_score hit t"
  using flt_finite_not_less [of "sc_score hit" t] by (cases "sc_kind hit") (auto simp: low_score_def scores_enough_def)

lemma base_clear_iff:
  "fst (base_verdict gv hit) \<in> {LowConfidence, Ok} \<longleftrightarrow>
     declared_valid hit (gv_now gv) \<and> \<not> written_after hit (gv_known gv) \<and>
     \<not> in_doubt (sg_unresolved (gv_graph gv)) (verdict_file hit (hit_key gv hit)) \<and>
     \<not> hidden (sg_edges (gv_graph gv)) (gv_candidates gv) (gv_known gv) (gv_now gv) (gv_windows gv)
         (verdict_file hit (hit_key gv hit))"
  unfolding base_verdict_def by (rule verdict_clear_iff)

lemma base_low_iff:
  "fst (base_verdict gv hit) = LowConfidence \<longleftrightarrow>
     fst (base_verdict gv hit) \<in> {LowConfidence, Ok} \<and> low_score hit (Fin (cal_threshold (gv_cal gv)))"
  unfolding base_verdict_def by (rule verdict_low_iff)

lemma base_ok_low:
  "fst (base_verdict gv hit) = Ok \<longleftrightarrow>
     fst (base_verdict gv hit) \<in> {LowConfidence, Ok} \<and> \<not> low_score hit (Fin (cal_threshold (gv_cal gv)))"
  unfolding base_verdict_def by (rule verdict_ok_low)

lemma final_ok_may_serve: "gate.final gv pool hit = Ok \<longleftrightarrow> may_serve gv pool hit"
proof (cases "authored_metadata (chunk_metadata (sc_chunk hit))")
  case (Inl e)
  then show ?thesis unfolding gate.final_ok_iff may_serve_def scores_enough_iff unopposed_def
    by (simp add: gate_judged_def2)
next
  case (Inr p)
  show ?thesis
  proof (cases "gate_blocked gv hit")
    case False
    then have "gate_judged gv hit = fst (base_verdict gv hit)" using Inr by (simp add: gate_judged_def2)
    moreover have "unopposed gv hit \<longleftrightarrow> fst (base_verdict gv hit) \<in> {LowConfidence, Ok}"
      using False Inr by (simp add: unopposed_def gate_blocked_def base_clear_iff del: insert_iff)
    ultimately show ?thesis
      using False base_ok_low [of gv hit] base_low_iff [of gv hit]
      unfolding gate.final_ok_iff may_serve_def scores_enough_iff recommended_def by metis
  next
    case True
    then show ?thesis unfolding gate.final_ok_iff may_serve_def scores_enough_iff unopposed_def by (auto simp: gate_blocked_def)
  qed
qed

lemma judged_ok_chunks:
  "map th_chunk (filter (\<lambda>h. th_verdict h = Ok) (judged_hits gv pool)) = map sc_chunk (filter (may_serve gv pool) pool)"
  unfolding judged_hits_map by (simp add: filter_map o_def final_ok_may_serve)

lemma evaluate_hits:
  assumes "evaluate result ev = Inr r"
  obtains gv where "gate_view_of ev = Inr gv" "tr_hits r = ok_first (judged_hits gv (rr_hits result))"
    "tr_abstained r \<longleftrightarrow> filter (\<lambda>h. th_verdict h = Ok) (judged_hits gv (rr_hits result)) = []"
    "tr_reason r = (if tr_abstained r then abstain_reason (judged_hits gv (rr_hits result)) else [])"
    "tr_decision_state r = Some (decision_state_for (judged_hits gv (rr_hits result)) (rr_gap_warning result))"
proof -
  obtain gv where gv: "gate_view_of ev = Inr gv" using assms by (auto simp: evaluate_def split: sum.splits)
  have all: "filter (\<lambda>h. th_verdict h \<noteq> Ok) hs = hs" if "filter (\<lambda>h. th_verdict h = Ok) hs = []" for hs
    using that by (auto simp: filter_empty_conv filter_id_conv)
  show ?thesis
    using assms gv all [of "judged_hits gv (rr_hits result)"]
    by (intro that [of gv]) (auto simp: evaluate_def Let_def ok_first_def)
qed

lemma filter_ok_first: "filter (\<lambda>h. th_verdict h = Ok) (ok_first hs) = filter (\<lambda>h. th_verdict h = Ok) hs"
  by (simp add: ok_first_def)

text \<open>
  C1. Evaluation serves exactly the hits it should. It refuses only a second set of edge dates; and of
  an accepted call the ok hits are, in pool order, the retrieved chunks with readable metadata, no
  enforced invalidation, a valid window, a write no later than the replayed instant, no ambiguous and
  no valid claim against them, and one of three: a finite score at or above a finite threshold, a structural hit,
  which has no similarity to judge, or a confident hit of the pool that they supersede.
\<close>

theorem evaluate_serves_exactly:
  "(case (evaluate result ev, gate_view_of ev) of
      (Inr r, Inr gv) \<Rightarrow>
        map th_chunk (filter (\<lambda>h. th_verdict h = Ok) (tr_hits r)) =
        map sc_chunk (filter (may_serve gv (rr_hits result)) (rr_hits result))
    | (Inl e, Inl e') \<Rightarrow> e = e' \<and> ev_candidates ev \<noteq> None \<and> (\<exists>g. ev_supersession ev = GraphArg g)
    | _ \<Rightarrow> False)"
proof (cases "evaluate result ev")
  case (Inl e)
  then have "gate_view_of ev = Inl e"
    by (cases "gate_view_of ev") (simp_all add: evaluate_def Let_def)
  moreover from this have "ev_candidates ev \<noteq> None \<and> (\<exists>g. ev_supersession ev = GraphArg g)"
    by (auto simp: gate_view_of_def Let_def split: if_splits supersession_arg.splits)
  ultimately show ?thesis using Inl by simp
next
  case (Inr r)
  from evaluate_hits [OF this] obtain gv where gv: "gate_view_of ev = Inr gv"
    and hits: "tr_hits r = ok_first (judged_hits gv (rr_hits result))" by metis
  show ?thesis using Inr gv by (simp add: hits filter_ok_first judged_ok_chunks)
qed

lemma mset_ok_first: "mset (ok_first hs) = mset hs"
  unfolding ok_first_def by (simp only: mset_append mset_filter multiset_partition [symmetric])

lemma ok_first_idem: "ok_first (ok_first hs) = ok_first hs"
  by (simp add: ok_first_def)

lemma abstain_reason_nonempty: "abstain_reason hs \<noteq> []"
  by (auto simp: abstain_reason_def reason_for_best_def Let_def split: list.split verdict.split option.split)

text \<open>
  Evaluation loses and invents nothing, and its summary agrees with its hits: the chunks are the
  retrieved ones, ok hits first; it abstains exactly when no hit is ok, says why exactly then, and the
  decision state is supported exactly otherwise.
\<close>

theorem evaluate_summary:
  "(case evaluate result ev of
      Inl e \<Rightarrow> True
    | Inr r \<Rightarrow>
        mset (map th_chunk (tr_hits r)) = mset (map sc_chunk (rr_hits result)) \<and>
        tr_hits r = ok_first (tr_hits r) \<and>
        tr_abstained r = (Ok \<notin> th_verdict ` set (tr_hits r)) \<and>
        (tr_reason r = []) = (\<not> tr_abstained r) \<and>
        (tr_decision_state r = Some Supported) = (\<not> tr_abstained r))"
proof (cases "evaluate result ev")
  case (Inr r)
  from evaluate_hits [OF this] obtain gv where hits: "tr_hits r = ok_first (judged_hits gv (rr_hits result))"
    and abs: "tr_abstained r \<longleftrightarrow> filter (\<lambda>h. th_verdict h = Ok) (judged_hits gv (rr_hits result)) = []"
    and reason: "tr_reason r = (if tr_abstained r then abstain_reason (judged_hits gv (rr_hits result)) else [])"
    and state: "tr_decision_state r = Some (decision_state_for (judged_hits gv (rr_hits result)) (rr_gap_warning result))"
    by metis
  let ?j = "judged_hits gv (rr_hits result)"
  have "mset (map th_chunk (tr_hits r)) = image_mset th_chunk (mset ?j)"
    by (simp only: hits mset_map mset_ok_first)
  also have "\<dots> = mset (map sc_chunk (rr_hits result))"
    unfolding mset_map [symmetric] judged_hits_map by (simp add: o_def)
  finally have "mset (map th_chunk (tr_hits r)) = mset (map sc_chunk (rr_hits result))" .
  moreover have "set (tr_hits r) = set ?j" using mset_ok_first [of ?j] hits by (metis set_mset_mset)
  moreover have "decision_state_for ?j g = Supported \<longleftrightarrow> Ok \<in> th_verdict ` set ?j" for g
    unfolding decision_state_for_def list_ex_iff image_iff eq_commute [of Ok] by simp
  moreover have "tr_abstained r \<longleftrightarrow> Ok \<notin> th_verdict ` set ?j"
    unfolding abs filter_empty_conv image_iff eq_commute [of Ok] by blast
  ultimately show ?thesis
    unfolding Inr sum.case reason state option.inject hits ok_first_idem
    by (simp add: abstain_reason_nonempty)
qed simp

section \<open>Promotion is earned\<close>

text \<open>
  A hit is promoted only on another hit's evidence. Whenever evaluation calls a hit ok that its own
  judgement does not, the pool holds a different document that stays superseded, whose named successor
  is exactly this hit and whose own score reaches the threshold, and no enforced dependency of the
  promoted hit is invalidated.
\<close>

theorem promotion_is_vouched:
  "{i \<in> {..<length pool}. th_verdict (judged_hits gv pool ! i) = Ok \<and> th_verdict (trust_hit gv (pool ! i)) \<noteq> Ok} \<subseteq>
   {i. th_invalidation (judged_hits gv pool ! i) = None \<and>
      (\<exists>j < length pool. hit_key gv (pool ! j) \<noteq> hit_key gv (pool ! i) \<and>
         th_verdict (judged_hits gv pool ! j) = Superseded \<and>
         va_superseded_by (th_validity (judged_hits gv pool ! j)) = hit_key gv (pool ! i) \<and>
         flt_ge (th_cosine (judged_hits gv pool ! j)) (Fin (cal_threshold (gv_cal gv))))}"
proof (rule subsetI, elim CollectE conjE IntE)
  fix i
  assume "i \<in> {..<length pool}" and ok: "th_verdict (judged_hits gv pool ! i) = Ok"
    and raw: "th_verdict (trust_hit gv (pool ! i)) \<noteq> Ok"
  then have i: "i < length pool" by simp
  have nth: "judged_hits gv pool ! j = (trust_hit gv (pool ! j))\<lparr>th_verdict := gate.final gv pool (pool ! j)\<rparr>"
    if "j < length pool" for j using that by (simp add: judged_hits_map)
  have fin: "gate.final gv pool (pool ! i) = Ok" and j: "gate_judged gv (pool ! i) \<noteq> Ok"
    using ok raw by (simp_all add: nth [OF i] gate_judged_def)
  obtain v where v: "v \<in> set pool" "gate_confident gv v" "gate.final gv pool v = Superseded"
      "gate_named gv v = hit_key gv (pool ! i)" "hit_key gv v \<noteq> hit_key gv (pool ! i)"
    using gate.promoted_by_another [OF fin j] by metis
  then obtain m where m: "m < length pool" "v = pool ! m" by (auto simp: in_set_conv_nth)
  have "th_invalidation (judged_hits gv pool ! i) = None"
    using fin gate.final_ok_iff by (simp add: nth [OF i] gate_blocked_def)
  then show "i \<in> {i. th_invalidation (judged_hits gv pool ! i) = None \<and>
      (\<exists>j < length pool. hit_key gv (pool ! j) \<noteq> hit_key gv (pool ! i) \<and>
         th_verdict (judged_hits gv pool ! j) = Superseded \<and>
         va_superseded_by (th_validity (judged_hits gv pool ! j)) = hit_key gv (pool ! i) \<and>
         flt_ge (th_cosine (judged_hits gv pool ! j)) (Fin (cal_threshold (gv_cal gv))))}"
    using m v nth [OF m(1)] by (auto simp: gate_confident_def gate_named_def)
qed

text \<open>
  C3. Enforced dependency invalidation is never overridden: with a projection in enforce mode, no ok hit
  of the result, promoted or not, belongs to a node the projection invalidates.
\<close>

theorem invalidated_never_served:
  "(case (evaluate result ev, ev_projection ev) of
      (Inr r, Some p) \<Rightarrow>
        (if ev_dependency_mode ev = ''enforce''
         then {h \<in> set (tr_hits r). th_verdict h = Ok} \<subseteq> {h. reason_for p (key_for p (th_chunk h)) = None}
         else True)
    | _ \<Rightarrow> True)"
proof (cases "evaluate result ev")
  case (Inr r)
  from evaluate_hits [OF this] obtain gv where gv: "gate_view_of ev = Inr gv"
    and hits: "tr_hits r = ok_first (judged_hits gv (rr_hits result))" by metis
  have "set (tr_hits r) = set (judged_hits gv (rr_hits result))"
    using mset_ok_first hits by (metis set_mset_mset)
  moreover have "reason_for p (key_for p (th_chunk h)) = None"
    if "ev_projection ev = Some p" "ev_dependency_mode ev = ''enforce''"
      "h \<in> set (judged_hits gv (rr_hits result))" "th_verdict h = Ok" for p h
  proof -
    from that obtain hit where hit: "th_chunk h = sc_chunk hit" "gate.final gv (rr_hits result) hit = Ok"
      by (auto simp: judged_hits_map)
    have "gv_projection gv = Some p"
      using gv that(1,2) by (auto simp: gate_view_of_def Let_def split: if_splits)
    moreover have "unopposed gv hit" using hit(2) by (simp add: final_ok_may_serve may_serve_def)
    ultimately show ?thesis
      using hit(1) by (auto simp: unopposed_def invalidation_of_def split: sum.splits)
  qed
  ultimately show ?thesis using Inr by (auto split: option.split)
qed (simp split: option.split)

section \<open>A higher threshold never serves more\<close>

definition served :: "gate_view \<Rightarrow> scored_chunk list \<Rightarrow> chunk set" where
  "served gv pool = th_chunk ` {h \<in> set (judged_hits gv pool). th_verdict h = Ok}"

definition at_threshold :: "gate_view \<Rightarrow> real \<Rightarrow> gate_view" where
  "at_threshold gv t = gv\<lparr>gv_cal := (gv_cal gv)\<lparr>cal_threshold := t\<rparr>\<rparr>"

lemma served_may_serve: "served gv pool = sc_chunk ` {hit \<in> set pool. may_serve gv pool hit}"
  unfolding served_def judged_hits_map by (force simp: final_ok_may_serve)

lemma at_threshold_fields [simp]:
  "gv_graph (at_threshold gv t) = gv_graph gv" "gv_candidates (at_threshold gv t) = gv_candidates gv"
  "gv_windows (at_threshold gv t) = gv_windows gv" "gv_now (at_threshold gv t) = gv_now gv"
  "gv_known (at_threshold gv t) = gv_known gv" "gv_projection (at_threshold gv t) = gv_projection gv"
  "cal_threshold (gv_cal (at_threshold gv t)) = t" "hit_key (at_threshold gv t) = hit_key gv"
  by (simp_all add: at_threshold_def hit_key_def fun_eq_iff split: option.split)

lemma at_threshold_judged:
  "gate_judged (at_threshold gv t) v = Superseded \<longleftrightarrow> gate_judged (at_threshold gv t') v = Superseded"
  "gate_named (at_threshold gv t) v = gate_named (at_threshold gv t') v"
proof -
  have sup: "gate_judged gv v = Superseded \<longleftrightarrow>
      \<not> isl (authored_metadata (chunk_metadata (sc_chunk v))) \<and> fst (base_verdict gv v) = Superseded" for gv
    by (auto simp: gate_judged_def2 split: sum.splits)
  have base: "fst (base_verdict (at_threshold gv t) v) = Superseded \<longleftrightarrow>
      fst (base_verdict (at_threshold gv t') v) = Superseded" for t t'
    unfolding base_verdict_def verdict_precedence by (simp split: sum.split prod.split)
  show "gate_judged (at_threshold gv t) v = Superseded \<longleftrightarrow> gate_judged (at_threshold gv t') v = Superseded"
    unfolding sup using base by blast
  have snd: "snd (base_verdict (at_threshold gv t) v) = snd (base_verdict (at_threshold gv t') v)"
    unfolding base_verdict_def verdict_of_cases by (simp split: sum.split prod.split)
  show "gate_named (at_threshold gv t) v = gate_named (at_threshold gv t') v"
    by (simp add: gate_named_def snd)
qed

lemma may_serve_antimono:
  assumes "t \<le> t'" "may_serve (at_threshold gv t') pool hit"
  shows "may_serve (at_threshold gv t) pool hit"
proof -
  have "unopposed (at_threshold gv t) hit = unopposed (at_threshold gv t') hit"
    by (simp add: unopposed_def invalidation_of_def)
  moreover have "low_score hit (Fin t) \<Longrightarrow> low_score hit (Fin t')"
    using assms(1) by (cases "sc_score hit") (auto simp: low_score_def)
  moreover have "gate_confident (at_threshold gv t') v \<Longrightarrow> gate_confident (at_threshold gv t) v" for v
    using assms(1) by (cases "sc_score v") (auto simp: gate_confident_def)
  then have "recommended (at_threshold gv t') pool hit \<Longrightarrow> recommended (at_threshold gv t) pool hit"
    unfolding recommended_def vouched_def using at_threshold_judged [of gv] by (metis at_threshold_fields(8))
  ultimately show ?thesis using assms(2) by (auto simp: may_serve_def scores_enough_iff)
qed

text \<open>
  The calibrated threshold is a real lever: over one pool and one graph, raising it never adds a
  served memory, promotion included.
\<close>

theorem served_antimono: "antimono (\<lambda>t. served (at_threshold gv t) pool)"
  unfolding served_may_serve by (auto intro!: antimonoI image_mono intro: may_serve_antimono)

section \<open>The order of what was promoted\<close>

text \<open>The pool positions of the hits that name a document as their successor.\<close>

definition naming_ranks :: "(string, int) dict \<Rightarrow> trusted_hit list \<Rightarrow> string \<Rightarrow> int set" where
  "naming_ranks idx hits target = {i. target \<noteq> [] \<and> (\<exists>v \<in> set hits.
     va_superseded_by (th_validity v) = Some target \<and> map_of idx (chunk_id (th_chunk v)) = Some i)}"

lemma finite_naming_ranks: "finite (naming_ranks idx hits target)"
proof -
  have "naming_ranks idx hits target \<subseteq> (\<lambda>v. the (map_of idx (chunk_id (th_chunk v)))) ` set hits"
    by (auto simp: naming_ranks_def image_iff) force
  then show ?thesis by (rule finite_subset) simp
qed

lemma naming_ranks_snoc:
  "naming_ranks idx (hits @ [v]) t = naming_ranks idx hits t \<union>
     {i. t \<noteq> [] \<and> va_superseded_by (th_validity v) = Some t \<and> map_of idx (chunk_id (th_chunk v)) = Some i}"
  by (auto simp: naming_ranks_def)

lemma inherited_ranks_get:
  "map_of (inherited_ranks idx hits) t =
     (if naming_ranks idx hits t = {} then None else Some (Min (naming_ranks idx hits t)))"
proof (induction hits rule: rev_induct)
  case Nil
  then show ?case by (simp add: inherited_ranks_def naming_ranks_def)
next
  case (snoc v hits)
  show ?case
  proof (cases "\<exists>target i. va_superseded_by (th_validity v) = Some target \<and>
      map_of idx (chunk_id (th_chunk v)) = Some i \<and> target \<noteq> []")
    case False
    then have "inherited_ranks idx (hits @ [v]) = inherited_ranks idx hits"
      by (auto simp: inherited_ranks_def split: option.split)
    moreover have "naming_ranks idx (hits @ [v]) t = naming_ranks idx hits t"
      using False by (auto simp: naming_ranks_snoc)
    ultimately show ?thesis using snoc by simp
  next
    case True
    then obtain target i where v: "va_superseded_by (th_validity v) = Some target"
      "map_of idx (chunk_id (th_chunk v)) = Some i" "target \<noteq> []" by blast
    have step: "inherited_ranks idx (hits @ [v]) =
        (if i < dict_get (inherited_ranks idx hits) target (i + 1)
         then dict_set target i (inherited_ranks idx hits) else inherited_ranks idx hits)"
      using v by (simp add: inherited_ranks_def)
    have ranks: "naming_ranks idx (hits @ [v]) x =
        (if x = target then insert i (naming_ranks idx hits x) else naming_ranks idx hits x)" for x
      using v by (auto simp: naming_ranks_snoc)
    show ?thesis
    proof (cases "naming_ranks idx hits t = {}")
      case True
      then show ?thesis using snoc by (cases "t = target") (simp_all add: step ranks dict_get_def)
    next
      case False
      have "Min (insert i (naming_ranks idx hits t)) = min i (Min (naming_ranks idx hits t))"
        by (rule Min_insert [OF finite_naming_ranks False])
      then show ?thesis
        using snoc False by (cases "t = target") (simp_all add: step ranks dict_get_def min_def)
    qed
  qed
qed

definition earned_rank :: "(string, int) dict \<Rightarrow> trusted_hit list \<Rightarrow> trusted_hit \<Rightarrow> int" where
  "earned_rank idx hits h =
     (let ranks = naming_ranks idx hits (case pv_file (th_provenance h) of None \<Rightarrow> [] | Some f \<Rightarrow> f)
      in if ranks = {} then own_rank idx h else Min ranks)"

lemma inherited_earned:
  "dict_get (inherited_ranks idx hits) (case pv_file (th_provenance h) of None \<Rightarrow> [] | Some f \<Rightarrow> f) (own_rank idx h)
     = earned_rank idx hits h"
  by (simp add: earned_rank_def Let_def dict_get_def inherited_ranks_get)

text \<open>
  Reordering promoted hits changes no verdict and loses nothing: the hits are the same, the ones
  that are not ok keep their order, and under the inheriting policy the ok hits stand in the order of
  the rank each earned, which is the best pool position of any hit naming it as successor, or its own
  where none does.
\<close>

theorem order_promoted_ranks:
  "let hits' = tr_hits (order_promoted trusted idx policy); hits = tr_hits trusted
   in mset hits' = mset hits \<and>
      filter (\<lambda>h. th_verdict h \<noteq> Ok) hits' = filter (\<lambda>h. th_verdict h \<noteq> Ok) hits \<and>
      (if policy = InheritRank then sorted (map (earned_rank idx hits) (filter (\<lambda>h. th_verdict h = Ok) hits'))
       else True)"
proof -
  let ?ok = "filter (\<lambda>h. th_verdict h = Ok) (tr_hits trusted)"
    and ?rest = "filter (\<lambda>h. th_verdict h \<noteq> Ok) (tr_hits trusted)"
  have ordered: "mset (order_ok idx inh policy ?ok) = mset ?ok" "set (order_ok idx inh policy ?ok) = set ?ok" for inh
    by (simp_all add: order_ok_def)
  show ?thesis
  proof (cases "policy = PoolOrder \<or> ?ok = []")
    case True
    then show ?thesis by (auto simp: order_promoted_def Let_def)
  next
    case False
    let ?new = "order_ok idx (inherited_ranks idx (tr_hits trusted)) policy ?ok"
    have new: "tr_hits (order_promoted trusted idx policy) = ?new @ ?rest"
      using False by (simp add: order_promoted_def Let_def)
    have okn: "filter (\<lambda>h. th_verdict h = Ok) ?new = ?new" "filter (\<lambda>h. th_verdict h \<noteq> Ok) ?new = []"
      using ordered(2) by (auto simp: filter_id_conv filter_empty_conv)
    have "mset (?new @ ?rest) = mset (tr_hits trusted)"
      by (simp only: mset_append ordered mset_filter multiset_partition [symmetric])
    moreover have "policy = InheritRank \<Longrightarrow> sorted (map (earned_rank idx (tr_hits trusted)) ?new)"
      by (simp add: order_ok_def inherited_earned)
    ultimately show ?thesis unfolding Let_def new filter_append okn by simp
  qed
qed

end
