(* ===== verification/DependencyCorrect.thy ===== *)
theory DependencyCorrect
  imports Dependencies
begin

text \<open>
  What the dependency projection promises: the cycle search finds a cycle whenever there is one, so the
  walk's memo never changes an answer; a source that is not invalidated rests on healthy prerequisites
  all the way down; and every invalidation names a real defect of something the source depends on.
\<close>

definition depends :: "dep_env \<Rightarrow> (string \<times> string) set" where
  "depends env = {(a, b). Some b \<in> snd ` set (dict_get (de_resolved env) a [])}"

section \<open>The cycle search\<close>

definition known_edges :: "(string \<Rightarrow> string list) \<Rightarrow> string list \<Rightarrow> (string \<times> string) set" where
  "known_edges adj known = {(a, b). b \<in> set (adj a) \<and> b \<in> set known}"

text \<open>The sources a search has finished with: closed under prerequisites, and on no cycle.\<close>

definition finished :: "(string \<Rightarrow> string list) \<Rightarrow> string list \<Rightarrow> string set \<Rightarrow> bool" where
  "finished adj known V \<longleftrightarrow> known_edges adj known `` V \<subseteq> V \<and> (\<forall>a \<in> V. (a, a) \<notin> (known_edges adj known)\<^sup>+)"

lemma closed_trancl: "E `` V \<subseteq> V \<Longrightarrow> a \<in> V \<Longrightarrow> (a, b) \<in> E\<^sup>+ \<Longrightarrow> b \<in> V"
  by (rotate_tac 2) (induction rule: trancl_induct, auto)

lemma finished_insert:
  assumes "finished adj known V" "known_edges adj known `` {s} \<subseteq> V" "s \<notin> V"
  shows "finished adj known (insert s V)"
proof -
  let ?E = "known_edges adj known"
  have V: "?E `` V \<subseteq> V" using assms(1) by (simp add: finished_def)
  have "(s, s) \<notin> ?E\<^sup>+"
  proof
    assume "(s, s) \<in> ?E\<^sup>+"
    then obtain b where b: "(s, b) \<in> ?E" "(b, s) \<in> ?E\<^sup>*" by (meson tranclD)
    then have "b \<in> V" using assms(2) by auto
    then have "s \<in> V" using b(2) closed_trancl [OF V] by (metis rtranclD)
    then show False using assms(3) by simp
  qed
  then show ?thesis using assms V by (auto simp: finished_def)
qed

lemma find_cycles_members:
  "fst acc \<subseteq> fst (find_cycles adj known visiting s acc)"
  "fst acc \<subseteq> fst (find_cycles_all adj known visiting ps acc)"
proof (induction adj known visiting s acc and adj known visiting ps acc rule: find_cycles_find_cycles_all.induct)
  case (1 adj known visiting s members V)
  then show ?case by (auto split: prod.splits)
next
  case (3 adj known visiting p ps acc)
  then show ?case by (auto split: if_splits)
qed simp

lemma dropWhile_nonempty: "x \<in> set xs \<Longrightarrow> dropWhile (\<lambda>y. y \<noteq> x) xs \<noteq> []"
  by (induction xs) auto

lemma find_cycles_sound:
  "finished adj known (snd acc) \<Longrightarrow> set visiting \<inter> snd acc = {} \<Longrightarrow>
     find_cycles adj known visiting s acc = ({}, V') \<Longrightarrow>
     snd acc \<subseteq> V' \<and> s \<in> V' \<and> set visiting \<inter> V' = {} \<and> finished adj known V'"
  "finished adj known (snd acc) \<Longrightarrow> set visiting \<inter> snd acc = {} \<Longrightarrow>
     find_cycles_all adj known visiting ps acc = ({}, V') \<Longrightarrow>
     snd acc \<subseteq> V' \<and> set ps \<inter> set known \<subseteq> V' \<and> set visiting \<inter> V' = {} \<and> finished adj known V'"
proof (induction adj known visiting s acc and adj known visiting ps acc arbitrary: V' and V'
    rule: find_cycles_find_cycles_all.induct)
  case (1 adj known visiting s members V)
  consider "s \<in> set visiting" | "s \<notin> set visiting" "s \<in> V" | "s \<notin> set visiting" "s \<notin> V" by blast
  then show ?case
  proof cases
    case 1
    then show ?thesis using "1.prems"(3) dropWhile_nonempty [OF 1] by auto
  next
    case 2
    then show ?thesis using "1.prems" by auto
  next
    case 3
    obtain W where W: "find_cycles_all adj known (visiting @ [s]) (adj s) (members, V) = ({}, W)" "V' = insert s W"
      using "1.prems"(3) 3 by (auto split: prod.splits)
    have ih: "V \<subseteq> W \<and> set (adj s) \<inter> set known \<subseteq> W \<and> set (visiting @ [s]) \<inter> W = {} \<and> finished adj known W"
      using "1.IH" [of W] 3 W(1) "1.prems"(1,2) by auto
    then have "finished adj known V'"
      unfolding W(2) by (intro finished_insert) (auto simp: known_edges_def)
    then show ?thesis using ih 3 W(2) by auto
  qed
next
  case (3 adj known visiting p ps acc)
  let ?acc = "if p \<in> set known then find_cycles adj known visiting p acc else acc"
  have rest: "find_cycles_all adj known visiting ps ?acc = ({}, V')" using "3.prems"(3) by simp
  obtain m W where W: "?acc = (m, W)" by fastforce
  have "m = {}" using find_cycles_members(2) [of ?acc adj known visiting ps] rest W by auto
  then have first: "snd acc \<subseteq> W \<and> (p \<in> set known \<longrightarrow> p \<in> W) \<and> set visiting \<inter> W = {} \<and> finished adj known W"
    using "3.IH"(1) [of W] "3.prems"(1,2) W by (auto split: if_splits)
  then show ?case using "3.IH"(2) [of V'] rest W by auto
qed simp

lemma cycle_members_acyclic:
  assumes "cycle_members adj known = {}" "\<And>a. a \<notin> set known \<Longrightarrow> adj a = []"
  shows "acyclic {(a, b). b \<in> set (adj a)}"
proof -
  let ?E = "known_edges adj known"
  have step: "finished adj known V' \<and> V \<subseteq> V' \<and> set ks \<subseteq> V'"
    if "finished adj known V" "fold (find_cycles adj known []) ks (m, V) = ({}, V')" for ks m V V'
    using that
  proof (induction ks arbitrary: m V)
    case (Cons k ks)
    obtain m' W where W: "find_cycles adj known [] k (m, V) = (m', W)" by fastforce
    have "m' \<subseteq> fst (fold (find_cycles adj known []) ks (m', W))"
    proof (induction ks arbitrary: m' W)
      case (Cons k ks)
      obtain m'' W' where "find_cycles adj known [] k (m', W) = (m'', W')" by fastforce
      then show ?case using Cons.IH [of m'' W'] find_cycles_members(1) [of "(m', W)" adj known "[]" k] by auto
    qed simp
    then have "m' = {}" using Cons.prems(2) W by simp
    then have "finished adj known W \<and> V \<subseteq> W \<and> k \<in> W"
      using find_cycles_sound(1) [of adj known "(m, V)" "[]" k W] Cons.prems(1) W by simp
    then show ?case using Cons.IH [of W m'] Cons.prems(2) W by auto
  qed simp
  obtain V' where "fold (find_cycles adj known []) known ({}, {}) = ({}, V')"
    using assms(1) unfolding cycle_members_def by (metis prod.collapse)
  from step [OF _ this] have V': "finished adj known V'" "set known \<subseteq> V'" by (simp_all add: finished_def)
  show ?thesis
  proof (rule acyclicI, rule allI, rule notI)
    fix a
    assume cyc: "(a, a) \<in> {(a, b). b \<in> set (adj a)}\<^sup>+"
    have "(x, y) \<in> ?E\<^sup>+ \<or> adj y = []" if "(x, y) \<in> {(a, b). b \<in> set (adj a)}\<^sup>+" for x y
      using that
    proof (induction rule: trancl_induct)
      case (base y)
      then show ?case using assms(2) [of y] by (auto simp: known_edges_def)
    next
      case (step y z)
      then show ?case using assms(2) [of z] by (auto simp: known_edges_def intro: trancl_into_trancl)
    qed
    moreover have "adj a \<noteq> []" using tranclD [OF cyc] by auto
    ultimately have "(a, a) \<in> ?E\<^sup>+" using cyc by blast
    moreover have "a \<in> V'" using \<open>adj a \<noteq> []\<close> assms(2) V'(2) by blast
    ultimately show False using V'(1) by (simp add: finished_def)
  qed
qed

section \<open>The walk without its memo\<close>

function (sequential) plain_walk :: "dep_env \<Rightarrow> string \<Rightarrow> string list \<Rightarrow> nat \<Rightarrow> invalidation_reason option"
  and plain_links ::
    "dep_env \<Rightarrow> string \<Rightarrow> string list \<Rightarrow> nat \<Rightarrow> (string \<times> string option) list \<Rightarrow> invalidation_reason option" where
  "plain_walk env source path depth =
     (if depth > max_invalidation_depth then Some (make_reason env source CauseCycle (path @ [source]))
      else (case root_reason env source of
         Some r \<Rightarrow> Some r
       | None \<Rightarrow> plain_links env source path depth (dict_get (de_resolved env) source [])))"
| "plain_links env source path depth [] = None"
| "plain_links env source path depth ((reference, prerequisite) # links) = (case prerequisite of
     None \<Rightarrow> Some (make_reason env reference CauseUnresolved (path @ [reference]))
   | Some p \<Rightarrow>
       (if p \<in> set path then
          (if inference_cycle env path p then plain_links env source path depth links
           else Some (make_reason env p CauseCycle (path @ [p])))
        else (case plain_walk env p (path @ [p]) (depth + 1) of
           Some r \<Rightarrow> Some (lead_path source r)
         | None \<Rightarrow> plain_links env source path depth links)))"
  by pat_completeness auto
termination
  by (relation "measures
    [\<lambda>a. (case a of Inl (env, source, path, depth) \<Rightarrow> 66 - depth | Inr (env, source, path, depth, links) \<Rightarrow> 65 - depth),
     \<lambda>a. (case a of Inl (env, source, path, depth) \<Rightarrow> 0 | Inr (env, source, path, depth, links) \<Rightarrow> length links)]")
    (auto simp: max_invalidation_depth_def)

declare plain_walk.simps [simp del] walk.simps [simp del]

text \<open>A source is clean to a depth when nothing is wrong with it or, within that depth, below it.\<close>

primrec clean :: "dep_env \<Rightarrow> nat \<Rightarrow> string \<Rightarrow> bool" where
  "clean env 0 s = False"
| "clean env (Suc n) s = (root_reason env s = None \<and>
     (\<forall>(r, p) \<in> set (dict_get (de_resolved env) s []). \<exists>q. p = Some q \<and> clean env n q))"

lemma plain_walk_clean:
  "acyclic (depends env) \<Longrightarrow> set path \<subseteq> {q. (q, s) \<in> (depends env)\<^sup>*} \<Longrightarrow>
      (plain_walk env s path d = None) = clean env (65 - d) s"
  "acyclic (depends env) \<Longrightarrow> set path \<subseteq> {q. (q, s) \<in> (depends env)\<^sup>*} \<Longrightarrow> d \<le> 64 \<Longrightarrow> {s} \<times> {q. Some q \<in> snd ` set links} \<subseteq> depends env \<Longrightarrow>
      (plain_links env s path d links = None) = (\<forall>(r, p) \<in> set links. \<exists>q. p = Some q \<and> clean env (64 - d) q)"
proof (induction env s path d and env s path d links rule: plain_walk_plain_links.induct)
  case (1 env s path d)
  show ?case
  proof (cases "d > 64")
    case False
    then have "65 - d = Suc (64 - d)" by simp
    moreover have "{s} \<times> {q. Some q \<in> snd ` set (dict_get (de_resolved env) s [])} \<subseteq> depends env"
      by (auto simp: depends_def)
    ultimately show ?thesis
      using 1 False by (auto simp: plain_walk.simps [of env s path d] max_invalidation_depth_def split: option.split)
  qed (simp add: plain_walk.simps max_invalidation_depth_def)
next
  case (3 env s path d r p links)
  show ?case
  proof (cases p)
    case (Some q)
    then have dep: "(s, q) \<in> depends env" using "3.prems"(4) by auto
    have "q \<notin> set path"
    proof
      assume "q \<in> set path"
      then have "(q, q) \<in> (depends env)\<^sup>+" using "3.prems"(2) dep by (auto intro: rtrancl_into_trancl1)
      then show False using "3.prems"(1) by (simp add: acyclic_def)
    qed
    moreover have "set (path @ [q]) \<subseteq> {x. (x, q) \<in> (depends env)\<^sup>*}"
      using "3.prems"(2) dep by (auto intro: rtrancl_into_rtrancl)
    moreover have "{s} \<times> {q. Some q \<in> snd ` set links} \<subseteq> depends env" using "3.prems"(4) by auto
    ultimately show ?thesis using 3 Some by (auto split: option.split)
  qed simp
qed simp

section \<open>The memo changes nothing\<close>

definition memo_ok :: "dep_env \<Rightarrow> memo \<Rightarrow> bool" where
  "memo_ok env M \<longleftrightarrow> (de_cycles env = {} \<longrightarrow> (\<forall>(a, d) \<in> M. clean env (65 - d) a))"

lemma walk_plain:
  "(de_cycles env = {} \<Longrightarrow> acyclic (depends env)) \<Longrightarrow> memo_ok env M \<Longrightarrow>
     set path \<subseteq> {q. (q, s) \<in> (depends env)\<^sup>*} \<Longrightarrow>
     fst (walk env s path d M) = plain_walk env s path d \<and> memo_ok env (snd (walk env s path d M))"
  "(de_cycles env = {} \<Longrightarrow> acyclic (depends env)) \<Longrightarrow> memo_ok env M \<Longrightarrow>
     set path \<subseteq> {q. (q, s) \<in> (depends env)\<^sup>*} \<Longrightarrow> {s} \<times> {q. Some q \<in> snd ` set links} \<subseteq> depends env \<Longrightarrow>
     fst (walk_links env s path d links M) = plain_links env s path d links \<and>
     memo_ok env (snd (walk_links env s path d links M))"
proof (induction env s path d M and env s path d links M rule: walk_walk_links.induct)
  case (1 env s path d M)
  have clean: "de_cycles env = {} \<Longrightarrow> (plain_walk env s path d = None) = clean env (65 - d) s"
    using plain_walk_clean(1) "1.prems"(1,3) by blast
  have links: "{s} \<times> {q. Some q \<in> snd ` set (dict_get (de_resolved env) s [])} \<subseteq> depends env"
    by (auto simp: depends_def)
  consider (hit) "de_cycles env = {}" "(s, d) \<in> M"
    | (deep) "\<not> (de_cycles env = {} \<and> (s, d) \<in> M)" "d > max_invalidation_depth"
    | (root) r where "\<not> (de_cycles env = {} \<and> (s, d) \<in> M)" "\<not> d > max_invalidation_depth" "root_reason env s = Some r"
    | (below) "\<not> (de_cycles env = {} \<and> (s, d) \<in> M)" "\<not> d > max_invalidation_depth" "root_reason env s = None"
    by (cases "root_reason env s") blast+
  then show ?case
  proof cases
    case hit
    then have "plain_walk env s path d = None" using clean "1.prems"(2) by (auto simp: memo_ok_def)
    then show ?thesis using hit "1.prems"(2) by (simp add: walk.simps [of env s path d M])
  next
    case deep
    then show ?thesis using "1.prems"(2) by (simp add: walk.simps [of env s path d M] plain_walk.simps [of env s path d])
  next
    case root
    then show ?thesis using "1.prems"(2) by (simp add: walk.simps [of env s path d M] plain_walk.simps [of env s path d])
  next
    case below
    obtain r M' where w: "walk_links env s path d (dict_get (de_resolved env) s []) M = (r, M')" by fastforce
    have ih: "r = plain_links env s path d (dict_get (de_resolved env) s [])" "memo_ok env M'"
      using "1.IH" [OF below] "1.prems" links w by simp_all
    have p: "plain_walk env s path d = r" using below ih(1) by (simp add: plain_walk.simps [of env s path d])
    have "walk env s path d M = (if r = None \<and> de_cycles env = {} then (None, insert (s, d) M') else (r, M'))"
      using below w by (auto simp: walk.simps [of env s path d M])
    moreover have "memo_ok env (insert (s, d) M')" if "r = None" "de_cycles env = {}"
      using that ih(2) clean p by (auto simp: memo_ok_def)
    ultimately show ?thesis using p ih(2) by auto
  qed
next
  case (3 env s path d ref p links M)
  show ?case
  proof (cases p)
    case (Some q)
    then have dep: "(s, q) \<in> depends env" using "3.prems"(4) by auto
    have path: "set (path @ [q]) \<subseteq> {x. (x, q) \<in> (depends env)\<^sup>*}"
      using "3.prems"(3) dep by (auto intro: rtrancl_into_rtrancl)
    obtain r M' where w: "walk env q (path @ [q]) (d + 1) M = (r, M')" by fastforce
    have rest: "{s} \<times> {q. Some q \<in> snd ` set links} \<subseteq> depends env" using "3.prems"(4) by auto
    show ?thesis
    proof (cases "q \<in> set path")
      case True
      then show ?thesis using 3 Some rest by auto
    next
      case False
      have "r = plain_walk env q (path @ [q]) (d + 1)" "memo_ok env M'"
        using "3.IH"(2) [OF Some False] "3.prems"(1,2) path w by simp_all
      then show ?thesis using 3 Some False w rest by (auto split: option.split)
    qed
  qed (use "3.prems"(2) in simp)
qed simp

lemma adjacency_set: "set (adjacency resolved a) = {b. Some b \<in> snd ` set (dict_get resolved a [])}"
  by (force simp: adjacency_def List.map_filter_def image_iff)

lemma build_env_acyclic:
  assumes "de_cycles (build_env entries states generation a k) = {}"
  shows "acyclic (depends (build_env entries states generation a k))"
proof -
  let ?r = "map (\<lambda>(k, e). (k, en_links e)) entries"
  have "adjacency ?r x = []" if "x \<notin> set (map fst entries)" for x
  proof -
    have "map_of ?r x = None" using that by (force simp: map_of_eq_None_iff)
    then show ?thesis by (simp add: adjacency_def dict_get_def List.map_filter_def)
  qed
  then have "acyclic {(x, b). b \<in> set (adjacency ?r x)}"
    using assms by (intro cycle_members_acyclic) (auto simp: build_env_def Let_def)
  then show ?thesis by (simp add: depends_def adjacency_set build_env_def Let_def)
qed

definition plain_invalidate ::
  "dep_env \<Rightarrow> string \<Rightarrow> (string, invalidation_reason) dict \<Rightarrow> (string, invalidation_reason) dict" where
  "plain_invalidate env source invalidations = (case plain_walk env source [source] 0 of
     Some r \<Rightarrow> dict_set source r invalidations
   | None \<Rightarrow>
       (if source \<in> de_cycles env \<and> env_authority env source \<noteq> ModelInference
        then dict_set source (make_reason env source CauseCycle [source]) invalidations
        else invalidations))"

lemma invalidate_source_plain:
  assumes "de_cycles env = {} \<Longrightarrow> acyclic (depends env)" "memo_ok env M"
  shows "\<exists>M'. invalidate_source env s (found, M) = (plain_invalidate env s found, M') \<and> memo_ok env M'"
proof -
  obtain r M' where w: "walk env s [s] 0 M = (r, M')" by fastforce
  have "r = plain_walk env s [s] 0 \<and> memo_ok env M'"
    using walk_plain(1) [of env M "[s]" s 0] assms w by simp
  then show ?thesis by (auto simp: invalidate_source_def plain_invalidate_def w split: option.split)
qed

lemma invalidate_fold_plain:
  assumes "de_cycles env = {} \<Longrightarrow> acyclic (depends env)" "memo_ok env M"
  shows "fst (fold (invalidate_source env) ks (found, M)) = fold (plain_invalidate env) ks found"
  using assms(2)
proof (induction ks arbitrary: found M)
  case (Cons k ks)
  obtain M' where "invalidate_source env k (found, M) = (plain_invalidate env k found, M')" "memo_ok env M'"
    using invalidate_source_plain [OF assms(1) Cons.prems] by blast
  then show ?case using Cons.IH by simp
qed simp


section \<open>An uninvalidated source is sound all the way down\<close>

definition healthy_node :: "dep_env \<Rightarrow> string \<Rightarrow> bool" where
  "healthy_node env n \<longleftrightarrow> map_of (de_failures env) n = None
     \<and> (env_authority env n = ModelInference \<or>
        n \<notin> de_cycles env \<and> invalidating_state (dict_get (de_states env) n ''current'') = None)
     \<and> None \<notin> snd ` set (dict_get (de_resolved env) n [])"

lemma healthy_node_iff:
  "healthy_node env n \<longleftrightarrow> root_reason env n = None \<and> None \<notin> snd ` set (dict_get (de_resolved env) n [])"
  by (auto simp: healthy_node_def root_reason_def split: option.splits)

text \<open>The dependencies whose prerequisite is outside a set of sources.\<close>

definition avoiding :: "dep_env \<Rightarrow> string set \<Rightarrow> (string \<times> string) set" where
  "avoiding env A = {(a, b) \<in> depends env. b \<notin> A}"

lemma avoiding_shrink:
  assumes "(p, n) \<in> (avoiding env A)\<^sup>*"
  shows "(p, n) \<in> (avoiding env (insert p A))\<^sup>*"
  using assms
proof (induction rule: rtrancl_induct)
  case (step m n)
  then show ?case by (cases "n = p") (auto simp: avoiding_def intro: rtrancl_into_rtrancl)
qed simp

lemma plain_walk_healthy:
  "plain_walk env s path d = None \<Longrightarrow> (s, n) \<in> (avoiding env (set path))\<^sup>* \<Longrightarrow> healthy_node env n"
  "plain_links env s path d links = None \<Longrightarrow> None \<notin> snd ` set links \<and>
     (\<forall>p. Some p \<in> snd ` set links \<longrightarrow> p \<notin> set path \<longrightarrow> (p, n) \<in> (avoiding env (insert p (set path)))\<^sup>* \<longrightarrow> healthy_node env n)"
proof (induction env s path d and env s path d links arbitrary: n and n rule: plain_walk_plain_links.induct)
  case (1 env s path d)
  then have w: "root_reason env s = None" "plain_links env s path d (dict_get (de_resolved env) s []) = None"
    and depth: "\<not> d > max_invalidation_depth"
    by (auto simp: plain_walk.simps [of env s path d] split: if_splits option.splits)
  note below = "1.IH" [OF depth w]
  then have s: "healthy_node env s" using w by (simp add: healthy_node_iff)
  show ?case
  proof (cases "n = s")
    case False
    then obtain p where p: "(s, p) \<in> avoiding env (set path)" "(p, n) \<in> (avoiding env (set path))\<^sup>*"
      using "1.prems"(2) by (metis converse_rtranclE)
    then have "Some p \<in> snd ` set (dict_get (de_resolved env) s [])" "p \<notin> set path"
      by (auto simp: avoiding_def depends_def)
    then show ?thesis using below avoiding_shrink [OF p(2)] by blast
  qed (simp add: s)
next
  case (3 env s path d ref p links)
  then obtain q where q: "p = Some q" by (cases p) simp_all
  show ?case
  proof (cases "q \<in> set path")
    case True
    then show ?thesis using 3 q by (auto split: if_splits)
  next
    case False
    then have "plain_walk env q (path @ [q]) (d + 1) = None" "plain_links env s path d links = None"
      using "3.prems" q by (auto split: option.splits)
    then show ?thesis using 3 q False by auto
  qed
qed simp

lemma plain_fold_get:
  "map_of (fold (plain_invalidate env) ks found) s =
     (if s \<in> set ks \<and> plain_invalidate env s [] \<noteq> [] then Some (snd (hd (plain_invalidate env s []))) else map_of found s)"
proof (induction ks arbitrary: found)
  case (Cons k ks)
  have "map_of (plain_invalidate env k found) s =
      (if s = k \<and> plain_invalidate env s [] \<noteq> [] then Some (snd (hd (plain_invalidate env s []))) else map_of found s)"
    by (auto simp: plain_invalidate_def split: option.split)
  then show ?case using Cons.IH [of "plain_invalidate env k found"] by auto
qed simp

lemma plain_invalidate_Nil: "plain_invalidate env s [] = [] \<Longrightarrow> plain_walk env s [s] 0 = None"
  by (auto simp: plain_invalidate_def split: option.splits)

definition invalidations_of :: "dep_env \<Rightarrow> string list \<Rightarrow> (string, invalidation_reason) dict" where
  "invalidations_of env known = fst (fold (invalidate_source env) known ([], {}))"

lemma uninvalidated_healthy:
  assumes "s \<in> fst ` set entries" "(s, n) \<in> (depends (build_env entries states generation a k))\<^sup>*"
    and none: "map_of (invalidations_of (build_env entries states generation a k) (map fst entries)) s = None"
  shows "healthy_node (build_env entries states generation a k) n"
proof -
  define env where "env = build_env entries states generation a k"
  have plain: "invalidations_of env (map fst entries) = fold (plain_invalidate env) (map fst entries) []"
    unfolding invalidations_of_def
    by (rule invalidate_fold_plain) (use build_env_acyclic in \<open>auto simp: env_def memo_ok_def\<close>)
  have "plain_invalidate env s [] = []"
    using none assms(1) unfolding env_def [symmetric] plain plain_fold_get by (auto split: if_splits)
  then have "plain_walk env s [s] 0 = None" by (rule plain_invalidate_Nil)
  moreover have "(s, n) \<in> (avoiding env (set [s]))\<^sup>*"
    using avoiding_shrink [of s n env "{}"] assms(2) by (simp add: avoiding_def env_def)
  ultimately show ?thesis unfolding env_def by (rule plain_walk_healthy(1))
qed

text \<open>
  C4. Fail closed through every level. For the environment the builder makes, a source without an
  invalidation rests only on healthy sources: nothing it depends on, through any number of
  prerequisites, cycles included, has malformed or contradictory metadata, a state that invalidates, a
  place on a found cycle, or a reference that does not resolve (model inference excepted, as the rule
  excepts it).
\<close>

theorem uninvalidated_is_healthy:
  "let env = build_env entries states generation a k
   in {(s, n). s \<in> fst ` set entries \<and> map_of (invalidations_of env (map fst entries)) s = None \<and>
        (s, n) \<in> (depends env)\<^sup>*} \<subseteq> {(s, n). healthy_node env n}"
  unfolding Let_def using uninvalidated_healthy by blast

section \<open>Every invalidation is real\<close>

definition defect_at :: "dep_env \<Rightarrow> string \<Rightarrow> dependency_cause \<Rightarrow> bool" where
  "defect_at env n cause \<longleftrightarrow> map_of (de_failures env) n = Some cause \<or> env_authority env n \<noteq> ModelInference
     \<and> (n \<in> de_cycles env \<and> cause = CauseCycle
        \<or> invalidating_state (dict_get (de_states env) n ''current'') = Some cause)"

definition real_defect :: "dep_env \<Rightarrow> nat \<Rightarrow> string \<Rightarrow> invalidation_reason \<Rightarrow> bool" where
  "real_defect env k s r \<longleftrightarrow>
     (\<exists>n. (s, n) \<in> (depends env)\<^sup>* \<and> ir_dependency r = n \<and>
        defect_at env n (ir_cause r)) \<or>
     (\<exists>n. (s, n) \<in> (depends env)\<^sup>* \<and> ir_cause r = CauseUnresolved \<and>
        (ir_dependency r, None) \<in> set (dict_get (de_resolved env) n [])) \<or>
     ir_cause r = CauseCycle \<and> (s, ir_dependency r) \<in> (depends env)\<^sup>* \<and>
        (ir_dependency r, ir_dependency r) \<in> (depends env)\<^sup>+ \<or>
     ir_cause r = CauseCycle \<and> (s, ir_dependency r) \<in> depends env ^^ k"

lemma lead_path_same [simp]: "ir_dependency (lead_path s r) = ir_dependency r" "ir_cause (lead_path s r) = ir_cause r"
  by (simp_all add: lead_path_def)

lemma real_defect_step:
  assumes "(s, p) \<in> depends env" "real_defect env k p r"
  shows "real_defect env (Suc k) s (lead_path s r)"
proof -
  have "(s, n) \<in> (depends env)\<^sup>*" if "(p, n) \<in> (depends env)\<^sup>*" for n
    using that assms(1) by (rule converse_rtrancl_into_rtrancl [rotated])
  moreover have "(s, n) \<in> depends env ^^ Suc k" if "(p, n) \<in> depends env ^^ k" for n
    using that assms(1) by (rule relpow_Suc_I2 [rotated])
  ultimately show ?thesis using assms(2) unfolding real_defect_def lead_path_same by blast
qed

lemma plain_walk_real:
  "set path \<subseteq> {q. (q, s) \<in> (depends env)\<^sup>*} \<Longrightarrow> d \<le> 65 \<Longrightarrow> plain_walk env s path d = Some r \<Longrightarrow>
     real_defect env (65 - d) s r"
  "set path \<subseteq> {q. (q, s) \<in> (depends env)\<^sup>*} \<Longrightarrow> d \<le> 64 \<Longrightarrow> set links \<subseteq> set (dict_get (de_resolved env) s []) \<Longrightarrow>
     plain_links env s path d links = Some r \<Longrightarrow> real_defect env (65 - d) s r"
proof (induction env s path d and env s path d links arbitrary: r and r rule: plain_walk_plain_links.induct)
  case (1 env s path d)
  consider "d > max_invalidation_depth" | "\<not> d > max_invalidation_depth" "root_reason env s = Some r"
    | "\<not> d > max_invalidation_depth" "root_reason env s = None"
      "plain_links env s path d (dict_get (de_resolved env) s []) = Some r"
    using "1.prems"(3) by (auto simp: plain_walk.simps [of env s path d] split: if_splits option.splits)
  then show ?case
  proof cases
    case 1
    then show ?thesis using "1.prems"(2,3)
      by (auto simp: plain_walk.simps [of env s path d] max_invalidation_depth_def real_defect_def make_reason_def)
  next
    case 2
    then have "ir_dependency r = s \<and> defect_at env s (ir_cause r)"
      by (auto simp: root_reason_def make_reason_def defect_at_def split: option.splits if_splits)
    then show ?thesis by (auto simp: real_defect_def)
  next
    case 3
    then show ?thesis using "1.IH" "1.prems" by (simp add: max_invalidation_depth_def)
  qed
next
  case (3 env s path d ref p links)
  show ?case
  proof (cases p)
    case None
    then show ?thesis using "3.prems" by (auto simp: real_defect_def make_reason_def)
  next
    case (Some q)
    then have dep: "(s, q) \<in> depends env" using "3.prems"(3) by (force simp: depends_def)
    show ?thesis
    proof (cases "q \<in> set path")
      case True
      then have "(q, q) \<in> (depends env)\<^sup>+" using "3.prems"(1) dep by (auto intro: rtrancl_into_trancl1)
      then have "real_defect env (65 - d) s (make_reason env q CauseCycle (path @ [q]))"
        using dep by (auto simp: real_defect_def make_reason_def)
      then show ?thesis using 3 Some True by (auto split: if_splits)
    next
      case False
      have path: "set (path @ [q]) \<subseteq> {x. (x, q) \<in> (depends env)\<^sup>*}"
        using "3.prems"(1) dep by (auto intro: rtrancl_into_rtrancl)
      show ?thesis
      proof (cases "plain_walk env q (path @ [q]) (d + 1)")
        case None
        then show ?thesis using 3 Some False by auto
      next
        case r: (Some r0)
        then have "real_defect env (65 - (d + 1)) q r0" using "3.IH"(2) [OF Some False path] "3.prems"(2) by simp
        moreover have "65 - d = Suc (65 - (d + 1))" using "3.prems"(2) by simp
        moreover have "r = lead_path s r0" using "3.prems"(4) Some False r by simp
        ultimately show ?thesis using real_defect_step [OF dep] by simp
      qed
    qed
  qed
qed simp

text \<open>
  No false alarm. Every invalidation the builder records names a real defect of something the source
  depends on, directly or transitively: a source with a reason of its own and the same cause, a
  reference that does not resolve, a prerequisite on a cycle, or a chain of more than sixty-four
  prerequisites.
\<close>

theorem invalidation_is_real:
  "let env = build_env entries states generation a k
   in {(s, r). map_of (invalidations_of env (map fst entries)) s = Some r} \<subseteq> {(s, r). real_defect env 65 s r}"
proof -
  define env where "env = build_env entries states generation a k"
  have plain: "invalidations_of env (map fst entries) = fold (plain_invalidate env) (map fst entries) []"
    unfolding invalidations_of_def
    by (rule invalidate_fold_plain) (use build_env_acyclic in \<open>auto simp: env_def memo_ok_def\<close>)
  have "real_defect env 65 s r" if "map_of (invalidations_of env (map fst entries)) s = Some r" for s r
  proof (cases "plain_walk env s [s] 0")
    case None
    then have "root_reason env s = None"
      by (auto simp: plain_walk.simps [of env s] max_invalidation_depth_def split: option.splits)
    then have "\<not> (s \<in> de_cycles env \<and> env_authority env s \<noteq> ModelInference)"
      by (auto simp: root_reason_def split: option.splits if_splits)
    then have "plain_invalidate env s [] = []" using None by (auto simp: plain_invalidate_def)
    then show ?thesis using that unfolding plain plain_fold_get by simp
  next
    case (Some r')
    then have "r = r'"
      using that unfolding plain plain_fold_get by (auto simp: plain_invalidate_def split: if_splits)
    then show ?thesis using plain_walk_real(1) [of "[s]" s env 0 r'] Some by simp
  qed
  then show ?thesis by (auto simp: env_def Let_def)
qed

section \<open>The recorded path of a deep reason\<close>

text \<open>
  Three documents in a row and a reference that resolves to nothing. The reason found at the third is
  built from the whole path already walked, and each ancestor whose name is not at the front of it puts
  itself there once more, so the recorded path is not the chain of dependencies.
\<close>

definition chain_env :: dep_env where
  "chain_env = \<lparr>de_resolved = [(''a'', [(''b'', Some ''b'')]), (''b'', [(''c'', Some ''c'')]), (''c'', [(''d'', None)])],
     de_authorities = [], de_failures = [], de_cycles = {}, de_states = [], de_generation = ''g'',
     de_as_of = None, de_known_as_of = None\<rparr>"

lemma deep_unresolved_path_repeats:
  "map_option ir_path (fst (walk chain_env ''a'' [''a''] 0 {})) = Some [''a'', ''b'', ''a'', ''b'', ''c'', ''d'']"
  by code_simp

end
