(* ===== verification/SecurityPolicy.thy ===== *)
theory SecurityPolicy
  imports PyString
begin

text \<open>
  Source authorization, from \<open>src/recall/security_policy.py\<close> and the prefix half of
  \<open>src/recall/scope.py\<close>: rules by longest prefix, the decision for one source, the prefix scope that
  represents a policy in a query, and its intersection with a caller's scope. The digest of a policy is
  a parameter of its constructor (a hash of its rules), and the table of redaction patterns is a
  parameter of \<open>redact_with_decision\<close> (compiled regular expressions).
\<close>

section \<open>Rules\<close>

datatype classification = Public | Internal | Confidential | Restricted

fun clearance_order :: "classification \<Rightarrow> int" where
  "clearance_order Public = 0"
| "clearance_order Internal = 1"
| "clearance_order Confidential = 2"
| "clearance_order Restricted = 3"

record access_context =
  ac_principal :: string
  ac_tenant :: string
  ac_purpose :: string
  ac_clearance :: classification
  ac_egress_allowed :: bool

record source_rule =
  sr_prefix :: string
  sr_classification :: classification
  sr_principals :: "string set"
  sr_purposes :: "string set"
  sr_redactions :: "string list"
  sr_allow_egress :: bool

definition normalize_source :: "string \<Rightarrow> string" where
  "normalize_source s = strip_by (\<lambda>c. c = CHR ''/'') (posix s)"

text \<open>Constructing a rule normalises its prefix and refuses an empty one.\<close>

definition make_rule :: "source_rule \<Rightarrow> source_rule result" where
  "make_rule r = (let p = normalize_source (sr_prefix r)
     in if p = [] then Inl (ValueError ''source rule prefix must be non empty'') else Inr (r\<lparr>sr_prefix := p\<rparr>))"

record policy_decision =
  pd_allowed :: bool
  pd_source :: string
  pd_classification :: "classification option"
  pd_redactions :: "string list"
  pd_reason :: string
  pd_digest :: string

record source_policy =
  sp_rules :: "source_rule list"
  sp_matching :: "source_rule list"
  sp_digest :: string

text \<open>Prefixes are distinct, so sorting by prefix decides the whole sort key of the constructor.\<close>

definition make_policy :: "(source_rule list \<Rightarrow> string) \<Rightarrow> source_rule list \<Rightarrow> bool \<Rightarrow> source_policy result" where
  "make_policy sha rules default_deny =
     (if \<not> default_deny then Inl (ValueError ''source security policy must use default_deny=true'')
      else if \<not> distinct (map sr_prefix rules)
      then Inl (ValueError ''source security policy cannot contain duplicate prefixes'')
      else let sorted_rules = sort_key sr_prefix rules
           in Inr \<lparr>sp_rules = sorted_rules,
                   sp_matching = rev (sort_key (\<lambda>r. (length (sr_prefix r), sr_prefix r)) sorted_rules),
                   sp_digest = sha sorted_rules\<rparr>)"

text \<open>A policy as a caller can build one: every rule through its own constructor.\<close>

definition policy_of :: "(source_rule list \<Rightarrow> string) \<Rightarrow> source_rule list \<Rightarrow> bool \<Rightarrow> source_policy result" where
  "policy_of sha raw default_deny =
     (let made = map make_rule raw
      in case find isl made of
           Some (Inl e) \<Rightarrow> Inl e
         | _ \<Rightarrow> make_policy sha (map projr made) default_deny)"

section \<open>Decisions\<close>

definition under :: "string \<Rightarrow> string \<Rightarrow> bool" where
  "under p s \<longleftrightarrow> s = p \<or> starts_with s (p @ ''/'')"

definition matching :: "source_policy \<Rightarrow> string \<Rightarrow> source_rule list" where
  "matching pol source = filter (\<lambda>r. under (sr_prefix r) (normalize_source source)) (sp_matching pol)"

definition rule_admits :: "source_rule \<Rightarrow> access_context \<Rightarrow> bool" where
  "rule_admits r ctx \<longleftrightarrow>
     (sr_principals r = {} \<or> ac_principal ctx \<in> sr_principals r) \<and> ac_purpose ctx \<in> sr_purposes r \<and>
     clearance_order (sr_classification r) \<le> clearance_order (ac_clearance ctx) \<and>
     (ac_egress_allowed ctx \<or> \<not> sr_allow_egress r)"

definition decide :: "source_policy \<Rightarrow> string \<Rightarrow> access_context \<Rightarrow> policy_decision" where
  "decide pol source ctx = (case matching pol source of
     [] \<Rightarrow> \<lparr>pd_allowed = False, pd_source = source, pd_classification = None, pd_redactions = [],
            pd_reason = ''no source policy rule matched'', pd_digest = sp_digest pol\<rparr>
   | r # _ \<Rightarrow> \<lparr>pd_allowed = rule_admits r ctx, pd_source = source, pd_classification = Some (sr_classification r),
            pd_redactions = sr_redactions r,
            pd_reason = (if rule_admits r ctx then ''allowed'' else ''principal, purpose, clearance, or egress denied''),
            pd_digest = sp_digest pol\<rparr>)"

fun apply_redactions :: "(string \<Rightarrow> (string \<Rightarrow> string) option) \<Rightarrow> string list \<Rightarrow> string \<Rightarrow> string result" where
  "apply_redactions table [] text = Inr text"
| "apply_redactions table (name # names) text = (case table name of
     None \<Rightarrow> Inl (ValueError ''unknown redaction rule'')
   | Some sub \<Rightarrow> apply_redactions table names (sub text))"

definition redact_with_decision ::
  "(string \<Rightarrow> (string \<Rightarrow> string) option) \<Rightarrow> string \<Rightarrow> policy_decision \<Rightarrow> (string \<times> policy_decision) result" where
  "redact_with_decision table text decision =
     (if \<not> pd_allowed decision then Inl (PermissionError (pd_reason decision))
      else (case apply_redactions table (pd_redactions decision) text of
        Inl e \<Rightarrow> Inl e | Inr t \<Rightarrow> Inr (t, decision)))"

definition redact ::
  "(string \<Rightarrow> (string \<Rightarrow> string) option) \<Rightarrow> source_policy \<Rightarrow> string \<Rightarrow> string \<Rightarrow> access_context
     \<Rightarrow> (string \<times> policy_decision) result" where
  "redact table pol source text ctx = redact_with_decision table text (decide pol source ctx)"

section \<open>Scopes\<close>

record scope =
  sc_source :: "string option"
  sc_folder :: "string option"
  sc_facet :: "string option"
  sc_prefixes :: "string list option"
  sc_digest :: "string option"

text \<open>
  What the query predicate of a scope admits by its prefixes: each is matched as one literal pattern,
  the normalised prefix or anything beneath it.
\<close>

definition prefix_admits :: "scope \<Rightarrow> string \<Rightarrow> bool" where
  "prefix_admits sc f = (case sc_prefixes sc of None \<Rightarrow> True | Some ps \<Rightarrow> list_ex (\<lambda>p. under (normalize_source p) f) ps)"

definition add_allowed :: "string \<Rightarrow> string list \<Rightarrow> string list" where
  "add_allowed prefix allowed =
     (if list_ex (\<lambda>p. p = prefix \<or> starts_with prefix (p @ ''/'')) allowed then allowed
      else filter (\<lambda>p. \<not> starts_with p (prefix @ ''/'')) allowed @ [prefix])"

definition scope_prefixes :: "source_policy \<Rightarrow> access_context \<Rightarrow> string list" where
  "scope_prefixes pol ctx =
     (let allows = (\<lambda>r. pd_allowed (decide pol (sr_prefix r) ctx))
      in fold (\<lambda>r allowed.
           if \<not> allows r then allowed
           else if list_ex (\<lambda>other. starts_with (sr_prefix other) (sr_prefix r @ ''/'') \<and> \<not> allows other) (sp_rules pol)
           then allowed
           else add_allowed (sr_prefix r) allowed) (sp_rules pol) [])"

definition scope_for :: "source_policy \<Rightarrow> access_context \<Rightarrow> scope" where
  "scope_for pol ctx = \<lparr>sc_source = None, sc_folder = None, sc_facet = None,
     sc_prefixes = Some (dedup (scope_prefixes pol ctx)), sc_digest = Some (sp_digest pol)\<rparr>"

definition combine_prefixes :: "string list \<Rightarrow> string list \<Rightarrow> string list" where
  "combine_prefixes lefts rights = concat (map (\<lambda>l. concat (map (\<lambda>r.
     if l = r \<or> starts_with l (r @ ''/'') then [l]
     else if starts_with r (l @ ''/'') then [r] else []) rights)) lefts)"

definition constrain_scope :: "source_policy \<Rightarrow> scope option \<Rightarrow> access_context \<Rightarrow> scope result" where
  "constrain_scope pol scope ctx =
     (let security = scope_for pol ctx
      in case scope of
           None \<Rightarrow> Inr security
         | Some sc \<Rightarrow>
             (if sc_digest sc \<noteq> None \<and> sc_digest sc \<noteq> Some (sp_digest pol)
              then Inl (ValueError ''scope was created for a different source security policy'')
              else (case sc_prefixes sc of
                 None \<Rightarrow> Inr (sc\<lparr>sc_prefixes := sc_prefixes security, sc_digest := Some (sp_digest pol)\<rparr>)
               | Some lefts \<Rightarrow>
                   Inr (sc\<lparr>sc_prefixes := Some (dedup (combine_prefixes lefts
                              (case sc_prefixes security of None \<Rightarrow> [] | Some ps \<Rightarrow> ps))),
                           sc_digest := Some (sp_digest pol)\<rparr>))))"

section \<open>Prefixes form a forest\<close>

text \<open>
  What every prefix rule relies on: lying beneath is reflexive and transitive, and two prefixes of one
  name are comparable. From that alone, the pairwise meet of two prefix lists admits exactly the
  intersection of what they admit.
\<close>

locale prefix_forest =
  fixes beneath :: "'p \<Rightarrow> 'p \<Rightarrow> bool"
  assumes refl: "beneath p p"
    and trans: "beneath p q \<Longrightarrow> beneath q s \<Longrightarrow> beneath p s"
    and comparable: "beneath p s \<Longrightarrow> beneath q s \<Longrightarrow> beneath p q \<or> beneath q p"
begin

lemma meet_exact:
  "(\<exists>p \<in> {p. \<exists>l \<in> L. \<exists>r \<in> R. p = l \<and> beneath r l \<or> p = r \<and> beneath l r}. beneath p s) \<longleftrightarrow>
     (\<exists>l \<in> L. beneath l s) \<and> (\<exists>r \<in> R. beneath r s)"
proof
  assume "\<exists>p \<in> {p. \<exists>l \<in> L. \<exists>r \<in> R. p = l \<and> beneath r l \<or> p = r \<and> beneath l r}. beneath p s"
  then show "(\<exists>l \<in> L. beneath l s) \<and> (\<exists>r \<in> R. beneath r s)" using trans by blast
next
  assume "(\<exists>l \<in> L. beneath l s) \<and> (\<exists>r \<in> R. beneath r s)"
  then show "\<exists>p \<in> {p. \<exists>l \<in> L. \<exists>r \<in> R. p = l \<and> beneath r l \<or> p = r \<and> beneath l r}. beneath p s"
    using comparable by blast
qed

text \<open>Keeping only the topmost of a list of prefixes admits what the whole list admits.\<close>

lemma absorb_exact:
  assumes "\<exists>p \<in> A. beneath p q"
  shows "(\<exists>p \<in> insert q A. beneath p s) \<longleftrightarrow> (\<exists>p \<in> A. beneath p s)"
  using assms trans by blast

lemma replace_exact:
  "(\<exists>p \<in> insert q {p \<in> A. \<not> beneath q p}. beneath p s) \<longleftrightarrow> (\<exists>p \<in> insert q A. beneath p s)"
  using trans by blast

end

lemma under_iff: "under p s \<longleftrightarrow> (\<exists>t. s = p @ t \<and> (t = [] \<or> hd t = CHR ''/''))"
proof
  assume "under p s"
  then show "\<exists>t. s = p @ t \<and> (t = [] \<or> hd t = CHR ''/'')"
    by (auto simp: under_def starts_with_iff)
next
  assume "\<exists>t. s = p @ t \<and> (t = [] \<or> hd t = CHR ''/'')"
  then obtain t where "s = p @ t" "t = [] \<or> hd t = CHR ''/''" by blast
  then show "under p s" by (cases t) (auto simp: under_def starts_with_iff)
qed

interpretation paths: prefix_forest under
proof
  show "under p p" for p by (simp add: under_def)
  show "under p s" if "under p q" "under q s" for p q s
  proof -
    obtain t u where "q = p @ t" "t = [] \<or> hd t = CHR ''/''" "s = q @ u" "u = [] \<or> hd u = CHR ''/''"
      using \<open>under p q\<close> \<open>under q s\<close> by (auto simp: under_iff)
    then show ?thesis by (cases t) (auto simp: under_iff)
  qed
  show "under p q \<or> under q p" if "under p s" "under q s" for p q s
  proof -
    obtain t u where s: "s = p @ t" "t = [] \<or> hd t = CHR ''/''" "s = q @ u" "u = [] \<or> hd u = CHR ''/''"
      using \<open>under p s\<close> \<open>under q s\<close> unfolding under_iff by blast
    then have "p @ t = q @ u" by simp
    then show ?thesis
      using s(2,4) by (auto simp: append_eq_append_conv2 under_iff)
  qed
qed

lemma combine_prefixes_set:
  "set (combine_prefixes ls rs) = {p. \<exists>l \<in> set ls. \<exists>r \<in> set rs. p = l \<and> under r l \<or> p = r \<and> under l r}"
proof -
  have "l = r" if "under r l" "under l r" for l r using that by (auto simp: under_iff)
  then have "set (if l = r \<or> starts_with l (r @ ''/'') then [l] else if starts_with r (l @ ''/'') then [r] else []) =
      {p. p = l \<and> under r l \<or> p = r \<and> under l r}" for l r
    unfolding under_def by auto
  then show ?thesis unfolding combine_prefixes_def set_concat set_map image_image by blast
qed

text \<open>
  Constraining a caller's scope is intersection, exactly: a source lies beneath a prefix of the
  combined list if and only if it lies beneath one of the caller's prefixes and one of the policy's.
\<close>

theorem combine_is_intersection:
  "{s. \<exists>p \<in> set (combine_prefixes ls rs). under p s} =
     {s. \<exists>p \<in> set ls. under p s} \<inter> {s. \<exists>p \<in> set rs. under p s}"
  using paths.meet_exact [of "set ls" "set rs"] unfolding combine_prefixes_set by blast

section \<open>Normalised prefixes\<close>

abbreviation slash :: "char \<Rightarrow> bool" where
  "slash \<equiv> \<lambda>c. c = CHR ''/''"

definition rstrip :: "string \<Rightarrow> string" where
  "rstrip s = rev (dropWhile slash (rev s))"

text \<open>The shape of a prefix after normalisation: no backslash, no slash at either end, not empty.\<close>

definition clean_prefix :: "string \<Rightarrow> bool" where
  "clean_prefix p \<longleftrightarrow> p \<noteq> [] \<and> CHR 0x5C \<notin> set p \<and> hd p \<noteq> CHR ''/'' \<and> last p \<noteq> CHR ''/''"

lemma rstrip_append: "q \<noteq> [] \<Longrightarrow> last q \<noteq> CHR ''/'' \<Longrightarrow> rstrip (q @ t) = q @ rstrip t"
  by (cases q rule: rev_cases) (auto simp: rstrip_def dropWhile_append)

lemma rstrip_hd: "rstrip t \<noteq> [] \<Longrightarrow> hd (rstrip t) = hd t"
proof -
  have "\<exists>u. t = rstrip t @ u" unfolding rstrip_def
    by (metis rev_append rev_rev_ident takeWhile_dropWhile_id)
  then show "rstrip t \<noteq> [] \<Longrightarrow> hd (rstrip t) = hd t" by (metis hd_append2)
qed

lemma normalize_source_split: "normalize_source s = rstrip (dropWhile slash (posix s))"
  by (simp add: normalize_source_def strip_by_def rstrip_def)

lemma posix_clean: "CHR 0x5C \<notin> set p \<Longrightarrow> posix p = p"
  by (induction p) (auto simp: replace_char_def)

lemma normalize_source_clean:
  assumes "normalize_source s \<noteq> []"
  shows "clean_prefix (normalize_source s)"
proof -
  let ?d = "dropWhile slash (posix s)"
  have n: "normalize_source s = rstrip ?d" by (rule normalize_source_split)
  have d: "?d \<noteq> []" using assms unfolding n rstrip_def by force
  have "set (rstrip ?d) \<subseteq> set (posix s)" unfolding rstrip_def by (metis set_dropWhileD set_rev subsetI)
  then have "CHR 0x5C \<notin> set (rstrip ?d)" by (auto simp: replace_char_def split: if_splits)
  moreover have "hd (rstrip ?d) \<noteq> CHR ''/''" using assms n rstrip_hd [of ?d] hd_dropWhile [OF d] by simp
  moreover have "last (rstrip ?d) \<noteq> CHR ''/''"
    using assms n hd_dropWhile [of slash "rev ?d"] by (auto simp: rstrip_def last_rev)
  ultimately show ?thesis using assms n by (simp add: clean_prefix_def)
qed

lemma normalize_under:
  assumes "clean_prefix r" "under r p"
  shows "under r (normalize_source p)"
proof -
  obtain t where p: "p = r @ t" and t: "t = [] \<or> hd t = CHR ''/''" using assms(2) by (auto simp: under_iff)
  have "posix p = r @ posix t"
    using assms(1) posix_clean [of r] by (simp add: p clean_prefix_def replace_char_def)
  moreover have "dropWhile slash (r @ posix t) = r @ posix t"
    using assms(1) by (cases r) (auto simp: clean_prefix_def)
  ultimately have "normalize_source p = r @ rstrip (posix t)"
    using assms(1) by (simp add: normalize_source_split rstrip_append clean_prefix_def)
  moreover have "rstrip (posix t) = [] \<or> hd (rstrip (posix t)) = CHR ''/''"
    using t rstrip_hd [of "posix t"] by (cases t) (auto simp: replace_char_def rstrip_def)
  ultimately show ?thesis unfolding under_iff by blast
qed

lemma normalize_clean_id: "clean_prefix r \<Longrightarrow> normalize_source r = r"
proof -
  assume r: "clean_prefix r"
  then have "dropWhile slash r = r" by (cases r) (auto simp: clean_prefix_def)
  then show "normalize_source r = r"
    using r posix_clean [of r] rstrip_append [of r "[]"]
    by (simp add: normalize_source_split clean_prefix_def rstrip_def)
qed

section \<open>Longest match\<close>

definition policy_ok :: "source_policy \<Rightarrow> bool" where
  "policy_ok pol \<longleftrightarrow> (\<forall>r \<in> set (sp_rules pol). clean_prefix (sr_prefix r)) \<and> distinct (map sr_prefix (sp_rules pol)) \<and>
     sp_matching pol = rev (sort_key (\<lambda>r. (length (sr_prefix r), sr_prefix r)) (sp_rules pol))"

lemma policy_of_ok:
  assumes "policy_of sha raw dd = Inr pol"
  shows "policy_ok pol"
proof -
  let ?made = "map make_rule raw"
  have make: "make_policy sha (map projr ?made) dd = Inr pol" and none: "find isl ?made = None"
    using assms by (auto simp: policy_of_def Let_def find_Some_iff split: option.splits sum.splits)
  have "clean_prefix (sr_prefix r)" if r: "r \<in> set (map projr ?made)" for r
  proof -
    obtain x where x: "x \<in> set raw" "r = projr (make_rule x)" using r by (auto simp: image_iff)
    then have "\<not> isl (make_rule x)" using none by (auto simp: find_None_iff)
    then show ?thesis using x(2) normalize_source_clean [of "sr_prefix x"]
      by (auto simp: make_rule_def Let_def split: if_splits)
  qed
  moreover have "distinct (map sr_prefix (sort_key sr_prefix xs))" if "distinct (map sr_prefix xs)" for xs
    using that by (simp add: distinct_map)
  then have "distinct (map sr_prefix (sort_key sr_prefix (map projr ?made)))" if "distinct (map sr_prefix (map projr ?made))"
    using that by blast
  ultimately show ?thesis
    using make by (auto simp: make_policy_def policy_ok_def Let_def split: if_splits)
qed

lemma matching_longest:
  assumes "policy_ok pol" "matching pol src = m # ms"
  shows "m \<in> set (sp_rules pol)" and "under (sr_prefix m) (normalize_source src)"
    and "r \<in> set (sp_rules pol) \<Longrightarrow> under (sr_prefix r) (normalize_source src) \<Longrightarrow>
      length (sr_prefix r) \<le> length (sr_prefix m)"
proof -
  let ?key = "\<lambda>r. (length (sr_prefix r), sr_prefix r)"
  let ?P = "\<lambda>r. under (sr_prefix r) (normalize_source src)"
  have mat: "matching pol src = filter ?P (rev (sort_key ?key (sp_rules pol)))"
    using assms(1) by (simp add: matching_def policy_ok_def)
  have mem: "m \<in> set (filter ?P (rev (sort_key ?key (sp_rules pol))))" using assms(2) mat by simp
  then show "m \<in> set (sp_rules pol)" "?P m" by auto
  have "sorted (map ?key (filter ?P (sort_key ?key (sp_rules pol))))" by (rule sorted_filter) simp
  moreover have "filter ?P (sort_key ?key (sp_rules pol)) = rev ms @ [m]"
    using assms(2) mat by (metis rev.simps(2) rev_filter rev_rev_ident)
  ultimately have "\<forall>x \<in> set (rev ms). ?key x \<le> ?key m" by (auto simp: sorted_append)
  moreover assume "r \<in> set (sp_rules pol)" "?P r"
  then have "r \<in> set (filter ?P (sort_key ?key (sp_rules pol)))" by simp
  then have "r \<in> set (rev ms @ [m])"
    unfolding \<open>filter ?P (sort_key ?key (sp_rules pol)) = rev ms @ [m]\<close> .
  ultimately show "length (sr_prefix r) \<le> length (sr_prefix m)" by (auto simp: less_eq_prod_def)
qed

lemma under_length: "under p s \<Longrightarrow> length p \<le> length s"
  by (auto simp: under_iff)

lemma under_same_length: "under p s \<Longrightarrow> length s \<le> length p \<Longrightarrow> p = s"
  by (auto simp: under_iff)

lemma matching_own:
  assumes "policy_ok pol" "r \<in> set (sp_rules pol)"
  shows "\<exists>ms. matching pol (sr_prefix r) = r # ms"
proof -
  have n: "normalize_source (sr_prefix r) = sr_prefix r"
    using assms by (simp add: policy_ok_def normalize_clean_id)
  have "r \<in> set (matching pol (sr_prefix r))"
    using assms paths.refl by (auto simp: matching_def policy_ok_def n)
  then obtain m ms where m: "matching pol (sr_prefix r) = m # ms" by (cases "matching pol (sr_prefix r)") auto
  note longest = matching_longest [OF assms(1) m]
  have "sr_prefix m = sr_prefix r"
    using longest(2) longest(3) [OF assms(2)] n paths.refl under_same_length by metis
  then have "m = r" using longest(1) assms unfolding policy_ok_def distinct_map inj_on_def by blast
  then show ?thesis using m by blast
qed

section \<open>Scopes are sound\<close>

definition rule_allows :: "source_policy \<Rightarrow> access_context \<Rightarrow> source_rule \<Rightarrow> bool" where
  "rule_allows pol ctx r \<longleftrightarrow> pd_allowed (decide pol (sr_prefix r) ctx)"

text \<open>A rule whose whole subtree is open: it admits the caller, and so does every rule beneath it.\<close>

definition open_rule :: "source_policy \<Rightarrow> access_context \<Rightarrow> source_rule \<Rightarrow> bool" where
  "open_rule pol ctx r \<longleftrightarrow> r \<in> set (sp_rules pol) \<and> rule_allows pol ctx r \<and>
     (\<forall>m \<in> set (sp_rules pol). starts_with (sr_prefix m) (sr_prefix r @ ''/'') \<longrightarrow> rule_allows pol ctx m)"

lemma rule_allows_admits:
  assumes "policy_ok pol" "r \<in> set (sp_rules pol)"
  shows "rule_allows pol ctx r \<longleftrightarrow> rule_admits r ctx"
  using matching_own [OF assms] by (auto simp: rule_allows_def decide_def)

lemma open_rule_sound:
  assumes "policy_ok pol" "open_rule pol ctx r" "under (sr_prefix r) f"
  shows "pd_allowed (decide pol f ctx)"
proof -
  have r: "r \<in> set (sp_rules pol)" using assms(2) by (simp add: open_rule_def)
  have n: "under (sr_prefix r) (normalize_source f)"
    using normalize_under assms(1,3) r by (simp add: policy_ok_def)
  then have "r \<in> set (matching pol f)" using assms(1) r by (simp add: matching_def policy_ok_def)
  then obtain m ms where m: "matching pol f = m # ms" by (cases "matching pol f") auto
  note longest = matching_longest [OF assms(1) m]
  have "under (sr_prefix r) (sr_prefix m)"
    using paths.comparable [OF n longest(2)] longest(3) [OF r n] under_same_length paths.refl by metis
  then have "rule_allows pol ctx m"
    using assms(2) longest(1) r assms(1) unfolding open_rule_def under_def policy_ok_def distinct_map inj_on_def by metis
  then show ?thesis using rule_allows_admits [OF assms(1) longest(1)] m by (simp add: decide_def)
qed

lemma add_allowed_covers:
  "(\<exists>p \<in> set (add_allowed q A). under p s) \<longleftrightarrow> (\<exists>p \<in> insert q (set A). under p s)"
proof (cases "\<exists>p \<in> set A. under p q")
  case True
  then have "set (add_allowed q A) = set A" by (auto simp: add_allowed_def list_ex_iff under_def)
  then show ?thesis using paths.absorb_exact [OF True] by simp
next
  case False
  then have "set (add_allowed q A) = insert q {p \<in> set A. \<not> under q p}"
    using paths.refl by (auto simp: add_allowed_def list_ex_iff under_def)
  then show ?thesis using paths.replace_exact [of q "set A"] by simp
qed

lemma scope_prefixes_cover:
  "(\<exists>p \<in> set (scope_prefixes pol ctx). under p s) \<longleftrightarrow> (\<exists>r. open_rule pol ctx r \<and> under (sr_prefix r) s)"
proof -
  let ?step = "\<lambda>r allowed. if \<not> rule_allows pol ctx r then allowed
      else if list_ex (\<lambda>other. starts_with (sr_prefix other) (sr_prefix r @ ''/'') \<and> \<not> rule_allows pol ctx other) (sp_rules pol)
      then allowed else add_allowed (sr_prefix r) allowed"
  have "(\<exists>p \<in> set (fold ?step rs A). under p s) \<longleftrightarrow>
      (\<exists>p \<in> set A. under p s) \<or> (\<exists>r \<in> set rs. open_rule pol ctx r \<and> under (sr_prefix r) s)"
    if "set rs \<subseteq> set (sp_rules pol)" for rs A
    using that
  proof (induction rs arbitrary: A)
    case (Cons r rs)
    have "(\<exists>p \<in> set (?step r A). under p s) \<longleftrightarrow>
        (\<exists>p \<in> set A. under p s) \<or> open_rule pol ctx r \<and> under (sr_prefix r) s"
      using Cons.prems add_allowed_covers [of "sr_prefix r" A s] by (auto simp: open_rule_def list_ex_iff)
    then show ?case using Cons.IH [of "?step r A"] Cons.prems by auto
  qed simp
  from this [of "sp_rules pol" "[]"] show ?thesis
    unfolding scope_prefixes_def Let_def rule_allows_def [symmetric] by (auto simp: open_rule_def)
qed

lemma constrain_scope_prefixes:
  assumes "constrain_scope pol scope ctx = Inr out"
  shows "\<exists>ps. sc_prefixes out = Some ps \<and> (\<forall>p \<in> set ps. \<exists>q \<in> set (scope_prefixes pol ctx). under q p)"
proof -
  have "\<exists>q \<in> set (scope_prefixes pol ctx). under q p"
    if "p \<in> set (combine_prefixes ls (dedup (scope_prefixes pol ctx)))" for p ls
    using that paths.refl unfolding combine_prefixes_set by auto
  moreover have "\<exists>q \<in> set (scope_prefixes pol ctx). under q p" if "p \<in> set (scope_prefixes pol ctx)" for p
    using that paths.refl by blast
  ultimately show ?thesis
    using assms by (cases scope) (auto simp: constrain_scope_def scope_for_def Let_def split: if_splits option.splits)
qed

text \<open>
  C26. The prefix scope of a policy never leaks. Whatever rules build a policy and whatever scope a
  caller brings, every source that the constrained scope admits is one the policy's own decision
  allows for that caller: no denied descendant hides beneath an admitted prefix.
\<close>

theorem constrained_scope_sound:
  "(case policy_of sha raw default_deny of
      Inl e \<Rightarrow> True
    | Inr pol \<Rightarrow> (case constrain_scope pol scope ctx of
        Inl e \<Rightarrow> True
      | Inr out \<Rightarrow> Collect (prefix_admits out) \<subseteq> {f. pd_allowed (decide pol f ctx)}))"
proof (cases "policy_of sha raw default_deny"; cases "constrain_scope (projr (policy_of sha raw default_deny)) scope ctx")
  fix pol out
  assume pol: "policy_of sha raw default_deny = Inr pol"
    and out: "constrain_scope (projr (policy_of sha raw default_deny)) scope ctx = Inr out"
  have ok: "policy_ok pol" by (rule policy_of_ok [OF pol])
  obtain ps where ps: "sc_prefixes out = Some ps"
    and sub: "\<forall>p \<in> set ps. \<exists>q \<in> set (scope_prefixes pol ctx). under q p"
    using constrain_scope_prefixes out pol by fastforce
  have "pd_allowed (decide pol f ctx)" if p: "p \<in> set ps" "under (normalize_source p) f" for p f
  proof -
    obtain r where r: "open_rule pol ctx r" "under (sr_prefix r) p"
      using sub p(1) scope_prefixes_cover [of pol ctx p] by blast
    then have "clean_prefix (sr_prefix r)" using ok by (simp add: policy_ok_def open_rule_def)
    then have "under (sr_prefix r) f" using normalize_under r(2) p(2) paths.trans by blast
    then show ?thesis by (rule open_rule_sound [OF ok r(1)])
  qed
  then show ?thesis using pol out ps by (auto simp: prefix_admits_def list_ex_iff)
qed simp_all

end
