(* ===== verification/TrustPolicy.thy ===== *)
theory TrustPolicy
  imports TrustGate SecurityPolicy
begin

text \<open>
  Refusing, degrading and withholding: \<open>src/recall/trust_policy.py\<close> and the steps of
  \<open>src/recall/trust.py\<close> around the gate that change a result (\<open>_without_non_finite_dense\<close>,
  \<open>_withhold_unauthorized_names\<close>, \<open>_degraded\<close>). Log messages are not modelled; the advice texts are a
  parameter of the wire form of a refusal.
\<close>

section \<open>Statuses and failure codes\<close>

datatype trust_mode = Strict | Development

datatype failure_code =
    IndexNotReady | LineageMismatch | CalibrationMissing | CalibrationUncertified | CalibrationStale
  | DependencyUnavailable | DependencyGraphNotReady

fun failure_name :: "failure_code \<Rightarrow> string" where
  "failure_name IndexNotReady = ''INDEX_NOT_READY''"
| "failure_name LineageMismatch = ''LINEAGE_MISMATCH''"
| "failure_name CalibrationMissing = ''CALIBRATION_MISSING''"
| "failure_name CalibrationUncertified = ''CALIBRATION_UNCERTIFIED''"
| "failure_name CalibrationStale = ''CALIBRATION_STALE''"
| "failure_name DependencyUnavailable = ''DEPENDENCY_UNAVAILABLE''"
| "failure_name DependencyGraphNotReady = ''DEPENDENCY_GRAPH_NOT_READY''"

datatype calibration_status =
    StatusCertified | StatusMissing | StatusStale | StatusUncertified | StatusDraft | StatusRejected
  | StatusSuperseded | StatusLegacyUnbound

fun status_name :: "calibration_status \<Rightarrow> string" where
  "status_name StatusCertified = ''certified''"
| "status_name StatusMissing = ''missing''"
| "status_name StatusStale = ''stale''"
| "status_name StatusUncertified = ''uncertified''"
| "status_name StatusDraft = ''draft''"
| "status_name StatusRejected = ''rejected''"
| "status_name StatusSuperseded = ''superseded''"
| "status_name StatusLegacyUnbound = ''legacy_unbound''"

definition parse_status :: "string \<Rightarrow> calibration_status option" where
  "parse_status s = find (\<lambda>st. status_name st = s)
     [StatusCertified, StatusMissing, StatusStale, StatusUncertified, StatusDraft, StatusRejected,
      StatusSuperseded, StatusLegacyUnbound]"

fun status_code :: "calibration_status \<Rightarrow> failure_code option" where
  "status_code StatusCertified = None"
| "status_code StatusMissing = Some CalibrationMissing"
| "status_code StatusStale = Some CalibrationStale"
| "status_code StatusSuperseded = Some CalibrationStale"
| "status_code StatusUncertified = Some CalibrationUncertified"
| "status_code StatusRejected = Some CalibrationUncertified"
| "status_code StatusDraft = Some CalibrationUncertified"
| "status_code StatusLegacyUnbound = Some CalibrationUncertified"

definition code_for_status :: "string \<Rightarrow> failure_code option" where
  "code_for_status s = (case parse_status s of None \<Rightarrow> Some CalibrationUncertified | Some st \<Rightarrow> status_code st)"

section \<open>Modes\<close>

definition mode_from_env :: "(string, string) dict \<Rightarrow> trust_mode" where
  "mode_from_env env =
     (if py_lower (py_strip (dict_get env ''RECALL_TRUST_MODE'' [])) = ''development'' then Development else Strict)"

definition dependency_mode_from_env :: "(string, string) dict \<Rightarrow> string result" where
  "dependency_mode_from_env env =
     (let mode = py_lower (py_strip (dict_get env ''RECALL_DEPENDENCY_INVALIDATION'' ''off''))
      in if mode \<in> {''off'', ''enforce''} then Inr mode
         else Inl (ValueError ''RECALL_DEPENDENCY_INVALIDATION must be off or enforce''))"

section \<open>Refusals\<close>

record trust_refusal =
  tf_code :: failure_code
  tf_calibration_status :: string
  tf_tenant_id :: "string option"
  tf_generation_id :: "string option"
  tf_calibration_id :: "string option"
  tf_pipeline_fingerprint :: "string option"
  tf_corpus_fingerprint :: "string option"
  tf_query_set_digest :: "string option"

definition optional_str :: "string option \<Rightarrow> pyval" where
  "optional_str s = (case s of None \<Rightarrow> PNone | Some x \<Rightarrow> PStr x)"

definition refusal_to_dict :: "(failure_code \<Rightarrow> string) \<Rightarrow> trust_refusal \<Rightarrow> metadata" where
  "refusal_to_dict advice r =
     [(''code'', PStr (failure_name (tf_code r))),
      (''trust_state'', PStr ''refused''),
      (''calibration_status'', PStr (tf_calibration_status r)),
      (''calibrated'', PBool False),
      (''tenant_id'', optional_str (tf_tenant_id r)),
      (''generation_id'', optional_str (tf_generation_id r)),
      (''calibration_id'', optional_str (tf_calibration_id r)),
      (''pipeline_fingerprint'', optional_str (tf_pipeline_fingerprint r)),
      (''corpus_fingerprint'', optional_str (tf_corpus_fingerprint r)),
      (''query_set_digest'', optional_str (tf_query_set_digest r)),
      (''advice'', PStr (advice (tf_code r)))]"

section \<open>Around the gate\<close>

definition without_non_finite_dense :: "retrieval_result \<Rightarrow> retrieval_result" where
  "without_non_finite_dense result =
     result\<lparr>rr_hits := filter (\<lambda>h. sc_kind h \<noteq> DenseCosine \<or> isfinite (sc_score h)) (rr_hits result)\<rparr>"

definition degraded :: "trusted_result \<Rightarrow> failure_code \<Rightarrow> bool \<Rightarrow> trusted_result" where
  "degraded trusted failure calibration_missing =
     (let marked = trusted\<lparr>tr_trust_state := ''degraded'', tr_failure_code := Some (failure_name failure)\<rparr>
      in if \<not> calibration_missing then marked
         else let unverified = map (\<lambda>h. h\<lparr>th_verdict := Unverified\<rparr>) (tr_hits trusted)
              in marked\<lparr>tr_hits := unverified, tr_abstained := False, tr_reason := [],
                        tr_decision_state := Some (decision_state_for unverified (tr_gap_warning trusted))\<rparr>)"

definition withheld :: string where
  "withheld = ''<withheld>''"

definition file_of_source :: "trusted_hit list \<Rightarrow> (string, string) dict" where
  "file_of_source hits = fold (\<lambda>h. dict_set (chunk_source (th_chunk h))
     (case chunk_file (th_chunk h) of
        Some f \<Rightarrow> if f \<noteq> [] then f else chunk_source (th_chunk h)
      | None \<Rightarrow> chunk_source (th_chunk h))) hits []"

definition name_denied ::
  "source_policy \<Rightarrow> access_context \<Rightarrow> (string, string) dict \<Rightarrow> string set \<Rightarrow> key \<Rightarrow> bool" where
  "name_denied pol ctx of_source collided k = (case place_graph_key k of_source collided of
     None \<Rightarrow> True
   | Some f \<Rightarrow> \<not> pd_allowed (decide pol f ctx))"

definition hide_name :: "(key \<Rightarrow> bool) \<Rightarrow> key \<Rightarrow> key" where
  "hide_name denied k = (if denied k then withheld else k)"

definition hide_names :: "(key \<Rightarrow> bool) \<Rightarrow> trusted_hit \<Rightarrow> trusted_hit" where
  "hide_names denied h =
     h\<lparr>th_validity := (th_validity h)\<lparr>va_superseded_by :=
          (case va_superseded_by (th_validity h) of
             None \<Rightarrow> None
           | Some s \<Rightarrow> if s \<noteq> [] \<and> denied s then Some withheld else Some s)\<rparr>,
       th_invalidation := (case th_invalidation h of
          None \<Rightarrow> None
        | Some r \<Rightarrow> Some (r\<lparr>ir_dependency := hide_name denied (ir_dependency r),
                            ir_path := map (hide_name denied) (ir_path r)\<rparr>))\<rparr>"

definition names_change :: "(key \<Rightarrow> bool) \<Rightarrow> trusted_hit \<Rightarrow> bool" where
  "names_change denied h \<longleftrightarrow>
     (case va_superseded_by (th_validity h) of None \<Rightarrow> False | Some s \<Rightarrow> s \<noteq> [] \<and> denied s) \<or>
     (case th_invalidation h of
        None \<Rightarrow> False
      | Some r \<Rightarrow> hide_name denied (ir_dependency r) \<noteq> ir_dependency r \<or>
                  map (hide_name denied) (ir_path r) \<noteq> ir_path r)"

definition withhold_unauthorized_names ::
  "trusted_result \<Rightarrow> source_policy \<Rightarrow> access_context \<Rightarrow> string set \<Rightarrow> trusted_result" where
  "withhold_unauthorized_names trusted pol ctx collided =
     (let denied = name_denied pol ctx (file_of_source (tr_hits trusted)) collided;
          hits = map (hide_names denied) (tr_hits trusted)
      in if \<not> list_ex (names_change denied) (tr_hits trusted) then trusted
         else trusted\<lparr>tr_hits := hits,
                      tr_reason := (if tr_abstained trusted then abstain_reason hits else tr_reason trusted)\<rparr>)"

section \<open>Failing closed\<close>

text \<open>
  Only one string certifies. A calibration status maps to no failure code exactly when it is the
  word certified; every other status, known or not, names a failure.
\<close>

theorem code_for_status_fails_closed: "(code_for_status s = None) = (s = ''certified'')"
proof -
  have name: "parse_status s = Some st \<Longrightarrow> status_name st = s" for st
    unfolding parse_status_def find_Some_iff by blast
  have code: "status_code st = None \<longleftrightarrow> st = StatusCertified" for st by (cases st) simp_all
  show ?thesis
  proof (cases "parse_status s")
    case None
    have "s \<noteq> ''certified''"
    proof
      assume "s = ''certified''"
      then show False using None by (simp add: parse_status_def)
    qed
    then show ?thesis using None by (simp add: code_for_status_def)
  next
    case (Some st)
    have "st = StatusCertified \<longleftrightarrow> s = ''certified''"
      using name [OF Some] by (cases st) auto
    then show ?thesis using Some code [of st] by (simp add: code_for_status_def)
  qed
qed

text \<open>
  A degraded result never passes for a trusted one: it is never calibrated whatever status and
  artifact it carries, it names its failure, and when the calibration is missing no hit of it may be
  relied on, none is handed to a chain, and its state is not supported.
\<close>

theorem degraded_is_never_trusted:
  "\<not> result_calibrated (degraded r failure missing) \<and> tr_failure_code (degraded r failure missing) = Some (failure_name failure) \<and>
   map th_chunk (tr_hits (degraded r failure missing)) = map th_chunk (tr_hits r) \<and>
   (if missing then servable_hits (tr_hits (degraded r failure missing)) False = [] \<and>
        tr_decision_state (degraded r failure missing) \<in> {Some CorpusGap, Some NoSupportingEvidence}
    else tr_hits (degraded r failure missing) = tr_hits r)"
  by (auto simp: degraded_def result_calibrated_def Let_def servable_hits_def filter_empty_conv is_trusted_def
      decision_state_for_def list_ex_iff)

section \<open>Names the caller may not read\<close>

definition shown_names :: "trusted_hit \<Rightarrow> key list" where
  "shown_names h =
     (case va_superseded_by (th_validity h) of None \<Rightarrow> [] | Some s \<Rightarrow> if s = [] then [] else [s]) @
     (case th_invalidation h of None \<Rightarrow> [] | Some r \<Rightarrow> ir_dependency r # ir_path r)"

lemma hide_names_same: "\<not> names_change denied h \<Longrightarrow> hide_names denied h = h"
  by (cases h; cases "va_superseded_by (th_validity h)"; cases "th_invalidation h")
    (auto simp: names_change_def hide_names_def)

lemma hide_names_shown: "set (shown_names (hide_names denied h)) \<subseteq> insert withheld (- Collect denied)"
  by (auto simp: shown_names_def hide_names_def hide_name_def split: option.splits if_splits)

lemma hide_names_kept [simp]:
  "th_verdict (hide_names denied h) = th_verdict h" "th_chunk (hide_names denied h) = th_chunk h"
  "th_cosine (hide_names denied h) = th_cosine h"
  by (simp_all add: hide_names_def)

lemma withhold_hits:
  "tr_hits (withhold_unauthorized_names r pol ctx collided) =
     map (hide_names (name_denied pol ctx (file_of_source (tr_hits r)) collided)) (tr_hits r)"
  unfolding withhold_unauthorized_names_def Let_def
  by (auto simp: list_ex_iff hide_names_same map_idI)

text \<open>
  A name the policy denies never reaches the caller. After withholding, every successor, dependency
  and path entry of every hit is one the policy allows for this caller or the withheld mark, while the
  chunks, their order and every verdict stay as they were.
\<close>

theorem denied_names_withheld:
  "let r' = withhold_unauthorized_names r pol ctx collided;
       denied = name_denied pol ctx (file_of_source (tr_hits r)) collided
   in (\<Union>h \<in> set (tr_hits r'). set (shown_names h)) \<subseteq> insert withheld (- Collect denied) \<and>
      map th_chunk (tr_hits r') = map th_chunk (tr_hits r) \<and>
      map th_verdict (tr_hits r') = map th_verdict (tr_hits r) \<and> tr_abstained r' = tr_abstained r"
proof -
  have "tr_abstained (withhold_unauthorized_names r pol ctx collided) = tr_abstained r"
    by (simp add: withhold_unauthorized_names_def Let_def)
  then show ?thesis using hide_names_shown unfolding Let_def withhold_hits by (auto simp: o_def)
qed

end
