(* ===== verification/Federation.thy ===== *)
theory Federation
  imports TrustVerdicts
begin

text \<open>
  Federated retrieval, from \<open>src/recall/federation.py\<close>: the validated configuration, the bounded
  scheduling of tenant legs, the acceptance of a leg's result, and the merge by rank. A leg's retrieval
  is what the caller supplies, so its outcome is an input. Time enters only as the events the scheduler
  observes (which legs have finished, whether the budget has passed); measured latencies and metrics are
  left out. The digest of a text is a parameter.
\<close>

section \<open>Configuration\<close>

record federation_config =
  fc_mode :: string
  fc_max_legs :: int
  fc_max_concurrency :: int
  fc_candidate_k :: int
  fc_result_k :: int
  fc_primary_prefix :: int
  fc_rescue_slots :: int
  fc_rrf_k :: int
  fc_invalid_leg_policy :: string

definition default_federation :: federation_config where
  "default_federation = \<lparr>fc_mode = ''off'', fc_max_legs = 2, fc_max_concurrency = 2, fc_candidate_k = 20,
     fc_result_k = 5, fc_primary_prefix = 3, fc_rescue_slots = 1, fc_rrf_k = 60, fc_invalid_leg_policy = ''omit''\<rparr>"

text \<open>The checks of \<open>__post_init__\<close>, in order: the first that holds is the error raised.\<close>

definition config_checks :: "federation_config \<Rightarrow> (bool \<times> string) list" where
  "config_checks c =
     [(fc_mode c \<notin> {''off'', ''shadow'', ''active''}, ''mode must be off, shadow, or active''),
      (fc_max_legs c < 1, ''max_legs must be >= 1''),
      (fc_max_concurrency c < 1, ''max_concurrency must be >= 1''),
      (fc_candidate_k c < 1, ''candidate_k must be >= 1''),
      (fc_result_k c < 1, ''result_k must be >= 1''),
      (fc_primary_prefix c < 1, ''primary_prefix must be >= 1''),
      (fc_max_concurrency c > fc_max_legs c, ''max_concurrency must be <= max_legs''),
      (fc_max_legs c > 8, ''max_legs must be <= 8''),
      (fc_max_concurrency c > 8, ''max_concurrency must be <= 8''),
      (fc_candidate_k c > 50, ''candidate_k must be <= 50''),
      (fc_result_k c > 50, ''result_k must be <= 50''),
      (fc_primary_prefix c > 50, ''primary_prefix must be <= 50''),
      (fc_rrf_k c > 1000000, ''rrf_k must be <= 1000000''),
      (fc_rrf_k c < 0, ''rrf_k must be >= 0''),
      (fc_rescue_slots c < 0, ''rescue_slots must be >= 0''),
      (fc_rescue_slots c > fc_result_k c, ''rescue_slots must be <= result_k''),
      (fc_primary_prefix c + fc_rescue_slots c > fc_result_k c, ''primary_prefix plus rescue_slots must be <= result_k''),
      (fc_invalid_leg_policy c \<notin> {''omit'', ''fail_closed''}, ''invalid_leg_policy must be omit or fail_closed'')]"

definition make_config :: "federation_config \<Rightarrow> federation_config result" where
  "make_config c = (case find fst (config_checks c) of
     None \<Rightarrow> Inr c | Some (b, message) \<Rightarrow> Inl (ConfigurationError message))"

text \<open>\<open>from_env\<close>: the settings by their environment names; a value out of range refuses.\<close>

definition env_integer :: "(string \<rightharpoonup> string) \<Rightarrow> string \<Rightarrow> int \<Rightarrow> int \<Rightarrow> int result" where
  "env_integer env name dflt minimum = (case env name of
     None \<Rightarrow> Inr dflt
   | Some raw \<Rightarrow> if py_strip raw = [] then Inr dflt
       else (case py_int raw of
         None \<Rightarrow> Inl (ConfigurationError (name @ '' must be an integer''))
       | Some v \<Rightarrow> if v < minimum then Inl (ConfigurationError (name @ '' is below its minimum'')) else Inr v))"

definition env_name :: "(string \<rightharpoonup> string) \<Rightarrow> string \<Rightarrow> string \<Rightarrow> string" where
  "env_name env name dflt = py_lower (py_strip (case env name of None \<Rightarrow> dflt | Some v \<Rightarrow> v))"

definition config_from_env :: "(string \<rightharpoonup> string) \<Rightarrow> federation_config result" where
  "config_from_env env =
     and_then (env_integer env ''RECALL_FEDERATION_MAX_LEGS'' (fc_max_legs default_federation) 1) (\<lambda>max_legs.
     and_then (env_integer env ''RECALL_FEDERATION_MAX_CONCURRENCY'' (fc_max_concurrency default_federation) 1) (\<lambda>max_concurrency.
     and_then (env_integer env ''RECALL_FEDERATION_CANDIDATE_K'' (fc_candidate_k default_federation) 1) (\<lambda>candidate_k.
     and_then (env_integer env ''RECALL_FEDERATION_RESULT_K'' (fc_result_k default_federation) 1) (\<lambda>result_k.
     and_then (env_integer env ''RECALL_FEDERATION_PRIMARY_PREFIX'' (fc_primary_prefix default_federation) 1) (\<lambda>primary_prefix.
     and_then (env_integer env ''RECALL_FEDERATION_RESCUE_SLOTS'' (fc_rescue_slots default_federation) 0) (\<lambda>rescue_slots.
     and_then (env_integer env ''RECALL_FEDERATION_RRF_K'' (fc_rrf_k default_federation) 0) (\<lambda>rrf_k.
     make_config \<lparr>fc_mode = env_name env ''RECALL_FEDERATION_MODE'' (fc_mode default_federation),
       fc_max_legs = max_legs, fc_max_concurrency = max_concurrency, fc_candidate_k = candidate_k,
       fc_result_k = result_k, fc_primary_prefix = primary_prefix, fc_rescue_slots = rescue_slots, fc_rrf_k = rrf_k,
       fc_invalid_leg_policy = env_name env ''RECALL_FEDERATION_INVALID_LEG'' (fc_invalid_leg_policy default_federation)\<rparr>)))))))"

section \<open>Legs\<close>

record federation_leg =
  fl_tenant_id :: string
  fl_generation_id :: string
  fl_embedding_profile :: string
  fl_calibration_id :: "string option"
  fl_calibration_status :: string
  fl_route :: string
  fl_candidate_k :: "int option"
  fl_pipeline_fingerprint :: "string option"
  fl_corpus_fingerprint :: "string option"
  fl_query_set_digest :: "string option"

definition make_leg :: "federation_leg \<Rightarrow> federation_leg result" where
  "make_leg l =
     (if list_ex (\<lambda>f. py_strip (f l) = [])
           [fl_tenant_id, fl_generation_id, fl_embedding_profile, fl_calibration_status, fl_route]
      then Inl (ConfigurationError ''leg field must be non empty'')
      else (case fl_candidate_k l of
        None \<Rightarrow> Inr l
      | Some k \<Rightarrow> if 1 \<le> k \<and> k \<le> 50 then Inr l
          else Inl (ConfigurationError ''candidate_k must be between 1 and 50'')))"

definition leg_rejection :: "federation_leg \<Rightarrow> trusted_result \<Rightarrow> string option" where
  "leg_rejection leg r =
     (if tr_tenant_id r \<noteq> Some (fl_tenant_id leg) then Some ''tenant_lineage_mismatch''
      else if tr_generation_id r \<noteq> Some (fl_generation_id leg) then Some ''generation_lineage_mismatch''
      else if rd_embedding_profile (tr_diagnostics r) \<noteq> fl_embedding_profile leg then Some ''embedding_lineage_mismatch''
      else if tr_trust_state r \<noteq> ''trusted'' then Some ''trust_not_certified''
      else if \<not> result_calibrated r then Some ''calibration_not_certified''
      else if tr_calibration_id r \<noteq> fl_calibration_id leg then Some ''calibration_lineage_mismatch''
      else if tr_calibration_status r \<noteq> fl_calibration_status leg then Some ''calibration_status_mismatch''
      else if tr_gap_warning r then Some ''tenant_gap_warning''
      else None)"

section \<open>Running the legs\<close>

text \<open>
  The scheduling loop as a state and its events. \<open>Finished\<close> is one return of \<open>wait\<close> with the legs that
  are done and whether the budget has passed when the next legs are handed out; \<open>BudgetSpent\<close> is a
  return with none. A leg ends with a result, or None when it raised.
\<close>

record schedule =
  sd_waiting :: "nat list"
  sd_running :: "nat list"
  sd_ended :: "(nat \<times> trusted_result option) list"
  sd_timed_out :: "nat set"
  sd_stopped :: bool

datatype schedule_event = Finished "(nat \<times> trusted_result option) list" bool | BudgetSpent

definition submit_ready :: "int \<Rightarrow> bool \<Rightarrow> schedule \<Rightarrow> schedule" where
  "submit_ready max_concurrency budget_passed st =
     (if budget_passed then st
      else let room = nat max_concurrency - length (sd_running st)
           in st\<lparr>sd_running := sd_running st @ take room (sd_waiting st), sd_waiting := drop room (sd_waiting st)\<rparr>)"

definition schedule_start :: "int \<Rightarrow> nat \<Rightarrow> bool \<Rightarrow> schedule" where
  "schedule_start max_concurrency n budget_passed =
     submit_ready max_concurrency budget_passed
       \<lparr>sd_waiting = [0..<n], sd_running = [], sd_ended = [], sd_timed_out = {}, sd_stopped = False\<rparr>"

inductive schedule_step :: "int \<Rightarrow> schedule \<Rightarrow> schedule_event \<Rightarrow> schedule \<Rightarrow> bool" for max_concurrency where
  finished: "\<not> sd_stopped st \<Longrightarrow> finished \<noteq> [] \<Longrightarrow> distinct (map fst finished) \<Longrightarrow>
     fst ` set finished \<subseteq> set (sd_running st) \<Longrightarrow>
     schedule_step max_concurrency st (Finished finished passed)
       (submit_ready max_concurrency passed
          (st\<lparr>sd_running := filter (\<lambda>i. i \<notin> fst ` set finished) (sd_running st), sd_ended := sd_ended st @ finished\<rparr>))"
| budget: "\<not> sd_stopped st \<Longrightarrow> sd_running st \<noteq> [] \<Longrightarrow>
     schedule_step max_concurrency st BudgetSpent
       (st\<lparr>sd_timed_out := set (sd_running st) \<union> set (sd_waiting st), sd_stopped := True\<rparr>)"

inductive schedule_reachable :: "int \<Rightarrow> nat \<Rightarrow> schedule \<Rightarrow> bool" for max_concurrency n where
  start: "schedule_reachable max_concurrency n (schedule_start max_concurrency n passed)"
| step: "schedule_reachable max_concurrency n st \<Longrightarrow> schedule_step max_concurrency st e st' \<Longrightarrow>
     schedule_reachable max_concurrency n st'"

inductive_cases schedule_stepE: "schedule_step m st e st'"

text \<open>The loop is over when nothing is running or the budget stopped it; what then never started timed out.\<close>

definition schedule_over :: "schedule \<Rightarrow> bool" where
  "schedule_over st \<longleftrightarrow> sd_stopped st \<or> sd_running st = []"

definition timed_out_legs :: "schedule \<Rightarrow> nat set" where
  "timed_out_legs st = sd_timed_out st \<union> set (sd_waiting st)"

definition leg_results :: "schedule \<Rightarrow> (nat, trusted_result) dict" where
  "leg_results st = List.map_filter (\<lambda>(i, r). map_option (Pair i) r) (sd_ended st)"

section \<open>Accepting results\<close>

record leg_diagnostics =
  ld_tenant_id :: string
  ld_route :: string
  ld_embedding_profile :: string
  ld_generation_id :: string
  ld_candidate_count :: nat
  ld_trusted_count :: nat
  ld_rejected_count :: nat
  ld_accepted :: bool
  ld_rejection :: "string option"

definition request_k :: "federation_config \<Rightarrow> federation_leg \<Rightarrow> nat" where
  "request_k cfg leg = nat (case fl_candidate_k leg of
     None \<Rightarrow> fc_candidate_k cfg | Some k \<Rightarrow> if k = 0 then fc_candidate_k cfg else k)"

definition missing_reason :: "nat set \<Rightarrow> nat \<Rightarrow> string" where
  "missing_reason timed_out i = (if i \<in> timed_out then ''latency_budget_exceeded'' else ''leg_failed'')"

text \<open>What one leg contributes: its diagnostics, and its trusted hits when it is accepted.\<close>

definition judge_leg ::
  "federation_config \<Rightarrow> nat set \<Rightarrow> (nat, trusted_result) dict \<Rightarrow> nat \<times> federation_leg
     \<Rightarrow> leg_diagnostics \<times> trusted_hit list option" where
  "judge_leg cfg timed_out results il = (case il of (i, leg) \<Rightarrow> (case map_of results i of
     None \<Rightarrow> (\<lparr>ld_tenant_id = fl_tenant_id leg, ld_route = fl_route leg, ld_embedding_profile = fl_embedding_profile leg,
              ld_generation_id = fl_generation_id leg, ld_candidate_count = 0, ld_trusted_count = 0, ld_rejected_count = 0,
              ld_accepted = False, ld_rejection = Some (missing_reason timed_out i)\<rparr>, None)
   | Some r0 \<Rightarrow>
       (let r = r0\<lparr>tr_hits := take (request_k cfg leg) (tr_hits r0)\<rparr>;
            reason = leg_rejection leg r;
            trusted = (if reason = None then filter is_trusted (tr_hits r) else [])
        in (\<lparr>ld_tenant_id = fl_tenant_id leg, ld_route = fl_route leg, ld_embedding_profile = fl_embedding_profile leg,
             ld_generation_id = fl_generation_id leg, ld_candidate_count = length (tr_hits r), ld_trusted_count = length trusted,
             ld_rejected_count = length (tr_hits r) - length trusted, ld_accepted = (reason = None), ld_rejection = reason\<rparr>,
            if reason = None then Some trusted else None))))"

section \<open>Merging by rank\<close>

record candidate =
  ca_hit :: trusted_hit
  ca_tenant_id :: string
  ca_generation_id :: string
  ca_embedding_profile :: string
  ca_calibration_id :: string
  ca_calibration_status :: string
  ca_route :: string
  ca_leg_rank :: nat
  ca_fused_rank :: nat
  ca_fused_score :: real
  ca_pipeline_fingerprint :: "string option"
  ca_corpus_fingerprint :: "string option"
  ca_query_set_digest :: "string option"

type_synonym fused_id = "string \<times> string"

definition add_score :: "int \<Rightarrow> nat \<times> fused_id \<Rightarrow> (fused_id, real) dict \<Rightarrow> (fused_id, real) dict" where
  "add_score constant ri scores = (case ri of (rank, k) \<Rightarrow>
     dict_set k (dict_get scores k 0 + 1 / (of_int constant + real rank)) scores)"

definition rrf :: "fused_id list list \<Rightarrow> int \<Rightarrow> (fused_id, real) dict" where
  "rrf rankings constant =
     fold (\<lambda>ranking. fold (add_score constant) (enumerate 1 ranking)) rankings []"

definition fused_order :: "(fused_id, real) dict \<Rightarrow> fused_id list" where
  "fused_order scores = sort_key (\<lambda>k. (- dict_get scores k 0, k)) (dict_keys scores)"

definition fused_rank :: "fused_id list \<Rightarrow> fused_id \<Rightarrow> nat option" where
  "fused_rank order k = map_of (zip order [1..<Suc (length order)]) k"

type_synonym content_key = "string \<times> string"

definition candidate_keys :: "(string \<Rightarrow> string) \<Rightarrow> trusted_hit \<Rightarrow> string \<times> content_key" where
  "candidate_keys sha h = (chunk_id (th_chunk h), chunk_source (th_chunk h), sha (chunk_text (th_chunk h)))"

definition make_candidate ::
  "(fused_id, real) dict \<Rightarrow> fused_id list \<Rightarrow> federation_leg \<Rightarrow> nat \<times> trusted_hit \<Rightarrow> candidate" where
  "make_candidate scores order leg rh = (case rh of (leg_rank, h) \<Rightarrow>
     (let k = (fl_tenant_id leg, chunk_id (th_chunk h))
      in \<lparr>ca_hit = h, ca_tenant_id = fl_tenant_id leg, ca_generation_id = fl_generation_id leg,
          ca_embedding_profile = fl_embedding_profile leg,
          ca_calibration_id = (case fl_calibration_id leg of None \<Rightarrow> [] | Some c \<Rightarrow> c),
          ca_calibration_status = fl_calibration_status leg, ca_route = fl_route leg, ca_leg_rank = leg_rank,
          ca_fused_rank = (case fused_rank order k of Some r \<Rightarrow> r | None \<Rightarrow> length order + leg_rank),
          ca_fused_score = dict_get scores k 0,
          ca_pipeline_fingerprint = fl_pipeline_fingerprint leg, ca_corpus_fingerprint = fl_corpus_fingerprint leg,
          ca_query_set_digest = fl_query_set_digest leg\<rparr>))"

definition keep_best :: "(string \<Rightarrow> string) \<Rightarrow> candidate \<Rightarrow> (string \<times> content_key, candidate) dict
    \<Rightarrow> (string \<times> content_key, candidate) dict" where
  "keep_best sha c by_key = (let k = candidate_keys sha (ca_hit c) in
     case map_of by_key k of
       None \<Rightarrow> dict_set k c by_key
     | Some p \<Rightarrow> if (ca_fused_rank c, ca_tenant_id c) < (ca_fused_rank p, ca_tenant_id p)
         then dict_set k c by_key else by_key)"

record federation_diagnostics =
  fd_mode :: string
  fd_fanout_count :: nat
  fd_executed_leg_count :: nat
  fd_candidate_count :: nat
  fd_fused_candidate_count :: nat
  fd_primary_prefix_count :: nat
  fd_rescue_count :: nat
  fd_rejected_leg_count :: nat
  fd_rejected_candidate_count :: nat
  fd_max_concurrency :: int
  fd_legs :: "leg_diagnostics list"

record federation_result =
  fr_candidates :: "candidate list"
  fr_served :: "candidate list"
  fr_diagnostics :: federation_diagnostics
  fr_active :: bool

text \<open>The accepted legs with their hits, in leg order.\<close>

type_synonym accepted = "(nat \<times> federation_leg \<times> trusted_hit list) list"

definition fused_scores :: "federation_config \<Rightarrow> accepted \<Rightarrow> (fused_id, real) dict" where
  "fused_scores cfg acc =
     rrf (map (\<lambda>(i, leg, hits). map (\<lambda>h. (fl_tenant_id leg, chunk_id (th_chunk h))) hits) acc) (fc_rrf_k cfg)"

definition leg_candidates :: "federation_config \<Rightarrow> accepted \<Rightarrow> (nat \<times> candidate) list" where
  "leg_candidates cfg acc =
     (let scores = fused_scores cfg acc; order = fused_order scores
      in concat (map (\<lambda>(i, leg, hits). map (\<lambda>rh. (i, make_candidate scores order leg rh)) (enumerate 1 hits)) acc))"

definition primary_hits :: "accepted \<Rightarrow> trusted_hit list" where
  "primary_hits acc = (case map_of acc 0 of None \<Rightarrow> [] | Some (leg, hits) \<Rightarrow> hits)"

definition secondary_candidates :: "(string \<Rightarrow> string) \<Rightarrow> accepted \<Rightarrow> (nat \<times> candidate) list \<Rightarrow> candidate list" where
  "secondary_candidates sha acc cands =
     (let primary_content = (\<lambda>h. snd (candidate_keys sha h)) ` set (primary_hits acc);
          novel = map snd (filter (\<lambda>(i, c). i \<noteq> 0 \<and> map_of acc 0 \<noteq> None
                    \<and> snd (candidate_keys sha (ca_hit c)) \<notin> primary_content) cands);
          once = fold (\<lambda>c. dict_set (chunk_id (th_chunk (ca_hit c)), chunk_source (th_chunk (ca_hit c)),
                   chunk_text (th_chunk (ca_hit c))) c) novel []
      in sort_key (\<lambda>c. (ca_fused_rank c, ca_leg_rank c, ca_tenant_id c, chunk_id (th_chunk (ca_hit c))))
           (map snd once))"

text \<open>
  \<open>primary_by_key\<close> is indexed by the key of every primary hit; \<open>primary_candidates_all\<close> shows each is
  present, so no lookup is dropped here and none raises there.
\<close>

definition primary_candidates :: "(string \<Rightarrow> string) \<Rightarrow> accepted \<Rightarrow> (nat \<times> candidate) list \<Rightarrow> candidate list" where
  "primary_candidates sha acc cands =
     (let by_key = fold (\<lambda>(i, c). dict_set (candidate_keys sha (ca_hit c)) c) (filter (\<lambda>(i, c). i = 0) cands) []
      in List.map_filter (\<lambda>h. map_of by_key (candidate_keys sha h)) (primary_hits acc))"

definition serve :: "federation_config \<Rightarrow> candidate list \<Rightarrow> candidate list \<Rightarrow> candidate list" where
  "serve cfg primary rescue =
     (let limit = nat (fc_result_k cfg) in take limit (take (limit - length rescue) primary @ rescue))"

definition judged_legs ::
  "federation_config \<Rightarrow> nat set \<Rightarrow> (nat, trusted_result) dict \<Rightarrow> federation_leg list
     \<Rightarrow> ((nat \<times> federation_leg) \<times> leg_diagnostics \<times> trusted_hit list option) list" where
  "judged_legs cfg timed_out results legs =
     map (\<lambda>il. (il, judge_leg cfg timed_out results il)) (enumerate 0 legs)"

definition accepted_legs ::
  "((nat \<times> federation_leg) \<times> leg_diagnostics \<times> trusted_hit list option) list \<Rightarrow> accepted" where
  "accepted_legs judged = List.map_filter (\<lambda>((i, leg), d, hits). map_option (\<lambda>h. (i, leg, h)) hits) judged"

definition merge_legs ::
  "(string \<Rightarrow> string) \<Rightarrow> federation_config \<Rightarrow> nat set \<Rightarrow> (nat, trusted_result) dict \<Rightarrow> federation_leg list
     \<Rightarrow> federation_result result" where
  "merge_legs sha cfg timed_out results legs =
     (let judged = judged_legs cfg timed_out results legs;
          diagnostics = map (\<lambda>(il, d, hits). d) judged;
          rejected = filter (\<lambda>d. \<not> ld_accepted d) diagnostics;
          acc = accepted_legs judged
      in if fc_invalid_leg_policy cfg = ''fail_closed'' \<and> rejected \<noteq> []
         then Inl (LegRejected (case ld_rejection (hd rejected) of None \<Rightarrow> [] | Some m \<Rightarrow> m))
         else let cands = leg_candidates cfg acc;
                  primary = primary_candidates sha acc cands;
                  secondary = secondary_candidates sha acc cands;
                  rescue = take (nat (min (fc_rescue_slots cfg) (fc_result_k cfg))) secondary
              in Inr \<lparr>fr_candidates = map snd (fold (\<lambda>(i, c). keep_best sha c) cands []),
                      fr_served = serve cfg primary rescue,
                      fr_diagnostics =
                        \<lparr>fd_mode = fc_mode cfg, fd_fanout_count = length legs, fd_executed_leg_count = length results,
                         fd_candidate_count = sum_list (map (\<lambda>(i, leg, hits). length hits) acc),
                         fd_fused_candidate_count = length (fused_order (fused_scores cfg acc)),
                         fd_primary_prefix_count = min (min (nat (fc_primary_prefix cfg)) (length (primary_hits acc))) (nat (fc_result_k cfg)),
                         fd_rescue_count = length rescue,
                         fd_rejected_leg_count = length rejected,
                         fd_rejected_candidate_count = sum_list (map ld_rejected_count diagnostics),
                         fd_max_concurrency = min (fc_max_concurrency cfg) (int (length legs)),
                         fd_legs = diagnostics\<rparr>,
                      fr_active = (fc_mode cfg = ''active'')\<rparr>)"

definition effective_legs :: "federation_config \<Rightarrow> federation_leg list \<Rightarrow> federation_leg list" where
  "effective_legs cfg legs = (if fc_mode cfg \<noteq> ''off'' then legs else take 1 legs)"

definition federate ::
  "(string \<Rightarrow> string) \<Rightarrow> federation_config \<Rightarrow> federation_leg list \<Rightarrow> int option \<Rightarrow> schedule \<Rightarrow> federation_result result" where
  "federate sha cfg legs latency_budget_ms st =
     (if (case latency_budget_ms of None \<Rightarrow> False | Some b \<Rightarrow> \<not> (1 \<le> b \<and> b \<le> 120000))
      then Inl (ConfigurationError ''latency_budget_ms must be between 1 and 120000'')
      else if legs = [] then Inl (ConfigurationError ''at least one federation leg is required'')
      else if int (length legs) > fc_max_legs cfg
      then Inl (ConfigurationError ''federation selected more legs than max_legs'')
      else if fc_invalid_leg_policy cfg = ''fail_closed'' \<and> list_ex (\<lambda>(i, r). r = None) (sd_ended st)
      then Inl (LegRejected ''leg failed'')
      else merge_legs sha cfg (timed_out_legs st) (leg_results st) (effective_legs cfg legs))"

end
