(* ===== verification/FederationCorrect.thy ===== *)
theory FederationCorrect
  imports Federation
begin

text \<open>
  Correctness of \<open>Federation\<close>: the scheduler starts every leg at most once, within its concurrency
  bound, and loses none; it terminates; the merge serves only trusted hits of legs whose lineage was
  checked, keeps the primary prefix, and fails closed when the policy says so.
\<close>

section \<open>The scheduler\<close>

definition schedule_legs :: "schedule \<Rightarrow> nat list" where
  "schedule_legs st = sd_waiting st @ sd_running st @ map fst (sd_ended st)"

definition schedule_ok :: "int \<Rightarrow> nat \<Rightarrow> schedule \<Rightarrow> bool" where
  "schedule_ok m n st \<longleftrightarrow>
     distinct (schedule_legs st) \<and> set (schedule_legs st) = {..<n} \<and> length (sd_running st) \<le> nat m
     \<and> sd_timed_out st = (if sd_stopped st then set (sd_running st) \<union> set (sd_waiting st) else {})"

lemma submit_ready_legs: "mset (schedule_legs (submit_ready m passed st)) = mset (schedule_legs st)"
proof -
  have "mset (take k w) + mset (drop k w) = mset w" for k and w :: "nat list"
    by (simp flip: mset_append)
  then show ?thesis by (simp add: schedule_legs_def submit_ready_def Let_def ac_simps)
qed

lemma submit_ready_ok:
  assumes "schedule_ok m n st" "\<not> sd_stopped st"
  shows "schedule_ok m n (submit_ready m passed st)"
proof -
  have "distinct (schedule_legs (submit_ready m passed st)) = distinct (schedule_legs st)"
    "set (schedule_legs (submit_ready m passed st)) = set (schedule_legs st)"
    using submit_ready_legs [of m passed st] by (rule mset_eq_imp_distinct_iff, rule mset_eq_setD)
  then show ?thesis
    using assms by (auto simp: schedule_ok_def submit_ready_def Let_def)
qed

lemma schedule_start_ok: "schedule_ok m n (schedule_start m n passed)"
  unfolding schedule_start_def
  by (rule submit_ready_ok) (auto simp: schedule_ok_def schedule_legs_def)

lemma schedule_step_ok: "schedule_step m st e st' \<Longrightarrow> schedule_ok m n st \<Longrightarrow> schedule_ok m n st'"
proof (induction rule: schedule_step.induct)
  case (finished st finished passed)
  let ?run = "filter (\<lambda>i. i \<notin> fst ` set finished) (sd_running st)"
  have "length ?run \<le> nat m"
    using finished(5) length_filter_le order_trans unfolding schedule_ok_def by blast
  then have "schedule_ok m n (st\<lparr>sd_running := ?run, sd_ended := sd_ended st @ finished\<rparr>)"
    using finished by (auto simp: schedule_ok_def schedule_legs_def)
  then show ?case using finished(1) by (intro submit_ready_ok) simp_all
next
  case (budget st)
  then show ?case by (auto simp: schedule_ok_def schedule_legs_def)
qed

lemma schedule_reachable_ok: "schedule_reachable m n st \<Longrightarrow> schedule_ok m n st"
  by (induction rule: schedule_reachable.induct) (blast intro: schedule_start_ok schedule_step_ok)+

text \<open>
  C24. At every moment of a federated request at most \<open>max_concurrency\<close> legs are running, every leg is
  in exactly one of waiting, running and ended, and when the loop is over the legs that timed out are
  exactly the ones that have not ended: no leg is lost, run twice or both answered and timed out.
\<close>
theorem schedule_accounts_for_every_leg:
  assumes "schedule_reachable m n st"
  shows "length (sd_running st) \<le> nat m
    \<and> distinct (sd_waiting st @ sd_running st @ map fst (sd_ended st))
    \<and> set (sd_waiting st @ sd_running st @ map fst (sd_ended st)) = {..<n}
    \<and> (schedule_over st \<longrightarrow> timed_out_legs st = {..<n} - fst ` set (sd_ended st))"
proof -
  have ok: "schedule_ok m n st" using assms by (rule schedule_reachable_ok)
  have "timed_out_legs st = {..<n} - fst ` set (sd_ended st)" if over: "schedule_over st"
  proof -
    have "timed_out_legs st = set (sd_waiting st) \<union> set (sd_running st)"
      using ok over by (auto simp: schedule_ok_def schedule_over_def timed_out_legs_def)
    then show ?thesis using ok by (auto simp: schedule_ok_def schedule_legs_def)
  qed
  then show ?thesis using ok by (simp add: schedule_ok_def schedule_legs_def)
qed

theorem schedule_accounts_for_every_leg_witness:
  "timed_out_legs (schedule_start 2 3 True) = {0, 1, 2} - {}"
proof -
  have "schedule_reachable 2 3 (schedule_start 2 3 True)" by (rule schedule_reachable.start)
  moreover have "schedule_over (schedule_start 2 3 True)"
    "sd_ended (schedule_start 2 3 True) = []" "{..<3::nat} = {0, 1, 2}"
    by (auto simp: schedule_over_def schedule_start_def submit_ready_def)
  ultimately show ?thesis using schedule_accounts_for_every_leg [of 2 3 "schedule_start 2 3 True"] by simp
qed

definition schedule_left :: "schedule \<Rightarrow> nat" where
  "schedule_left st = 2 * (length (sd_waiting st) + length (sd_running st)) + (if sd_stopped st then 0 else 1)"

lemma submit_ready_left: "schedule_left (submit_ready m passed st) = schedule_left st"
  by (auto simp: schedule_left_def submit_ready_def Let_def)

lemma schedule_step_left: "schedule_step m st e st' \<Longrightarrow> schedule_left st' < schedule_left st"
proof (induction rule: schedule_step.induct)
  case (finished st finished passed)
  then obtain i where "i \<in> fst ` set finished" "i \<in> set (sd_running st)" by (cases finished) auto
  then have "length (filter (\<lambda>i. i \<notin> fst ` set finished) (sd_running st)) < length (sd_running st)"
    by (intro length_filter_less [of i]) auto
  then show ?case using finished(1) by (simp add: submit_ready_left) (simp add: schedule_left_def)
qed (simp add: schedule_left_def)

text \<open>
  C40. The scheduling loop terminates: no infinite sequence of events exists, and as long as it is not
  over an event is possible, a finished leg or the budget, so it never deadlocks.
\<close>
theorem schedule_terminates:
  "wfP (\<lambda>st' st. \<exists>e. schedule_step m st e st')
   \<and> (\<forall>st. schedule_over st \<or> (\<exists>i r passed st'. schedule_step m st (Finished [(i, r)] passed) st'))"
proof (intro conjI allI)
  show "wfP (\<lambda>st' st. \<exists>e. schedule_step m st e st')"
    by (rule wfp_if_convertible_to_nat [where f = schedule_left]) (blast dest: schedule_step_left)
next
  fix st
  show "schedule_over st \<or> (\<exists>i r passed st'. schedule_step m st (Finished [(i, r)] passed) st')"
  proof (cases "sd_running st")
    case (Cons i others)
    then show ?thesis
      using schedule_step.finished [of st "[(i, r)]" m passed for r passed] by (fastforce simp: schedule_over_def)
  qed (simp add: schedule_over_def)
qed

section \<open>Accepted legs\<close>

lemma leg_rejection_hits [simp]: "leg_rejection leg (r\<lparr>tr_hits := hits\<rparr>) = leg_rejection leg r"
  by (simp add: leg_rejection_def result_calibrated_def)

text \<open>The hits a leg may contribute: the trusted ones among those it was asked for.\<close>

definition leg_hits :: "federation_config \<Rightarrow> federation_leg \<Rightarrow> trusted_result \<Rightarrow> trusted_hit list" where
  "leg_hits cfg leg r = filter is_trusted (take (request_k cfg leg) (tr_hits r))"

definition vetted :: "(nat, trusted_result) dict \<Rightarrow> federation_leg list \<Rightarrow> nat \<Rightarrow> trusted_result \<Rightarrow> bool" where
  "vetted results legs i r \<longleftrightarrow> i < length legs \<and> map_of results i = Some r
     \<and> tr_tenant_id r = Some (fl_tenant_id (legs ! i)) \<and> tr_generation_id r = Some (fl_generation_id (legs ! i))
     \<and> rd_embedding_profile (tr_diagnostics r) = fl_embedding_profile (legs ! i)
     \<and> tr_trust_state r = ''trusted'' \<and> result_calibrated r
     \<and> tr_calibration_id r = fl_calibration_id (legs ! i) \<and> tr_calibration_status r = fl_calibration_status (legs ! i)
     \<and> \<not> tr_gap_warning r"

lemma vetted_iff:
  "vetted results legs i r \<longleftrightarrow> i < length legs \<and> map_of results i = Some r \<and> leg_rejection (legs ! i) r = None"
  by (auto simp: vetted_def leg_rejection_def)

lemma judge_leg_hits:
  "snd (judge_leg cfg t results (i, leg)) = (case map_of results i of None \<Rightarrow> None
     | Some r \<Rightarrow> if leg_rejection leg r = None then Some (leg_hits cfg leg r) else None)"
  by (simp add: judge_leg_def leg_hits_def Let_def split: option.split)

lemma judge_leg_accepted: "ld_accepted (fst (judge_leg cfg t results (i, leg))) \<longleftrightarrow>
    (\<exists>r. map_of results i = Some r \<and> leg_rejection leg r = None)"
  by (simp add: judge_leg_def Let_def split: option.split)

lemma accepted_legs_judged:
  "(i, leg, hits) \<in> set (accepted_legs (judged_legs cfg t results legs)) \<longleftrightarrow>
     (i, leg) \<in> set (enumerate 0 legs) \<and> snd (judge_leg cfg t results (i, leg)) = Some hits"
proof -
  have parts: "(\<lambda>((i, leg), d, hits). map_option (\<lambda>h. (i, leg, h)) hits) (il, j) = Some (i, leg, hits)
      \<longleftrightarrow> il = (i, leg) \<and> snd j = Some hits" for il and j :: "leg_diagnostics \<times> trusted_hit list option"
    by (cases il; cases j) auto
  show ?thesis
    by (simp only: accepted_legs_def judged_legs_def set_map_filter mem_Collect_eq set_map bex_simps parts) blast
qed

lemma accepted_legs_iff:
  "(i, leg, hits) \<in> set (accepted_legs (judged_legs cfg t results legs)) \<longleftrightarrow>
     (\<exists>r. vetted results legs i r \<and> leg = legs ! i \<and> hits = leg_hits cfg leg r)"
proof -
  have "(i, leg, hits) \<in> set (accepted_legs (judged_legs cfg t results legs)) \<longleftrightarrow>
      i < length legs \<and> leg = legs ! i \<and> snd (judge_leg cfg t results (i, leg)) = Some hits"
    by (auto simp: accepted_legs_judged in_set_enumerate_eq)
  also have "\<dots> \<longleftrightarrow> (\<exists>r. vetted results legs i r \<and> leg = legs ! i \<and> hits = leg_hits cfg leg r)"
    by (auto simp: judge_leg_hits vetted_iff split: option.splits if_splits)
  finally show ?thesis .
qed

lemma primary_hits_eq:
  "primary_hits (accepted_legs (judged_legs cfg t results legs)) =
     (case map_of results 0 of None \<Rightarrow> [] | Some r \<Rightarrow>
        if vetted results legs 0 r then leg_hits cfg (legs ! 0) r else [])"
proof (cases "map_of (accepted_legs (judged_legs cfg t results legs)) 0")
  case None
  then have "(0, leg, hits) \<notin> set (accepted_legs (judged_legs cfg t results legs))" for leg hits
    by (force simp: map_of_eq_None_iff)
  then have "\<not> vetted results legs 0 r" for r unfolding accepted_legs_iff by blast
  then show ?thesis using None by (simp add: primary_hits_def split: option.split)
next
  case (Some lh)
  obtain leg hits where lh: "lh = (leg, hits)" by (cases lh)
  have "(0, leg, hits) \<in> set (accepted_legs (judged_legs cfg t results legs))"
    using Some lh by (auto dest: map_of_SomeD)
  then obtain r where "vetted results legs 0 r" "leg = legs ! 0" "hits = leg_hits cfg leg r"
    unfolding accepted_legs_iff by blast
  then show ?thesis using Some lh by (auto simp: primary_hits_def vetted_iff)
qed

section \<open>Candidates\<close>

definition carries :: "federation_leg \<Rightarrow> candidate \<Rightarrow> bool" where
  "carries leg c \<longleftrightarrow> ca_tenant_id c = fl_tenant_id leg \<and> ca_generation_id c = fl_generation_id leg
     \<and> ca_embedding_profile c = fl_embedding_profile leg \<and> ca_calibration_status c = fl_calibration_status leg
     \<and> ca_calibration_id c = (case fl_calibration_id leg of None \<Rightarrow> [] | Some i \<Rightarrow> i) \<and> ca_route c = fl_route leg
     \<and> ca_pipeline_fingerprint c = fl_pipeline_fingerprint leg \<and> ca_corpus_fingerprint c = fl_corpus_fingerprint leg
     \<and> ca_query_set_digest c = fl_query_set_digest leg"

lemma make_candidate_simps [simp]:
  "ca_hit (make_candidate scores order leg (n, h)) = h" "carries leg (make_candidate scores order leg (n, h))"
  by (simp_all add: make_candidate_def carries_def Let_def)

lemma leg_candidates_sound:
  "(i, c) \<in> set (leg_candidates cfg acc) \<Longrightarrow>
     \<exists>leg hits. (i, leg, hits) \<in> set acc \<and> ca_hit c \<in> set hits \<and> carries leg c"
  by (force simp: leg_candidates_def Let_def in_set_enumerate_eq)

lemma leg_candidates_complete:
  assumes "(i, leg, hits) \<in> set acc" "h \<in> set hits"
  shows "\<exists>c. (i, c) \<in> set (leg_candidates cfg acc) \<and> ca_hit c = h"
proof -
  obtain j where j: "j < length hits" "hits ! j = h" using assms(2) by (auto simp: in_set_conv_nth)
  then have "(Suc j, h) \<in> set (enumerate 1 hits)" by (simp add: in_set_enumerate_eq)
  then have "(i, make_candidate (fused_scores cfg acc) (fused_order (fused_scores cfg acc)) leg (Suc j, h))
      \<in> set (leg_candidates cfg acc)"
    unfolding leg_candidates_def Let_def set_concat set_map using assms(1) by (intro UN_I image_eqI) auto
  then show ?thesis using make_candidate_simps(1) by blast
qed

lemma primary_candidates_keys:
  "map (\<lambda>c. candidate_keys sha (ca_hit c)) (primary_candidates sha acc (leg_candidates cfg acc)) =
     map (candidate_keys sha) (primary_hits acc)"
proof -
  let ?cands = "filter (\<lambda>x. fst x = 0) (leg_candidates cfg acc)"
  let ?k = "\<lambda>x. candidate_keys sha (ca_hit (snd x))"
  have "\<exists>c. map_of (fold (\<lambda>x. dict_set (?k x) (snd x)) ?cands []) (candidate_keys sha h) = Some c
      \<and> candidate_keys sha (ca_hit c) = candidate_keys sha h" if h: "h \<in> set (primary_hits acc)" for h
  proof -
    obtain leg hits where "map_of acc 0 = Some (leg, hits)" "h \<in> set hits"
      using h by (cases "map_of acc 0") (auto simp: primary_hits_def)
    then obtain c where "(0, c) \<in> set (leg_candidates cfg acc)" "ca_hit c = h"
      using leg_candidates_complete map_of_SomeD by metis
    then have "candidate_keys sha h \<in> ?k ` set ?cands" by force
    from map_of_fold_dict_set [OF this, of snd "[]"] show ?thesis by auto
  qed
  then show ?thesis
    unfolding primary_candidates_def Let_def case_prod_beta by (rule map_map_filter)
qed

lemma primary_candidates_length:
  "length (primary_candidates sha acc (leg_candidates cfg acc)) = length (primary_hits acc)"
  using arg_cong [OF primary_candidates_keys, of length] by simp

lemma primary_candidates_sound:
  assumes "c \<in> set (primary_candidates sha acc cands)"
  shows "(0, c) \<in> set cands"
proof -
  let ?d = "fold (\<lambda>x. dict_set (candidate_keys sha (ca_hit (snd x))) (snd x)) (filter (\<lambda>x. fst x = 0) cands) []"
  obtain h where "map_of ?d (candidate_keys sha h) = Some c"
    using assms unfolding primary_candidates_def Let_def case_prod_beta set_map_filter by blast
  then have "(candidate_keys sha h, c) \<in> set ?d" by (rule map_of_SomeD)
  then show ?thesis using set_fold_dict_set by fastforce
qed

lemma secondary_candidates_sound:
  assumes "c \<in> set (secondary_candidates sha acc cands)"
  shows "(\<exists>i. i \<noteq> 0 \<and> (i, c) \<in> set cands) \<and> map_of acc 0 \<noteq> None
    \<and> snd (candidate_keys sha (ca_hit c)) \<notin> (\<lambda>h. snd (candidate_keys sha h)) ` set (primary_hits acc)"
proof -
  define novel where "novel = map snd (filter (\<lambda>(i, c). i \<noteq> 0 \<and> map_of acc 0 \<noteq> None
    \<and> snd (candidate_keys sha (ca_hit c)) \<notin> (\<lambda>h. snd (candidate_keys sha h)) ` set (primary_hits acc)) cands)"
  have "c \<in> set novel"
    using assms set_fold_dict_set [of _ "\<lambda>c. c" novel "[]"]
    unfolding secondary_candidates_def Let_def novel_def [symmetric] by fastforce
  then show ?thesis unfolding novel_def by auto
qed

section \<open>What a federated request serves\<close>

lemma serve_eq:
  "length rescue \<le> nat (fc_result_k cfg) \<Longrightarrow>
     serve cfg primary rescue = take (nat (fc_result_k cfg) - length rescue) primary @ rescue"
  by (simp add: serve_def Let_def)

lemma merge_legs_Inr:
  assumes "merge_legs sha cfg t results legs = Inr r"
  defines "acc \<equiv> accepted_legs (judged_legs cfg t results legs)"
  defines "cands \<equiv> leg_candidates cfg acc"
  defines "rescue \<equiv> take (nat (min (fc_rescue_slots cfg) (fc_result_k cfg))) (secondary_candidates sha acc cands)"
  shows "fr_served r = take (nat (fc_result_k cfg) - length rescue) (primary_candidates sha acc cands) @ rescue"
    "fd_rescue_count (fr_diagnostics r) = length rescue"
    "fd_primary_prefix_count (fr_diagnostics r) =
       min (min (nat (fc_primary_prefix cfg)) (length (primary_hits acc))) (nat (fc_result_k cfg))"
proof -
  have "length rescue \<le> nat (fc_result_k cfg)" unfolding rescue_def by simp
  from serve_eq [OF this]
  show "fr_served r = take (nat (fc_result_k cfg) - length rescue) (primary_candidates sha acc cands) @ rescue"
    using assms(1) unfolding merge_legs_def Let_def acc_def cands_def rescue_def by (auto split: if_splits)
  show "fd_rescue_count (fr_diagnostics r) = length rescue"
    "fd_primary_prefix_count (fr_diagnostics r) =
       min (min (nat (fc_primary_prefix cfg)) (length (primary_hits acc))) (nat (fc_result_k cfg))"
    using assms(1) unfolding merge_legs_def Let_def acc_def cands_def rescue_def by (auto split: if_splits)
qed

lemma federate_Inr:
  "federate sha cfg legs budget st = Inr r \<Longrightarrow>
     merge_legs sha cfg (timed_out_legs st) (leg_results st) (effective_legs cfg legs) = Inr r"
  by (simp add: federate_def split: if_splits)

lemma merge_legs_vetted:
  assumes "merge_legs sha cfg t results legs = Inr r" "c \<in> set (fr_served r)"
  shows "\<exists>i res. vetted results legs i res \<and> ca_hit c \<in> set (leg_hits cfg (legs ! i) res) \<and> carries (legs ! i) c
    \<and> (i = 0 \<or> (\<exists>p. vetted results legs 0 p \<and> snd (candidate_keys sha (ca_hit c))
         \<notin> (\<lambda>h. snd (candidate_keys sha h)) ` set (leg_hits cfg (legs ! 0) p)))"
proof -
  let ?acc = "accepted_legs (judged_legs cfg t results legs)"
  consider "c \<in> set (primary_candidates sha ?acc (leg_candidates cfg ?acc))"
    | "c \<in> set (secondary_candidates sha ?acc (leg_candidates cfg ?acc))"
    using assms merge_legs_Inr(1) [OF assms(1)] by (auto dest: in_set_takeD)
  then show ?thesis
  proof cases
    case 1
    from leg_candidates_sound [OF primary_candidates_sound [OF this]]
    show ?thesis unfolding accepted_legs_iff by blast
  next
    case 2
    note c = secondary_candidates_sound [OF this]
    then obtain i where "(i, c) \<in> set (leg_candidates cfg ?acc)" by blast
    from leg_candidates_sound [OF this]
    obtain res where i: "vetted results legs i res" "ca_hit c \<in> set (leg_hits cfg (legs ! i) res)" "carries (legs ! i) c"
      unfolding accepted_legs_iff by blast
    obtain leg hits where "(0, leg, hits) \<in> set ?acc" using c by (auto dest: map_of_SomeD)
    then obtain p where p: "vetted results legs 0 p" unfolding accepted_legs_iff by blast
    then have "primary_hits ?acc = leg_hits cfg (legs ! 0) p" by (auto simp: primary_hits_eq vetted_iff)
    then show ?thesis using i p c by metis
  qed
qed

text \<open>
  C7. A federated request serves only hits that one leg's own result returned, within the number asked
  for, and that are trusted; the leg passed every lineage, trust, calibration and gap check and the
  candidate carries that leg's lineage: its tenant, generation, embedding profile, calibration and status,
  route, pipeline and corpus fingerprints and query set digest. A hit of a secondary leg is served only when the primary leg was
  accepted too, and its content is none the primary leg offered.
\<close>
theorem federation_serves_only_vetted:
  "case federate sha cfg legs budget st of Inl e \<Rightarrow> True | Inr r \<Rightarrow>
     let results = leg_results st; legs = effective_legs cfg legs in
     set (fr_served r) \<subseteq> {c. \<exists>i res. vetted results legs i res \<and> ca_hit c \<in> set (leg_hits cfg (legs ! i) res)
       \<and> is_trusted (ca_hit c) \<and> carries (legs ! i) c
       \<and> (i = 0 \<or> (\<exists>p. vetted results legs 0 p \<and> snd (candidate_keys sha (ca_hit c))
            \<notin> (\<lambda>h. snd (candidate_keys sha h)) ` set (leg_hits cfg (legs ! 0) p)))}"
proof (cases "federate sha cfg legs budget st")
  case (Inr r)
  have trusted: "h \<in> set (leg_hits cfg leg res) \<Longrightarrow> is_trusted h" for h leg res by (simp add: leg_hits_def)
  show ?thesis
    unfolding Inr sum.case Let_def using merge_legs_vetted [OF federate_Inr [OF Inr]] trusted by blast
qed simp

text \<open>
  Under a validated configuration the served list is as long as the primary hits and the rescue allow up
  to \<open>result_k\<close>, the rescue stays within its slots, and the protected prefix of the primary leg's hits leads
  it unchanged, in the primary leg's order.
\<close>
theorem federation_protects_the_primary:
  "case make_config raw of Inl e \<Rightarrow> True | Inr cfg \<Rightarrow>
   (case federate sha cfg legs budget st of Inl e \<Rightarrow> True | Inr r \<Rightarrow>
     let hits = primary_hits (accepted_legs (judged_legs cfg (timed_out_legs st) (leg_results st) (effective_legs cfg legs)));
         rescue = fd_rescue_count (fr_diagnostics r);
         prefix = fd_primary_prefix_count (fr_diagnostics r)
     in length (fr_served r) = min (nat (fc_result_k cfg)) (length hits + rescue)
       \<and> rescue \<le> nat (fc_rescue_slots cfg)
       \<and> prefix = min (nat (fc_primary_prefix cfg)) (length hits)
       \<and> map (\<lambda>c. candidate_keys sha (ca_hit c)) (take prefix (fr_served r)) = map (candidate_keys sha) (take prefix hits))"
proof (cases "make_config raw")
  case cfg: (Inr cfg)
  have bounds: "fc_primary_prefix cfg + fc_rescue_slots cfg \<le> fc_result_k cfg" "0 \<le> fc_rescue_slots cfg" "1 \<le> fc_primary_prefix cfg"
    using cfg by (auto simp: make_config_def config_checks_def split: if_splits)
  show ?thesis
  proof (cases "federate sha cfg legs budget st")
    case (Inr r)
    let ?acc = "accepted_legs (judged_legs cfg (timed_out_legs st) (leg_results st) (effective_legs cfg legs))"
    let ?primary = "primary_candidates sha ?acc (leg_candidates cfg ?acc)"
    define rescue where "rescue = take (nat (min (fc_rescue_slots cfg) (fc_result_k cfg)))
      (secondary_candidates sha ?acc (leg_candidates cfg ?acc))"
    define prefix where "prefix = fd_primary_prefix_count (fr_diagnostics r)"
    note r = merge_legs_Inr [OF federate_Inr [OF Inr], folded rescue_def prefix_def]
    have le: "length rescue \<le> nat (fc_rescue_slots cfg)" "length rescue \<le> nat (fc_result_k cfg)"
      unfolding rescue_def by simp_all
    have len: "length ?primary = length (primary_hits ?acc)" by (rule primary_candidates_length)
    have p: "prefix = min (nat (fc_primary_prefix cfg)) (length (primary_hits ?acc))" "prefix \<le> nat (fc_result_k cfg) - length rescue"
      using r(3) bounds le by auto
    have "take prefix (fr_served r) = take prefix ?primary" using r(1) p len by (auto simp: min_def)
    then have "map (\<lambda>c. candidate_keys sha (ca_hit c)) (take prefix (fr_served r)) =
        map (candidate_keys sha) (take prefix (primary_hits ?acc))"
      using primary_candidates_keys [of sha ?acc cfg] by (metis take_map)
    moreover have "length (fr_served r) = min (nat (fc_result_k cfg)) (length (primary_hits ?acc) + length rescue)"
      using r(1) le len by auto
    ultimately show ?thesis using cfg Inr p(1) r(2) le(1) by (simp add: Let_def prefix_def)
  qed (simp add: cfg)
qed simp

lemma rejected_legs:
  "filter (\<lambda>d. \<not> ld_accepted d) (map (\<lambda>(il, d, hits). d) (judged_legs cfg t results legs)) =
     map (\<lambda>i. fst (judge_leg cfg t results (i, legs ! i))) (filter (\<lambda>i. \<not> (\<exists>r. vetted results legs i r)) [0..<length legs])"
proof -
  have "enumerate 0 legs = map (\<lambda>i. (i, legs ! i)) [0..<length legs]"
    by (rule nth_equalityI) (simp_all add: nth_enumerate_eq)
  then have "map (\<lambda>(il, d, hits). d) (judged_legs cfg t results legs) =
      map (\<lambda>i. fst (judge_leg cfg t results (i, legs ! i))) [0..<length legs]"
    by (simp add: judged_legs_def case_prod_beta)
  moreover have "filter (\<lambda>i. \<not> ld_accepted (fst (judge_leg cfg t results (i, legs ! i)))) [0..<length legs] =
      filter (\<lambda>i. \<not> (\<exists>r. vetted results legs i r)) [0..<length legs]"
    by (rule filter_cong) (simp_all add: judge_leg_accepted vetted_iff)
  ultimately show ?thesis by (simp add: filter_map o_def)
qed

text \<open>
  The diagnostics count as rejected exactly the legs without an accepted result. When the policy is
  \<open>fail_closed\<close> a request with one such leg is never answered; when it is \<open>omit\<close> no leg, failed, late or
  rejected, makes the request fail.
\<close>
theorem federation_invalid_leg_policy:
  "case federate sha cfg legs budget st of
     Inl e \<Rightarrow> if fc_invalid_leg_policy cfg = ''omit'' then (\<nexists>m. e = LegRejected m) else True
   | Inr r \<Rightarrow>
       let legs = effective_legs cfg legs;
           missing = {i. i < length legs \<and> (\<nexists>res. vetted (leg_results st) legs i res)}
       in fd_rejected_leg_count (fr_diagnostics r) = card missing
         \<and> (if fc_invalid_leg_policy cfg = ''fail_closed'' then missing = {} else True)"
proof (cases "federate sha cfg legs budget st")
  case (Inl e)
  then show ?thesis by (auto simp: federate_def merge_legs_def Let_def split: if_splits)
next
  case (Inr r)
  let ?legs = "effective_legs cfg legs" and ?res = "leg_results st"
  let ?missing = "filter (\<lambda>i. \<not> (\<exists>r. vetted ?res ?legs i r)) [0..<length ?legs]"
  have set: "{i. i < length ?legs \<and> (\<nexists>res. vetted ?res ?legs i res)} = set ?missing" by auto
  have m: "fd_rejected_leg_count (fr_diagnostics r) = length ?missing"
    "fc_invalid_leg_policy cfg = ''fail_closed'' \<Longrightarrow> ?missing = []"
    using federate_Inr [OF Inr] unfolding merge_legs_def Let_def rejected_legs by (auto split: if_splits)
  have "length ?missing = card (set ?missing)" by (rule distinct_card [symmetric]) simp
  then show ?thesis unfolding Inr sum.case Let_def set using m by auto
qed

end
