(* ===== verification/CurrentState.thy ===== *)
theory CurrentState
  imports Dependencies SupersessionWalk
begin

text \<open>
  The current state projection, from \<open>src/recall/current_state.py\<close>: what each authored document is at an
  instant, from its validity windows, the supersession graph and the dependencies it declares. The rows
  and the graph are what the store's one snapshot reads; the content digests that name a record and a
  projection are left out, and the clock is read by the caller.
\<close>

datatype current_state =
    IsCurrent | IsSuperseded | IsExpired | IsNotYetValid | IsNotYetKnown | IsAmbiguous | IsInvalid
  | IsDependencyInvalidated

fun state_name :: "current_state \<Rightarrow> string" where
  "state_name IsCurrent = ''current''"
| "state_name IsSuperseded = ''superseded''"
| "state_name IsExpired = ''expired''"
| "state_name IsNotYetValid = ''not_yet_valid''"
| "state_name IsNotYetKnown = ''not_yet_known''"
| "state_name IsAmbiguous = ''ambiguous''"
| "state_name IsInvalid = ''invalid''"
| "state_name IsDependencyInvalidated = ''dependency_invalidated''"

definition max_current_state_records :: int where
  "max_current_state_records = 1000"

definition max_invalidation_chain :: nat where
  "max_invalidation_chain = 16"

record state_record =
  cr_source :: key
  cr_state :: current_state
  cr_chunk_ids :: "string list"
  cr_successor_chain :: "key list"
  cr_valid_from :: "instant option"
  cr_valid_until :: "instant option"
  cr_diagnostics :: "string list"
  cr_base_state :: current_state
  cr_authority :: authority
  cr_dependencies :: "string list"
  cr_invalidation_chain :: "string list"

record state_projection =
  pj_tenant :: string
  pj_generation :: string
  pj_as_of :: instant
  pj_known_as_of :: "instant option"
  pj_records :: "state_record list"
  pj_dependencies :: dependency_projection

section \<open>One record\<close>

definition chain_of :: "supersession_graph \<Rightarrow> key \<Rightarrow> instant \<Rightarrow> instant option \<Rightarrow> key list \<times> string list" where
  "chain_of g source as_of known =
     (let now = Some (Aware as_of); replay = map_option Aware known;
          chain = graph_successor_path g source now replay
      in if list_ex (\<lambda>n. length (live_claimants g n now replay) > 1) (source # butlast chain)
         then ([], [''multiple_live_successors''])
         else if chain \<noteq> [] \<and> on_cycle g source replay then (chain, [''supersession_cycle''])
         else (chain, []))"

text \<open>A \<open>supersedes\<close> value is well formed when absent, a string, or a list of strings.\<close>

definition supersedes_well_formed :: "pyval \<Rightarrow> bool" where
  "supersedes_well_formed v = (case v of
     PNone \<Rightarrow> True | PStr s \<Rightarrow> True | PList xs \<Rightarrow> list_all (\<lambda>x. as_str x \<noteq> None) xs | _ \<Rightarrow> False)"

definition earliest :: "instant option \<Rightarrow> instant option \<Rightarrow> instant option" where
  "earliest v start = (case v of None \<Rightarrow> start | Some t \<Rightarrow> (case start of None \<Rightarrow> v | Some s \<Rightarrow> Some (min t s)))"

definition latest :: "instant option \<Rightarrow> instant option \<Rightarrow> instant option" where
  "latest v stop = (case v of None \<Rightarrow> stop | Some t \<Rightarrow> (case stop of None \<Rightarrow> v | Some s \<Rightarrow> Some (max t s)))"

text \<open>The loop over a document's chunks: the diagnostics and the bounds so far.\<close>

type_synonym bounds_acc = "string list \<times> instant option \<times> instant option"

definition read_bounds :: "chunk \<Rightarrow> bounds_acc \<Rightarrow> bounds_acc" where
  "read_bounds c acc = (case acc of (diagnostics, valid_from, valid_until) \<Rightarrow>
     (let diagnostics' = (if supersedes_well_formed (py_get (chunk_metadata c) ''supersedes'') then diagnostics
                          else diagnostics @ [''malformed_supersession_metadata''])
      in case validity_bounds (chunk_metadata c) of
           Inl e \<Rightarrow> (diagnostics' @ [''malformed_validity_metadata''], valid_from, valid_until)
         | Inr (start, stop) \<Rightarrow> (diagnostics', earliest valid_from start, latest valid_until stop)))"

definition unresolved_reference :: "supersession_graph \<Rightarrow> key \<Rightarrow> chunk list \<Rightarrow> bool" where
  "unresolved_reference g source chunks \<longleftrightarrow> source \<in> sg_unresolved g \<or>
     list_ex (\<lambda>c. list_ex (\<lambda>t. supersedes_key t \<in> sg_unresolved g) (chunk_supersedes_targets (chunk_metadata c))) chunks"

definition temporal_state ::
  "key list \<Rightarrow> instant option \<Rightarrow> instant option \<Rightarrow> instant \<Rightarrow> instant option \<Rightarrow> instant option \<Rightarrow> current_state" where
  "temporal_state chain valid_from valid_until as_of known asserted_at =
     (if (case (known, asserted_at) of (Some k, Some a) \<Rightarrow> a > k | _ \<Rightarrow> False) then IsNotYetKnown
      else if chain \<noteq> [] then IsSuperseded
      else if (case valid_from of Some f \<Rightarrow> as_of < f | None \<Rightarrow> False) then IsNotYetValid
      else if (case valid_until of Some u \<Rightarrow> as_of > u | None \<Rightarrow> False) then IsExpired
      else IsCurrent)"

definition make_record ::
  "supersession_graph \<Rightarrow> instant \<Rightarrow> instant option \<Rightarrow> key \<Rightarrow> chunk list \<Rightarrow> instant option \<Rightarrow> state_record" where
  "make_record g as_of known source chunks asserted_at =
     (let (malformed, valid_from, valid_until) = fold read_bounds chunks ([], None, None);
          (chain, doubts) = chain_of g source as_of known;
          ambiguous = doubts @ (if unresolved_reference g source chunks then [''unresolved_supersession_reference''] else []);
          (state, chain', diagnostics) =
            (if malformed \<noteq> [] then (IsInvalid, [], malformed)
             else if ambiguous \<noteq> [] then (IsAmbiguous, chain, ambiguous)
             else (temporal_state chain valid_from valid_until as_of known asserted_at, chain, []))
      in \<lparr>cr_source = source, cr_state = state, cr_chunk_ids = sort (map chunk_id chunks), cr_successor_chain = chain',
          cr_valid_from = valid_from, cr_valid_until = valid_until, cr_diagnostics = sort (remdups diagnostics),
          cr_base_state = state, cr_authority = UnknownAuthority, cr_dependencies = [], cr_invalidation_chain = []\<rparr>)"

section \<open>The projection\<close>

type_synonym timed_chunk = "chunk \<times> instant option"

definition rows_by_file :: "timed_chunk list \<Rightarrow> (string, timed_chunk list) dict" where
  "rows_by_file rows = fold (\<lambda>row. dict_append (source_file (fst row)) row) rows []"

definition note_time :: "key \<Rightarrow> instant option \<Rightarrow> (key, instant option) dict \<Rightarrow> (key, instant option) dict" where
  "note_time k t d = (case map_of d k of
     None \<Rightarrow> dict_set k t d
   | Some previous \<Rightarrow>
       (case t of None \<Rightarrow> d
        | Some a \<Rightarrow> if (case previous of None \<Rightarrow> True | Some p \<Rightarrow> a < p) then dict_set k t d else d))"

definition group_rows ::
  "(chunk \<Rightarrow> key) \<Rightarrow> (string, timed_chunk list) dict \<Rightarrow> (key, chunk list) dict \<times> (key, instant option) dict" where
  "group_rows key_of by_file =
     (let rows = concat (map snd by_file)
      in (fold (\<lambda>row. dict_append (key_of (fst row)) (fst row)) rows [],
          fold (\<lambda>row. note_time (key_of (fst row)) (snd row)) rows []))"

definition selected :: "string option \<Rightarrow> key \<Rightarrow> chunk list \<Rightarrow> bool" where
  "selected wanted k chunks = (case wanted of
     None \<Rightarrow> True
   | Some s \<Rightarrow> k = s \<or> (case chunks of c # _ \<Rightarrow> source_file c = s | [] \<Rightarrow> False) \<or> list_ex (\<lambda>c. chunk_source c = s) chunks)"

definition over_bound :: "int option \<Rightarrow> string option \<Rightarrow> (key, chunk list) dict \<Rightarrow> bool" where
  "over_bound max_records wanted by_source = (case max_records of
     None \<Rightarrow> False
   | Some n \<Rightarrow> int (length (filter (\<lambda>(k, chunks). selected wanted k chunks) by_source)) > n)"

definition checked_max :: "pyval \<Rightarrow> int option result" where
  "checked_max v = (case v of
     PNone \<Rightarrow> Inr None
   | PInt n \<Rightarrow> if n < 1 then Inl (ValueError ''max_records must be a positive int or None'')
       else if n > max_current_state_records then Inl (ValueError ''max_records must be <= 1000'') else Inr (Some n)
   | _ \<Rightarrow> Inl (ValueError ''max_records must be a positive int or None''))"

definition finish_record :: "dependency_projection \<Rightarrow> state_record \<Rightarrow> state_record" where
  "finish_record p r =
     (let settled = r\<lparr>cr_authority := dict_get (dp_authorities p) (cr_source r) UnknownAuthority,
                      cr_dependencies := dict_get (dp_dependencies p) (cr_source r) []\<rparr>
      in case reason_for p (cr_source r) of
           None \<Rightarrow> settled
         | Some reason \<Rightarrow>
             settled\<lparr>cr_invalidation_chain := bounded_path max_invalidation_chain reason,
                     cr_diagnostics := sort (remdups (cr_diagnostics r @ [''dependency_invalidated''])),
                     cr_state := (if cr_state r = IsCurrent then IsDependencyInvalidated else cr_state r)\<rparr>)"

definition project_records ::
  "file_uris \<Rightarrow> supersession_graph \<Rightarrow> string \<Rightarrow> string \<Rightarrow> instant \<Rightarrow> datetime option \<Rightarrow> string option
     \<Rightarrow> (key, chunk list) dict \<Rightarrow> (key, instant option) dict \<Rightarrow> state_projection result" where
  "project_records u g tenant generation as_of known wanted by_source asserted =
     (let replay = map_option as_utc known;
          records = map (\<lambda>(k, chunks). make_record g as_of replay k chunks (dict_get asserted k None)) (sort_key fst by_source)
      in and_then (build_dependency_projection u (concat (map snd by_source)) tenant generation
             (map (\<lambda>r. (cr_source r, state_name (cr_state r))) records) (Some (Aware as_of)) known
             (map (\<lambda>(k, t). (k, map_option Aware t)) asserted) (sg_collided g))
           (\<lambda>p. Inr \<lparr>pj_tenant = tenant, pj_generation = generation, pj_as_of = as_of, pj_known_as_of = replay,
                    pj_records = map (finish_record p)
                      (filter (\<lambda>r. selected wanted (cr_source r) (dict_get by_source (cr_source r) [])) records),
                    pj_dependencies = p\<rparr>))"

definition project_current_state ::
  "file_uris \<Rightarrow> timed_chunk list \<Rightarrow> supersession_graph \<Rightarrow> string \<Rightarrow> string \<Rightarrow> instant \<Rightarrow> datetime option \<Rightarrow> string option
     \<Rightarrow> pyval \<Rightarrow> state_projection result" where
  "project_current_state u rows g tenant generation as_of known wanted max_records =
     and_then (checked_max max_records) (\<lambda>limit.
       (let by_file = rows_by_file rows; (by_source, asserted) = group_rows source_file by_file
        in if over_bound limit wanted by_source
           then Inl (ValueError ''current state projection exceeds max_records'')
           else if sg_collided g = {} then project_records u g tenant generation as_of known wanted by_source asserted
           else (let (split, times) = group_rows (\<lambda>c. graph_key g (source_file c) (Some (chunk_source c))) by_file
                 in if over_bound limit wanted split
                    then Inl (ValueError ''current state projection exceeds max_records'')
                    else project_records u g tenant generation as_of known wanted split times)))"

end
