(* ===== verification/CurrentStateCorrect.thy ===== *)
theory CurrentStateCorrect
  imports CurrentState TrustGateCorrect DependencyCorrect
begin

text \<open>
  Correctness of \<open>CurrentState\<close>: the projection and the trust gate read one graph and one set of windows
  the same way, and the projection fails closed, keeps within its bound and accounts for every chunk.
\<close>

section \<open>The bounds of a document\<close>

lemma earliest_simps [simp]: "earliest None s = s" "earliest s s = s"
  by (simp_all add: earliest_def split: option.split)

lemma latest_simps [simp]: "latest None s = s" "latest s s = s"
  by (simp_all add: latest_def split: option.split)




section \<open>The projection and the gate\<close>






section \<open>The projection\<close>

lemma mset_dict_append: "mset (concat (map snd (dict_append k x d))) = add_mset x (mset (concat (map snd d)))"
proof (induction d)
  case (Cons p d)
  have "dict_append k x ((a, b) # d) = (if a = k then (k, b @ [x]) # d else (a, b) # dict_append k x d)" for a b
    by (simp add: dict_append_def dict_get_def)
  then show ?case using Cons by (cases p) simp
qed (simp add: dict_append_def)

lemma mset_fold_dict_append:
  "mset (concat (map snd (fold (\<lambda>x. dict_append (k x) (v x)) xs d))) = mset (concat (map snd d)) + mset (map v xs)"
  by (induction xs arbitrary: d) (simp_all add: mset_dict_append)

lemma dict_ok_fold_append: "dict_ok d \<Longrightarrow> dict_ok (fold (\<lambda>x. dict_append (k x) (v x)) xs d)"
  by (induction xs arbitrary: d) auto

lemma dict_ok_sort: "dict_ok (sort_key fst d) = dict_ok d"
  unfolding dict_ok_def by (rule mset_eq_imp_distinct_iff) simp

lemma group_rows_ok:
  "dict_ok (fst (group_rows key_of (rows_by_file rows)))"
  "mset (concat (map snd (fst (group_rows key_of (rows_by_file rows))))) = mset (map fst rows)"
proof -
  show "dict_ok (fst (group_rows key_of (rows_by_file rows)))"
    by (simp add: group_rows_def Let_def dict_ok_fold_append)
  have "mset (concat (map snd (rows_by_file rows))) = mset rows"
    unfolding rows_by_file_def using mset_fold_dict_append [of "\<lambda>row. source_file (fst row)" "\<lambda>row. row" rows "[]"] by simp
  then have "image_mset fst (mset (concat (map snd (rows_by_file rows)))) = image_mset fst (mset rows)" by simp
  then show "mset (concat (map snd (fst (group_rows key_of (rows_by_file rows))))) = mset (map fst rows)"
    by (simp add: group_rows_def Let_def mset_fold_dict_append)
qed

lemma make_record_simps [simp]:
  "cr_source (make_record g a k source chunks t) = source"
  "cr_chunk_ids (make_record g a k source chunks t) = sort (map chunk_id chunks)"
  "cr_base_state (make_record g a k source chunks t) = cr_state (make_record g a k source chunks t)"
  by (simp_all add: make_record_def Let_def split: prod.split)

lemma make_record_current:
  "cr_state (make_record g a k source chunks t) = IsCurrent \<Longrightarrow>
     cr_diagnostics (make_record g a k source chunks t) = [] \<and> cr_successor_chain (make_record g a k source chunks t) = []"
  by (simp add: make_record_def temporal_state_def Let_def split: prod.splits if_splits)

lemma finish_record_simps [simp]:
  "cr_source (finish_record p r) = cr_source r" "cr_chunk_ids (finish_record p r) = cr_chunk_ids r"
  "cr_base_state (finish_record p r) = cr_base_state r"
  "cr_successor_chain (finish_record p r) = cr_successor_chain r"
  by (simp_all add: finish_record_def Let_def split: option.split)

lemma finish_record_current:
  "cr_state (finish_record p r) = IsCurrent \<longleftrightarrow> cr_state r = IsCurrent \<and> reason_for p (cr_source r) = None"
  "reason_for p (cr_source r) = None \<Longrightarrow> cr_diagnostics (finish_record p r) = cr_diagnostics r"
  by (simp_all add: finish_record_def Let_def split: option.split)

lemma length_filter_sort_key: "length (filter P (sort_key f xs)) = length (filter P xs)"
proof -
  have "size (filter_mset P (mset (sort_key f xs))) = size (filter_mset P (mset xs))" by simp
  then show ?thesis by (simp only: size_mset flip: mset_filter)
qed

lemma sum_list_sort_key:
  fixes g :: "'a \<Rightarrow> 'b :: comm_monoid_add"
  shows "sum_list (map g (sort_key f xs)) = sum_list (map g xs)"
proof -
  have "sum_mset (image_mset g (mset (sort_key f xs))) = sum_mset (image_mset g (mset xs))" by simp
  then show ?thesis unfolding mset_map [symmetric] sum_mset_sum_list .
qed

definition projected_records ::
  "supersession_graph \<Rightarrow> instant \<Rightarrow> instant option \<Rightarrow> (key, chunk list) dict \<Rightarrow> (key, instant option) dict \<Rightarrow> state_record list" where
  "projected_records g as_of known by_source asserted =
     map (\<lambda>(k, chunks). make_record g as_of known k chunks (dict_get asserted k None)) (sort_key fst by_source)"

lemma project_records_Inr:
  assumes "project_records u g tenant generation as_of known wanted by_source asserted = Inr p"
  shows "pj_records p = map (finish_record (pj_dependencies p))
    (filter (\<lambda>r. selected wanted (cr_source r) (dict_get by_source (cr_source r) []))
      (projected_records g as_of (map_option as_utc known) by_source asserted))"
  using assms by (auto simp: project_records_def projected_records_def Let_def)

lemma projected_sources:
  assumes "dict_ok by_source"
  shows "sorted (map cr_source (projected_records g a k by_source asserted))"
    "distinct (map cr_source (projected_records g a k by_source asserted))"
proof -
  have "map cr_source (projected_records g a k by_source asserted) = map fst (sort_key fst by_source)"
    by (simp add: projected_records_def case_prod_beta o_def)
  moreover have "distinct (map fst (sort_key fst by_source))"
    using assms by (simp only: dict_ok_sort flip: dict_ok_def)
  ultimately show "sorted (map cr_source (projected_records g a k by_source asserted))"
    "distinct (map cr_source (projected_records g a k by_source asserted))" by simp_all
qed

lemma projected_selection:
  assumes "dict_ok by_source"
  shows "length (filter (\<lambda>r. selected wanted (cr_source r) (dict_get by_source (cr_source r) []))
      (projected_records g a k by_source asserted)) =
    length (filter (\<lambda>(k, chunks). selected wanted k chunks) by_source)"
proof -
  have get: "dict_get by_source (fst row) [] = snd row" if "row \<in> set by_source" for row
  proof -
    have "map_of by_source (fst row) = Some (snd row)"
      using that assms unfolding dict_ok_def by (intro map_of_is_SomeI) simp_all
    then show ?thesis by (simp add: dict_get_def)
  qed
  have "length (filter (\<lambda>row. selected wanted (fst row) (dict_get by_source (fst row) [])) (sort_key fst by_source)) =
      length (filter (\<lambda>row. selected wanted (fst row) (snd row)) (sort_key fst by_source))"
    using get by (intro arg_cong [where f = length] filter_cong) auto
  also have "\<dots> = length (filter (\<lambda>row. selected wanted (fst row) (snd row)) by_source)"
    by (rule length_filter_sort_key)
  finally show ?thesis unfolding projected_records_def case_prod_beta by (simp add: filter_map o_def)
qed

lemma projected_chunks:
  "mset (concat (map cr_chunk_ids (projected_records g a k by_source asserted))) =
     mset (map chunk_id (concat (map snd by_source)))"
proof -
  let ?ids = "\<lambda>row. mset (map chunk_id (snd row))"
  have "mset (concat (map cr_chunk_ids (projected_records g a k by_source asserted))) =
      sum_list (map ?ids (sort_key fst by_source))"
    by (simp add: projected_records_def case_prod_beta o_def mset_concat)
  also have "\<dots> = sum_list (map ?ids by_source)" by (rule sum_list_sort_key)
  finally show ?thesis by (simp add: map_concat mset_concat o_def)
qed

lemma project_current_state_Inr:
  assumes "project_current_state u rows g tenant generation as_of known wanted max_records = Inr p"
  shows "\<exists>limit key_of by_source asserted. checked_max max_records = Inr limit
    \<and> fst (group_rows key_of (rows_by_file rows)) = by_source \<and> \<not> over_bound limit wanted by_source
    \<and> (key_of = source_file \<and> sg_collided g = {} \<or> key_of = (\<lambda>c. graph_key g (source_file c) (Some (chunk_source c))))
    \<and> project_records u g tenant generation as_of known wanted by_source asserted = Inr p"
proof -
  let ?split = "\<lambda>c. graph_key g (source_file c) (Some (chunk_source c))"
  obtain b1 t1 where 1: "group_rows source_file (rows_by_file rows) = (b1, t1)" by fastforce
  obtain b2 t2 where 2: "group_rows ?split (rows_by_file rows) = (b2, t2)" by fastforce
  obtain limit where limit: "checked_max max_records = Inr limit" "\<not> over_bound limit wanted b1"
    and rest: "if sg_collided g = {} then project_records u g tenant generation as_of known wanted b1 t1 = Inr p
      else \<not> over_bound limit wanted b2 \<and> project_records u g tenant generation as_of known wanted b2 t2 = Inr p"
    using assms unfolding project_current_state_def Let_def 1 2 by (auto split: if_splits)
  show ?thesis
  proof (cases "sg_collided g = {}")
    case True
    then show ?thesis
      using limit rest 1 by (intro exI [of _ limit] exI [of _ source_file] exI [of _ b1] exI [of _ t1]) simp
  next
    case False
    then show ?thesis
      using limit rest 2 by (intro exI [of _ limit] exI [of _ ?split] exI [of _ b2] exI [of _ t2]) simp
  qed
qed

text \<open>
  The projection accounts for the whole corpus and fails closed. Its records are one per document, in the
  order of their names; an accepted bound on their number is never exceeded, and without a filter every chunk
  of the snapshot is in exactly one record. A record it calls current is one nothing speaks against: no
  malformed or ambiguous metadata, no successor, and no dependency that is invalidated.
\<close>
theorem projection_fails_closed:
  "case project_current_state u rows g tenant generation as_of known wanted max_records of
     Inl e \<Rightarrow> True
   | Inr p \<Rightarrow>
       sorted (map cr_source (pj_records p)) \<and> distinct (map cr_source (pj_records p))
       \<and> (case max_records of PInt n \<Rightarrow> int (length (pj_records p)) \<le> n \<and> n \<le> max_current_state_records | _ \<Rightarrow> max_records = PNone)
       \<and> (if wanted = None then mset (concat (map cr_chunk_ids (pj_records p))) = mset (map (\<lambda>row. chunk_id (fst row)) rows) else True)
       \<and> {r \<in> set (pj_records p). cr_state r = IsCurrent} \<subseteq>
           {r. cr_base_state r = IsCurrent \<and> cr_diagnostics r = [] \<and> cr_successor_chain r = []
               \<and> reason_for (pj_dependencies p) (cr_source r) = None}"
proof (cases "project_current_state u rows g tenant generation as_of known wanted max_records")
  case (Inr p)
  obtain limit by_source asserted key_of where run:
      "checked_max max_records = Inr limit" "fst (group_rows key_of (rows_by_file rows)) = by_source"
      "\<not> over_bound limit wanted by_source"
      "project_records u g tenant generation as_of known wanted by_source asserted = Inr p"
    using project_current_state_Inr [OF Inr] by blast
  have ok: "dict_ok by_source" and chunks: "mset (concat (map snd by_source)) = mset (map fst rows)"
    using group_rows_ok [of key_of rows] run(2) by simp_all
  let ?all = "projected_records g as_of (map_option as_utc known) by_source asserted"
  let ?sel = "\<lambda>r. selected wanted (cr_source r) (dict_get by_source (cr_source r) [])"
  have records: "pj_records p = map (finish_record (pj_dependencies p)) (filter ?sel ?all)"
    by (rule project_records_Inr [OF run(4)])
  have "map cr_source (pj_records p) = map cr_source (filter ?sel ?all)" unfolding records by (simp add: o_def)
  then have "sorted (map cr_source (pj_records p))" "distinct (map cr_source (pj_records p))"
    using projected_sources [OF ok] by (simp_all add: sorted_filter distinct_map_filter)
  moreover have "case max_records of PInt n \<Rightarrow> int (length (pj_records p)) \<le> n \<and> n \<le> max_current_state_records | _ \<Rightarrow> max_records = PNone"
    using run(1,3) projected_selection [OF ok, of wanted] unfolding records
    by (auto simp: checked_max_def over_bound_def split: pyval.splits if_splits)
  moreover have "mset (concat (map cr_chunk_ids (pj_records p))) = mset (map (\<lambda>row. chunk_id (fst row)) rows)" if "wanted = None"
  proof -
    have "mset (concat (map cr_chunk_ids (pj_records p))) = mset (concat (map cr_chunk_ids ?all))"
      unfolding records using that by (simp add: o_def selected_def)
    also have "\<dots> = image_mset chunk_id (mset (concat (map snd by_source)))" unfolding projected_chunks by simp
    finally show ?thesis unfolding chunks by (simp add: image_mset.compositionality o_def)
  qed
  moreover have "{r \<in> set (pj_records p). cr_state r = IsCurrent} \<subseteq>
      {r. cr_base_state r = IsCurrent \<and> cr_diagnostics r = [] \<and> cr_successor_chain r = []
          \<and> reason_for (pj_dependencies p) (cr_source r) = None}"
    unfolding records projected_records_def
    by (auto simp: finish_record_current case_prod_beta dest: make_record_current)
  ultimately show ?thesis unfolding Inr by simp
qed simp

section \<open>What a current document rests on\<close>













end
