(* ===== verification/SegmentTree.thy ===== *)
theory SegmentTree
  imports Prelude
begin

text \<open>
  The two array-backed trees of \<open>_FactSuccessorIndex\<close> (\<open>src/recall/fact_projection.py\<close>) share their
  loops: the bottom-up build, the climb from a changed leaf to the root, the two-pointer range walk and the
  descent to the first leaf a bound reaches. They are stated once here over the combining function, and
  proved against the leaves for any observation that distributes over it.
\<close>

section \<open>The loops\<close>

fun bit_length :: "nat \<Rightarrow> nat" where
  "bit_length n = (if n = 0 then 0 else Suc (bit_length (n div 2)))"

declare bit_length.simps [simp del]

text \<open>\<open>1 << (n - 1).bit_length()\<close>: the least power of two that holds \<open>n\<close> leaves.\<close>

definition tree_size :: "nat \<Rightarrow> nat" where
  "tree_size n = 2 ^ bit_length (n - 1)"

definition refresh :: "('a \<Rightarrow> 'a \<Rightarrow> 'a) \<Rightarrow> nat \<Rightarrow> 'a list \<Rightarrow> 'a list" where
  "refresh f node tree = tree[node := f (tree ! (2 * node)) (tree ! (2 * node + 1))]"

definition build_tree :: "('a \<Rightarrow> 'a \<Rightarrow> 'a) \<Rightarrow> nat \<Rightarrow> 'a list \<Rightarrow> 'a list" where
  "build_tree f sz tree = fold (refresh f) (rev [1..<sz]) tree"

fun repair :: "('a \<Rightarrow> 'a \<Rightarrow> 'a) \<Rightarrow> nat \<Rightarrow> 'a list \<Rightarrow> 'a list" where
  "repair f node tree = (if node > 1 then repair f (node div 2) (refresh f (node div 2) tree) else tree)"

declare repair.simps [simp del]

definition set_leaf :: "('a \<Rightarrow> 'a \<Rightarrow> 'a) \<Rightarrow> nat \<Rightarrow> nat \<Rightarrow> 'a \<Rightarrow> 'a list \<Rightarrow> 'a list" where
  "set_leaf f sz position x tree = repair f (sz + position) (tree[sz + position := x])"

function range_nodes :: "nat \<Rightarrow> nat \<Rightarrow> nat list" where
  "range_nodes low high =
     (if low < high
      then (let (left, low') = (if odd low then ([low], low + 1) else ([], low));
                (right, high') = (if odd high then ([high - 1], high - 1) else ([], high))
            in left @ right @ range_nodes (low' div 2) (high' div 2))
      else [])"
  by pat_completeness auto
termination by (relation "measure snd") (auto split: if_splits)

declare range_nodes.simps [simp del]

function descend :: "('a \<Rightarrow> bool) \<Rightarrow> nat \<Rightarrow> 'a list \<Rightarrow> nat \<Rightarrow> nat" where
  "descend seen sz tree node =
     (if 0 < node \<and> node < sz
      then descend seen sz tree (if seen (tree ! (2 * node)) then 2 * node else 2 * node + 1)
      else node)"
  by pat_completeness auto
termination by (relation "measure (\<lambda>(seen, sz, tree, node). sz - node)") auto

declare descend.simps [simp del]

section \<open>Heap order\<close>

definition heap_ok :: "('a \<Rightarrow> 'a \<Rightarrow> 'a) \<Rightarrow> nat \<Rightarrow> 'a list \<Rightarrow> bool" where
  "heap_ok f sz tree \<longleftrightarrow> length tree = 2 * sz \<and>
     (\<forall>n. 0 < n \<and> n < sz \<longrightarrow> tree ! n = f (tree ! (2 * n)) (tree ! (2 * n + 1)))"

text \<open>Every inner node but some is the combination of its children.\<close>

definition heap_except :: "('a \<Rightarrow> 'a \<Rightarrow> 'a) \<Rightarrow> nat \<Rightarrow> (nat \<Rightarrow> bool) \<Rightarrow> 'a list \<Rightarrow> bool" where
  "heap_except f sz bad tree \<longleftrightarrow> length tree = 2 * sz \<and>
     (\<forall>n. 0 < n \<and> n < sz \<and> \<not> bad n \<longrightarrow> tree ! n = f (tree ! (2 * n)) (tree ! (2 * n + 1)))"

lemma heap_except_none: "heap_except f sz bad tree \<Longrightarrow> (\<And>n. 0 < n \<Longrightarrow> n < sz \<Longrightarrow> \<not> bad n) \<Longrightarrow> heap_ok f sz tree"
  by (simp add: heap_except_def heap_ok_def)

lemma refresh_except:
  assumes "heap_except f sz bad tree" "0 < m" "m < sz"
  shows "heap_except f sz (\<lambda>n. n \<noteq> m \<and> (bad n \<or> 2 * n = m \<or> 2 * n + 1 = m)) (refresh f m tree)"
  using assms by (auto simp: heap_except_def refresh_def nth_list_update)

lemma refresh_leaf: "m < sz \<Longrightarrow> sz \<le> i \<Longrightarrow> refresh f m tree ! i = tree ! i"
  by (simp add: refresh_def)

lemma build_tree_steps:
  assumes "length tree = 2 * sz" "k < sz"
  shows "heap_except f sz (\<lambda>n. n < sz - k) (fold (refresh f) (take k (rev [1..<sz])) tree)
    \<and> (\<forall>i \<ge> sz. fold (refresh f) (take k (rev [1..<sz])) tree ! i = tree ! i)"
  using assms(2)
proof (induction k)
  case 0
  show ?case using assms(1) by (simp add: heap_except_def)
next
  case (Suc k)
  let ?t = "fold (refresh f) (take k (rev [1..<sz])) tree" and ?m = "sz - Suc k"
  have m: "rev [1..<sz] ! k = ?m" "0 < ?m" "?m < sz" using Suc.prems by (simp_all add: rev_nth)
  have t: "fold (refresh f) (take (Suc k) (rev [1..<sz])) tree = refresh f ?m ?t"
    using Suc.prems m(1) by (simp add: take_Suc_conv_app_nth)
  have "heap_except f sz (\<lambda>n. n < sz - k) ?t" using Suc by simp
  from refresh_except [OF this m(2,3)] have "heap_except f sz (\<lambda>n. n < ?m) (refresh f ?m ?t)"
    by (auto simp: heap_except_def)
  moreover have "refresh f ?m ?t ! i = tree ! i" if "i \<ge> sz" for i
    using refresh_leaf [OF m(3) that, of f ?t] Suc that by simp
  ultimately show ?case unfolding t by blast
qed

lemma build_tree_ok:
  assumes "length tree = 2 * sz" "0 < sz"
  shows "heap_ok f sz (build_tree f sz tree)" "\<And>i. sz \<le> i \<Longrightarrow> build_tree f sz tree ! i = tree ! i"
proof -
  have all: "take (sz - 1) (rev [1..<sz]) = rev [1..<sz]" by simp
  have run: "heap_except f sz (\<lambda>n. n < 1) (build_tree f sz tree) \<and> (\<forall>i \<ge> sz. build_tree f sz tree ! i = tree ! i)"
    using build_tree_steps [OF assms(1), of "sz - 1" f] assms(2) unfolding build_tree_def all by simp
  then show "\<And>i. sz \<le> i \<Longrightarrow> build_tree f sz tree ! i = tree ! i" by blast
  show "heap_ok f sz (build_tree f sz tree)" by (rule heap_except_none [OF conjunct1 [OF run]]) simp
qed

text \<open>The climb repairs exactly the ancestors of the leaf it starts from.\<close>

definition above :: "nat \<Rightarrow> nat \<Rightarrow> bool" where
  "above node n \<longleftrightarrow> (\<exists>k > 0. node div 2 ^ k = n)"

lemma above_half: "above node n \<longleftrightarrow> n = node div 2 \<or> above (node div 2) n"
proof
  assume "above node n"
  then obtain k where k: "k > 0" "node div 2 ^ k = n" by (auto simp: above_def)
  then obtain j where "k = Suc j" by (cases k) auto
  then have "node div 2 div 2 ^ j = n" using k by (simp add: div_mult2_eq)
  then show "n = node div 2 \<or> above (node div 2) n" by (cases "j = 0") (auto simp: above_def)
next
  assume "n = node div 2 \<or> above (node div 2) n"
  then show "above node n"
  proof
    assume "n = node div 2"
    then show ?thesis unfolding above_def by (intro exI [of _ 1]) simp
  next
    assume "above (node div 2) n"
    then obtain k where "k > 0" "node div 2 div 2 ^ k = n" by (auto simp: above_def)
    then show ?thesis unfolding above_def by (intro exI [of _ "Suc k"]) (simp add: div_mult2_eq)
  qed
qed

lemma repair_ok:
  assumes "heap_except f sz (above node) tree" "0 < node" "node < 2 * sz"
  shows "heap_ok f sz (repair f node tree) \<and> (\<forall>i \<ge> sz. repair f node tree ! i = tree ! i)"
  using assms
proof (induction f node tree rule: repair.induct)
  case (1 f node tree)
  show ?case
  proof (cases "node > 1")
    case True
    have half: "0 < node div 2" "node div 2 < sz" using True 1(4) by auto
    have "heap_except f sz (above (node div 2)) (refresh f (node div 2) tree)"
      using refresh_except [OF 1(2) half] above_half [of node] above_half [of "node div 2"]
      unfolding heap_except_def by auto
    then show ?thesis
      using 1(1) [OF True] half True by (subst (1 2) repair.simps) (simp add: refresh_leaf)
  next
    case False
    then have "node = 1" using 1(3) by simp
    moreover have "Suc 0 div 2 ^ k = 0" if "0 < k" for k using that one_less_power [of "2 :: nat" k] by simp
    ultimately have "\<not> above node n" if "0 < n" for n using that by (auto simp: above_def)
    then show ?thesis using heap_except_none [OF 1(2)] False by (subst (1 2) repair.simps) simp
  qed
qed

lemma set_leaf_ok:
  assumes "heap_ok f sz tree" "position < sz"
  shows "heap_ok f sz (set_leaf f sz position x tree)"
    "\<And>i. i < sz \<Longrightarrow> set_leaf f sz position x tree ! (sz + i) = (if i = position then x else tree ! (sz + i))"
proof -
  have "heap_except f sz (above (sz + position)) (tree[sz + position := x])"
  proof -
    have "above (sz + position) n" if "2 * n = sz + position \<or> 2 * n + 1 = sz + position" for n
      using that above_half [of "sz + position" n] by auto
    then have same: "tree[sz + position := x] ! (2 * n) = tree ! (2 * n)"
        "tree[sz + position := x] ! (2 * n + 1) = tree ! (2 * n + 1)" if "\<not> above (sz + position) n" for n
      using that by (metis nth_list_update_neq)+
    show ?thesis
      using assms same unfolding heap_ok_def heap_except_def by (metis length_list_update nth_list_update_neq not_add_less1)
  qed
  from repair_ok [OF this]
  have run: "heap_ok f sz (set_leaf f sz position x tree) \<and>
      (\<forall>i \<ge> sz. set_leaf f sz position x tree ! i = tree[sz + position := x] ! i)"
    using assms(2) unfolding set_leaf_def by simp
  then show "heap_ok f sz (set_leaf f sz position x tree)" by blast
  show "set_leaf f sz position x tree ! (sz + i) = (if i = position then x else tree ! (sz + i))" if "i < sz" for i
    using run that assms unfolding heap_ok_def by simp
qed

section \<open>Queries\<close>

lemma less_bit_length: "n < 2 ^ bit_length n"
proof (induction n rule: bit_length.induct)
  case (1 n)
  show ?case
  proof (cases "n = 0")
    case False
    then have "n div 2 < 2 ^ bit_length (n div 2)" using 1 by simp
    then have "n < 2 * 2 ^ bit_length (n div 2)" by linarith
    then show ?thesis using False by (simp add: bit_length.simps [of n])
  qed (simp add: bit_length.simps)
qed

lemma tree_size_ge: "n \<le> tree_size n" "0 < tree_size n"
  using less_bit_length [of "n - 1"] by (simp_all add: tree_size_def)

text \<open>
  An observation of the values: what a node shows is what one of its children shows. Under it the range walk
  and the descent answer for the leaves.
\<close>

locale observed_tree =
  fixes f :: "'a \<Rightarrow> 'a \<Rightarrow> 'a" and sees :: "'q \<Rightarrow> 'a \<Rightarrow> bool"
  assumes sees_combine: "sees q (f x y) \<longleftrightarrow> sees q x \<or> sees q y"
begin

lemma sees_inner:
  "heap_ok f sz tree \<Longrightarrow> 0 < n \<Longrightarrow> n < sz \<Longrightarrow>
     sees q (tree ! n) \<longleftrightarrow> sees q (tree ! (2 * n)) \<or> sees q (tree ! (2 * n + 1))"
  by (simp add: heap_ok_def sees_combine)

lemma sees_pairs:
  assumes "heap_ok f sz tree" "0 < low" "high \<le> sz"
  shows "(\<exists>n. low \<le> n \<and> n < high \<and> sees q (tree ! n)) \<longleftrightarrow>
    (\<exists>x. 2 * low \<le> x \<and> x < 2 * high \<and> sees q (tree ! x))" (is "?l = ?r")
proof
  assume ?l
  then obtain n where n: "low \<le> n" "n < high" "sees q (tree ! n)" by blast
  then have "sees q (tree ! (2 * n)) \<or> sees q (tree ! (2 * n + 1))"
    using sees_inner [OF assms(1), of n q] assms by simp
  then show ?r using n by (elim disjE) (rule exI [of _ "2 * n"], simp, rule exI [of _ "2 * n + 1"], simp)
next
  assume ?r
  then obtain x where x: "2 * low \<le> x" "x < 2 * high" "sees q (tree ! x)" by blast
  then have "x = 2 * (x div 2) \<or> x = 2 * (x div 2) + 1" by presburger
  moreover have "0 < x div 2" "x div 2 < sz" using x assms by linarith+
  ultimately have "sees q (tree ! (x div 2))" using x(3) sees_inner [OF assms(1), of "x div 2" q] by metis
  then show ?l using x by (intro exI [of _ "x div 2"]) auto
qed

lemma range_sees:
  assumes "heap_ok f sz tree" "0 < low" "high \<le> 2 * sz"
  shows "(\<exists>n \<in> set (range_nodes low high). sees q (tree ! n)) \<longleftrightarrow>
    (\<exists>x. low \<le> x \<and> x < high \<and> sees q (tree ! x))"
  using assms(2,3)
proof (induction high arbitrary: low rule: less_induct)
  case (less high)
  show ?case
  proof (cases "low < high")
    case True
    define low' where "low' = (if odd low then low + 1 else low)"
    define high' where "high' = (if odd high then high - 1 else high)"
    have even: "2 * (low' div 2) = low'" "2 * (high' div 2) = high'" by (auto simp: low'_def high'_def)
    have ends: "0 < low' div 2" "high' div 2 \<le> sz" using less.prems by (auto simp: low'_def high'_def)
    have "set (range_nodes low high) = {x. x = low \<and> odd low} \<union> {x. x = high - 1 \<and> odd high}
        \<union> set (range_nodes (low' div 2) (high' div 2))"
      using True by (subst range_nodes.simps) (auto simp: low'_def high'_def Let_def)
    moreover have "(\<exists>n \<in> set (range_nodes (low' div 2) (high' div 2)). sees q (tree ! n)) \<longleftrightarrow>
        (\<exists>x. low' \<le> x \<and> x < high' \<and> sees q (tree ! x))"
    proof -
      have "high' div 2 < high" "high' div 2 \<le> 2 * sz" using True ends(2) by (auto simp: high'_def)
      from less.IH [OF this(1) ends(1) this(2)] show ?thesis
        unfolding sees_pairs [OF assms(1) ends, of q] even .
    qed
    moreover have "low \<le> x \<and> x < high \<longleftrightarrow> x = low \<and> odd low \<or> x = high - 1 \<and> odd high \<or> low' \<le> x \<and> x < high'" for x
      using True by (auto simp: low'_def high'_def)
    ultimately show ?thesis by (simp only: bex_Un) blast
  next
    case False
    then show ?thesis by (subst range_nodes.simps) auto
  qed
qed

text \<open>Node \<open>n\<close> at height \<open>k\<close> stands for the leaves from \<open>n 2\<^sup>k\<close> to before \<open>(n + 1) 2\<^sup>k\<close>.\<close>

lemma inner_node:
  assumes "2 ^ m \<le> n * 2 ^ Suc k" "(n + 1) * 2 ^ Suc k \<le> 2 * (2 :: nat) ^ m"
  shows "0 < n" "n < 2 ^ m"
proof -
  show "0 < n" using assms(1) by (cases n) simp_all
  have "(n + 1) * 2 \<le> (n + 1) * 2 ^ Suc k" by (rule mult_le_mono2) simp
  then have "(n + 1) * 2 \<le> 2 * 2 ^ m" using assms(2) by linarith
  then show "n < 2 ^ m" by (simp add: Suc_le_eq)
qed

lemma node_sees:
  assumes "heap_ok f (2 ^ m) tree" "2 ^ m \<le> n * 2 ^ k" "(n + 1) * 2 ^ k \<le> 2 * 2 ^ m"
  shows "sees q (tree ! n) \<longleftrightarrow> (\<exists>i. n * 2 ^ k \<le> i \<and> i < (n + 1) * 2 ^ k \<and> sees q (tree ! i))"
  using assms(2,3)
proof (induction k arbitrary: n)
  case 0
  then show ?case by (auto simp: less_Suc_eq_le dest: antisym)
next
  case (Suc k)
  have "sees q (tree ! n) \<longleftrightarrow> sees q (tree ! (2 * n)) \<or> sees q (tree ! (2 * n + 1))"
    using sees_inner [OF assms(1)] inner_node [OF Suc.prems] by blast
  also have "sees q (tree ! (2 * n)) \<longleftrightarrow> (\<exists>i. n * 2 ^ Suc k \<le> i \<and> i < (2 * n + 1) * 2 ^ k \<and> sees q (tree ! i))"
    using Suc.IH [of "2 * n"] Suc.prems by (simp add: ac_simps)
  also have "sees q (tree ! (2 * n + 1)) \<longleftrightarrow>
      (\<exists>i. (2 * n + 1) * 2 ^ k \<le> i \<and> i < (n + 1) * 2 ^ Suc k \<and> sees q (tree ! i))"
    using Suc.IH [of "2 * n + 1"] Suc.prems by (simp add: algebra_simps)
  also have "(\<exists>i. n * 2 ^ Suc k \<le> i \<and> i < (2 * n + 1) * 2 ^ k \<and> sees q (tree ! i)) \<or>
      (\<exists>i. (2 * n + 1) * 2 ^ k \<le> i \<and> i < (n + 1) * 2 ^ Suc k \<and> sees q (tree ! i)) \<longleftrightarrow>
      (\<exists>i. n * 2 ^ Suc k \<le> i \<and> i < (n + 1) * 2 ^ Suc k \<and> sees q (tree ! i))"
  proof -
    have "n * 2 ^ Suc k \<le> (2 * n + 1) * 2 ^ k" "(2 * n + 1) * 2 ^ k \<le> (n + 1) * 2 ^ Suc k"
      by (simp_all add: algebra_simps)
    then show ?thesis by (meson le_less_linear less_le_trans order_trans)
  qed
  finally show ?case .
qed

lemma descend_first:
  assumes "heap_ok f (2 ^ m) tree" "2 ^ m \<le> n * 2 ^ k" "(n + 1) * 2 ^ k \<le> 2 * 2 ^ m" "sees q (tree ! n)"
  defines "r \<equiv> descend (sees q) (2 ^ m) tree n"
  shows "n * 2 ^ k \<le> r \<and> r < (n + 1) * 2 ^ k \<and> sees q (tree ! r) \<and> (\<forall>i. n * 2 ^ k \<le> i \<and> i < r \<longrightarrow> \<not> sees q (tree ! i))"
  using assms(2-4) unfolding r_def
proof (induction k arbitrary: n)
  case 0
  then have "descend (sees q) (2 ^ m) tree n = n" by (subst descend.simps) simp
  then show ?case using 0 by auto
next
  case (Suc k)
  note n = inner_node [OF Suc.prems(1,2)]
  have up: "n * 2 ^ Suc k = (2 * n) * 2 ^ k" "(n + 1) * 2 ^ Suc k = (2 * n + 1 + 1) * 2 ^ k" by (simp_all add: algebra_simps)
  have bounds: "2 ^ m \<le> (2 * n) * 2 ^ k" "(2 * n + 1) * 2 ^ k \<le> 2 * 2 ^ m"
      "2 ^ m \<le> (2 * n + 1) * 2 ^ k" "(2 * n + 1 + 1) * 2 ^ k \<le> 2 * 2 ^ m"
    using Suc.prems(1,2) unfolding up by (simp_all add: algebra_simps)
  show ?case
  proof (cases "sees q (tree ! (2 * n))")
    case True
    then have "descend (sees q) (2 ^ m) tree n = descend (sees q) (2 ^ m) tree (2 * n)"
      using n by (subst descend.simps) simp
    then show ?thesis using Suc.IH [OF bounds(1,2) True] unfolding up by (simp add: algebra_simps)
  next
    case False
    then have right: "sees q (tree ! (2 * n + 1))" using sees_inner [OF assms(1) n] Suc.prems(3) by blast
    have go: "descend (sees q) (2 ^ m) tree n = descend (sees q) (2 ^ m) tree (2 * n + 1)"
      using n False by (subst descend.simps) simp
    have "\<not> sees q (tree ! i)" if "(2 * n) * 2 ^ k \<le> i" "i < (2 * n + 1) * 2 ^ k" for i
      using node_sees [OF assms(1) bounds(1,2), of q] False that by blast
    then show ?thesis using Suc.IH [OF bounds(3,4) right] unfolding up go
      by (metis add_mult_distrib le_add1 le_less_linear order_trans)
  qed
qed

end

end
