(* ===== verification/FactIntervals.thy ===== *)
theory FactIntervals
  imports Prelude
begin

text \<open>
  Validity windows of facts as intervals of the time line, from \<open>src/recall/fact_projection.py\<close>: the span
  of a window, the union of intervals as sorted disjoint ones, and the difference. The meaning of a list of
  intervals is the set of instants it covers; unions are canonical, so equal sets are equal lists.
\<close>

section \<open>Operations\<close>

type_synonym interval = "instant \<times> instant"
type_synonym fact_span = "instant option \<times> instant option"

text \<open>\<open>datetime.min\<close> and \<open>datetime.max\<close> in UTC, in microseconds.\<close>

definition earliest_instant :: instant where
  "earliest_instant = - 62135596800000000"

definition latest_instant :: instant where
  "latest_instant = 253402300799999999"

definition or_else :: "'a option \<Rightarrow> 'a \<Rightarrow> 'a" where
  "or_else v x = (case v of None \<Rightarrow> x | Some y \<Rightarrow> y)"

definition holds_at :: "fact_span option \<Rightarrow> instant \<Rightarrow> bool" where
  "holds_at w t = (case w of None \<Rightarrow> True
     | Some (start, stop) \<Rightarrow> (case start of None \<Rightarrow> True | Some s \<Rightarrow> t \<ge> s) \<and> (case stop of None \<Rightarrow> True | Some e \<Rightarrow> t < e))"

definition span :: "fact_span option \<Rightarrow> interval" where
  "span w = (case w of None \<Rightarrow> (earliest_instant, latest_instant)
     | Some (start, stop) \<Rightarrow> (or_else start earliest_instant, or_else stop latest_instant))"

definition cut :: "interval \<Rightarrow> interval \<Rightarrow> interval list" where
  "cut w x = (case (w, x) of ((start, stop), (low, high)) \<Rightarrow>
     if stop \<le> low \<or> high \<le> start then [(low, high)]
     else (if low < start then [(low, start)] else []) @ (if stop < high then [(stop, high)] else []))"

definition without :: "interval list \<Rightarrow> fact_span option \<Rightarrow> interval list" where
  "without xs w = (if w = None then [] else concat (map (cut (span w)) xs))"

definition merge_step :: "interval \<Rightarrow> interval list \<Rightarrow> interval list" where
  "merge_step x merged = (case x of (low, high) \<Rightarrow>
     if low \<ge> high then merged
     else if merged \<noteq> [] \<and> low \<le> snd (last merged)
     then (if high > snd (last merged) then butlast merged @ [(fst (last merged), high)] else merged)
     else merged @ [(low, high)])"

definition merge_intervals :: "interval list \<Rightarrow> interval list" where
  "merge_intervals xs = fold merge_step (sort xs) []"

section \<open>Meaning\<close>

definition covers :: "interval list \<Rightarrow> instant set" where
  "covers xs = (\<Union>(a, b) \<in> set xs. {a..<b})"

definition canonical :: "interval list \<Rightarrow> bool" where
  "canonical xs \<longleftrightarrow> sorted_wrt (\<lambda>x y. snd x < fst y) xs \<and> (\<forall>x \<in> set xs. fst x < snd x)"

lemma covers_iff: "t \<in> covers xs \<longleftrightarrow> (\<exists>a b. (a, b) \<in> set xs \<and> a \<le> t \<and> t < b)"
  by (fastforce simp: covers_def)

lemma covers_simps [simp]:
  "covers [] = {}" "covers (x # xs) = {fst x..<snd x} \<union> covers xs" "covers (xs @ ys) = covers xs \<union> covers ys"
  by (auto simp: covers_def)

lemma covers_concat [simp]: "covers (concat xss) = (\<Union>xs \<in> set xss. covers xs)"
  by (induction xss) auto

lemma covers_sort [simp]: "covers (sort xs) = covers xs"
  by (simp add: covers_def)

lemma covers_cut: "covers (cut w x) = {fst x..<snd x} - {fst w..<snd w}"
  by (cases w; cases x) (auto simp: cut_def)

lemma covers_without:
  "covers (without xs w) = (case w of None \<Rightarrow> {} | Some s \<Rightarrow> covers xs - {fst (span w)..<snd (span w)})"
proof (cases w)
  case (Some s)
  have "(\<Union>x \<in> set xs. covers (cut (span w) x)) = covers xs - {fst (span w)..<snd (span w)}"
    unfolding covers_cut by (auto simp: covers_def)
  then show ?thesis using Some by (simp add: without_def)
qed (simp add: without_def)

lemma holds_at_span:
  assumes "earliest_instant \<le> t" "t < latest_instant"
  shows "holds_at w t \<longleftrightarrow> t \<in> {fst (span w)..<snd (span w)}"
  using assms by (auto simp: holds_at_def span_def or_else_def split: option.splits)

section \<open>Unions are canonical\<close>

lemma canonical_snoc:
  "canonical (xs @ [x]) \<longleftrightarrow> canonical xs \<and> fst x < snd x \<and> (\<forall>y \<in> set xs. snd y < fst x)"
  by (auto simp: canonical_def sorted_wrt_append)

lemma merge_step_ok:
  assumes "canonical merged" "merged = [] \<or> fst (last merged) \<le> fst x"
  shows "canonical (merge_step x merged) \<and> covers (merge_step x merged) = covers merged \<union> {fst x..<snd x}
    \<and> (\<forall>y. fst x \<le> fst y \<longrightarrow> merge_step x merged = [] \<or> fst (last (merge_step x merged)) \<le> fst y)"
proof (cases merged rule: rev_cases)
  case Nil
  then show ?thesis by (cases x) (auto simp: merge_step_def canonical_def)
next
  case (snoc ys y)
  have last: "fst y < snd y" "\<And>z. z \<in> set ys \<Longrightarrow> snd z < fst y" "canonical ys" "fst y \<le> fst x"
    using assms snoc by (auto simp: canonical_snoc)
  show ?thesis
  proof (cases "fst x \<ge> snd x \<or> snd x \<le> snd y \<and> fst x \<le> snd y")
    case True
    then have "merge_step x merged = merged" by (cases x) (auto simp: merge_step_def snoc)
    then show ?thesis using True last snoc assms by fastforce
  next
    case False
    then consider "merge_step x merged = ys @ [(fst y, snd x)]" "fst x \<le> snd y" "snd y < snd x" "fst x < snd x"
      | "merge_step x merged = merged @ [x]" "snd y < fst x" "fst x < snd x"
      by (cases x; cases "fst x \<le> snd y") (auto simp: merge_step_def snoc)
    then show ?thesis
    proof cases
      case 1
      then show ?thesis using last by (auto simp: canonical_snoc snoc)
    next
      case 2
      have "snd z < fst x" if "z \<in> set merged" for z
        using that 2(2) last(2) [of z] last(4) by (auto simp: snoc)
      then have "canonical (merge_step x merged)" unfolding 2(1) canonical_snoc using assms(1) 2(3) by simp
      then show ?thesis using 2(1) by auto
    qed
  qed
qed

lemma fold_merge_step_ok:
  assumes "canonical merged" "sorted xs" "\<And>x. x \<in> set xs \<Longrightarrow> merged = [] \<or> fst (last merged) \<le> fst x"
  shows "canonical (fold merge_step xs merged) \<and> covers (fold merge_step xs merged) = covers merged \<union> covers xs"
  using assms
proof (induction xs arbitrary: merged)
  case (Cons x xs)
  note step = merge_step_ok [OF Cons.prems(1) Cons.prems(3) [of x, simplified]]
  have "fst x \<le> fst y" if "y \<in> set xs" for y
    using that Cons.prems(2) by (auto simp: less_eq_prod_def)
  then show ?case using Cons.IH [of "merge_step x merged"] Cons.prems(2) step by auto
qed simp

lemma merge_canonical: "canonical (merge_intervals xs)"
  and covers_merge [simp]: "covers (merge_intervals xs) = covers xs"
  using fold_merge_step_ok [of "[]" "sort xs"] by (simp_all add: merge_intervals_def canonical_def)

lemma canonical_head:
  assumes "canonical ((a, b) # xs)"
  shows "a \<in> covers ((a, b) # xs)" "\<And>t. t \<in> covers ((a, b) # xs) \<Longrightarrow> a \<le> t" "b \<notin> covers ((a, b) # xs)"
    "covers xs = covers ((a, b) # xs) - {a..<b}" "canonical xs" "a < b"
proof -
  have ab: "a < b" "canonical xs" "\<And>c d. (c, d) \<in> set xs \<Longrightarrow> b < c" using assms by (auto simp: canonical_def)
  have later: "b < t" if t: "t \<in> covers xs" for t
  proof -
    obtain c d where "(c, d) \<in> set xs" "c \<le> t" using t by (auto simp: covers_def)
    then show ?thesis using ab(3) [of c d] by simp
  qed
  show "a \<in> covers ((a, b) # xs)" "a < b" "canonical xs" using ab by auto
  show "\<And>t. t \<in> covers ((a, b) # xs) \<Longrightarrow> a \<le> t" using later ab(1) by fastforce
  show "b \<notin> covers ((a, b) # xs)" using later by auto
  show "covers xs = covers ((a, b) # xs) - {a..<b}" using later by fastforce
qed

lemma canonical_unique: "canonical xs \<Longrightarrow> canonical ys \<Longrightarrow> covers xs = covers ys \<Longrightarrow> xs = ys"
proof (induction xs arbitrary: ys)
  case Nil
  then show ?case using canonical_head(1) by (cases ys) (auto, fastforce)
next
  case (Cons x xs)
  note IH = Cons.IH and prems = Cons.prems
  obtain a b where x: "x = (a, b)" by (cases x)
  note xs = canonical_head [of a b xs, OF Cons.prems(1) [unfolded x]]
  show ?case
  proof (cases ys)
    case Nil
    then show ?thesis using xs(1) Cons.prems(3) x by simp
  next
    case (Cons y ys')
    obtain c d where y: "y = (c, d)" by (cases y)
    note ys = canonical_head [of c d ys', OF \<open>canonical ys\<close> [unfolded Cons y]]
    have same: "covers ((a, b) # xs) = covers ((c, d) # ys')" using prems(3) x y Cons by simp
    have "a = c"
    proof (rule antisym)
      show "a \<le> c" using xs(2) [of c] ys(1) unfolding same .
      show "c \<le> a" using ys(2) [of a] xs(1) unfolding same .
    qed
    have "b = d"
    proof (rule ccontr)
      assume "b \<noteq> d"
      then consider "b < d" | "d < b" by linarith
      then show False
      proof cases
        case 1
        then have "b \<in> covers ((c, d) # ys')" using xs(6) \<open>a = c\<close> by simp
        then show False using xs(3) same by blast
      next
        case 2
        then have "d \<in> covers ((a, b) # xs)" using ys(6) \<open>a = c\<close> by simp
        then show False using ys(3) same by blast
      qed
    qed
    have "xs = ys'" 
    proof (rule IH [OF xs(5) ys(5)])
      show "covers xs = covers ys'" using xs(4) ys(4) same \<open>a = c\<close> \<open>b = d\<close> by metis
    qed
    then show ?thesis using \<open>a = c\<close> \<open>b = d\<close> x y Cons by simp
  qed
qed

text \<open>A union depends only on the instants covered.\<close>

lemma merge_cong: "covers xs = covers ys \<Longrightarrow> merge_intervals xs = merge_intervals ys"
  by (rule canonical_unique) (simp_all add: merge_canonical)

lemma merge_canonical_id: "canonical xs \<Longrightarrow> merge_intervals xs = xs"
  by (rule canonical_unique) (simp_all add: merge_canonical)

end
