(* ===== verification/FactLedger.thy ===== *)
theory FactLedger
  imports FactIntervals PyString
begin

text \<open>
  The events of the fact ledger and what their history says, from \<open>src/recall/types.py\<close> (\<open>AtomicFact\<close>),
  \<open>src/recall/fact_events.py\<close> and \<open>src/recall/fact_projection.py\<close>: applications, retractions and
  withdrawals, reserved request ids, validity windows, what a supersession index says of an event, and the
  order of writes. Evidence cards count here only by their ids; the content digests that name a fact and a
  conflict key are parameters.
\<close>

section \<open>Facts and events\<close>

record atomic_fact =
  af_namespace :: string
  af_subject :: string
  af_predicate :: string
  af_object :: pyval
  af_context :: metadata
  af_valid_from :: "instant option"
  af_valid_until :: "instant option"
  af_cardinality :: "string option"

definition fact_cardinalities :: "string list" where
  "fact_cardinalities = [''single'', ''set'', ''event'']"

definition fact_cardinality :: "pyval \<Rightarrow> string option result" where
  "fact_cardinality v = (case v of
     PNone \<Rightarrow> Inr None
   | PStr s \<Rightarrow> if s \<in> set fact_cardinalities then Inr (Some s) else Inl (ValueError ''cardinality must be one of single, set, event'')
   | _ \<Rightarrow> Inl (ValueError ''cardinality must be one of single, set, event''))"

definition fact_name :: "pyval \<Rightarrow> string result" where
  "fact_name v = (case as_str v of
     None \<Rightarrow> Inl (ValueError ''must be a non-empty string'')
   | Some s \<Rightarrow> if py_strip s = [] then Inl (ValueError ''must be a non-empty string'') else Inr (py_strip s))"

definition make_fact ::
  "pyval \<Rightarrow> pyval \<Rightarrow> pyval \<Rightarrow> pyval \<Rightarrow> metadata \<Rightarrow> datetime option \<Rightarrow> datetime option \<Rightarrow> pyval \<Rightarrow> atomic_fact result" where
  "make_fact namespace subject predicate object context valid_from valid_until cardinality =
     and_then (fact_name namespace) (\<lambda>ns. and_then (fact_name subject) (\<lambda>subj. and_then (fact_name predicate) (\<lambda>pred.
     and_then (fact_cardinality cardinality) (\<lambda>card.
       (let f = map_option as_utc valid_from; u = map_option as_utc valid_until
        in if (case (f, u) of (Some a, Some b) \<Rightarrow> a \<ge> b | _ \<Rightarrow> False)
           then Inl (ValueError ''valid_until must be after valid_from'')
           else Inr \<lparr>af_namespace = ns, af_subject = subj, af_predicate = pred, af_object = object, af_context = context,
                     af_valid_from = f, af_valid_until = u, af_cardinality = card\<rparr>)))))"

record fact_event =
  fe_id :: string
  fe_type :: string
  fe_tenant :: string
  fe_generation :: string
  fe_fact :: "atomic_fact option"
  fe_fact_id :: "string option"
  fe_cards :: "string list"
  fe_supersedes :: "string list"
  fe_request :: string
  fe_writer :: string
  fe_decision :: string
  fe_policy_version :: string
  fe_controller_version :: int
  fe_created_at :: instant
  fe_lease_token :: "string option"
  fe_redaction :: "string option"

section \<open>Applications and withdrawals\<close>

definition supersession_suffix :: string where
  "supersession_suffix = '':supersession''"

definition retraction_prefix :: string where
  "retraction_prefix = ''retraction:''"

definition withdrawal_prefix :: string where
  "withdrawal_prefix = ''withdrawal:''"

definition stated_prefix :: string where
  "stated_prefix = ''stated:''"

definition reserved_request_id :: "string \<Rightarrow> bool" where
  "reserved_request_id r \<longleftrightarrow> ends_with r supersession_suffix \<or> starts_with r retraction_prefix
     \<or> starts_with r withdrawal_prefix \<or> starts_with r stated_prefix"

definition withdrawn_event_ids :: "fact_event list \<Rightarrow> string set" where
  "withdrawn_event_ids events =
     set (map (\<lambda>e. drop (length withdrawal_prefix) (fe_request e))
       (filter (\<lambda>e. fe_type e = ''withdrawn'' \<and> starts_with (fe_request e) withdrawal_prefix) events))"

definition asserts_fact :: "fact_event \<Rightarrow> bool" where
  "asserts_fact e \<longleftrightarrow> fe_type e = ''asserted'' \<and> fe_decision e \<noteq> ''DUPLICATE''"

type_synonym application_acc = "(string, fact_event) dict \<times> (string, fact_event) dict"

definition count_application :: "string set \<Rightarrow> fact_event \<Rightarrow> application_acc \<Rightarrow> application_acc" where
  "count_application withdrawn e acc = (case acc of (counted, latest) \<Rightarrow>
     (case fe_fact_id e of
        None \<Rightarrow> acc
      | Some fid \<Rightarrow>
          if fe_type e \<noteq> ''asserted'' then acc
          else if asserts_fact e then (dict_set (fe_id e) e counted, dict_set fid e latest)
          else (case map_of latest fid of
                  None \<Rightarrow> acc
                | Some repeated \<Rightarrow>
                    if fe_id repeated \<notin> withdrawn then acc
                    else (let e' = e\<lparr>fe_supersedes := fe_supersedes repeated, fe_created_at := fe_created_at repeated\<rparr>
                          in (dict_set (fe_id e) e' counted, dict_set fid e' latest)))))"

definition applications :: "fact_event list \<Rightarrow> (string, fact_event) dict" where
  "applications events = fst (fold (count_application (withdrawn_event_ids events)) events ([], []))"

type_synonym retraction_key = "string option \<times> string \<times> string set"

definition retraction_key :: "fact_event \<Rightarrow> retraction_key" where
  "retraction_key e = (fe_fact_id e, fe_generation e, set (fe_cards e))"

definition retracted_keys :: "fact_event list \<Rightarrow> retraction_key set" where
  "retracted_keys events =
     (let withdrawn = withdrawn_event_ids events
      in set (concat (map (\<lambda>e. map (\<lambda>fid. (Some fid, fe_generation e, set (fe_cards e))) (fe_supersedes e))
                (filter (\<lambda>e. fe_type e = ''retracted'') events)))
         \<union> retraction_key ` set (filter (\<lambda>e. fe_id e \<in> withdrawn) events))"

section \<open>Windows and what a supersession index says\<close>

definition fact_window :: "atomic_fact \<Rightarrow> fact_span" where
  "fact_window f = (af_valid_from f, af_valid_until f)"

type_synonym fact_supersession_view = "(string, interval list) dict"

definition hidden_at :: "fact_supersession_view \<Rightarrow> fact_event \<Rightarrow> datetime \<Rightarrow> bool" where
  "hidden_at hidden e t = list_ex (\<lambda>(low, high). low \<le> as_utc t \<and> as_utc t < high) (dict_get hidden (fe_id e) [])"

fun cut_all :: "interval list \<Rightarrow> interval list \<Rightarrow> interval list" where
  "cut_all xs [] = xs"
| "cut_all xs ((low, high) # ws) = (let ys = without xs (Some (Some low, Some high)) in if ys = [] then [] else cut_all ys ws)"

definition in_force :: "fact_supersession_view \<Rightarrow> fact_event \<Rightarrow> interval list" where
  "in_force hidden e = (case fe_fact e of None \<Rightarrow> []
     | Some f \<Rightarrow> cut_all [span (Some (fact_window f))] (dict_get hidden (fe_id e) []))"

definition overlaps :: "fact_supersession_view \<Rightarrow> fact_event \<Rightarrow> atomic_fact \<Rightarrow> bool" where
  "overlaps hidden e f = (let (low, high) = span (Some (fact_window f))
     in list_ex (\<lambda>(a, b). max a low < min b high) (in_force hidden e))"

section \<open>The order of writes\<close>

text \<open>\<open>fact_conflict_key\<close> and \<open>fact_identity\<close> hash canonical JSON; the two digests are parameters.\<close>

definition ordered_after ::
  "(atomic_fact \<Rightarrow> string) \<Rightarrow> (atomic_fact \<Rightarrow> string) \<Rightarrow> datetime \<Rightarrow> fact_event list \<Rightarrow> atomic_fact \<Rightarrow> instant" where
  "ordered_after conflict_key identity moment history f =
     (let members = filter (\<lambda>e. case fe_fact e of None \<Rightarrow> False
            | Some g \<Rightarrow> af_subject g = af_subject f \<and> af_predicate g = af_predicate f
                \<and> af_namespace g = af_namespace f \<and> conflict_key g = conflict_key f) history;
          key_ids = insert (Some (identity f)) (set (map fe_fact_id members));
          receipts = filter (\<lambda>e. fe_fact e = None \<and> list_ex (\<lambda>fid. Some fid \<in> key_ids) (fe_supersedes e)) history
      in case map fe_created_at (members @ receipts) of
           [] \<Rightarrow> as_utc moment
         | t # ts \<Rightarrow> (let newest = fold max ts t in if as_utc moment \<le> newest then newest + 1 else as_utc moment))"

section \<open>An index means a set of instants\<close>

lemma covers_cut_all: "covers (cut_all xs ws) = covers xs - covers ws"
proof (induction xs ws rule: cut_all.induct)
  case (2 xs low high ws)
  define ys where "ys = without xs (Some (Some low, Some high))"
  have ys: "covers ys = covers xs - {low..<high}"
    by (simp add: ys_def covers_without span_def or_else_def)
  show ?case
  proof (cases "ys = []")
    case True
    then have "covers xs - {low..<high} = {}" using ys by simp
    then show ?thesis using True by (auto simp: ys_def Let_def)
  next
    case False
    then have "covers (cut_all ys ws) = covers ys - covers ws" using 2 by (simp add: ys_def)
    then show ?thesis using False ys by (auto simp: ys_def [symmetric] Let_def)
  qed
qed simp

lemma hidden_at_covers: "hidden_at hidden e t \<longleftrightarrow> as_utc t \<in> covers (dict_get hidden (fe_id e) [])"
  unfolding hidden_at_def covers_iff list_ex_iff by blast

lemma in_force_covers:
  "covers (in_force hidden e) = (case fe_fact e of None \<Rightarrow> {}
     | Some f \<Rightarrow> {fst (span (Some (fact_window f)))..<snd (span (Some (fact_window f)))} - covers (dict_get hidden (fe_id e) []))"
  by (simp add: in_force_def covers_cut_all split: option.split)

text \<open>
  The two readings of a supersession index agree. On the representable time line, the intervals in which an
  event is in force hold exactly the instants at which its fact holds and no successor hides it, and an event
  overlaps a new fact exactly when it is in force at some instant of that fact's window.
\<close>
theorem in_force_is_not_hidden:
  "{t. t \<in> covers (in_force hidden e) \<and> earliest_instant \<le> t \<and> t < latest_instant} =
     {t. earliest_instant \<le> t \<and> t < latest_instant \<and> \<not> hidden_at hidden e (Aware t)
         \<and> (case fe_fact e of None \<Rightarrow> False | Some f \<Rightarrow> holds_at (Some (fact_window f)) t)}
   \<and> (overlaps hidden e g \<longleftrightarrow>
       covers (in_force hidden e) \<inter> {fst (span (Some (fact_window g)))..<snd (span (Some (fact_window g)))} \<noteq> {})"
proof
  show "{t. t \<in> covers (in_force hidden e) \<and> earliest_instant \<le> t \<and> t < latest_instant} =
     {t. earliest_instant \<le> t \<and> t < latest_instant \<and> \<not> hidden_at hidden e (Aware t)
         \<and> (case fe_fact e of None \<Rightarrow> False | Some f \<Rightarrow> holds_at (Some (fact_window f)) t)}"
    unfolding in_force_covers hidden_at_covers by (auto simp: holds_at_span split: option.splits)
  have "(\<exists>(a, b) \<in> set xs. max a low < min b high) \<longleftrightarrow> covers xs \<inter> {low..<high} \<noteq> {}" for xs low high
  proof
    assume "\<exists>(a, b) \<in> set xs. max a low < min b high"
    then obtain a b where "(a, b) \<in> set xs" "max a low < min b high" by blast
    moreover from this have "max a low \<in> covers xs" unfolding covers_iff by (intro exI [of _ a] exI [of _ b]) auto
    ultimately have "max a low \<in> covers xs \<inter> {low..<high}" by auto
    then show "covers xs \<inter> {low..<high} \<noteq> {}" by blast
  next
    assume "covers xs \<inter> {low..<high} \<noteq> {}"
    then obtain t a b where "(a, b) \<in> set xs" "a \<le> t" "t < b" "low \<le> t" "t < high" by (auto simp: covers_iff)
    then show "\<exists>(a, b) \<in> set xs. max a low < min b high" by (intro bexI [of _ "(a, b)"]) auto
  qed
  then show "overlaps hidden e g \<longleftrightarrow>
       covers (in_force hidden e) \<inter> {fst (span (Some (fact_window g)))..<snd (span (Some (fact_window g)))} \<noteq> {}"
    by (simp add: overlaps_def list_ex_iff case_prod_beta)
qed

end
