(* ===== verification/SuccessorIndex.thy ===== *)
theory SuccessorIndex
  imports SegmentTree FactLedger
begin

text \<open>
  \<open>_FactSuccessorIndex\<close> of \<open>src/recall/fact_projection.py\<close>: the successors of one fact identity behind two
  segment trees, and the proof that it answers as plain scans over the successors do.
\<close>

section \<open>The index\<close>

type_synonym successor = "fact_event \<times> fact_span option"

record successor_index =
  si_claims :: "nat list"
  si_ordered :: "nat list"
  si_times :: "instant list"
  si_first :: "nat list list"
  si_size :: nat
  si_active :: "instant option list"
  si_unions :: "interval list list"

definition later :: "instant option \<Rightarrow> instant option \<Rightarrow> instant option" where
  "later left right = (case left of None \<Rightarrow> right | Some l \<Rightarrow> (case right of None \<Rightarrow> left | Some r \<Rightarrow> Some (max l r)))"

definition union_of :: "interval list \<Rightarrow> interval list \<Rightarrow> interval list" where
  "union_of left right = merge_intervals (left @ right)"

fun first_two :: "nat list \<Rightarrow> nat list list" where
  "first_two [] = [[]]"
| "first_two (c # cs) = (let rest = first_two cs in take 2 (sort (hd rest @ [c])) # rest)"

definition claim_time :: "successor list \<Rightarrow> nat \<Rightarrow> instant" where
  "claim_time successors c = fe_created_at (fst (successors ! c))"

text \<open>\<open>{claim: position for position, claim in enumerate(xs)}\<close>.\<close>

definition position_of :: "nat list \<Rightarrow> nat \<Rightarrow> nat option" where
  "position_of xs c = map_of (zip xs [0..<length xs]) c"

definition active_leaf :: "successor list \<Rightarrow> fact_event option list \<Rightarrow> nat \<Rightarrow> instant option" where
  "active_leaf successors children c = (if children ! c \<noteq> None then Some (claim_time successors c) else None)"

definition padded :: "nat \<Rightarrow> 'a \<Rightarrow> 'a list \<Rightarrow> 'a list" where
  "padded sz x leaves = replicate sz x @ leaves @ replicate (sz - length leaves) x"

definition make_index ::
  "nat list \<Rightarrow> successor list \<Rightarrow> fact_event option list \<Rightarrow> interval list list \<Rightarrow> successor_index" where
  "make_index claims successors children own_windows =
     (let ordered = sort_key (\<lambda>c. (claim_time successors c, c)) claims; sz = tree_size (length claims)
      in \<lparr>si_claims = claims, si_ordered = ordered, si_times = map (claim_time successors) ordered,
          si_first = first_two ordered, si_size = sz,
          si_active = build_tree later sz (padded sz None (map (active_leaf successors children) claims)),
          si_unions = build_tree union_of sz (padded sz [] (map ((!) own_windows) ordered))\<rparr>)"

definition bisect_left :: "instant list \<Rightarrow> instant \<Rightarrow> nat" where
  "bisect_left ts t = length (takeWhile (\<lambda>x. x < t) ts)"

definition first_claim :: "successor_index \<Rightarrow> instant \<Rightarrow> nat option \<Rightarrow> nat option" where
  "first_claim idx written own = find (\<lambda>c. Some c \<noteq> own) (si_first idx ! bisect_left (si_times idx) written)"

definition reaches :: "instant \<Rightarrow> instant option \<Rightarrow> bool" where
  "reaches written a = (case a of None \<Rightarrow> False | Some t \<Rightarrow> t \<ge> written)"

definition next_assertion :: "successor_index \<Rightarrow> instant \<Rightarrow> nat option" where
  "next_assertion idx written =
     (if \<not> reaches written (si_active idx ! 1) then None
      else Some (si_claims idx ! (descend (reaches written) (si_size idx) (si_active idx) 1 - si_size idx)))"

definition enter_claim :: "nat \<Rightarrow> successor_index \<Rightarrow> successor_index" where
  "enter_claim c idx = (case position_of (si_claims idx) c of
     None \<Rightarrow> idx
   | Some p \<Rightarrow> idx\<lparr>si_active := set_leaf later (si_size idx) p None (si_active idx)\<rparr>)"

definition publish_claim :: "nat \<Rightarrow> interval list \<Rightarrow> successor_index \<Rightarrow> successor_index" where
  "publish_claim c impact idx = (case position_of (si_ordered idx) c of
     None \<Rightarrow> idx
   | Some p \<Rightarrow> idx\<lparr>si_unions := set_leaf union_of (si_size idx) p impact (si_unions idx)\<rparr>)"

definition range_union :: "successor_index \<Rightarrow> nat \<Rightarrow> nat \<Rightarrow> interval list" where
  "range_union idx low high =
     merge_intervals (concat (map ((!) (si_unions idx)) (range_nodes (low + si_size idx) (high + si_size idx))))"

definition index_hidden :: "successor_index \<Rightarrow> instant \<Rightarrow> nat option \<Rightarrow> interval list" where
  "index_hidden idx written own =
     (let low = bisect_left (si_times idx) written; n = length (si_times idx)
      in case Option.bind own (position_of (si_ordered idx)) of
           Some p \<Rightarrow> if p \<ge> low then merge_intervals (range_union idx low p @ range_union idx (p + 1) n)
                     else range_union idx low n
         | None \<Rightarrow> range_union idx low n)"

section \<open>The reference: scans\<close>

record successor_scan =
  sn_active :: "(nat \<times> instant option) list"
  sn_windows :: "(nat \<times> instant \<times> interval list) list"

definition scan_of ::
  "nat list \<Rightarrow> successor list \<Rightarrow> fact_event option list \<Rightarrow> interval list list \<Rightarrow> successor_scan" where
  "scan_of claims successors children own_windows =
     \<lparr>sn_active = map (\<lambda>c. (c, active_leaf successors children c)) claims,
      sn_windows = map (\<lambda>c. (c, claim_time successors c, own_windows ! c))
        (sort_key (\<lambda>c. (claim_time successors c, c)) claims)\<rparr>"

definition scan_next :: "successor_scan \<Rightarrow> instant \<Rightarrow> nat option" where
  "scan_next sn written = map_option fst (find (\<lambda>(c, a). reaches written a) (sn_active sn))"

definition scan_enter :: "nat \<Rightarrow> successor_scan \<Rightarrow> successor_scan" where
  "scan_enter c sn = sn\<lparr>sn_active := map (\<lambda>(d, a). (d, if d = c then None else a)) (sn_active sn)\<rparr>"

definition scan_publish :: "nat \<Rightarrow> interval list \<Rightarrow> successor_scan \<Rightarrow> successor_scan" where
  "scan_publish c impact sn = sn\<lparr>sn_windows := map (\<lambda>(d, t, u). (d, t, if d = c then impact else u)) (sn_windows sn)\<rparr>"

definition scan_hidden :: "successor_scan \<Rightarrow> instant \<Rightarrow> nat option \<Rightarrow> interval list" where
  "scan_hidden sn written own =
     merge_intervals (concat (map (\<lambda>(c, t, u). u) (filter (\<lambda>(c, t, u). t \<ge> written \<and> Some c \<noteq> own) (sn_windows sn))))"

section \<open>The trees observe their leaves\<close>

interpretation act: observed_tree later reaches
  by unfold_locales (auto simp: later_def reaches_def split: option.split)

interpretation uni: observed_tree union_of "\<lambda>t xs. t \<in> covers xs"
  by unfold_locales (simp add: union_of_def)

section \<open>Simulation\<close>

definition represents :: "successor_index \<Rightarrow> successor_scan \<Rightarrow> bool" where
  "represents idx sn \<longleftrightarrow>
     (let n = length (si_claims idx); sz = si_size idx in
      n \<le> sz \<and> (\<exists>m. sz = 2 ^ m) \<and> heap_ok later sz (si_active idx) \<and> heap_ok union_of sz (si_unions idx)
      \<and> distinct (si_claims idx) \<and> distinct (si_ordered idx) \<and> length (si_ordered idx) = n
      \<and> map fst (sn_active sn) = si_claims idx \<and> map fst (sn_windows sn) = si_ordered idx
      \<and> map (\<lambda>w. fst (snd w)) (sn_windows sn) = si_times idx \<and> sorted (si_times idx)
      \<and> (\<forall>p < sz. si_active idx ! (sz + p) = (if p < n then snd (sn_active sn ! p) else None))
      \<and> (\<forall>p < sz. si_unions idx ! (sz + p) = (if p < n then snd (snd (sn_windows sn ! p)) else [])))"

lemma padded_nth: "length leaves \<le> sz \<Longrightarrow> p < sz \<Longrightarrow> padded sz x leaves ! (sz + p) = (if p < length leaves then leaves ! p else x)"
  by (simp add: padded_def nth_append)

lemma padded_length: "length leaves \<le> sz \<Longrightarrow> length (padded sz x leaves) = 2 * sz"
  by (simp add: padded_def)

lemma sorted_map_fst: "sorted xs \<Longrightarrow> sorted (map fst xs)"
  by (induction xs) (auto simp: less_eq_prod_def)

lemma make_index_represents:
  assumes "distinct claims"
  shows "represents (make_index claims successors children own_windows) (scan_of claims successors children own_windows)"
proof -
  define ordered where "ordered = sort_key (\<lambda>c. (claim_time successors c, c)) claims"
  define sz where "sz = tree_size (length claims)"
  have ordered: "length ordered = length claims" "distinct ordered" using assms by (simp_all add: ordered_def)
  have "sorted (map fst (map (\<lambda>c. (claim_time successors c, c)) ordered))"
    unfolding ordered_def by (rule sorted_map_fst) simp
  then have times: "sorted (map (claim_time successors) ordered)" by (simp add: o_def)
  have sz: "length claims \<le> sz" "0 < sz" "\<exists>m. sz = 2 ^ m"
    using tree_size_ge by (auto simp: sz_def tree_size_def)
  let ?active = "padded sz None (map (active_leaf successors children) claims)"
  let ?unions = "padded sz [] (map ((!) own_windows) ordered)"
  have "length ?active = 2 * sz" "length ?unions = 2 * sz" using sz(1) ordered by (simp_all add: padded_length)
  note trees = build_tree_ok [OF this(1) sz(2), where f = later] build_tree_ok [OF this(2) sz(2), where f = union_of]
  show ?thesis
    using assms sz ordered times trees
    unfolding represents_def make_index_def scan_of_def Let_def ordered_def [symmetric] sz_def [symmetric]
    by (simp add: padded_nth o_def)
qed

lemma position_of_iff:
  "distinct xs \<Longrightarrow> position_of xs c = Some p \<longleftrightarrow> p < length xs \<and> xs ! p = c"
  by (auto simp: position_of_def map_of_zip_nth map_of_eq_Some_iff in_set_zip)

lemma position_of_None: "position_of xs c = None \<longleftrightarrow> c \<notin> set xs"
  unfolding position_of_def map_of_eq_None_iff by (simp flip: set_map)

lemma enter_represents:
  assumes "represents idx sn"
  shows "represents (enter_claim c idx) (scan_enter c sn)"
proof (cases "position_of (si_claims idx) c")
  case None
  have "map fst (sn_active sn) = si_claims idx" using assms by (simp add: represents_def Let_def)
  then have "c \<notin> fst ` set (sn_active sn)" using None by (metis position_of_None set_map)
  then have "scan_enter c sn = sn" unfolding scan_enter_def by (cases sn) (force intro!: map_idI)
  then show ?thesis using assms None by (simp add: enter_claim_def)
next
  case (Some p)
  let ?n = "length (si_claims idx)" and ?sz = "si_size idx"
  have r: "?n \<le> ?sz" "heap_ok later ?sz (si_active idx)" "distinct (si_claims idx)" "map fst (sn_active sn) = si_claims idx"
    "\<And>q. q < ?sz \<Longrightarrow> si_active idx ! (?sz + q) = (if q < ?n then snd (sn_active sn ! q) else None)"
    using assms by (simp_all add: represents_def Let_def)
  have p: "p < ?n" "si_claims idx ! p = c" using Some position_of_iff [OF r(3)] by auto
  have len: "length (sn_active sn) = ?n" using r(4) by (metis length_map)
  have key: "fst (sn_active sn ! q) = c \<longleftrightarrow> q = p" if "q < ?n" for q
    using that p r(3,4) len by (metis nth_map nth_eq_iff_index_eq)
  have leaves: "set_leaf later ?sz p None (si_active idx) ! (?sz + q) =
      (if q < ?n then snd (map (\<lambda>(d, a). (d, if d = c then None else a)) (sn_active sn) ! q) else None)" if "q < ?sz" for q
    using set_leaf_ok(2) [OF r(2), of p q None] that p(1) r(1,5) len key by (auto simp: case_prod_beta)
  have "map fst (map (\<lambda>(d, a). (d, if d = c then None else a)) (sn_active sn)) = si_claims idx"
    using r(4) by (simp add: case_prod_beta o_def)
  then show ?thesis
    using assms leaves set_leaf_ok(1) [OF r(2), of p None] p(1) r(1)
    unfolding represents_def enter_claim_def scan_enter_def Some Let_def by simp
qed

lemma publish_represents:
  assumes "represents idx sn"
  shows "represents (publish_claim c impact idx) (scan_publish c impact sn)"
proof (cases "position_of (si_ordered idx) c")
  case None
  have "map fst (sn_windows sn) = si_ordered idx" using assms by (simp add: represents_def Let_def)
  then have "c \<notin> fst ` set (sn_windows sn)" using None by (metis position_of_None set_map)
  then have "scan_publish c impact sn = sn" unfolding scan_publish_def by (cases sn) (force intro!: map_idI)
  then show ?thesis using assms None by (simp add: publish_claim_def)
next
  case (Some p)
  let ?n = "length (si_claims idx)" and ?sz = "si_size idx"
  let ?new = "map (\<lambda>(d, t, u). (d, t, if d = c then impact else u)) (sn_windows sn)"
  have r: "?n \<le> ?sz" "heap_ok union_of ?sz (si_unions idx)" "distinct (si_ordered idx)" "map fst (sn_windows sn) = si_ordered idx"
    "\<And>q. q < ?sz \<Longrightarrow> si_unions idx ! (?sz + q) = (if q < ?n then snd (snd (sn_windows sn ! q)) else [])" "length (si_ordered idx) = ?n"
    using assms by (simp_all add: represents_def Let_def)
  have p: "p < ?n" "si_ordered idx ! p = c" using Some position_of_iff [OF r(3)] r(6) by auto
  have len: "length (sn_windows sn) = ?n" using r(4,6) by (metis length_map)
  have key: "fst (sn_windows sn ! q) = c \<longleftrightarrow> q = p" if "q < ?n" for q
    using that p r(3,4,6) len by (metis nth_map nth_eq_iff_index_eq)
  have leaves: "set_leaf union_of ?sz p impact (si_unions idx) ! (?sz + q) = (if q < ?n then snd (snd (?new ! q)) else [])"
    if "q < ?sz" for q
    using set_leaf_ok(2) [OF r(2), of p q impact] that p(1) r(1,5) len key by (auto simp: case_prod_beta)
  have "map fst ?new = si_ordered idx" "map (\<lambda>w. fst (snd w)) ?new = map (\<lambda>w. fst (snd w)) (sn_windows sn)"
    using r(4) by (simp_all add: case_prod_beta o_def)
  then show ?thesis
    using assms leaves set_leaf_ok(1) [OF r(2), of p impact] p(1) r(1)
    unfolding represents_def publish_claim_def scan_publish_def Some Let_def by simp
qed

lemma next_represents:
  assumes "represents idx sn"
  shows "next_assertion idx written = scan_next sn written"
proof -
  let ?n = "length (si_claims idx)" and ?sz = "si_size idx"
  obtain m where r: "?n \<le> ?sz" "?sz = 2 ^ m" "heap_ok later ?sz (si_active idx)" "map fst (sn_active sn) = si_claims idx"
    "\<And>q. q < ?sz \<Longrightarrow> si_active idx ! (?sz + q) = (if q < ?n then snd (sn_active sn ! q) else None)"
    using assms by (auto simp: represents_def Let_def)
  have len: "length (sn_active sn) = ?n" using r(4) by (metis length_map)
  have fst_nth: "fst (sn_active sn ! q) = si_claims idx ! q" if "q < ?n" for q
    using that r(4) len by (metis nth_map)
  have leaf: "reaches written (si_active idx ! (?sz + q)) \<longleftrightarrow> q < ?n \<and> reaches written (snd (sn_active sn ! q))" if "q < ?sz" for q
    using r(5) [OF that] by (simp add: reaches_def)
  have root: "(2 :: nat) ^ m \<le> 1 * 2 ^ m" "(1 + 1) * 2 ^ m \<le> 2 * (2 :: nat) ^ m" by simp_all
  show ?thesis
  proof (cases "reaches written (si_active idx ! 1)")
    case False
    then have none: "\<not> reaches written (si_active idx ! (?sz + q))" if "q < ?sz" for q
    proof -
      have "\<not> (\<exists>i. 1 * 2 ^ m \<le> i \<and> i < (1 + 1) * 2 ^ m \<and> reaches written (si_active idx ! i))"
        using act.node_sees [OF r(3) [unfolded r(2)] root, of written] False by blast
      then show ?thesis using that unfolding r(2) [symmetric] by simp
    qed
    have "\<not> reaches written (snd x)" if x: "x \<in> set (sn_active sn)" for x
    proof -
      obtain q where "q < ?n" "x = sn_active sn ! q" using x len by (metis in_set_conv_nth)
      then show ?thesis using none [of q] leaf [of q] r(1) by simp
    qed
    then have "find (\<lambda>(c, a). reaches written a) (sn_active sn) = None" by (auto simp: find_None_iff)
    then show ?thesis using False by (simp add: next_assertion_def scan_next_def)
  next
    case True
    define d where "d = descend (reaches written) ?sz (si_active idx) 1"
    have d: "?sz \<le> d" "d < 2 * ?sz" "reaches written (si_active idx ! d)" "\<And>i. ?sz \<le> i \<Longrightarrow> i < d \<Longrightarrow> \<not> reaches written (si_active idx ! i)"
      using act.descend_first [OF r(3) [unfolded r(2)] root True] unfolding d_def r(2) by auto
    define q where "q = d - ?sz"
    have q: "q < ?sz" "d = ?sz + q" using d(1,2) by (auto simp: q_def)
    then have hit: "q < ?n" "reaches written (snd (sn_active sn ! q))" using d(3) leaf [of q] by auto
    have "\<not> reaches written (snd (sn_active sn ! j))" if "j < q" for j
      using d(4) [of "?sz + j"] leaf [of j] that q hit(1) by simp
    then have "find (\<lambda>(c, a). reaches written a) (sn_active sn) = Some (sn_active sn ! q)"
      unfolding find_Some_iff using hit len by (intro exI [of _ q]) (simp add: case_prod_beta)
    then show ?thesis
      unfolding next_assertion_def scan_next_def d_def [symmetric] q_def [symmetric] using True hit(1) fst_nth by simp
  qed
qed

lemma bisect_left_iff:
  assumes "sorted ts" "p < length ts"
  shows "bisect_left ts t \<le> p \<longleftrightarrow> t \<le> ts ! p"
proof
  assume le: "bisect_left ts t \<le> p"
  then have b: "bisect_left ts t < length ts" using assms(2) by simp
  then have "\<not> ts ! bisect_left ts t < t" unfolding bisect_left_def by (rule nth_length_takeWhile)
  moreover have "ts ! bisect_left ts t \<le> ts ! p" using sorted_nth_mono [OF assms(1) le assms(2)] .
  ultimately show "t \<le> ts ! p" by simp
next
  assume t: "t \<le> ts ! p"
  show "bisect_left ts t \<le> p"
  proof (rule ccontr)
    assume "\<not> bisect_left ts t \<le> p"
    then have p: "p < length (takeWhile (\<lambda>x. x < t) ts)" by (simp add: bisect_left_def)
    then have "takeWhile (\<lambda>x. x < t) ts ! p < t" using nth_mem set_takeWhileD by fastforce
    then show False using takeWhile_nth [OF p] t by simp
  qed
qed

lemma range_union_covers:
  assumes "represents idx sn" "low \<le> high" "high \<le> length (si_times idx)"
  shows "covers (range_union idx low high) = (\<Union>p \<in> {low..<high}. covers (snd (snd (sn_windows sn ! p))))"
proof -
  let ?n = "length (si_claims idx)" and ?sz = "si_size idx"
  have r: "?n \<le> ?sz" "heap_ok union_of ?sz (si_unions idx)" "0 < ?sz"
    "\<And>q. q < ?sz \<Longrightarrow> si_unions idx ! (?sz + q) = (if q < ?n then snd (snd (sn_windows sn ! q)) else [])"
    using assms(1) by (auto simp: represents_def Let_def)
  have len: "length (si_times idx) = ?n"
    using assms(1) unfolding represents_def Let_def by (metis length_map)
  have "t \<in> covers (range_union idx low high) \<longleftrightarrow> (\<exists>p. low \<le> p \<and> p < high \<and> t \<in> covers (snd (snd (sn_windows sn ! p))))" for t
  proof -
    have "t \<in> covers (range_union idx low high) \<longleftrightarrow>
        (\<exists>x \<in> set (range_nodes (low + ?sz) (high + ?sz)). t \<in> covers (si_unions idx ! x))"
      by (simp add: range_union_def)
    also have "\<dots> \<longleftrightarrow> (\<exists>x. low + ?sz \<le> x \<and> x < high + ?sz \<and> t \<in> covers (si_unions idx ! x))"
      by (rule uni.range_sees [OF r(2)]) (use assms r len in auto)
    also have "\<dots> \<longleftrightarrow> (\<exists>p. low \<le> p \<and> p < high \<and> t \<in> covers (si_unions idx ! (?sz + p)))"
    proof
      assume "\<exists>x. low + ?sz \<le> x \<and> x < high + ?sz \<and> t \<in> covers (si_unions idx ! x)"
      then obtain x where "low + ?sz \<le> x" "x < high + ?sz" "t \<in> covers (si_unions idx ! x)" by blast
      then show "\<exists>p. low \<le> p \<and> p < high \<and> t \<in> covers (si_unions idx ! (?sz + p))" by (intro exI [of _ "x - ?sz"]) auto
    next
      assume "\<exists>p. low \<le> p \<and> p < high \<and> t \<in> covers (si_unions idx ! (?sz + p))"
      then obtain p where "low \<le> p" "p < high" "t \<in> covers (si_unions idx ! (?sz + p))" by blast
      then show "\<exists>x. low + ?sz \<le> x \<and> x < high + ?sz \<and> t \<in> covers (si_unions idx ! x)" by (intro exI [of _ "?sz + p"]) auto
    qed
    also have "\<dots> \<longleftrightarrow> (\<exists>p. low \<le> p \<and> p < high \<and> t \<in> covers (snd (snd (sn_windows sn ! p))))"
      using r(1,4) assms(3) len by auto
    finally show ?thesis .
  qed
  then show ?thesis by (simp add: set_eq_iff Bex_def conj_assoc)
qed

lemma range_union_canonical: "canonical (range_union idx low high)"
  by (simp add: range_union_def merge_canonical)

lemma hidden_represents:
  assumes "represents idx sn"
  shows "index_hidden idx written own = scan_hidden sn written own"
proof (rule canonical_unique)
  let ?w = "sn_windows sn" and ?low = "bisect_left (si_times idx) written" and ?n = "length (si_times idx)"
  have r: "map fst ?w = si_ordered idx" "map (\<lambda>w. fst (snd w)) ?w = si_times idx" "sorted (si_times idx)" "distinct (si_ordered idx)"
    using assms by (simp_all add: represents_def Let_def)
  have len: "length ?w = ?n" using r(2) by (metis length_map)
  have length_ordered: "length (si_ordered idx) = ?n" using r(1) len by (metis length_map)
  have nth: "fst (?w ! p) = si_ordered idx ! p" "fst (snd (?w ! p)) = si_times idx ! p" if "p < ?n" for p
    using that r(1,2) len by (metis nth_map)+
  have low: "?low \<le> p \<longleftrightarrow> written \<le> fst (snd (?w ! p))" if "p < ?n" for p
    using bisect_left_iff [OF r(3) that] nth(2) [OF that] by simp
  have own: "Option.bind own (position_of (si_ordered idx)) = Some q \<longleftrightarrow> q < ?n \<and> Some (fst (?w ! q)) = own" for q
    using position_of_iff [OF r(4)] nth(1) length_ordered by (cases own) auto
  have low_le: "?low \<le> ?n" unfolding bisect_left_def by (rule length_takeWhile_le)
  have "covers (index_hidden idx written own) =
      (\<Union>p \<in> {p. ?low \<le> p \<and> p < ?n \<and> Some (fst (?w ! p)) \<noteq> own}. covers (snd (snd (?w ! p))))"
  proof (cases "Option.bind own (position_of (si_ordered idx))")
    case None
    then have "Some (fst (?w ! p)) \<noteq> own" if "p < ?n" for p using own [of p] that by simp
    then have "{p. ?low \<le> p \<and> p < ?n \<and> Some (fst (?w ! p)) \<noteq> own} = {?low..<?n}" by (auto, blast)
    then show ?thesis using None range_union_covers [OF assms low_le order_refl] by (simp add: index_hidden_def Let_def)
  next
    case (Some q)
    have q: "q < ?n" "Some (fst (?w ! q)) = own" using own Some by auto
    have others: "Some (fst (?w ! p)) = own \<longleftrightarrow> p = q" if "p < ?n" for p
      using that own [of p] q Some by auto
    then have rest: "{p. ?low \<le> p \<and> p < ?n \<and> Some (fst (?w ! p)) \<noteq> own} = {p. ?low \<le> p \<and> p < ?n \<and> p \<noteq> q}" by blast
    show ?thesis
    proof (cases "q \<ge> ?low")
      case True
      have "{p. ?low \<le> p \<and> p < ?n \<and> Some (fst (?w ! p)) \<noteq> own} = {?low..<q} \<union> {q + 1..<?n}"
        unfolding rest using q(1) True by auto
      then show ?thesis
        using Some True q(1) range_union_covers [OF assms, of ?low q] range_union_covers [OF assms, of "q + 1" ?n]
        by (simp add: index_hidden_def Let_def)
    next
      case False
      then have "{p. ?low \<le> p \<and> p < ?n \<and> Some (fst (?w ! p)) \<noteq> own} = {?low..<?n}" unfolding rest by auto
      then show ?thesis
        using Some False range_union_covers [OF assms low_le order_refl] by (simp add: index_hidden_def Let_def)
    qed
  qed
  also have "\<dots> = (\<Union>p \<in> {p. p < length ?w \<and> written \<le> fst (snd (?w ! p)) \<and> Some (fst (?w ! p)) \<noteq> own}. covers (snd (snd (?w ! p))))"
  proof -
    have "{p. ?low \<le> p \<and> p < ?n \<and> Some (fst (?w ! p)) \<noteq> own} =
        {p. p < length ?w \<and> written \<le> fst (snd (?w ! p)) \<and> Some (fst (?w ! p)) \<noteq> own}"
      unfolding len using low by blast
    then show ?thesis by simp
  qed
  also have "\<dots> = (\<Union>w \<in> {w \<in> set ?w. written \<le> fst (snd w) \<and> Some (fst w) \<noteq> own}. covers (snd (snd w)))"
    by (fastforce simp: in_set_conv_nth)
  finally show "covers (index_hidden idx written own) = covers (scan_hidden sn written own)"
    by (simp add: scan_hidden_def case_prod_beta)
  show "canonical (scan_hidden sn written own)" by (simp add: scan_hidden_def merge_canonical)
  show "canonical (index_hidden idx written own)"
    by (simp add: index_hidden_def Let_def merge_canonical range_union_canonical split: option.split)
qed

section \<open>The index refines the scans\<close>

text \<open>An index in use: built for a group of claims, then entered and published in any order.\<close>

inductive index_use ::
  "nat list \<Rightarrow> successor list \<Rightarrow> fact_event option list \<Rightarrow> interval list list \<Rightarrow> successor_index \<Rightarrow> successor_scan \<Rightarrow> bool"
  for claims successors children own_windows where
  built: "index_use claims successors children own_windows
     (make_index claims successors children own_windows) (scan_of claims successors children own_windows)"
| entered: "index_use claims successors children own_windows idx sn \<Longrightarrow>
     index_use claims successors children own_windows (enter_claim c idx) (scan_enter c sn)"
| published: "index_use claims successors children own_windows idx sn \<Longrightarrow>
     index_use claims successors children own_windows (publish_claim c impact idx) (scan_publish c impact sn)"

lemma index_use_represents: "index_use claims successors children own_windows idx sn \<Longrightarrow> distinct claims \<Longrightarrow> represents idx sn"
  by (induction rule: index_use.induct) (auto intro: make_index_represents enter_represents publish_represents)

text \<open>
  C25. The successor index is a faithful accelerator. However it has been entered and published since it was
  built, the segment trees answer as plain scans of the successors do: the next unentered assertion is the
  first in claim order that was written no earlier than the instant, and the hidden intervals are the union of
  the windows of exactly the successors written no earlier, the assertion's own one excepted.
\<close>
theorem index_refines_scan:
  assumes "index_use claims successors children own_windows idx sn" "distinct claims"
  shows "next_assertion idx written = scan_next sn written \<and> index_hidden idx written own = scan_hidden sn written own"
  using index_use_represents [OF assms] by (simp add: next_represents hidden_represents)

theorem index_refines_scan_witness:
  "let e = \<lparr>fe_id = ''b'', fe_type = ''asserted'', fe_tenant = [], fe_generation = [], fe_fact = None, fe_fact_id = None,
        fe_cards = [], fe_supersedes = [''f''], fe_request = [], fe_writer = [], fe_decision = ''APPLIED'', fe_policy_version = [],
        fe_controller_version = 1, fe_created_at = 7, fe_lease_token = None, fe_redaction = None\<rparr>;
      idx = make_index [0] [(e, None)] [Some e] [[(1, 5)]]
   in next_assertion idx 3 = Some 0 \<and> index_hidden idx 3 None = [(1, 5)]"
  unfolding Let_def
  by (subst index_refines_scan [OF index_use.built, THEN conjunct1], simp,
      subst index_refines_scan [OF index_use.built, THEN conjunct2], simp)
    (simp add: scan_of_def scan_next_def scan_hidden_def active_leaf_def claim_time_def reaches_def
      merge_intervals_def merge_step_def)

end
