(* ===== verification/FactSupersession.thy ===== *)
theory FactSupersession
  imports SuccessorIndex
begin

text \<open>
  \<open>fact_supersession\<close> of \<open>src/recall/fact_projection.py\<close>: which assertions of a ledger its successors hide,
  and in which intervals. The walk over the successors is the code's loop over an explicit stack, with fuel;
  \<open>FactSupersessionCorrect\<close> shows that the fuel given always suffices.
\<close>

section \<open>Reading the history\<close>

definition sup_suffix :: string where
  "sup_suffix = ''_sup''"

definition withdrawn_for :: "string set \<Rightarrow> fact_event \<Rightarrow> string option" where
  "withdrawn_for withdrawn e =
     (if fe_id e \<in> withdrawn then Some (fe_id e)
      else if fe_type e = ''superseded'' \<and> ends_with (fe_id e) sup_suffix
      then (let holder = take (length (fe_id e) - length sup_suffix) (fe_id e)
            in if holder \<in> withdrawn then Some holder else None)
      else None)"

type_synonym history_acc = "(string, fact_event list) dict \<times> successor list \<times> string list"

definition read_application :: "fact_event \<Rightarrow> history_acc \<Rightarrow> history_acc" where
  "read_application e acc = (case acc of (by_fact, successors, paired) \<Rightarrow>
     (case fe_fact_id e of
        None \<Rightarrow> acc
      | Some fid \<Rightarrow>
          (let by_fact' = dict_append fid e by_fact
           in case fe_fact e of
                Some f \<Rightarrow> if fe_supersedes e \<noteq> []
                  then (by_fact', successors @ [(e, Some (fact_window f))], paired @ [fe_request e @ supersession_suffix])
                  else (by_fact', successors, paired)
              | None \<Rightarrow> if fe_supersedes e \<noteq> [] \<and> \<not> asserts_fact e
                  then (by_fact', successors @ [(e, None)], paired)
                  else (by_fact', successors, paired))))"

definition unpaired_receipts :: "string list \<Rightarrow> fact_event list \<Rightarrow> successor list" where
  "unpaired_receipts paired events =
     map (\<lambda>e. (e, map_option fact_window (fe_fact e)))
       (filter (\<lambda>e. fe_type e = ''superseded'' \<and> fe_request e \<notin> set paired) events)"

text \<open>What the walk reads and never changes.\<close>

record fact_plan =
  fp_by_fact :: "(string, fact_event list) dict"
  fp_successors :: "successor list"
  fp_children :: "fact_event option list"
  fp_own_windows :: "interval list list"
  fp_claims_by_child :: "(string, nat list) dict"
  fp_targets :: "string list list"
  fp_groups :: "(string, nat list) dict"
  fp_successor_by_event :: "(string, nat) dict"

definition child_of :: "string set \<Rightarrow> fact_event list \<Rightarrow> fact_event \<Rightarrow> fact_event option" where
  "child_of withdrawn events s =
     (if fe_type s = ''asserted'' then Some s
      else map_of (rev (map (\<lambda>e. (fe_id e, e)) events)) (case withdrawn_for withdrawn s of None \<Rightarrow> [] | Some h \<Rightarrow> h))"

definition make_plan :: "fact_event list \<Rightarrow> fact_plan" where
  "make_plan events =
     (let withdrawn = withdrawn_event_ids events;
          (by_fact, applied, paired) = fold read_application (map snd (applications events)) ([], [], []);
          successors = applied @ unpaired_receipts paired events;
          children = map (\<lambda>(s, w). child_of withdrawn events s) successors;
          own_windows = map (\<lambda>(s, w). if withdrawn_for withdrawn s = None then [span w] else []) successors;
          targets = map (\<lambda>(s, w). dedup (fe_supersedes s)) successors
      in \<lparr>fp_by_fact = by_fact, fp_successors = successors, fp_children = children, fp_own_windows = own_windows,
          fp_claims_by_child = fold (\<lambda>(c, child). case child of None \<Rightarrow> id | Some b \<Rightarrow> dict_append (fe_id b) c)
            (enumerate 0 children) [],
          fp_targets = targets,
          fp_groups = fold (\<lambda>(c, ts). fold (\<lambda>f. dict_append f c) ts) (enumerate 0 targets) [],
          fp_successor_by_event = fold (\<lambda>(c, (s, w)). dict_set (fe_id s) c) (enumerate 0 successors) []\<rparr>)"

section \<open>The walk\<close>

type_synonym indexes = "(string, successor_index) dict"

definition make_indexes :: "fact_plan \<Rightarrow> indexes" where
  "make_indexes p = map (\<lambda>(f, group). (f, make_index group (fp_successors p) (fp_children p) (fp_own_windows p)))
     (filter (\<lambda>(f, group). map_of (fp_by_fact p) f \<noteq> None) (fp_groups p))"

definition on_index :: "string \<Rightarrow> (successor_index \<Rightarrow> successor_index) \<Rightarrow> indexes \<Rightarrow> indexes" where
  "on_index f g d = (case map_of d f of None \<Rightarrow> d | Some idx \<Rightarrow> dict_set f (g idx) d)"

definition child_claims :: "fact_plan \<Rightarrow> fact_event \<Rightarrow> nat list" where
  "child_claims p e = dict_get (fp_claims_by_child p) (fe_id e) []"

definition enter_event :: "fact_plan \<Rightarrow> fact_event \<Rightarrow> indexes \<Rightarrow> indexes" where
  "enter_event p e = fold (\<lambda>c. fold (\<lambda>f. on_index f (enter_claim c)) (fp_targets p ! c)) (child_claims p e)"

definition publish_event :: "fact_plan \<Rightarrow> fact_event \<Rightarrow> interval list \<Rightarrow> indexes \<Rightarrow> indexes" where
  "publish_event p e hidden = fold (\<lambda>c. fold (\<lambda>f. on_index f
     (publish_claim c (merge_intervals (fp_own_windows p ! c @ hidden)))) (fp_targets p ! c)) (child_claims p e)"

definition index_for :: "indexes \<Rightarrow> fact_event \<Rightarrow> successor_index option" where
  "index_for d e = Option.bind (fe_fact_id e) (map_of d)"

definition next_child :: "fact_plan \<Rightarrow> indexes \<Rightarrow> fact_event \<Rightarrow> nat option" where
  "next_child p d e = Option.bind (index_for d e) (\<lambda>idx. next_assertion idx (fe_created_at e))"

definition hidden_now :: "fact_plan \<Rightarrow> indexes \<Rightarrow> fact_event \<Rightarrow> interval list" where
  "hidden_now p d e = (case index_for d e of None \<Rightarrow> []
     | Some idx \<Rightarrow> index_hidden idx (fe_created_at e) (map_of (fp_successor_by_event p) (fe_id e)))"

type_synonym walk_state = "indexes \<times> fact_supersession_view"

fun walk_stack :: "fact_plan \<Rightarrow> nat \<Rightarrow> fact_event list \<Rightarrow> walk_state \<Rightarrow> walk_state option" where
  "walk_stack p fuel [] st = Some st"
| "walk_stack p 0 (e # rest) st = None"
| "walk_stack p (Suc fuel) (e # rest) (d, resolved) =
     (case next_child p d e of
        Some c \<Rightarrow> (case fp_children p ! c of
           None \<Rightarrow> None
         | Some b \<Rightarrow> walk_stack p fuel (b # e # rest) (enter_event p b d, resolved))
      | None \<Rightarrow>
          (let hidden = hidden_now p d e
           in walk_stack p fuel rest (publish_event p e hidden d, dict_set (fe_id e) hidden resolved)))"

definition walk_fuel :: "fact_plan \<Rightarrow> nat" where
  "walk_fuel p = 2 * length (fp_successors p) + 1"

definition walk_root :: "fact_plan \<Rightarrow> fact_event \<Rightarrow> walk_state \<Rightarrow> walk_state option" where
  "walk_root p e st = (if map_of (snd st) (fe_id e) \<noteq> None then Some st
     else walk_stack p (walk_fuel p) [e] (enter_event p e (fst st), snd st))"

section \<open>Roots\<close>

definition first_position :: "string \<Rightarrow> string list \<Rightarrow> nat" where
  "first_position f xs = length (takeWhile (\<lambda>x. x \<noteq> f) xs)"

definition fact_roots :: "fact_plan \<Rightarrow> indexes \<Rightarrow> string \<times> fact_event list \<Rightarrow> ((nat \<times> nat \<times> nat) \<times> fact_event) list" where
  "fact_roots p d fa = (case fa of (f, assertions) \<Rightarrow>
     (case map_of d f of
        None \<Rightarrow> []
      | Some idx \<Rightarrow> List.map_filter (\<lambda>(position, a).
          case first_claim idx (fe_created_at a) (map_of (fp_successor_by_event p) (fe_id a)) of
            None \<Rightarrow> None
          | Some c \<Rightarrow> Some ((c, first_position f (fe_supersedes (fst (fp_successors p ! c))), position), a))
          (enumerate 0 assertions)))"

definition plan_roots :: "fact_plan \<Rightarrow> indexes \<Rightarrow> fact_event list" where
  "plan_roots p d = map snd (sort_key fst (concat (map (fact_roots p d) (fp_by_fact p))))"

fun walk_roots :: "fact_plan \<Rightarrow> fact_event list \<Rightarrow> walk_state \<Rightarrow> walk_state option" where
  "walk_roots p [] st = Some st"
| "walk_roots p (e # es) st = Option.bind (walk_root p e st) (walk_roots p es)"

definition fact_supersession :: "fact_event list \<Rightarrow> fact_supersession_view option" where
  "fact_supersession events =
     (let p = make_plan events; d = make_indexes p
      in map_option snd (walk_roots p (plan_roots p d) (d, [])))"

end
