(* ===== verification/FactSupersessionCorrect.thy ===== *)
theory FactSupersessionCorrect
  imports FactSupersession
begin

text \<open>
  Correctness of \<open>FactSupersession\<close>: the walk always finishes, every interval it hides is justified by a chain
  of successors, and on histories without ties it hides exactly what the chains justify.
\<close>

section \<open>What a plan holds\<close>

definition plan_group :: "fact_plan \<Rightarrow> string \<Rightarrow> nat list" where
  "plan_group p f = filter (\<lambda>c. f \<in> set (fp_targets p ! c)) [0..<length (fp_successors p)]"

definition has_child :: "fact_plan \<Rightarrow> string \<Rightarrow> nat \<Rightarrow> bool" where
  "has_child p i c \<longleftrightarrow> (\<exists>b. fp_children p ! c = Some b \<and> fe_id b = i)"

definition plan_ok :: "fact_plan \<Rightarrow> bool" where
  "plan_ok p \<longleftrightarrow> length (fp_children p) = length (fp_successors p) \<and> length (fp_targets p) = length (fp_successors p)
     \<and> (\<forall>e. child_claims p e = filter (has_child p (fe_id e)) [0..<length (fp_successors p)])
     \<and> (\<forall>f. dict_get (fp_groups p) f [] = plan_group p f) \<and> dict_ok (fp_groups p)
     \<and> (\<forall>ts \<in> set (fp_targets p). distinct ts)"

lemma enumerate_snoc: "enumerate 0 (xs @ [x]) = enumerate 0 xs @ [(length xs, x)]"
  by (simp add: enumerate_append_eq)

lemma fold_children:
  "dict_get (fold (\<lambda>(c, child). case child of None \<Rightarrow> id | Some b \<Rightarrow> dict_append (fe_id b) c) (enumerate 0 children) []) i [] =
     filter (\<lambda>c. \<exists>b. children ! c = Some b \<and> fe_id b = i) [0..<length children]"
proof (induction children rule: rev_induct)
  case (snoc child children)
  have "filter (\<lambda>c. \<exists>b. (children @ [child]) ! c = Some b \<and> fe_id b = i) [0..<length children] =
      filter (\<lambda>c. \<exists>b. children ! c = Some b \<and> fe_id b = i) [0..<length children]"
    by (rule filter_cong) (auto simp: nth_append)
  then show ?case using snoc by (cases child) (auto simp: enumerate_snoc)
qed simp

lemma fold_append_one:
  "distinct ts \<Longrightarrow> dict_get (fold (\<lambda>f. dict_append f c) ts d) g [] = dict_get d g [] @ (if g \<in> set ts then [c] else [])"
  by (induction ts arbitrary: d) auto

lemma dict_ok_append_one: "dict_ok d \<Longrightarrow> dict_ok (fold (\<lambda>f. dict_append f c) ts d)"
  by (induction ts arbitrary: d) auto

lemma fold_groups:
  assumes "\<And>ts. ts \<in> set targets \<Longrightarrow> distinct ts"
  shows "dict_get (fold (\<lambda>(c, ts). fold (\<lambda>f. dict_append f c) ts) (enumerate 0 targets) []) g [] =
       filter (\<lambda>c. g \<in> set (targets ! c)) [0..<length targets]
     \<and> dict_ok (fold (\<lambda>(c, ts). fold (\<lambda>f. dict_append f c) ts) (enumerate 0 targets) [])"
  using assms
proof (induction targets rule: rev_induct)
  case (snoc ts targets)
  have "filter (\<lambda>c. g \<in> set ((targets @ [ts]) ! c)) [0..<length targets] =
      filter (\<lambda>c. g \<in> set (targets ! c)) [0..<length targets]"
    by (rule filter_cong) (auto simp: nth_append)
  then show ?case using snoc by (simp add: enumerate_snoc fold_append_one dict_ok_append_one)
qed simp

lemma make_plan_ok: "plan_ok (make_plan events)"
proof -
  obtain by_fact applied paired where h:
      "fold read_application (map snd (applications events)) ([], [], []) = (by_fact, applied, paired)"
    by (cases "fold read_application (map snd (applications events)) ([], [], [])") auto
  define successors where "successors = applied @ unpaired_receipts paired events"
  define p where "p = make_plan events"
  have targets: "fp_targets p = map (\<lambda>(s, w). dedup (fe_supersedes s)) successors"
    and children: "fp_children p = map (\<lambda>(s, w). child_of (withdrawn_event_ids events) events s) successors"
    and claims: "fp_claims_by_child p = fold (\<lambda>(c, child). case child of None \<Rightarrow> id | Some b \<Rightarrow> dict_append (fe_id b) c)
       (enumerate 0 (fp_children p)) []"
    and groups: "fp_groups p = fold (\<lambda>(c, ts). fold (\<lambda>f. dict_append f c) ts) (enumerate 0 (fp_targets p)) []"
    and succ: "fp_successors p = successors"
    by (simp_all add: p_def make_plan_def h successors_def Let_def)
  have distinct: "distinct ts" if "ts \<in> set (fp_targets p)" for ts using that unfolding targets by auto
  have len: "length (fp_children p) = length successors" "length (fp_targets p) = length successors"
    by (simp_all add: children targets)
  have "child_claims p e = filter (has_child p (fe_id e)) [0..<length successors]" for e
    unfolding child_claims_def claims fold_children has_child_def len ..
  moreover have "dict_get (fp_groups p) f [] = plan_group p f" "dict_ok (fp_groups p)" for f
    using fold_groups [of "fp_targets p" f] distinct unfolding groups plan_group_def succ len(2) [symmetric] by simp_all
  ultimately show ?thesis using len distinct unfolding plan_ok_def p_def [symmetric] succ by simp
qed

section \<open>The state of the indexes\<close>

text \<open>The scan of one fact's successors when some claims are entered and some published.\<close>

definition plan_scan :: "fact_plan \<Rightarrow> string \<Rightarrow> nat set \<Rightarrow> (nat \<Rightarrow> interval list) \<Rightarrow> successor_scan" where
  "plan_scan p f Ec pub =
     \<lparr>sn_active = map (\<lambda>c. (c, if fp_children p ! c \<noteq> None \<and> c \<notin> Ec then Some (claim_time (fp_successors p) c) else None)) (plan_group p f),
      sn_windows = map (\<lambda>c. (c, claim_time (fp_successors p) c, pub c))
        (sort_key (\<lambda>c. (claim_time (fp_successors p) c, c)) (plan_group p f))\<rparr>"

definition indexes_ok :: "fact_plan \<Rightarrow> indexes \<Rightarrow> nat set \<Rightarrow> (nat \<Rightarrow> interval list) \<Rightarrow> bool" where
  "indexes_ok p d Ec pub \<longleftrightarrow> (\<forall>f. case map_of d f of
     None \<Rightarrow> map_of (fp_by_fact p) f = None \<or> plan_group p f = []
   | Some idx \<Rightarrow> map_of (fp_by_fact p) f \<noteq> None \<and> represents idx (plan_scan p f Ec pub))"

lemma distinct_plan_group: "distinct (plan_group p f)"
  by (simp add: plan_group_def)

lemma plan_scan_enter: "scan_enter c (plan_scan p f Ec pub) = plan_scan p f (insert c Ec) pub"
  by (auto simp: scan_enter_def plan_scan_def)

lemma plan_scan_publish: "scan_publish c u (plan_scan p f Ec pub) = plan_scan p f Ec (pub(c := u))"
  by (auto simp: scan_publish_def plan_scan_def)

lemma map_of_filtered:
  assumes "dict_ok gs"
  shows "map_of (map (\<lambda>(f, g). (f, mk g)) (filter (\<lambda>(f, g). map_of d f \<noteq> None) gs)) f =
    (case map_of gs f of None \<Rightarrow> None | Some g \<Rightarrow> if map_of d f = None then None else Some (mk g))"
  using assms
proof (induction gs)
  case (Cons x gs)
  have "map_of gs (fst x) = None" "dict_ok gs" using Cons.prems by (simp_all add: dict_ok_def map_of_eq_None_iff)
  then show ?case using Cons.IH by (cases x) auto
qed simp

lemma make_indexes_get:
  "plan_ok p \<Longrightarrow> map_of (make_indexes p) f = (case map_of (fp_groups p) f of None \<Rightarrow> None
     | Some g \<Rightarrow> if map_of (fp_by_fact p) f = None then None
         else Some (make_index g (fp_successors p) (fp_children p) (fp_own_windows p)))"
  unfolding make_indexes_def by (rule map_of_filtered) (simp add: plan_ok_def)

lemma make_indexes_ok:
  assumes "plan_ok p"
  shows "indexes_ok p (make_indexes p) {} ((!) (fp_own_windows p))"
  unfolding indexes_ok_def
proof (intro allI)
  fix f
  have get: "dict_get (fp_groups p) f [] = plan_group p f" using assms by (simp add: plan_ok_def)
  have "represents (make_index (plan_group p f) (fp_successors p) (fp_children p) (fp_own_windows p))
      (plan_scan p f {} ((!) (fp_own_windows p)))"
    using make_index_represents [OF distinct_plan_group [of p f], of "fp_successors p" "fp_children p" "fp_own_windows p"]
    unfolding scan_of_def plan_scan_def active_leaf_def by simp
  then show "case map_of (make_indexes p) f of
      None \<Rightarrow> map_of (fp_by_fact p) f = None \<or> plan_group p f = []
    | Some idx \<Rightarrow> map_of (fp_by_fact p) f \<noteq> None \<and> represents idx (plan_scan p f {} ((!) (fp_own_windows p)))"
    using get by (cases "map_of (fp_groups p) f") (auto simp: dict_get_def make_indexes_get [OF assms])
qed

lemma on_index_get: "map_of (on_index f g d) h = (if h = f then map_option g (map_of d h) else map_of d h)"
  by (simp add: on_index_def split: option.split)

lemma fold_on_index_get:
  "distinct ts \<Longrightarrow> map_of (fold (\<lambda>f. on_index f g) ts d) h = (if h \<in> set ts then map_option g (map_of d h) else map_of d h)"
  by (induction ts arbitrary: d) (auto simp: on_index_get)

lemma fold_claims_get:
  assumes "\<And>c. c \<in> set cs \<Longrightarrow> distinct (ts c)"
  shows "map_of (fold (\<lambda>c. fold (\<lambda>f. on_index f (g c)) (ts c)) cs d) h =
    map_option (fold (\<lambda>c. if h \<in> set (ts c) then g c else id) cs) (map_of d h)"
  using assms
proof (induction cs arbitrary: d)
  case (Cons c cs)
  then show ?case by (auto simp: fold_on_index_get option.map_comp o_def option.map_ident split: if_splits)
qed (simp add: option.map_id)

lemma plan_scan_cong:
  "(\<And>c. c \<in> set (plan_group p f) \<Longrightarrow> (c \<in> Ec \<longleftrightarrow> c \<in> Ec') \<and> pub c = pub' c) \<Longrightarrow> plan_scan p f Ec pub = plan_scan p f Ec' pub'"
  by (simp add: plan_scan_def)

lemma in_plan_group: "c \<in> set (plan_group p f) \<longleftrightarrow> c < length (fp_successors p) \<and> f \<in> set (fp_targets p ! c)"
  by (auto simp: plan_group_def)

lemma child_claims_iff:
  "plan_ok p \<Longrightarrow> c \<in> set (child_claims p e) \<longleftrightarrow> c < length (fp_successors p) \<and> has_child p (fe_id e) c"
  by (auto simp: plan_ok_def)

lemma targets_distinct:
  assumes "plan_ok p" "c \<in> set (child_claims p e)"
  shows "distinct (fp_targets p ! c)"
  using child_claims_iff [OF assms(1)] assms by (simp add: plan_ok_def)

lemma fold_enter_represents:
  "represents idx (plan_scan p f Ec pub) \<Longrightarrow>
     represents (fold (\<lambda>c. if f \<in> set (fp_targets p ! c) then enter_claim c else id) cs idx) (plan_scan p f (Ec \<union> set cs) pub)"
proof (induction cs arbitrary: idx Ec)
  case (Cons c cs)
  have "represents (if f \<in> set (fp_targets p ! c) then enter_claim c idx else idx) (plan_scan p f (insert c Ec) pub)"
  proof (cases "f \<in> set (fp_targets p ! c)")
    case True
    then show ?thesis using enter_represents [OF Cons.prems, of c] by (simp add: plan_scan_enter)
  next
    case False
    then have "plan_scan p f (insert c Ec) pub = plan_scan p f Ec pub" by (intro plan_scan_cong) (auto simp: in_plan_group)
    then show ?thesis using False Cons.prems by simp
  qed
  from Cons.IH [OF this] show ?case by (cases "f \<in> set (fp_targets p ! c)") simp_all
qed simp

lemma fold_publish_represents:
  "represents idx (plan_scan p f Ec pub) \<Longrightarrow>
     represents (fold (\<lambda>c. if f \<in> set (fp_targets p ! c) then publish_claim c (u c) else id) cs idx)
       (plan_scan p f Ec (\<lambda>c. if c \<in> set cs then u c else pub c))"
proof (induction cs arbitrary: idx pub)
  case (Cons c cs)
  have "represents (if f \<in> set (fp_targets p ! c) then publish_claim c (u c) idx else idx) (plan_scan p f Ec (pub(c := u c)))"
  proof (cases "f \<in> set (fp_targets p ! c)")
    case True
    then show ?thesis using publish_represents [OF Cons.prems, of c "u c"] by (simp add: plan_scan_publish)
  next
    case False
    then have "plan_scan p f Ec (pub(c := u c)) = plan_scan p f Ec pub" by (intro plan_scan_cong) (auto simp: in_plan_group)
    then show ?thesis using False Cons.prems by simp
  qed
  from Cons.IH [OF this]
  have "represents (fold (\<lambda>c. if f \<in> set (fp_targets p ! c) then publish_claim c (u c) else id) (c # cs) idx)
      (plan_scan p f Ec (\<lambda>d. if d \<in> set cs then u d else (pub(c := u c)) d))"
    by (cases "f \<in> set (fp_targets p ! c)") simp_all
  moreover have "(\<lambda>d. if d \<in> set cs then u d else (pub(c := u c)) d) = (\<lambda>d. if d \<in> set (c # cs) then u d else pub d)" by auto
  ultimately show ?case by simp
qed simp

lemma indexes_ok_Some:
  "indexes_ok p d Ec pub \<Longrightarrow> map_of d f = Some idx \<Longrightarrow>
     map_of (fp_by_fact p) f \<noteq> None \<and> represents idx (plan_scan p f Ec pub)"
  unfolding indexes_ok_def by (drule spec [of _ f]) simp

lemma indexes_ok_None:
  "indexes_ok p d Ec pub \<Longrightarrow> map_of d f = None \<Longrightarrow> map_of (fp_by_fact p) f = None \<or> plan_group p f = []"
  unfolding indexes_ok_def by (drule spec [of _ f]) simp

lemma indexes_ok_update:
  assumes "indexes_ok p d Ec pub"
    and "\<And>f. map_of d' f = map_option (g f) (map_of d f)"
    and "\<And>f idx. represents idx (plan_scan p f Ec pub) \<Longrightarrow> represents (g f idx) (plan_scan p f Ec' pub')"
  shows "indexes_ok p d' Ec' pub'"
  unfolding indexes_ok_def
proof (intro allI)
  fix f
  show "case map_of d' f of None \<Rightarrow> map_of (fp_by_fact p) f = None \<or> plan_group p f = []
      | Some idx \<Rightarrow> map_of (fp_by_fact p) f \<noteq> None \<and> represents idx (plan_scan p f Ec' pub')"
    using indexes_ok_None [OF assms(1), of f] indexes_ok_Some [OF assms(1), of f] assms(2) [of f] assms(3) [of _ f]
    by (cases "map_of d f") simp_all
qed

lemma enter_event_ok:
  assumes "plan_ok p" "indexes_ok p d Ec pub"
  shows "indexes_ok p (enter_event p e d) (Ec \<union> set (child_claims p e)) pub"
  by (rule indexes_ok_update [OF assms(2)])
    (auto simp: enter_event_def fold_claims_get [OF targets_distinct [OF assms(1)]] intro: fold_enter_represents)

lemma publish_event_ok:
  assumes "plan_ok p" "indexes_ok p d Ec pub"
  shows "indexes_ok p (publish_event p e h d) Ec
    (\<lambda>c. if c \<in> set (child_claims p e) then merge_intervals (fp_own_windows p ! c @ h) else pub c)"
  by (rule indexes_ok_update [OF assms(2)])
    (auto simp: publish_event_def fold_claims_get [OF targets_distinct [OF assms(1)]] intro: fold_publish_represents)

section \<open>Claims on an assertion\<close>

text \<open>The claims the walk follows from an event, and those of them that hide it: all but its own.\<close>

definition follows :: "fact_plan \<Rightarrow> fact_event \<Rightarrow> nat set" where
  "follows p e = {c. c < length (fp_successors p) \<and> claim_time (fp_successors p) c \<ge> fe_created_at e
     \<and> (\<exists>f. fe_fact_id e = Some f \<and> map_of (fp_by_fact p) f \<noteq> None \<and> f \<in> set (fp_targets p ! c))}"

definition hiding :: "fact_plan \<Rightarrow> fact_event \<Rightarrow> nat set" where
  "hiding p e = {c \<in> follows p e. map_of (fp_successor_by_event p) (fe_id e) \<noteq> Some c}"

lemma scan_next_plan:
  "scan_next (plan_scan p f Ec pub) t = find (\<lambda>c. fp_children p ! c \<noteq> None \<and> c \<notin> Ec \<and> claim_time (fp_successors p) c \<ge> t) (plan_group p f)"
proof -
  have "map_option fst (find (\<lambda>(c, a). reaches t a) (map (\<lambda>c. (c, if A c then Some (T c) else None)) cs)) = find (\<lambda>c. A c \<and> T c \<ge> t) cs"
    for A T and cs :: "nat list"
    by (induction cs) (auto simp: reaches_def)
  then show ?thesis by (simp add: scan_next_def plan_scan_def conj_assoc)
qed

lemma next_child_Some:
  assumes "indexes_ok p d Ec pub" "next_child p d e = Some c"
  shows "c \<in> follows p e" "c \<notin> Ec" "fp_children p ! c \<noteq> None"
proof -
  obtain f idx where f: "fe_fact_id e = Some f" "map_of d f = Some idx" "next_assertion idx (fe_created_at e) = Some c"
    using assms(2) by (auto simp: next_child_def index_for_def bind_eq_Some_conv)
  have r: "represents idx (plan_scan p f Ec pub)" "map_of (fp_by_fact p) f \<noteq> None"
    using indexes_ok_Some [OF assms(1) f(2)] by auto
  have "find (\<lambda>c. fp_children p ! c \<noteq> None \<and> c \<notin> Ec \<and> claim_time (fp_successors p) c \<ge> fe_created_at e) (plan_group p f) = Some c"
    using f(3) next_represents [OF r(1)] by (simp add: scan_next_plan)
  then have "c \<in> set (plan_group p f) \<and> fp_children p ! c \<noteq> None \<and> c \<notin> Ec \<and> claim_time (fp_successors p) c \<ge> fe_created_at e"
    unfolding find_Some_iff by auto
  then show "c \<in> follows p e" "c \<notin> Ec" "fp_children p ! c \<noteq> None"
    using f(1) r(2) by (auto simp: follows_def in_plan_group)
qed

lemma next_child_None:
  assumes "indexes_ok p d Ec pub" "next_child p d e = None" "c \<in> follows p e"
  shows "fp_children p ! c = None \<or> c \<in> Ec"
proof -
  obtain f where f: "fe_fact_id e = Some f" "map_of (fp_by_fact p) f \<noteq> None" "c \<in> set (plan_group p f)"
      "claim_time (fp_successors p) c \<ge> fe_created_at e"
    using assms(3) by (auto simp: follows_def in_plan_group)
  obtain idx where idx: "map_of d f = Some idx" "represents idx (plan_scan p f Ec pub)"
    using f(2,3) indexes_ok_None [OF assms(1), of f] indexes_ok_Some [OF assms(1), of f] by (cases "map_of d f") auto
  have "next_assertion idx (fe_created_at e) = None"
    using assms(2) f(1) idx(1) by (simp add: next_child_def index_for_def)
  then show ?thesis
    using f(3,4) next_represents [OF idx(2)] by (auto simp: scan_next_plan find_None_iff)
qed

lemma hidden_now_covers:
  assumes "indexes_ok p d Ec pub"
  shows "covers (hidden_now p d e) = (\<Union>c \<in> hiding p e. covers (pub c))"
proof (cases "index_for d e")
  case None
  have "follows p e = {}"
  proof (rule ccontr)
    assume "follows p e \<noteq> {}"
    then obtain c f where "fe_fact_id e = Some f" "map_of (fp_by_fact p) f \<noteq> None" "c \<in> set (plan_group p f)"
      by (auto simp: follows_def in_plan_group)
    then show False using None indexes_ok_None [OF assms, of f] by (auto simp: index_for_def)
  qed
  then show ?thesis using None by (simp add: hidden_now_def hiding_def)
next
  case (Some idx)
  obtain f where f: "fe_fact_id e = Some f" "map_of d f = Some idx"
    using Some by (auto simp: index_for_def bind_eq_Some_conv)
  have r: "represents idx (plan_scan p f Ec pub)" "map_of (fp_by_fact p) f \<noteq> None"
    using indexes_ok_Some [OF assms f(2)] by auto
  have "covers (scan_hidden (plan_scan p f Ec pub) t own) =
      (\<Union>c \<in> {c \<in> set (plan_group p f). claim_time (fp_successors p) c \<ge> t \<and> Some c \<noteq> own}. covers (pub c))" for t own
    by (auto simp: scan_hidden_def plan_scan_def case_prod_beta)
  moreover have "hiding p e = {c \<in> set (plan_group p f). claim_time (fp_successors p) c \<ge> fe_created_at e
      \<and> Some c \<noteq> map_of (fp_successor_by_event p) (fe_id e)}"
    using f(1) r(2) by (auto simp: hiding_def follows_def in_plan_group)
  ultimately show ?thesis using Some hidden_represents [OF r(1)] by (simp add: hidden_now_def)
qed

section \<open>The walk as a transition system\<close>

definition nodes :: "fact_plan \<Rightarrow> fact_event set" where
  "nodes p = (\<Union>(f, es) \<in> set (fp_by_fact p). set es) \<union> {b. Some b \<in> set (fp_children p)}"

definition reached :: "fact_event list \<Rightarrow> fact_supersession_view \<Rightarrow> string set" where
  "reached stack r = fe_id ` set stack \<union> dom (map_of r)"

definition entered :: "fact_plan \<Rightarrow> string set \<Rightarrow> nat set" where
  "entered p ids = {c. c < length (fp_successors p) \<and> (\<exists>i \<in> ids. has_child p i c)}"

definition published :: "fact_plan \<Rightarrow> fact_supersession_view \<Rightarrow> nat \<Rightarrow> interval list" where
  "published p r c = (case fp_children p ! c of
     None \<Rightarrow> fp_own_windows p ! c
   | Some b \<Rightarrow> (case map_of r (fe_id b) of
       None \<Rightarrow> fp_own_windows p ! c
     | Some h \<Rightarrow> merge_intervals (fp_own_windows p ! c @ h)))"

definition walk_inv :: "fact_plan \<Rightarrow> fact_event list \<Rightarrow> indexes \<Rightarrow> fact_supersession_view \<Rightarrow> bool" where
  "walk_inv p stack d r \<longleftrightarrow> plan_ok p \<and> set stack \<subseteq> nodes p
     \<and> indexes_ok p d (entered p (reached stack r)) (published p r)"

lemma indexes_ok_cong:
  assumes "indexes_ok p d Ec pub"
    and "\<And>c. c < length (fp_successors p) \<Longrightarrow> (c \<in> Ec \<longleftrightarrow> c \<in> Ec') \<and> pub c = pub' c"
  shows "indexes_ok p d Ec' pub'"
proof (rule indexes_ok_update [OF assms(1), where g = "\<lambda>f idx. idx"])
  show "represents idx (plan_scan p f Ec' pub')" if "represents idx (plan_scan p f Ec pub)" for f idx
    using that plan_scan_cong [of p f Ec Ec' pub pub'] assms(2) by (simp add: in_plan_group)
qed (simp add: option.map_ident)

lemma enter_inv:
  assumes "plan_ok p" "set stack \<subseteq> nodes p" "b \<in> nodes p" "indexes_ok p d (entered p (reached stack r)) (published p r)"
  shows "walk_inv p (b # stack) (enter_event p b d) r"
proof -
  have "entered p (reached (b # stack) r) = entered p (reached stack r) \<union> set (child_claims p b)"
    by (auto simp: entered_def reached_def child_claims_iff [OF assms(1)])
  then show ?thesis using enter_event_ok [OF assms(1,4), of b] assms(1-3) by (simp add: walk_inv_def)
qed

lemma child_in_nodes: "plan_ok p \<Longrightarrow> c < length (fp_successors p) \<Longrightarrow> fp_children p ! c = Some b \<Longrightarrow> b \<in> nodes p"
  by (auto simp: nodes_def plan_ok_def in_set_conv_nth)

lemma push_inv:
  assumes "walk_inv p (e # rest) d r" "next_child p d e = Some c" "fp_children p ! c = Some b"
  shows "walk_inv p (b # e # rest) (enter_event p b d) r"
proof -
  have "c \<in> follows p e" using assms next_child_Some by (auto simp: walk_inv_def)
  then have "b \<in> nodes p" using assms(1,3) child_in_nodes [of p c b] by (simp add: walk_inv_def follows_def)
  then show ?thesis using assms(1) by (intro enter_inv) (simp_all add: walk_inv_def)
qed

lemma pop_inv:
  assumes "walk_inv p (e # rest) d r"
  shows "walk_inv p rest (publish_event p e h d) (dict_set (fe_id e) h r)"
proof -
  have ok: "plan_ok p" "indexes_ok p d (entered p (reached (e # rest) r)) (published p r)"
    using assms by (simp_all add: walk_inv_def)
  have "reached rest (dict_set (fe_id e) h r) = reached (e # rest) r" by (auto simp: reached_def)
  moreover have "(if c \<in> set (child_claims p e) then merge_intervals (fp_own_windows p ! c @ h) else published p r c) =
      published p (dict_set (fe_id e) h r) c" if "c < length (fp_successors p)" for c
    using that by (auto simp: child_claims_iff [OF ok(1)] has_child_def published_def split: option.split)
  ultimately have "indexes_ok p (publish_event p e h d) (entered p (reached rest (dict_set (fe_id e) h r)))
      (published p (dict_set (fe_id e) h r))"
    by (intro indexes_ok_cong [OF publish_event_ok [OF ok, of e h]]) simp
  then show ?thesis using assms by (simp add: walk_inv_def)
qed

lemma walk_stack_induct:
  assumes "\<And>e rest d r c b. I (e # rest) d r \<Longrightarrow> next_child p d e = Some c \<Longrightarrow> fp_children p ! c = Some b \<Longrightarrow>
      I (b # e # rest) (enter_event p b d) r"
    and "\<And>e rest d r. I (e # rest) d r \<Longrightarrow> next_child p d e = None \<Longrightarrow>
      I rest (publish_event p e (hidden_now p d e) d) (dict_set (fe_id e) (hidden_now p d e) r)"
    and "walk_stack p fuel stack (d, r) = Some (d', r')" "I stack d r"
  shows "I [] d' r'"
  using assms(3,4)
proof (induction fuel arbitrary: stack d r)
  case 0
  then show ?case by (cases stack) auto
next
  case (Suc fuel)
  show ?case
  proof (cases stack)
    case Nil
    then show ?thesis using Suc.prems by simp
  next
    case (Cons e rest)
    show ?thesis
    proof (cases "next_child p d e")
      case None
      then show ?thesis using Suc Cons assms(2) by (auto simp: Let_def)
    next
      case (Some c)
      then show ?thesis using Suc Cons assms(1) by (auto split: option.splits)
    qed
  qed
qed

lemma walk_roots_induct:
  assumes "\<And>e d r d' r'. e \<in> set es \<Longrightarrow> J d r \<Longrightarrow> walk_root p e (d, r) = Some (d', r') \<Longrightarrow> J d' r'"
    and "walk_roots p es (d, r) = Some (d', r')" "J d r"
  shows "J d' r'"
  using assms
proof (induction es arbitrary: d r)
  case (Cons e es)
  obtain d1 r1 where "walk_root p e (d, r) = Some (d1, r1)" "walk_roots p es (d1, r1) = Some (d', r')"
    using Cons.prems(2) by (auto simp: bind_eq_Some_conv)
  moreover have "J d1 r1" using Cons.prems(1) [OF _ Cons.prems(3) calculation(1)] by simp
  ultimately show ?case using Cons.IH [of d1 r1] Cons.prems(1) by (meson list.set_intros(2))
qed simp

section \<open>Termination\<close>

text \<open>Every push enters a claim with a child that was not entered before, so pushes are bounded by the claims.\<close>

definition unentered :: "fact_plan \<Rightarrow> string set \<Rightarrow> nat set" where
  "unentered p ids = {c. c < length (fp_successors p) \<and> fp_children p ! c \<noteq> None} - entered p ids"

lemma unentered_push:
  assumes "walk_inv p (e # rest) d r" "next_child p d e = Some c" "fp_children p ! c = Some b"
  shows "card (unentered p (reached (b # e # rest) r)) < card (unentered p (reached (e # rest) r))"
proof (rule psubset_card_mono)
  show "finite (unentered p (reached (e # rest) r))" by (simp add: unentered_def)
  have "c \<in> unentered p (reached (e # rest) r)"
    using assms next_child_Some [of p d _ _ e c] by (auto simp: walk_inv_def unentered_def follows_def)
  moreover have "c \<notin> unentered p (reached (b # e # rest) r)"
    using assms(3) by (auto simp: unentered_def entered_def reached_def has_child_def)
  moreover have "unentered p (reached (b # e # rest) r) \<subseteq> unentered p (reached (e # rest) r)"
    by (auto simp: unentered_def entered_def reached_def)
  ultimately show "unentered p (reached (b # e # rest) r) \<subset> unentered p (reached (e # rest) r)" by blast
qed

lemma walk_stack_total:
  assumes "walk_inv p stack d r" "2 * card (unentered p (reached stack r)) + length stack \<le> fuel"
  shows "\<exists>d' r'. walk_stack p fuel stack (d, r) = Some (d', r')"
  using assms
proof (induction fuel arbitrary: stack d r)
  case 0
  then show ?case by simp
next
  case (Suc fuel)
  show ?case
  proof (cases stack)
    case Nil
    then show ?thesis by simp
  next
    case (Cons e rest)
    have inv: "walk_inv p (e # rest) d r" using Suc.prems Cons by simp
    show ?thesis
    proof (cases "next_child p d e")
      case None
      have "reached rest (dict_set (fe_id e) h r) = reached stack r" for h using Cons by (auto simp: reached_def)
      then show ?thesis
        using Suc.IH [OF pop_inv [OF inv, of "hidden_now p d e"]] Suc.prems(2) None Cons by (simp add: Let_def)
    next
      case (Some c)
      have "fp_children p ! c \<noteq> None" using next_child_Some(3) Some inv by (auto simp: walk_inv_def)
      then obtain b where b: "fp_children p ! c = Some b" by auto
      have "2 * card (unentered p (reached (b # stack) r)) + length (b # stack) \<le> fuel"
        using unentered_push [OF inv Some b] Suc.prems(2) Cons by simp
      then show ?thesis using Suc.IH [OF push_inv [OF inv Some b]] Some b Cons by simp
    qed
  qed
qed

lemma walk_root_total:
  assumes "walk_inv p [] d r" "e \<in> nodes p"
  shows "\<exists>d' r'. walk_root p e (d, r) = Some (d', r') \<and> walk_inv p [] d' r'"
proof (cases "map_of r (fe_id e)")
  case None
  have inv: "walk_inv p [e] (enter_event p e d) r" using enter_inv [of p "[]" e] assms by (simp add: walk_inv_def)
  have "card (unentered p ids) \<le> card {..<length (fp_successors p)}" for ids
    by (rule card_mono) (auto simp: unentered_def)
  then have "2 * card (unentered p (reached [e] r)) + length [e] \<le> walk_fuel p" by (simp add: walk_fuel_def)
  from walk_stack_total [OF inv this] obtain d' r'
    where run: "walk_stack p (walk_fuel p) [e] (enter_event p e d, r) = Some (d', r')" by blast
  have "walk_inv p [] d' r'"
    by (rule walk_stack_induct [where I = "walk_inv p", OF push_inv pop_inv run inv])
  then show ?thesis using run None by (simp add: walk_root_def)
qed (use assms in \<open>simp add: walk_root_def\<close>)

lemma walk_roots_total:
  "walk_inv p [] d r \<Longrightarrow> set es \<subseteq> nodes p \<Longrightarrow> \<exists>d' r'. walk_roots p es (d, r) = Some (d', r')"
proof (induction es arbitrary: d r)
  case (Cons e es)
  obtain d' r' where "walk_root p e (d, r) = Some (d', r')" "walk_inv p [] d' r'"
    using walk_root_total [of p d r e] Cons.prems by auto
  then show ?case using Cons by simp
qed simp

section \<open>Soundness\<close>

text \<open>What the history justifies hiding: a claim on an assertion hides its own window, and what hides its child.\<close>

inductive hides :: "fact_plan \<Rightarrow> string \<Rightarrow> instant \<Rightarrow> bool" for p where
  own: "a \<in> nodes p \<Longrightarrow> c \<in> hiding p a \<Longrightarrow> t \<in> covers (fp_own_windows p ! c) \<Longrightarrow> hides p (fe_id a) t"
| chain: "a \<in> nodes p \<Longrightarrow> c \<in> hiding p a \<Longrightarrow> fp_children p ! c = Some b \<Longrightarrow> hides p (fe_id b) t \<Longrightarrow> hides p (fe_id a) t"

definition hidden_soundly :: "fact_plan \<Rightarrow> fact_supersession_view \<Rightarrow> bool" where
  "hidden_soundly p r \<longleftrightarrow> (\<forall>i h. map_of r i = Some h \<longrightarrow> covers h \<subseteq> {t. hides p i t})"

lemma covers_published:
  "covers (published p r c) = covers (fp_own_windows p ! c) \<union>
     (case fp_children p ! c of None \<Rightarrow> {} | Some b \<Rightarrow> covers (dict_get r (fe_id b) []))"
  by (auto simp: published_def dict_get_def split: option.split)

lemma pop_sound:
  assumes "walk_inv p (e # rest) d r" "hidden_soundly p r"
  shows "hidden_soundly p (dict_set (fe_id e) (hidden_now p d e) r)"
proof -
  have e: "e \<in> nodes p" using assms(1) by (simp add: walk_inv_def)
  have child: "covers (dict_get r i []) \<subseteq> {t. hides p i t}" for i
    using assms(2) by (simp add: hidden_soundly_def dict_get_def split: option.split)
  have "covers (published p r c) \<subseteq> {t. hides p (fe_id e) t}" if "c \<in> hiding p e" for c
    using hides.own [OF e that] hides.chain [OF e that] child unfolding covers_published by (fastforce split: option.splits)
  then have "covers (hidden_now p d e) \<subseteq> {t. hides p (fe_id e) t}"
    using hidden_now_covers assms(1) unfolding walk_inv_def by fastforce
  then show ?thesis using assms(2) by (simp add: hidden_soundly_def)
qed

lemma walk_root_keeps: "walk_root p e (d, r) = Some (d', r') \<Longrightarrow> dom (map_of r) \<subseteq> dom (map_of r')"
  using walk_stack_induct [where I = "\<lambda>_ _ r'. dom (map_of r) \<subseteq> dom (map_of r')" and r = r and p = p
      and fuel = "walk_fuel p" and stack = "[e]" and d = "enter_event p e d" and d' = d' and r' = r']
  by (simp add: walk_root_def subset_insertI2 split: if_splits)

lemma walk_root_sound:
  assumes "walk_inv p [] d r" "e \<in> nodes p" "hidden_soundly p r" "walk_root p e (d, r) = Some (d', r')"
  shows "walk_inv p [] d' r' \<and> hidden_soundly p r'"
proof (cases "map_of r (fe_id e)")
  case None
  have "walk_inv p [e] (enter_event p e d) r" using enter_inv [of p "[]" e] assms(1,2) by (simp add: walk_inv_def)
  moreover have "walk_stack p (walk_fuel p) [e] (enter_event p e d, r) = Some (d', r')"
    using assms(4) None by (simp add: walk_root_def)
  ultimately show ?thesis
    using walk_stack_induct [where I = "\<lambda>stack d r. walk_inv p stack d r \<and> hidden_soundly p r"]
      push_inv pop_inv pop_sound assms(3) by (metis (no_types, lifting))
qed (use assms in \<open>simp add: walk_root_def\<close>)

lemma walk_roots_sound:
  assumes "walk_inv p [] d r" "set es \<subseteq> nodes p" "hidden_soundly p r" "walk_roots p es (d, r) = Some (d', r')"
  shows "hidden_soundly p r'"
proof -
  have "walk_inv p [] d' r' \<and> hidden_soundly p r'"
    by (rule walk_roots_induct [where J = "\<lambda>d r. walk_inv p [] d r \<and> hidden_soundly p r", OF _ assms(4)])
      (use walk_root_sound assms in blast)+
  then show ?thesis ..
qed

lemma plan_roots_nodes: "set (plan_roots p d) \<subseteq> nodes p"
proof
  fix e
  assume "e \<in> set (plan_roots p d)"
  then obtain f es k where f: "(f, es) \<in> set (fp_by_fact p)" and "(k, e) \<in> set (fact_roots p d (f, es))"
    by (auto simp: plan_roots_def)
  then have "e \<in> set es"
    by (auto simp: fact_roots_def set_map_filter in_set_enumerate_eq split: option.splits)
  then show "e \<in> nodes p" using f by (auto simp: nodes_def)
qed

lemma start_inv: "walk_inv (make_plan events) [] (make_indexes (make_plan events)) []"
proof -
  have "published p [] = (!) (fp_own_windows p)" "entered p (reached [] []) = {}" for p
    by (auto simp: published_def entered_def reached_def split: option.split)
  then show ?thesis using make_indexes_ok [OF make_plan_ok] make_plan_ok by (simp add: walk_inv_def)
qed

section \<open>Completeness\<close>

text \<open>The walk cuts a cycle of claims where it closes; where events have their own ids and claims no cycle, nothing is lost.\<close>

definition claim_graph :: "fact_plan \<Rightarrow> (string \<times> string) set" where
  "claim_graph p = {(fe_id a, fe_id b) | a b. a \<in> nodes p \<and> fe_id b \<noteq> fe_id a
     \<and> (\<exists>c \<in> follows p a. fp_children p ! c = Some b)}"

definition hidden_completely :: "fact_plan \<Rightarrow> fact_supersession_view \<Rightarrow> bool" where
  "hidden_completely p r \<longleftrightarrow> (\<forall>i h. map_of r i = Some h \<longrightarrow> {t. hides p i t} \<subseteq> covers h)"

definition chained :: "fact_plan \<Rightarrow> fact_event list \<Rightarrow> bool" where
  "chained p stack \<longleftrightarrow> sorted_wrt (\<lambda>x y. (fe_id y, fe_id x) \<in> (claim_graph p)\<^sup>+) stack"

text \<open>A claim that leads back to the same assertion hides nothing by itself.\<close>

lemma hides_step:
  "hides p i t \<Longrightarrow> \<exists>a c. a \<in> nodes p \<and> fe_id a = i \<and> c \<in> hiding p a \<and>
     (t \<in> covers (fp_own_windows p ! c) \<or> (\<exists>b. fp_children p ! c = Some b \<and> fe_id b \<noteq> i \<and> hides p (fe_id b) t))"
proof (induction rule: hides.induct)
  case (chain a c b t)
  then show ?case by (cases "fe_id b = fe_id a") auto
qed blast

lemma push_chained:
  assumes "walk_inv p (e # rest) d r" "next_child p d e = Some c" "fp_children p ! c = Some b" "chained p (e # rest)"
  shows "chained p (b # e # rest)"
proof -
  have c: "c \<in> follows p e" "c \<notin> entered p (reached (e # rest) r)"
    using assms(1,2) next_child_Some by (auto simp: walk_inv_def)
  then have "fe_id b \<noteq> fe_id e" using assms(3) by (auto simp: entered_def reached_def has_child_def follows_def)
  then have "(fe_id e, fe_id b) \<in> claim_graph p"
    using c(1) assms(1,3) by (auto simp: claim_graph_def walk_inv_def)
  then show ?thesis using assms(4) by (auto simp: chained_def intro: trancl.trancl_into_trancl)
qed

lemma pop_complete:
  assumes "inj_on fe_id (nodes p)" "acyclic (claim_graph p)"
    and "walk_inv p (e # rest) d r" "next_child p d e = None" "chained p (e # rest)" "hidden_completely p r"
  shows "hidden_completely p (dict_set (fe_id e) (hidden_now p d e) r)"
proof -
  have e: "e \<in> nodes p" and ok: "indexes_ok p d (entered p (reached (e # rest) r)) (published p r)"
    using assms(3) by (simp_all add: walk_inv_def)
  have "t \<in> covers (hidden_now p d e)" if hidden: "hides p (fe_id e) t" for t
  proof -
    obtain a c where a: "a \<in> nodes p" "fe_id a = fe_id e" and c: "c \<in> hiding p a"
      and why: "t \<in> covers (fp_own_windows p ! c) \<or> (\<exists>b. fp_children p ! c = Some b \<and> fe_id b \<noteq> fe_id e \<and> hides p (fe_id b) t)"
      using hides_step [OF hidden] by auto
    have "a = e" using assms(1) a e by (auto dest: inj_onD)
    have "t \<in> covers (published p r c)"
      using why
    proof
      assume "\<exists>b. fp_children p ! c = Some b \<and> fe_id b \<noteq> fe_id e \<and> hides p (fe_id b) t"
      then obtain b where b: "fp_children p ! c = Some b" "fe_id b \<noteq> fe_id e" "hides p (fe_id b) t" by blast
      have follows: "c \<in> follows p e" using c \<open>a = e\<close> by (simp add: hiding_def)
      then have "c \<in> entered p (reached (e # rest) r)" using next_child_None [OF ok assms(4) follows] b(1) by simp
      then have "fe_id b \<in> reached rest r" using b(1,2) by (auto simp: entered_def reached_def has_child_def)
      moreover have "fe_id b \<notin> fe_id ` set rest"
      proof
        assume "fe_id b \<in> fe_id ` set rest"
        then have "(fe_id b, fe_id e) \<in> (claim_graph p)\<^sup>+" using assms(5) by (auto simp: chained_def)
        moreover have "(fe_id e, fe_id b) \<in> claim_graph p" using e b(1,2) follows by (auto simp: claim_graph_def)
        ultimately show False using assms(2) unfolding acyclic_def by (meson trancl.trancl_into_trancl)
      qed
      ultimately obtain h where h: "map_of r (fe_id b) = Some h" by (auto simp: reached_def)
      then have "t \<in> covers h" using assms(6) b(3) by (auto simp: hidden_completely_def)
      then show ?thesis using h b(1) by (simp add: covers_published dict_get_def)
    qed (simp add: covers_published)
    then show ?thesis using c \<open>a = e\<close> hidden_now_covers [OF ok, of e] by auto
  qed
  then show ?thesis using assms(6) by (auto simp: hidden_completely_def)
qed

lemma walk_root_complete:
  assumes "inj_on fe_id (nodes p)" "acyclic (claim_graph p)" "walk_inv p [] d r" "e \<in> nodes p" "hidden_completely p r"
    and "walk_root p e (d, r) = Some (d', r')"
  shows "walk_inv p [] d' r' \<and> hidden_completely p r' \<and> insert (fe_id e) (dom (map_of r)) \<subseteq> dom (map_of r')"
proof (cases "map_of r (fe_id e)")
  case None
  define I where "I stack d r' \<longleftrightarrow> walk_inv p stack d r' \<and> hidden_completely p r' \<and> chained p stack
    \<and> insert (fe_id e) (dom (map_of r)) \<subseteq> reached stack r'" for stack d r'
  have "I [] d' r'"
  proof (rule walk_stack_induct [where I = I])
    show "walk_stack p (walk_fuel p) [e] (enter_event p e d, r) = Some (d', r')"
      using assms(6) None by (simp add: walk_root_def)
    show "I [e] (enter_event p e d) r"
      using enter_inv [of p "[]" e] assms(3-5) by (simp add: I_def walk_inv_def chained_def reached_def subset_insertI2)
    show "I (b # f # rest) (enter_event p b x) y"
      if I: "I (f # rest) x y" and step: "next_child p x f = Some c" "fp_children p ! c = Some b" for f rest x y c b
    proof -
      have inv: "walk_inv p (f # rest) x y" and ch: "chained p (f # rest)" using I by (simp_all add: I_def)
      have "reached (f # rest) y \<subseteq> reached (b # f # rest) y" by (auto simp: reached_def)
      then show ?thesis using I push_inv [OF inv step] push_chained [OF inv step ch] by (auto simp: I_def)
    qed
    show "I rest (publish_event p f (hidden_now p x f) x) (dict_set (fe_id f) (hidden_now p x f) y)"
      if I: "I (f # rest) x y" and stop: "next_child p x f = None" for f rest x y
    proof -
      have inv: "walk_inv p (f # rest) x y" and ch: "chained p (f # rest)" "chained p rest" and complete: "hidden_completely p y"
        using I by (simp_all add: I_def chained_def)
      have "reached rest (dict_set (fe_id f) h y) = reached (f # rest) y" for h by (auto simp: reached_def)
      then show ?thesis
        using I ch(2) pop_inv [OF inv] pop_complete [OF assms(1,2) inv stop ch(1) complete] by (simp add: I_def)
    qed
  qed
  then show ?thesis by (simp add: I_def reached_def)
qed (use assms in \<open>auto simp: walk_root_def\<close>)

section \<open>Roots\<close>

text \<open>Two claims at each position are enough to find the first one that is not the assertion's own.\<close>

lemma first_two_nth: "k \<le> length xs \<Longrightarrow> first_two xs ! k = take 2 (sort (drop k xs))"
proof (induction xs arbitrary: k)
  case (Cons x xs)
  have two: "take 2 (insort x (take 2 zs)) = take 2 (insort x zs)" for zs :: "nat list"
    by (cases zs; cases "tl zs") auto
  have "hd (first_two xs) = take 2 (sort xs)" using Cons.IH [of 0] by (cases xs) (simp_all add: Let_def hd_conv_nth)
  moreover have "sort (ys @ [x]) = insort x (sort ys)" for ys by (induction ys) (simp_all add: insort_left_comm)
  ultimately show ?case using Cons by (cases k) (simp_all add: Let_def two sorted_wrt_take sorted_sort_id)
qed simp

lemma two_avoid_one:
  assumes "distinct xs" "c \<in> set xs" "own \<noteq> Some c"
  shows "find (\<lambda>c. Some c \<noteq> own) (take 2 xs) \<noteq> None"
proof (cases xs)
  case (Cons x ys)
  then show ?thesis using assms by (cases ys) auto
qed (use assms in simp)

lemma first_claim_finds:
  assumes "distinct claims" "c \<in> set claims" "claim_time successors c \<ge> t" "own \<noteq> Some c"
  shows "first_claim (make_index claims successors children own_windows) t own \<noteq> None"
proof -
  define ordered where "ordered = sort_key (\<lambda>c. (claim_time successors c, c)) claims"
  define k where "k = bisect_left (map (claim_time successors) ordered) t"
  have drop: "drop k ordered = dropWhile (\<lambda>c. claim_time successors c < t) ordered"
    by (simp add: k_def bisect_left_def takeWhile_map dropWhile_eq_drop o_def)
  have "c \<in> set ordered" using assms(2) by (simp add: ordered_def)
  then have "c \<in> set (drop k ordered)"
    using assms(3) set_takeWhileD takeWhile_dropWhile_id [of "\<lambda>c. claim_time successors c < t" ordered]
    unfolding drop by (metis Un_iff not_less set_append)
  then have "find (\<lambda>c. Some c \<noteq> own) (take 2 (sort (drop k ordered))) \<noteq> None"
    using assms(1,4) by (intro two_avoid_one [of _ c]) (simp_all add: ordered_def)
  moreover have "k \<le> length ordered"
    using length_takeWhile_le [of "\<lambda>x. x < t" "map (claim_time successors) ordered"] by (simp add: k_def bisect_left_def)
  ultimately show ?thesis
    unfolding first_claim_def make_index_def Let_def ordered_def [symmetric] by (simp add: k_def first_two_nth)
qed

lemma read_application_by_fact:
  "fst (read_application e acc) = (case fe_fact_id e of None \<Rightarrow> fst acc | Some f \<Rightarrow> dict_append f e (fst acc))"
  by (cases acc) (auto simp: read_application_def Let_def split: option.split)

lemma read_applications:
  assumes "fold read_application es ([], [], []) = (by_fact, succ, paired)"
  shows "dict_get by_fact f [] = filter (\<lambda>e. fe_fact_id e = Some f) es" "dict_ok by_fact"
proof -
  have "let d = fst (fold read_application es ([], [], []))
    in dict_get d f [] = filter (\<lambda>e. fe_fact_id e = Some f) es \<and> dict_ok d"
    by (induction es rule: rev_induct)
      (auto simp: read_application_by_fact Let_def dict_append_def dict_ok_def [of "[]"] split: option.split)
  then show "dict_get by_fact f [] = filter (\<lambda>e. fe_fact_id e = Some f) es" "dict_ok by_fact" using assms by simp_all
qed

lemma plan_by_fact:
  "dict_get (fp_by_fact (make_plan events)) f [] = filter (\<lambda>e. fe_fact_id e = Some f) (map snd (applications events))"
  "dict_ok (fp_by_fact (make_plan events))"
  using read_applications [of "map snd (applications events)"]
  by (cases "fold read_application (map snd (applications events)) ([], [], [])"; simp add: make_plan_def Let_def)+

lemma application_in_nodes:
  assumes "a \<in> set (map snd (applications events))" "fe_fact_id a \<noteq> None"
  shows "a \<in> nodes (make_plan events)"
proof -
  obtain f where "fe_fact_id a = Some f" using assms(2) by auto
  then have "a \<in> set (dict_get (fp_by_fact (make_plan events)) f [])"
    using assms(1) by (simp only: plan_by_fact set_filter) simp
  then obtain es where "map_of (fp_by_fact (make_plan events)) f = Some es" "a \<in> set es"
    by (cases "map_of (fp_by_fact (make_plan events)) f") (simp_all add: dict_get_def)
  then show ?thesis by (auto simp: nodes_def dest: map_of_SomeD)
qed

lemma hiding_is_root:
  assumes "a \<in> set (map snd (applications events))" "c \<in> hiding (make_plan events) a"
  shows "a \<in> set (plan_roots (make_plan events) (make_indexes (make_plan events)))"
proof -
  let ?p = "make_plan events"
  obtain f where f: "fe_fact_id a = Some f" "c \<in> set (plan_group ?p f)" "claim_time (fp_successors ?p) c \<ge> fe_created_at a"
      and own: "map_of (fp_successor_by_event ?p) (fe_id a) \<noteq> Some c"
    using assms(2) by (auto simp: hiding_def follows_def in_plan_group)
  have mem: "a \<in> set (dict_get (fp_by_fact ?p) f [])" using assms(1) f(1) by (simp only: plan_by_fact set_filter) simp
  then obtain es where es: "map_of (fp_by_fact ?p) f = Some es" "a \<in> set es"
    by (cases "map_of (fp_by_fact ?p) f") (simp_all add: dict_get_def)
  have "dict_get (fp_groups ?p) f [] = plan_group ?p f" using make_plan_ok by (simp add: plan_ok_def)
  then have "map_of (fp_groups ?p) f = Some (plan_group ?p f)"
    using f(2) by (auto simp: dict_get_def split: option.splits)
  then have idx: "map_of (make_indexes ?p) f =
      Some (make_index (plan_group ?p f) (fp_successors ?p) (fp_children ?p) (fp_own_windows ?p))"
    using es by (simp add: make_indexes_get [OF make_plan_ok])
  obtain k where "k < length es" "es ! k = a" using es(2) by (auto simp: in_set_conv_nth)
  then have k: "(k, a) \<in> set (enumerate 0 es)" by (simp add: in_set_enumerate_eq)
  obtain c' where "first_claim (make_index (plan_group ?p f) (fp_successors ?p) (fp_children ?p) (fp_own_windows ?p))
      (fe_created_at a) (map_of (fp_successor_by_event ?p) (fe_id a)) = Some c'"
    using first_claim_finds [OF distinct_plan_group f(2,3) own, of "fp_children ?p" "fp_own_windows ?p"] by blast
  then have "\<exists>x. (x, a) \<in> set (fact_roots ?p (make_indexes ?p) (f, es))"
    using k unfolding fact_roots_def by (force simp: idx set_map_filter)
  moreover have "(f, es) \<in> set (fp_by_fact ?p)" using es(1) by (rule map_of_SomeD)
  ultimately show ?thesis by (force simp: plan_roots_def)
qed

lemma walk_roots_complete:
  assumes "inj_on fe_id (nodes p)" "acyclic (claim_graph p)" "walk_inv p [] d r" "set es \<subseteq> nodes p" "hidden_completely p r"
    and "walk_roots p es (d, r) = Some (d', r')"
  shows "hidden_completely p r' \<and> fe_id ` set es \<subseteq> dom (map_of r')"
  using assms(3-6)
proof (induction es arbitrary: d r)
  case (Cons e es)
  obtain d1 r1 where step: "walk_root p e (d, r) = Some (d1, r1)" "walk_roots p es (d1, r1) = Some (d', r')"
    using Cons.prems(4) by (auto simp: bind_eq_Some_conv)
  have root: "walk_inv p [] d1 r1" "hidden_completely p r1" "insert (fe_id e) (dom (map_of r)) \<subseteq> dom (map_of r1)"
    using walk_root_complete [OF assms(1,2) Cons.prems(1) _ Cons.prems(3) step(1)] Cons.prems(2) by auto
  have "dom (map_of r1) \<subseteq> dom (map_of r')"
    by (rule walk_roots_induct [where J = "\<lambda>_ r. dom (map_of r1) \<subseteq> dom (map_of r)", OF _ step(2)])
      (use walk_root_keeps in blast)+
  then show ?case using Cons.IH [OF root(1) _ root(2) step(2)] Cons.prems(2) root(3) by auto
qed simp

section \<open>The index\<close>

lemma fact_supersession_run:
  obtains d view where "walk_roots (make_plan events) (plan_roots (make_plan events) (make_indexes (make_plan events)))
      (make_indexes (make_plan events), []) = Some (d, view)"
    and "fact_supersession events = Some view"
  using walk_roots_total [OF start_inv plan_roots_nodes, of events "make_indexes (make_plan events)"]
  by (auto simp: fact_supersession_def Let_def)

section \<open>Any fuel that is enough gives the same view\<close>

text \<open>The walk with a number of iterations allowed for each root.\<close>

definition walk_root_within :: "nat \<Rightarrow> fact_plan \<Rightarrow> fact_event \<Rightarrow> walk_state \<Rightarrow> walk_state option" where
  "walk_root_within fuel p e st = (if map_of (snd st) (fe_id e) \<noteq> None then Some st
     else walk_stack p fuel [e] (enter_event p e (fst st), snd st))"

fun walk_roots_within :: "nat \<Rightarrow> fact_plan \<Rightarrow> fact_event list \<Rightarrow> walk_state \<Rightarrow> walk_state option" where
  "walk_roots_within fuel p [] st = Some st"
| "walk_roots_within fuel p (e # es) st = Option.bind (walk_root_within fuel p e st) (walk_roots_within fuel p es)"

definition fact_supersession_within :: "nat \<Rightarrow> fact_event list \<Rightarrow> fact_supersession_view option" where
  "fact_supersession_within fuel events = (let p = make_plan events; d = make_indexes p
     in map_option snd (walk_roots_within fuel p (plan_roots p d) (d, [])))"

lemma walk_stack_more: "walk_stack p fuel stack st = Some out \<Longrightarrow> walk_stack p (fuel + extra) stack st = Some out"
  by (induction p fuel stack st rule: walk_stack.induct) (auto simp: Let_def split: option.splits)

lemma walk_roots_more:
  "walk_roots p es st = Some out \<Longrightarrow> walk_roots_within (walk_fuel p + extra) p es st = Some out"
proof (induction es arbitrary: st)
  case (Cons e es)
  then obtain st' where step: "walk_root p e st = Some st'" "walk_roots p es st' = Some out" by (auto simp: bind_eq_Some_conv)
  have "walk_root_within (walk_fuel p + extra) p e st = Some st'"
    using step(1) by (auto simp: walk_root_def walk_root_within_def split: if_splits intro: walk_stack_more)
  then show ?case using Cons.IH [OF step(2)] by simp
qed simp

text \<open>
  C21. Building the supersession index of any history finishes: whatever ties, cycles and withdrawn events the
  ledger holds, the walk from each root over successors of successors ends within one more than twice as many
  iterations as the plan has successors, and allowing it more changes nothing.
\<close>

theorem fact_supersession_terminates:
  "\<exists>view. fact_supersession events = Some view
     \<and> (\<forall>extra. fact_supersession_within (2 * length (fp_successors (make_plan events)) + 1 + extra) events = Some view)"
proof -
  obtain d view where run: "walk_roots (make_plan events) (plan_roots (make_plan events) (make_indexes (make_plan events)))
      (make_indexes (make_plan events), []) = Some (d, view)" "fact_supersession events = Some view"
    by (rule fact_supersession_run)
  have "fact_supersession_within (walk_fuel (make_plan events) + extra) events = Some view" for extra
    using walk_roots_more [OF run(1)] by (simp add: fact_supersession_within_def Let_def)
  then show ?thesis using run(2) by (simp add: walk_fuel_def)
qed

section \<open>What the ledger says, read without the plan\<close>

definition withdrawn_on_ledger :: "fact_event list \<Rightarrow> string \<Rightarrow> bool" where
  "withdrawn_on_ledger events i \<longleftrightarrow> (\<exists>e \<in> set events. fe_type e = ''withdrawn'' \<and> fe_request e = ''withdrawal:'' @ i)"

text \<open>
  The successors with their windows: every application that supersedes and states a fact, or repeats one whose value
  was erased, and every superseded receipt that no such application wrote.
\<close>

definition applied_successor :: "fact_event \<Rightarrow> successor option" where
  "applied_successor e = (if fe_fact_id e = None \<or> fe_supersedes e = [] then None
     else (case fe_fact e of Some f \<Rightarrow> Some (e, Some (af_valid_from f, af_valid_until f))
       | None \<Rightarrow> if fe_type e = ''asserted'' \<and> fe_decision e \<noteq> ''DUPLICATE'' then None else Some (e, None)))"

definition applied_successors :: "fact_event list \<Rightarrow> successor list" where
  "applied_successors events = List.map_filter applied_successor (map snd (applications events))"

definition receipt_successors :: "fact_event list \<Rightarrow> successor list" where
  "receipt_successors events = map (\<lambda>e. (e, map_option (\<lambda>f. (af_valid_from f, af_valid_until f)) (fe_fact e)))
     (filter (\<lambda>e. fe_type e = ''superseded'' \<and>
        \<not> (\<exists>a \<in> set (map snd (applications events)). fe_fact_id a \<noteq> None \<and> fe_fact a \<noteq> None \<and> fe_supersedes a \<noteq> []
             \<and> fe_request e = fe_request a @ '':supersession'')) events)"

text \<open>The withdrawn assertion that a successor is, or, for a receipt, that it was written for.\<close>

definition holder :: "fact_event list \<Rightarrow> fact_event \<Rightarrow> string \<Rightarrow> bool" where
  "holder events s i \<longleftrightarrow> withdrawn_on_ledger events i \<and>
     (i = fe_id s \<or> \<not> withdrawn_on_ledger events (fe_id s) \<and> fe_type s = ''superseded'' \<and> fe_id s = i @ ''_sup'')"

text \<open>
  The assertion whose hiding a successor passes on: itself, or the event of its holder (the empty id where it has none).
\<close>

definition passes_on :: "fact_event list \<Rightarrow> fact_event \<Rightarrow> fact_event \<Rightarrow> bool" where
  "passes_on events s b \<longleftrightarrow> (if fe_type s = ''asserted'' then b = s
     else b \<in> set events \<and> (holder events s (fe_id b) \<or> (\<nexists>i. holder events s i) \<and> fe_id b = []))"

text \<open>
  A successor claims an assertion if it names the assertion's fact, was recorded no earlier, and is not the
  assertion's own entry, which is the last of its id.
\<close>

definition claimed_by :: "fact_event list \<Rightarrow> fact_event \<Rightarrow> fact_event \<Rightarrow> fact_span option \<Rightarrow> bool" where
  "claimed_by events a s w \<longleftrightarrow> (let succ = applied_successors events @ receipt_successors events in
     \<exists>c < length succ. succ ! c = (s, w) \<and> fe_created_at a \<le> fe_created_at s
       \<and> (\<exists>f \<in> set (fe_supersedes s). fe_fact_id a = Some f)
       \<and> (fe_id s \<noteq> fe_id a \<or> (\<exists>c' < length succ. c < c' \<and> fe_id (fst (succ ! c')) = fe_id a)))"

definition walked :: "fact_event list \<Rightarrow> fact_event \<Rightarrow> bool" where
  "walked events a \<longleftrightarrow> a \<in> set (map snd (applications events))
     \<or> (\<exists>(s, w) \<in> set (applied_successors events @ receipt_successors events). passes_on events s a)"

inductive ledger_hides :: "fact_event list \<Rightarrow> string \<Rightarrow> instant \<Rightarrow> bool" for events where
  own: "walked events a \<Longrightarrow> claimed_by events a s w \<Longrightarrow> \<nexists>i. holder events s i
     \<Longrightarrow> fst (span w) \<le> t \<Longrightarrow> t < snd (span w) \<Longrightarrow> ledger_hides events (fe_id a) t"
| chain: "walked events a \<Longrightarrow> claimed_by events a s w \<Longrightarrow> passes_on events s b \<Longrightarrow> ledger_hides events (fe_id b) t
     \<Longrightarrow> ledger_hides events (fe_id a) t"

lemma withdrawn_ids: "i \<in> withdrawn_event_ids events \<longleftrightarrow> withdrawn_on_ledger events i"
  by (auto simp: withdrawn_event_ids_def withdrawn_on_ledger_def withdrawal_prefix_def starts_with_iff image_iff)

lemma withdrawn_for_holder:
  "withdrawn_for (withdrawn_event_ids events) s = Some i \<longleftrightarrow> holder events s i"
  by (auto simp: withdrawn_for_def holder_def withdrawn_ids Let_def ends_with_iff sup_suffix_def)

lemma map_filter_append: "List.map_filter f (xs @ ys) = List.map_filter f xs @ List.map_filter f ys"
  by (induction xs) (simp_all add: List.map_filter_simps split: option.split)

lemma read_one_application:
  "snd (read_application e (by_fact, succ, paired)) =
    (succ @ (case applied_successor e of None \<Rightarrow> [] | Some s \<Rightarrow> [s]),
     paired @ (if fe_fact_id e \<noteq> None \<and> fe_fact e \<noteq> None \<and> fe_supersedes e \<noteq> [] then [fe_request e @ supersession_suffix] else []))"
  by (simp add: read_application_def applied_successor_def fact_window_def asserts_fact_def Let_def split: option.split)

lemma read_all_applications:
  "snd (fold read_application es ([], [], [])) = (List.map_filter applied_successor es,
     map (\<lambda>e. fe_request e @ supersession_suffix)
       (filter (\<lambda>e. fe_fact_id e \<noteq> None \<and> fe_fact e \<noteq> None \<and> fe_supersedes e \<noteq> []) es))"
proof (induction es rule: rev_induct)
  case (snoc e es)
  obtain by_fact succ paired where h: "fold read_application es ([], [], []) = (by_fact, succ, paired)"
    by (cases "fold read_application es ([], [], [])") auto
  show ?case using snoc read_one_application [of e by_fact succ paired]
    by (simp add: h map_filter_append List.map_filter_simps split: option.split)
qed (simp add: List.map_filter_simps)

lemma unpaired_receipts_read:
  "unpaired_receipts (map (\<lambda>e. fe_request e @ supersession_suffix)
      (filter (\<lambda>e. fe_fact_id e \<noteq> None \<and> fe_fact e \<noteq> None \<and> fe_supersedes e \<noteq> []) (map snd (applications events)))) events =
    receipt_successors events"
proof -
  have "filter (\<lambda>e. fe_type e = ''superseded'' \<and> fe_request e \<notin> set (map (\<lambda>e. fe_request e @ supersession_suffix)
      (filter (\<lambda>e. fe_fact_id e \<noteq> None \<and> fe_fact e \<noteq> None \<and> fe_supersedes e \<noteq> []) (map snd (applications events))))) events =
    filter (\<lambda>e. fe_type e = ''superseded'' \<and>
        \<not> (\<exists>a \<in> set (map snd (applications events)). fe_fact_id a \<noteq> None \<and> fe_fact a \<noteq> None \<and> fe_supersedes a \<noteq> []
             \<and> fe_request e = fe_request a @ '':supersession'')) events"
    by (intro filter_cong refl) (unfold supersession_suffix_def set_map set_filter, blast)
  then show ?thesis unfolding unpaired_receipts_def receipt_successors_def by (simp add: fact_window_def [abs_def])
qed

lemma plan_reads:
  "fp_successors (make_plan events) = applied_successors events @ receipt_successors events"
  "fp_children (make_plan events) = map (\<lambda>(s, w). child_of (withdrawn_event_ids events) events s) (fp_successors (make_plan events))"
  "fp_own_windows (make_plan events) =
     map (\<lambda>(s, w). if withdrawn_for (withdrawn_event_ids events) s = None then [span w] else []) (fp_successors (make_plan events))"
  "fp_targets (make_plan events) = map (\<lambda>(s, w). dedup (fe_supersedes s)) (fp_successors (make_plan events))"
  "fp_successor_by_event (make_plan events) =
     fold (\<lambda>(c, (s, w)). dict_set (fe_id s) c) (enumerate 0 (fp_successors (make_plan events))) []"
  using read_all_applications [of "map snd (applications events)"] unpaired_receipts_read [of events]
  by (cases "fold read_application (map snd (applications events)) ([], [], [])";
      simp add: make_plan_def Let_def applied_successors_def)+

lemma last_entry:
  assumes "c < length succ" "fe_id (fst (succ ! c)) = i" "\<And>c'. c < c' \<Longrightarrow> c' < length succ \<Longrightarrow> fe_id (fst (succ ! c')) \<noteq> i"
  shows "map_of (fold (\<lambda>(c, (s, w)). dict_set (fe_id s) c) (enumerate 0 succ) []) i = Some c"
  using assms
proof (induction succ rule: rev_induct)
  case (snoc x succ)
  show ?case
  proof (cases "c = length succ")
    case True
    then show ?thesis using snoc.prems(2) by (cases x) (simp add: enumerate_snoc)
  next
    case False
    then have c: "c < length succ" using snoc.prems(1) by simp
    moreover have "fe_id (fst x) \<noteq> i" using snoc.prems(3) [of "length succ"] c by simp
    moreover have "fe_id (fst (succ ! c')) \<noteq> i" if "c < c'" "c' < length succ" for c'
      using snoc.prems(3) [of c'] that by (simp add: nth_append)
    ultimately show ?thesis using snoc.IH snoc.prems(2) by (cases x) (simp add: enumerate_snoc nth_append)
  qed
qed simp

lemma child_passes_on:
  assumes "c < length (fp_successors (make_plan events))" "fp_children (make_plan events) ! c = Some b"
  shows "passes_on events (fst (fp_successors (make_plan events) ! c)) b"
proof -
  define s where "s = fst (fp_successors (make_plan events) ! c)"
  have b: "child_of (withdrawn_event_ids events) events s = Some b"
    using assms by (simp add: plan_reads(2) s_def case_prod_beta)
  show ?thesis
  proof (cases "fe_type s = ''asserted''")
    case True
    then show ?thesis using b by (simp add: child_of_def passes_on_def s_def)
  next
    case False
    define i where "i = (case withdrawn_for (withdrawn_event_ids events) s of None \<Rightarrow> [] | Some h \<Rightarrow> h)"
    have "map_of (rev (map (\<lambda>e. (fe_id e, e)) events)) i = Some b" using b False by (simp add: child_of_def i_def)
    then have "(i, b) \<in> set (rev (map (\<lambda>e. (fe_id e, e)) events))" by (rule map_of_SomeD)
    then have "b \<in> set events" "fe_id b = i" by auto
    moreover have "holder events s i \<or> (\<nexists>h. holder events s h) \<and> i = []"
      using withdrawn_for_holder [of events s] unfolding i_def
      by (cases "withdrawn_for (withdrawn_event_ids events) s") auto
    ultimately show ?thesis using False by (simp add: passes_on_def s_def)
  qed
qed

lemma nodes_walked:
  assumes "a \<in> nodes (make_plan events)"
  shows "walked events a"
proof -
  have succ: "fp_successors (make_plan events) = applied_successors events @ receipt_successors events" by (rule plan_reads(1))
  from assms consider (entry) f es where "(f, es) \<in> set (fp_by_fact (make_plan events))" "a \<in> set es"
    | (child) "Some a \<in> set (fp_children (make_plan events))" by (auto simp: nodes_def)
  then show ?thesis
  proof cases
    case entry
    then have "map_of (fp_by_fact (make_plan events)) f = Some es"
      using plan_by_fact(2) [of events] by (simp add: dict_ok_def)
    then have "es = filter (\<lambda>e. fe_fact_id e = Some f) (map snd (applications events))"
      using plan_by_fact(1) [of events f] by (simp add: dict_get_def)
    then have "a \<in> set (map snd (applications events))" using entry(2) by (metis (no_types, lifting) filter_is_subset subsetD)
    then show ?thesis unfolding walked_def ..
  next
    case child
    then obtain c where c: "c < length (fp_children (make_plan events))" "fp_children (make_plan events) ! c = Some a"
      by (auto simp: in_set_conv_nth)
    then have len: "c < length (fp_successors (make_plan events))" by (simp add: plan_reads(2))
    then have "fp_successors (make_plan events) ! c \<in> set (applied_successors events @ receipt_successors events)"
      unfolding succ by (rule nth_mem)
    then show ?thesis unfolding walked_def using child_passes_on [OF len c(2)]
      by (intro disjI2 bexI [of _ "fp_successors (make_plan events) ! c"]) (simp_all add: case_prod_beta)
  qed
qed

lemma hiding_claimed_by:
  assumes "c \<in> hiding (make_plan events) a" "fp_successors (make_plan events) ! c = (s, w)"
  shows "claimed_by events a s w"
proof -
  let ?succ = "fp_successors (make_plan events)"
  have c: "c < length ?succ" "fe_created_at a \<le> fe_created_at s" "map_of (fp_successor_by_event (make_plan events)) (fe_id a) \<noteq> Some c"
    using assms by (simp_all add: hiding_def follows_def claim_time_def)
  obtain f where f: "fe_fact_id a = Some f" "f \<in> set (fp_targets (make_plan events) ! c)"
    using assms(1) by (auto simp: hiding_def follows_def)
  then have "f \<in> set (fe_supersedes s)" using c(1) assms(2) by (simp add: plan_reads(4))
  moreover have "fe_id s \<noteq> fe_id a \<or> (\<exists>c' < length ?succ. c < c' \<and> fe_id (fst (?succ ! c')) = fe_id a)"
    using last_entry [OF c(1), of "fe_id a"] c(3) assms(2) unfolding plan_reads(5) by fastforce
  ultimately show ?thesis
    using c(1,2) f(1) assms(2) unfolding claimed_by_def Let_def plan_reads(1) [symmetric] by blast
qed

lemma hides_on_ledger: "hides (make_plan events) i t \<Longrightarrow> ledger_hides events i t"
proof (induction rule: hides.induct)
  case (own a c t)
  obtain s w where sw: "fp_successors (make_plan events) ! c = (s, w)" by fastforce
  have c: "c < length (fp_successors (make_plan events))" using own(2) by (simp add: hiding_def follows_def)
  then have window: "fp_own_windows (make_plan events) ! c = (if withdrawn_for (withdrawn_event_ids events) s = None then [span w] else [])"
    using sw by (simp add: plan_reads(3))
  then have none: "withdrawn_for (withdrawn_event_ids events) s = None" "t \<in> covers [span w]"
    using own(3) by (simp_all split: if_splits)
  then have "\<nexists>h. holder events s h" using withdrawn_for_holder [of events s] by simp
  moreover have "fst (span w) \<le> t" "t < snd (span w)" using none(2) by (auto simp: covers_iff)
  ultimately show ?case
    using ledger_hides.own [OF nodes_walked [OF own(1)] hiding_claimed_by [OF own(2) sw]] by blast
next
  case (chain a c b t)
  obtain s w where sw: "fp_successors (make_plan events) ! c = (s, w)" by fastforce
  have "c < length (fp_successors (make_plan events))" using chain(2) by (simp add: hiding_def follows_def)
  then have "passes_on events s b" using child_passes_on chain(3) sw by (metis fst_conv)
  then show ?case
    using ledger_hides.chain [OF nodes_walked [OF chain(1)] hiding_claimed_by [OF chain(2) sw]] chain.IH by blast
qed

text \<open>
  C19. The index hides an assertion at an instant only when the ledger itself says so, read without the plan the walk
  works from: some successor names the assertion's fact, was recorded no earlier, is not the assertion's own entry,
  and either has a window over that instant while neither it nor the assertion its receipt was written for is
  withdrawn, or passes on the hiding of an event that is hidden there by the same rule. This holds for every history,
  cycles, ties and repeated ids included.
\<close>

theorem supersession_hides_only_by_claims:
  "case fact_supersession events of
     None \<Rightarrow> False
   | Some view \<Rightarrow> covers (dict_get view i []) \<subseteq> {t. ledger_hides events i t}"
proof -
  obtain d view where run: "walk_roots (make_plan events) (plan_roots (make_plan events) (make_indexes (make_plan events)))
      (make_indexes (make_plan events), []) = Some (d, view)" "fact_supersession events = Some view"
    by (rule fact_supersession_run)
  have "hidden_soundly (make_plan events) view"
    by (rule walk_roots_sound [OF start_inv plan_roots_nodes _ run(1)]) (simp add: hidden_soundly_def)
  then have "covers (dict_get view i []) \<subseteq> {t. hides (make_plan events) i t}"
    by (simp add: hidden_soundly_def dict_get_def split: option.split)
  also have "\<dots> \<subseteq> {t. ledger_hides events i t}" using hides_on_ledger by blast
  finally show ?thesis using run(2) by simp
qed

text \<open>
  C20. Where events have their own ids and claims form no cycle, nothing the history hides is missed: for every
  application of a fact, the index holds exactly the instants hidden by its successors and by theirs in turn.
\<close>

theorem supersession_hides_all_claims:
  assumes "inj_on fe_id (nodes (make_plan events))" "acyclic (claim_graph (make_plan events))"
    and "a \<in> set (map snd (applications events))" "fe_fact_id a \<noteq> None"
  shows "map_option (\<lambda>view. covers (dict_get view (fe_id a) [])) (fact_supersession events) =
    Some {t. hides (make_plan events) (fe_id a) t}"
proof -
  let ?p = "make_plan events"
  obtain d view where run: "walk_roots ?p (plan_roots ?p (make_indexes ?p)) (make_indexes ?p, []) = Some (d, view)"
      "fact_supersession events = Some view"
    by (rule fact_supersession_run)
  have sound: "hidden_soundly ?p view"
    by (rule walk_roots_sound [OF start_inv plan_roots_nodes _ run(1)]) (simp add: hidden_soundly_def)
  have complete: "hidden_completely ?p view" "fe_id ` set (plan_roots ?p (make_indexes ?p)) \<subseteq> dom (map_of view)"
    using walk_roots_complete [OF assms(1,2) start_inv plan_roots_nodes _ run(1)] by (simp_all add: hidden_completely_def)
  have "covers (dict_get view (fe_id a) []) = {t. hides ?p (fe_id a) t}"
  proof (cases "map_of view (fe_id a)")
    case (Some h)
    then show ?thesis
      using sound complete(1) unfolding hidden_soundly_def hidden_completely_def by (simp add: dict_get_def subset_antisym)
  next
    case None
    then have "hiding ?p a = {}" using hiding_is_root [OF assms(3)] complete(2) by (force simp: domIff)
    moreover have "b = a" if "b \<in> nodes ?p" "fe_id b = fe_id a" for b
      using that assms(1) application_in_nodes [OF assms(3,4)] by (auto dest: inj_onD)
    ultimately have "\<not> hides ?p (fe_id a) t" for t using hides_step by fastforce
    then show ?thesis using None by (simp add: dict_get_def)
  qed
  then show ?thesis using run(2) by simp
qed

definition used_event :: "string \<Rightarrow> string list \<Rightarrow> instant \<Rightarrow> fact_event" where
  "used_event i targets t =
     \<lparr>fe_id = i, fe_type = ''asserted'', fe_tenant = [], fe_generation = [],
      fe_fact = Some \<lparr>af_namespace = ''n'', af_subject = i, af_predicate = ''p'', af_object = PNone, af_context = [],
        af_valid_from = Some 2, af_valid_until = Some 9, af_cardinality = None\<rparr>,
      fe_fact_id = Some i, fe_cards = [], fe_supersedes = targets, fe_request = i, fe_writer = [], fe_decision = ''APPLIED'',
      fe_policy_version = [], fe_controller_version = 1, fe_created_at = t, fe_lease_token = None, fe_redaction = None\<rparr>"

definition used_history :: "fact_event list" where
  "used_history = [used_event ''a'' [] 1, used_event ''b'' [''a''] 3]"

lemma used_event_simps [simp]:
  "fe_id (used_event i targets t) = i" "fe_type (used_event i targets t) = ''asserted''"
  "fe_fact_id (used_event i targets t) = Some i" "fe_supersedes (used_event i targets t) = targets"
  "fe_request (used_event i targets t) = i" "fe_decision (used_event i targets t) = ''APPLIED''"
  "fe_created_at (used_event i targets t) = t"
  by (simp_all add: used_event_def)

lemma used_fact:
  "\<exists>f. fe_fact (used_event i targets t) = Some f \<and> af_valid_from f = Some 2 \<and> af_valid_until f = Some 9"
  by (simp add: used_event_def)

lemma used_applications: "applications used_history = [(''a'', used_event ''a'' [] 1), (''b'', used_event ''b'' [''a''] 3)]"
  by (simp add: applications_def used_history_def withdrawn_event_ids_def count_application_def asserts_fact_def)

lemma used_read:
  "fold read_application (map snd (applications used_history)) ([], [], []) =
     ([(''a'', [used_event ''a'' [] 1]), (''b'', [used_event ''b'' [''a''] 3])],
      [(used_event ''b'' [''a''] 3, Some (Some 2, Some 9))], [''b'' @ supersession_suffix])"
  using used_fact [of "''a''" "[]" 1] used_fact [of "''b''" "[''a'']" 3]
  by (auto simp: used_applications read_application_def fact_window_def dict_append_def dict_get_def)

lemma used_nothing_else: "withdrawn_event_ids used_history = {}" "unpaired_receipts paired used_history = []"
  by (simp_all add: withdrawn_event_ids_def unpaired_receipts_def used_history_def)

lemma used_plan:
  "fp_by_fact (make_plan used_history) = [(''a'', [used_event ''a'' [] 1]), (''b'', [used_event ''b'' [''a''] 3])]"
  "fp_successors (make_plan used_history) = [(used_event ''b'' [''a''] 3, Some (Some 2, Some 9))]"
  "fp_children (make_plan used_history) = [Some (used_event ''b'' [''a''] 3)]"
  "fp_own_windows (make_plan used_history) = [[span (Some (Some 2, Some 9))]]"
  "fp_targets (make_plan used_history) = [[''a'']]"
  "fp_successor_by_event (make_plan used_history) = [(''b'', 0)]"
  by (simp_all add: make_plan_def used_read Let_def child_of_def withdrawn_for_def used_nothing_else enumerate_eq_zip dedup_def)

lemma used_nodes: "nodes (make_plan used_history) = {used_event ''a'' [] 1, used_event ''b'' [''a''] 3}"
  by (auto simp: nodes_def used_plan)

lemma used_graph: "claim_graph (make_plan used_history) \<subseteq> {(''a'', ''b'')}"
  by (auto simp: claim_graph_def used_nodes follows_def used_plan)

theorem supersession_hides_all_claims_witness:
  "map_option (\<lambda>view. covers (dict_get view ''a'' [])) (fact_supersession used_history) = Some {2..<9}"
proof -
  have "acyclic (claim_graph (make_plan used_history))"
    by (rule acyclic_subset [OF _ used_graph]) (simp add: acyclic_def trancl_insert)
  moreover have "inj_on fe_id (nodes (make_plan used_history))" by (auto simp: used_nodes)
  ultimately have "map_option (\<lambda>view. covers (dict_get view ''a'' [])) (fact_supersession used_history) =
      Some {t. hides (make_plan used_history) ''a'' t}"
    using supersession_hides_all_claims [of used_history "used_event ''a'' [] 1"]
    by (simp add: used_applications)
  moreover have "hides (make_plan used_history) ''a'' t \<longleftrightarrow> t \<in> {2..<9}" for t
  proof
    have a: "used_event ''a'' [] 1 \<in> nodes (make_plan used_history)" "fe_id (used_event ''a'' [] 1) = ''a''"
        "0 \<in> hiding (make_plan used_history) (used_event ''a'' [] 1)"
      by (simp_all add: used_nodes hiding_def follows_def used_plan claim_time_def)
    show "hides (make_plan used_history) ''a'' t" if "t \<in> {2..<9}"
      using hides.own [OF a(1,3), of t] that by (simp add: a(2) used_plan span_def or_else_def)
    have b: "\<not> hides (make_plan used_history) ''b'' t" for t
      using hides_step [of "make_plan used_history" "''b''" t]
      by (auto simp: used_nodes hiding_def follows_def used_plan)
    show "t \<in> {2..<9}" if "hides (make_plan used_history) ''a'' t"
      using hides_step [OF that] b
      by (auto simp: used_nodes hiding_def follows_def used_plan span_def or_else_def)
  qed
  ultimately show ?thesis by auto
qed

end
