(* ===== verification/MemoText.thy ===== *)
theory MemoText
  imports Frontmatter
begin

text \<open>
  The text of a memo (\<open>src/recall/frontmatter.py\<close>): where its frontmatter block ends, what the parser reads
  from it, and the writers that edit it in place. A file is the number of its leading byte order marks and
  the text its remaining bytes decode to: UTF-8 is one to one and its bytes 10 and 13 are exactly the line
  feeds and carriage returns, so splitting the bytes into lines is splitting the text. \<open>json.loads\<close> is a
  parameter, None where it raises.
\<close>

section \<open>Lines\<close>

abbreviation lf :: char where "lf \<equiv> CHR 10"
abbreviation cr :: char where "cr \<equiv> CHR 13"
abbreviation fence :: string where "fence \<equiv> ''---''"

text \<open>The characters that end a line for \<open>str.splitlines\<close>, and for \<open>bytes.splitlines\<close>.\<close>

definition line_break :: "char \<Rightarrow> bool" where
  "line_break c \<longleftrightarrow> code c \<in> {10, 11, 12, 13, 28, 29, 30, 133}"

definition byte_break :: "char \<Rightarrow> bool" where
  "byte_break c \<longleftrightarrow> c = lf \<or> c = cr"

text \<open>\<open>splitlines(keepends=True)\<close>: a carriage return and the line feed after it end one line.\<close>

fun keep_lines :: "(char \<Rightarrow> bool) \<Rightarrow> string \<Rightarrow> string list" where
  "keep_lines brk [] = []"
| "keep_lines brk [c] = [[c]]"
| "keep_lines brk (c # d # s) =
     (if c = cr \<and> d = lf then [c, d] # keep_lines brk s
      else if brk c then [c] # keep_lines brk (d # s)
      else case keep_lines brk (d # s) of [] \<Rightarrow> [[c]] | l # ls \<Rightarrow> (c # l) # ls)"

definition py_splitlines :: "string \<Rightarrow> string list" where
  "py_splitlines s = map (takeWhile (\<lambda>c. \<not> line_break c)) (keep_lines line_break s)"

definition has_line_break :: "string \<Rightarrow> bool" where
  "has_line_break s \<longleftrightarrow> s \<noteq> concat (py_splitlines s)"

definition split_lines :: "string \<Rightarrow> string list" where
  "split_lines s = keep_lines byte_break s"

fun dominant_newline :: "string \<Rightarrow> string" where
  "dominant_newline [] = [lf]"
| "dominant_newline (c # s) =
     (if c = cr then (if take 1 s = [lf] then [cr, lf] else [cr])
      else if c = lf then [lf] else dominant_newline s)"

definition line_terminator :: "string \<Rightarrow> string \<Rightarrow> string" where
  "line_terminator line fallback =
     (if ends_with line [cr, lf] then [cr, lf]
      else if ends_with line [lf] then [lf]
      else if ends_with line [cr] then [cr]
      else fallback)"

text \<open>\<open>text.replace("\r\n", "\n").replace("\r", "\n")\<close>: universal newlines.\<close>

fun crlf_to_lf :: "string \<Rightarrow> string" where
  "crlf_to_lf [] = []"
| "crlf_to_lf [c] = [c]"
| "crlf_to_lf (c # d # s) = (if c = cr \<and> d = lf then lf # crlf_to_lf s else c # crlf_to_lf (d # s))"

definition universal :: "string \<Rightarrow> string" where
  "universal s = replace_char cr lf (crlf_to_lf s)"

section \<open>Where the block ends\<close>

definition is_quote :: "char \<Rightarrow> bool" where
  "is_quote c \<longleftrightarrow> c = CHR 34 \<or> c = CHR 39"

text \<open>\<open>_KEY_LINE\<close>: a quoted key, or a bare one that does not start as markdown does, then a colon.\<close>

definition quoted_key :: "string \<Rightarrow> bool" where
  "quoted_key s = (case s of [] \<Rightarrow> False | c # t \<Rightarrow> is_quote c \<and>
     (case dropWhile (\<lambda>d. \<not> is_quote d) t of [] \<Rightarrow> False | q # u \<Rightarrow> starts_with (dropWhile py_isspace u) '':''))"

definition bare_key :: "string \<Rightarrow> bool" where
  "bare_key s = (case s of [] \<Rightarrow> False | c # t \<Rightarrow>
     (c \<in> set ''-+'' \<and> t \<noteq> [] \<and> \<not> py_isspace (hd t) \<or> \<not> py_isspace c \<and> c \<notin> set '':#-*+`[>|'')
     \<and> CHR '':'' \<in> set t)"

definition key_line :: "string \<Rightarrow> bool" where
  "key_line s \<longleftrightarrow> quoted_key s \<or> bare_key s"

text \<open>What opens a line and is followed by white space or by its end.\<close>

definition opens_with :: "string \<Rightarrow> string \<Rightarrow> bool" where
  "opens_with chars s = (case s of [] \<Rightarrow> False | c # t \<Rightarrow> c \<in> set chars \<and> (t = [] \<or> py_isspace (hd t)))"

definition explicit_key :: "string \<Rightarrow> bool" where
  "explicit_key s = opens_with ''?:'' s"

definition sequence_item :: "string \<Rightarrow> bool" where
  "sequence_item s = opens_with ''-'' s"

definition flow_closer :: "string \<Rightarrow> bool" where
  "flow_closer s = (case s of [] \<Rightarrow> False | c # t \<Rightarrow> c \<in> set '']}'' \<and>
     list_all py_isspace (if take 1 t = '','' then tl t else t))"

definition block_item :: "string \<Rightarrow> string option" where
  "block_item s = (case dropWhile py_isspace s of [] \<Rightarrow> None | c # t \<Rightarrow>
     if c = CHR ''-'' \<and> t \<noteq> [] \<and> py_isspace (hd t) \<and> py_strip t \<noteq> [] then Some (py_strip t) else None)"

fun span_from :: "nat \<Rightarrow> bool \<Rightarrow> string list \<Rightarrow> nat option" where
  "span_from i seen [] = None"
| "span_from i seen (line # lines) =
     (let stripped = py_strip line in
      if stripped = fence then (if seen then Some i else None)
      else if stripped = [] then span_from (Suc i) seen lines
      else if py_isspace (hd line) then span_from (Suc i) (seen \<or> key_line stripped) lines
      else if key_line line \<or> explicit_key line then span_from (Suc i) True lines
      else if seen \<and> (starts_with stripped ''#'' \<or> sequence_item line \<or> flow_closer line)
      then span_from (Suc i) seen lines
      else None)"

definition frontmatter_span :: "string \<Rightarrow> nat option" where
  "frontmatter_span text = (let lines = split_on lf text in
     if py_strip (hd lines) \<noteq> fence then None else span_from 1 False (tl lines))"

section \<open>What the parser reads\<close>

definition before_colon :: "string \<Rightarrow> string" where
  "before_colon s = takeWhile (\<lambda>c. c \<noteq> CHR '':'') s"

definition after_colon :: "string \<Rightarrow> string" where
  "after_colon s = tl (dropWhile (\<lambda>c. c \<noteq> CHR '':'') s)"

definition validity_keys :: "string list" where
  "validity_keys = [''valid_from'', ''valid_until'', ''supersedes'']"

definition facet_max_length :: nat where
  "facet_max_length = 64"

definition parse_error :: "string \<Rightarrow> pyval" where
  "parse_error msg = PDict [(''__parse_error__'', PStr msg)]"

definition label_value :: "(string \<Rightarrow> pyval option) \<Rightarrow> string \<Rightarrow> string" where
  "label_value loads value =
     (if length value \<ge> 2 \<and> hd value = CHR 34 \<and> last value = CHR 34
      then (case loads value of Some (PStr decoded) \<Rightarrow> decoded | _ \<Rightarrow> unquote_scalar value)
      else unquote_scalar value)"

record block_state =
  bk_meta :: metadata
  bk_labels :: "(string, string) dict"
  bk_targets :: "string list option"

definition set_meta :: "string \<Rightarrow> pyval \<Rightarrow> block_state \<Rightarrow> block_state" where
  "set_meta k v st = st\<lparr>bk_meta := dict_set k v (bk_meta st)\<rparr>"

text \<open>One line whose key is not \<open>supersedes\<close>.\<close>

definition read_key :: "(string \<Rightarrow> pyval option) \<Rightarrow> string \<Rightarrow> string \<Rightarrow> string \<Rightarrow> block_state \<Rightarrow> block_state" where
  "read_key loads line key value st =
     (if key \<in> set validity_keys then set_meta key (PStr (unquote_scalar (py_strip value))) st
      else if key = ''type'' then
        (let v = unquote_scalar (py_strip value)
         in if v \<noteq> [] \<and> length v \<le> facet_max_length then set_meta key (PStr v) st else st)
      else if key = ''recall_graph'' then
        set_meta key (case loads (py_strip value) of
          None \<Rightarrow> parse_error ''recall_graph must be one-line JSON'' | Some v \<Rightarrow> v) st
      else if key = ''recall_record'' then
        (if map_of (bk_meta st) key \<noteq> None then set_meta key (parse_error ''recall_record declared more than once'') st
         else set_meta key (case loads (py_strip value) of
           None \<Rightarrow> parse_error ''recall_record must be one line of JSON'' | Some v \<Rightarrow> v) st)
      else if key \<in> {''name'', ''description''} \<and> py_strip (take 1 line) \<noteq> []
      then st\<lparr>bk_labels := dict_set key (label_value loads (py_strip value)) (bk_labels st)\<rparr>
      else st)"

definition add_targets :: "string list \<Rightarrow> block_state \<Rightarrow> block_state" where
  "add_targets ts st = st\<lparr>bk_targets := Some ((case bk_targets st of None \<Rightarrow> [] | Some us \<Rightarrow> us) @ ts)\<rparr>"

definition items_of :: "string list \<Rightarrow> string list" where
  "items_of lines = map (\<lambda>i. unquote_scalar (py_strip i))
     (List.map_filter block_item (takeWhile (\<lambda>l. block_item l \<noteq> None) lines))"

function parse_block :: "(string \<Rightarrow> pyval option) \<Rightarrow> string list \<Rightarrow> block_state \<Rightarrow> block_state" where
  "parse_block loads [] st = st"
| "parse_block loads (line # rest) st =
     (if CHR '':'' \<notin> set line then parse_block loads rest st
      else let key = py_strip (before_colon line); value = after_colon line in
        if key = ''supersedes'' then
          (if py_strip value \<noteq> [] then parse_block loads rest (add_targets (reference_items (py_strip value)) st)
           else parse_block loads (dropWhile (\<lambda>l. block_item l \<noteq> None) rest) (add_targets (items_of rest) st))
        else parse_block loads rest (read_key loads line key value st))"
  by pat_completeness auto
termination
proof (relation "measure (\<lambda>(loads, lines, st). length lines)")
  show "((loads, dropWhile (\<lambda>l. block_item l \<noteq> None) rest, st'), loads, line # rest, st)
      \<in> measure (\<lambda>(loads, lines, st). length lines)" for loads line rest st st'
    using length_dropWhile_le [of "\<lambda>l. block_item l \<noteq> None" rest] by (simp add: le_imp_less_Suc)
qed auto

definition finish_block :: "block_state \<Rightarrow> metadata" where
  "finish_block st =
     (let meta = (case bk_targets st of None \<Rightarrow> bk_meta st | Some ts \<Rightarrow> dict_set ''supersedes'' (supersedes_value ts) (bk_meta st))
      in if map_of meta ''recall_record'' \<noteq> None
         then fold (\<lambda>(k, v). dict_set k (PStr v)) (bk_labels st) meta else meta)"

definition parse_frontmatter :: "(string \<Rightarrow> pyval option) \<Rightarrow> string \<Rightarrow> metadata \<times> string" where
  "parse_frontmatter loads text = (case frontmatter_span text of
     None \<Rightarrow> ([], text)
   | Some stop \<Rightarrow>
       (let lines = split_on lf text
        in (finish_block (parse_block loads (take (stop - 1) (tl lines)) \<lparr>bk_meta = [], bk_labels = [], bk_targets = None\<rparr>),
            dropWhile (\<lambda>c. c = lf) (join_with [lf] (drop (stop + 1) lines)))))"

section \<open>Writing the block back\<close>

type_synonym memo_file = "nat \<times> string"

definition memo_text :: "memo_file \<Rightarrow> string" where
  "memo_text raw = universal (snd raw)"

definition entry_line :: "string \<Rightarrow> string \<Rightarrow> string" where
  "entry_line key value = key @ '': '' @ value"

definition insert_frontmatter_line :: "memo_file \<Rightarrow> string \<Rightarrow> string \<Rightarrow> memo_file result" where
  "insert_frontmatter_line raw key value =
     (if has_line_break value then Inl (ValueError (key @ '' value contains a line break and would split the block''))
      else let body = snd raw; newline = dominant_newline body; entry = entry_line key value; lines = split_lines body
           in Inr (fst raw, case frontmatter_span (memo_text raw) of
                Some stop \<Rightarrow>
                  (let closing = (if stop < length lines then lines ! stop else [])
                   in concat (take stop lines @ [entry @ line_terminator closing newline] @ drop stop lines))
              | None \<Rightarrow> fence @ newline @ entry @ newline @ fence @ newline @ body))"

definition key_lines :: "string list \<Rightarrow> nat \<Rightarrow> string \<Rightarrow> nat list" where
  "key_lines text_lines stop key =
     filter (\<lambda>i. CHR '':'' \<in> set (text_lines ! i) \<and> py_strip (before_colon (text_lines ! i)) = key) [1..<stop]"

definition key_extent :: "string list \<Rightarrow> nat \<Rightarrow> nat \<Rightarrow> nat" where
  "key_extent text_lines stop i =
     (if py_strip (after_colon (text_lines ! i)) = []
      then i + 1 + length (takeWhile (\<lambda>l. block_item l \<noteq> None) (drop (i + 1) (take stop text_lines)))
      else i + 1)"

definition line_indent :: "string \<Rightarrow> string" where
  "line_indent s = takeWhile py_isspace s"

definition set_frontmatter_scalar :: "memo_file \<Rightarrow> string \<Rightarrow> string option \<Rightarrow> memo_file option result" where
  "set_frontmatter_scalar raw key value =
     (if (case value of None \<Rightarrow> False | Some v \<Rightarrow> has_line_break v)
      then Inl (ValueError (key @ '' value contains a line break and would split the block''))
      else let text = memo_text raw;
               absent = (case value of None \<Rightarrow> Inr None | Some v \<Rightarrow> and_then (insert_frontmatter_line raw key v) (\<lambda>r. Inr (Some r)))
           in case frontmatter_span text of
                None \<Rightarrow> absent
              | Some stop \<Rightarrow>
                  (let text_lines = split_on lf text
                   in case key_lines text_lines stop key of
                        [] \<Rightarrow> absent
                      | first # others \<Rightarrow>
                          (let lines = split_lines (snd raw); newline = dominant_newline (snd raw);
                               current = py_strip (after_colon (text_lines ! first))
                           in if others = [] \<and> value = Some (unquote_scalar current) then Inr None
                              else let dropped = (\<Union>i \<in> set (first # others). {i..<key_extent text_lines stop i});
                                       replacement = (case value of None \<Rightarrow> [] | Some v \<Rightarrow>
                                         [line_indent (text_lines ! first) @ entry_line key v @ line_terminator (lines ! first) newline])
                                   in Inr (Some (fst raw, concat (concat (map (\<lambda>(i, line).
                                        (if i = first then replacement else []) @ (if i \<in> dropped then [] else [line]))
                                        (enumerate 0 lines))))))))"

section \<open>Adding and withdrawing a reference\<close>

fun strip_here :: "string \<Rightarrow> string" where
  "strip_here (a # b # s) = (if a = CHR ''.'' \<and> b = CHR ''/'' then strip_here s else a # b # s)"
| "strip_here s = s"

definition reference_folder :: "string \<Rightarrow> string" where
  "reference_folder value =
     (let v = lstrip_by (\<lambda>c. c = CHR ''/'') (strip_here (posix (strip_brackets (py_strip value))))
      in if CHR ''/'' \<in> set v then casefold (join_with ''/'' (butlast (split_on (CHR ''/'') v))) else [])"

definition same_reference :: "string \<Rightarrow> string \<Rightarrow> bool" where
  "same_reference a b \<longleftrightarrow> supersedes_key a = supersedes_key b
     \<and> (reference_folder a = [] \<or> reference_folder b = [] \<or> reference_folder a = reference_folder b)"

definition declared_targets :: "(string \<Rightarrow> pyval option) \<Rightarrow> memo_file \<Rightarrow> string list option" where
  "declared_targets loads raw = map_option supersedes_targets (map_of (fst (parse_frontmatter loads (memo_text raw))) ''supersedes'')"

definition sequence_lines :: "string \<Rightarrow> string \<Rightarrow> string \<Rightarrow> string list \<Rightarrow> string list" where
  "sequence_lines indent item_indent terminator items =
     (indent @ ''supersedes:'' @ terminator) # map (\<lambda>item. item_indent @ ''- '' @ item @ terminator) items"

definition add_supersedes_target :: "(string \<Rightarrow> pyval option) \<Rightarrow> memo_file \<Rightarrow> string \<Rightarrow> memo_file option result" where
  "add_supersedes_target loads raw target =
     (if has_line_break target then Inl (ValueError ''supersedes value contains a line break and would split the block'')
      else case declared_targets loads raw of
        None \<Rightarrow> and_then (insert_frontmatter_line raw ''supersedes'' target) (\<lambda>r. Inr (Some r))
      | Some existing \<Rightarrow>
          if existing = [] then Inl (ValueError ''the memo declares supersedes with no reference'')
          else if list_ex (same_reference target) existing then Inr None
          else let text = memo_text raw in
            case frontmatter_span text of
              None \<Rightarrow> Inl (AssertionError ''no block'')
            | Some stop \<Rightarrow>
                (let text_lines = split_on lf text; lines = split_lines (snd raw);
                     found = key_lines text_lines stop ''supersedes''; lst = last found;
                     terminator = line_terminator (lines ! lst) (dominant_newline (snd raw));
                     indent = line_indent (text_lines ! lst)
                 in if length found > 1
                    then Inr (Some (fst raw, concat (take (lst + 1) lines
                      @ [indent @ entry_line ''supersedes'' target @ terminator] @ drop (lst + 1) lines)))
                    else let stp = key_extent text_lines stop lst;
                             item_indent = (if stp > lst + 1 then line_indent (text_lines ! (lst + 1)) else indent @ ''  '')
                         in Inr (Some (fst raw, concat (take lst lines
                           @ sequence_lines indent item_indent terminator (existing @ [target]) @ drop stp lines)))))"

definition remove_supersedes_target :: "(string \<Rightarrow> pyval option) \<Rightarrow> memo_file \<Rightarrow> string \<Rightarrow> memo_file option result" where
  "remove_supersedes_target loads raw target =
     (case declared_targets loads raw of
        None \<Rightarrow> Inr None
      | Some existing \<Rightarrow>
          (let remaining = filter (\<lambda>item. supersedes_key item \<noteq> supersedes_key target) existing; text = memo_text raw
           in if length remaining = length existing then Inr None
              else case frontmatter_span text of
                None \<Rightarrow> Inl (AssertionError ''no block'')
              | Some stop \<Rightarrow>
                  (let text_lines = split_on lf text; lines = split_lines (snd raw);
                       found = key_lines text_lines stop ''supersedes''; first = hd found;
                       terminator = line_terminator (lines ! first) (dominant_newline (snd raw));
                       indent = line_indent (text_lines ! first);
                       dropped = (\<Union>i \<in> set found. {i..<key_extent text_lines stop i});
                       replacement = (case remaining of
                           [] \<Rightarrow> []
                         | [item] \<Rightarrow> [indent @ entry_line ''supersedes'' item @ terminator]
                         | _ \<Rightarrow> sequence_lines indent (indent @ ''  '') terminator remaining);
                       standing = (\<lambda>ls k. map snd (filter (\<lambda>(i, line). i \<notin> dropped) (enumerate k ls)))
                   in Inr (Some (fst raw, concat (standing (take first lines) 0 @ replacement @ standing (drop first lines) first))))))"

section \<open>Pairings of an older rule, and provenance\<close>

definition exotic_break :: "char \<Rightarrow> bool" where
  "exotic_break c \<longleftrightarrow> code c \<in> {11, 12, 28, 29, 30, 133}"

definition legacy_pairing_differs :: "string \<Rightarrow> bool" where
  "legacy_pairing_differs text =
     (let head = takeWhile (\<lambda>c. c \<noteq> lf) text; rest = tl (dropWhile (\<lambda>c. c \<noteq> lf) text);
          physical = (case py_splitlines head of [] \<Rightarrow> [] | l # ls \<Rightarrow> l);
          lines = split_on lf rest
      in if py_strip head \<noteq> fence \<and> py_strip physical \<noteq> fence then False
         else if list_ex exotic_break text then True
         else if frontmatter_span text \<noteq> None then False
         else if list_ex (\<lambda>line. py_strip line = fence) lines then True
         else list_ex (\<lambda>line. py_strip (take 1 line) \<noteq> [] \<and> py_lower (py_strip (before_colon line)) = ''title'') lines)"

definition with_provenance :: "metadata \<Rightarrow> metadata \<Rightarrow> metadata" where
  "with_provenance meta provenance = fold (\<lambda>(k, v). dict_set k v) provenance meta"

end
