(* ===== verification/DerivedBlock.thy ===== *)
theory DerivedBlock
  imports MemoText
begin

text \<open>
  The machine-owned block at the end of a memo body (\<open>src/recall/derived_block.py\<close>) and the one seam between a
  file and the body its readers treat as evidence (\<open>src/recall/document.py\<close>). The digest of a block is SHA-256
  over the canonical JSON of its entries (\<open>src/recall/lineage.py\<close>); the hash function is a parameter, the JSON
  text is not. Messages of errors are left out where they only repeat the offending value.
\<close>

section \<open>Canonical JSON\<close>

definition hex_char :: "nat \<Rightarrow> char" where
  "hex_char n = ''0123456789abcdef'' ! (n mod 16)"

text \<open>\<open>json.dumps\<close> of one character, with \<open>ensure_ascii=False\<close>.\<close>

definition json_char :: "char \<Rightarrow> string" where
  "json_char c = (let n = of_char c :: nat in
     if c = CHR 34 then [CHR 92, CHR 34]
     else if c = CHR 92 then [CHR 92, CHR 92]
     else if n = 8 then [CHR 92, CHR ''b'']
     else if n = 9 then [CHR 92, CHR ''t'']
     else if n = 10 then [CHR 92, CHR ''n'']
     else if n = 12 then [CHR 92, CHR ''f'']
     else if n = 13 then [CHR 92, CHR ''r'']
     else if n < 32 then [CHR 92, CHR ''u'', CHR ''0'', CHR ''0'', hex_char (n div 16), hex_char n]
     else [c])"

definition json_string :: "string \<Rightarrow> string" where
  "json_string s = [CHR 34] @ concat (map json_char s) @ [CHR 34]"

definition json_field :: "string \<Rightarrow> string \<Rightarrow> string" where
  "json_field k v = json_string k @ '':'' @ v"

definition json_object :: "(string \<times> string) list \<Rightarrow> string" where
  "json_object members = ''{'' @ join_with '','' (map (\<lambda>(k, v). json_field k v) (sort_key fst members)) @ ''}''"

definition json_array :: "string list \<Rightarrow> string" where
  "json_array items = ''['' @ join_with '','' items @ '']''"

section \<open>Cutting a body at its block\<close>

definition open_fence :: string where
  "open_fence = ''<!-- recall:derived v1 -->''"

definition close_fence :: string where
  "close_fence = ''<!-- /recall:derived -->''"

definition legacy_open_fence :: string where
  "legacy_open_fence = ''<!-- recall:derived -->''"

definition rstrip :: "string \<Rightarrow> string" where
  "rstrip s = rev (dropWhile py_isspace (rev s))"

record derived_split =
  ds_human :: string
  ds_block_text :: string
  ds_fence_start :: "nat option"

fun fence_offset :: "nat \<Rightarrow> string list \<Rightarrow> nat option" where
  "fence_offset cursor [] = None"
| "fence_offset cursor (line # lines) =
     (if py_strip line \<in> {open_fence, legacy_open_fence} then Some cursor
      else fence_offset (cursor + length line) lines)"

definition first_fence_offset :: "string \<Rightarrow> nat option" where
  "first_fence_offset body = fence_offset 0 (keep_lines line_break body)"

definition has_legacy_derived_block :: "string \<Rightarrow> bool" where
  "has_legacy_derived_block body \<longleftrightarrow> has_substring body legacy_open_fence
     \<and> list_ex (\<lambda>line. py_strip line = legacy_open_fence) (py_splitlines body)"

definition split_derived_block :: "string \<Rightarrow> derived_split" where
  "split_derived_block body = (case first_fence_offset body of
     None \<Rightarrow> \<lparr>ds_human = rstrip body, ds_block_text = [], ds_fence_start = None\<rparr>
   | Some start \<Rightarrow> \<lparr>ds_human = rstrip (take start body), ds_block_text = drop start body, ds_fence_start = Some start\<rparr>)"

record parsed_document =
  pd_meta :: metadata
  pd_human_body :: string
  pd_derived_text :: string

definition parse_document :: "(string \<Rightarrow> pyval option) \<Rightarrow> string \<Rightarrow> parsed_document" where
  "parse_document loads text = (let (meta, body) = parse_frontmatter loads text; split = split_derived_block body
     in \<lparr>pd_meta = meta, pd_human_body = ds_human split, pd_derived_text = ds_block_text split\<rparr>)"

section \<open>Entries\<close>

datatype block_error = DerivedBlockError string | DerivedDigestMismatch string string

type_synonym 'a block_result = "block_error + 'a"

record derived_entry =
  de_head :: string
  de_value :: string
  de_proposal :: string
  de_provider :: string
  de_reviewer :: string
  de_at :: string
  de_note :: string

definition derived_heads :: "string list" where
  "derived_heads = [''contradicts'', ''same_entity'', ''status'']"

definition forbidden_heads :: "string list" where
  "forbidden_heads = [''supersedes'', ''valid_from'', ''valid_until'']"

definition status_values :: "string list" where
  "status_values = [''open'', ''adopted'', ''closed'', ''superseded'', ''rejected'', ''abandoned'']"

definition status_aliases :: "(string, string) dict" where
  "status_aliases = [(''deprecated'', ''superseded''), (''obsolete'', ''superseded'')]"

definition hex64 :: "string \<Rightarrow> bool" where
  "hex64 s \<longleftrightarrow> length s = 64 \<and> list_all (\<lambda>c. c \<in> set ''0123456789abcdef'') s"

text \<open>\<open>%H\<close>, \<open>%M\<close> and \<open>%S\<close>: one or two digits; a second of 60 or 61 matches and is then refused by \<open>datetime\<close>.\<close>

fun clock_field :: "nat \<Rightarrow> string \<Rightarrow> bool" where
  "clock_field limit [a] = (digit a \<noteq> None)"
| "clock_field limit [a, b] = (case (digit a, digit b) of (Some x, Some y) \<Rightarrow> 10 * x + y < limit | _ \<Rightarrow> False)"
| "clock_field limit _ = False"

text \<open>\<open>datetime.strptime(value, "%Y-%m-%dT%H:%M:%SZ")\<close> succeeds; literal letters match in either case.\<close>

definition is_utc_instant :: "string \<Rightarrow> bool" where
  "is_utc_instant s \<longleftrightarrow> ends_with s ''Z'' \<and> (case split_on (CHR ''-'') s of
     [ys, ms, rest] \<Rightarrow>
       (let ds = takeWhile (\<lambda>c. c \<noteq> CHR ''T'' \<and> c \<noteq> CHR ''t'') rest; clock = drop (Suc (length ds)) rest
        in length ds < length rest \<and>
           (case (year_field ys, month_field ms, day_field ds) of
              (Some y, Some m, Some d) \<Rightarrow> valid_ymd (y, m, d)
            | _ \<Rightarrow> False) \<and>
           (case split_on (CHR '':'') clock of
              [h, m, sz] \<Rightarrow> clock_field 24 h \<and> clock_field 60 m \<and> clock_field 60 (butlast sz) \<and> last sz = CHR ''Z''
            | _ \<Rightarrow> False))
   | _ \<Rightarrow> False)"

definition refuse :: "string \<Rightarrow> 'a block_result" where
  "refuse msg = Inl (DerivedBlockError msg)"

definition validate_entry :: "derived_entry \<Rightarrow> unit block_result" where
  "validate_entry e =
     (if de_head e \<in> set forbidden_heads then refuse ''head is frontmatter the trust layer reads''
      else if de_head e \<notin> set derived_heads then refuse ''unknown head''
      else if de_head e = ''status'' \<and> map_of status_aliases (de_value e) \<noteq> None then refuse ''status is a closure marker''
      else if de_head e = ''status'' \<and> de_value e \<notin> set status_values then refuse ''status is outside the closed vocabulary''
      else if de_head e \<noteq> ''status'' \<and> (de_value e = [] \<or> supersedes_key (de_value e) \<noteq> de_value e)
      then refuse ''value is not a bare document stem''
      else if \<not> hex64 (de_proposal e) then refuse ''proposal must be 64 lowercase hex characters''
      else if \<not> is_utc_instant (de_at e) then refuse ''at must be a Z-suffixed UTC ISO-8601 instant''
      else if py_strip (de_provider e) = [] then refuse ''provider must be a non-empty single line''
      else if py_strip (de_reviewer e) = [] then refuse ''reviewer must be a non-empty single line''
      else if has_line_break (de_value e) then refuse ''value must be a single line''
      else if has_line_break (de_provider e) then refuse ''provider must be a single line''
      else if has_line_break (de_reviewer e) then refuse ''reviewer must be a single line''
      else if has_line_break (de_note e) then refuse ''note must be a single line''
      else Inr ())"

definition entry_key :: "derived_entry \<Rightarrow> string \<times> string" where
  "entry_key e = (de_head e, de_value e)"

definition validate_set :: "derived_entry list \<Rightarrow> unit block_result" where
  "validate_set entries =
     (if entries = [] then refuse ''a derived block with no entries is churn; remove the block''
      else if \<not> distinct (map entry_key entries) then refuse ''duplicate entry''
      else if length (filter (\<lambda>e. de_head e = ''status'') entries) > 1 then refuse ''at most one status entry per block''
      else Inr ())"

fun validate_entries :: "derived_entry list \<Rightarrow> unit block_result" where
  "validate_entries [] = Inr ()"
| "validate_entries (e # es) = and_then (validate_entry e) (\<lambda>_. validate_entries es)"

definition derived_json :: "derived_entry list \<Rightarrow> string" where
  "derived_json entries = json_object
     [(''v'', ''1''),
      (''entries'', json_array (map (\<lambda>e. json_object
         [(''head'', json_string (de_head e)), (''value'', json_string (de_value e)), (''proposal'', json_string (de_proposal e)),
          (''provider'', json_string (de_provider e)), (''reviewer'', json_string (de_reviewer e)), (''at'', json_string (de_at e)),
          (''note'', json_string (de_note e))]) entries))]"

definition derived_digest :: "(string \<Rightarrow> string) \<Rightarrow> derived_entry list \<Rightarrow> string" where
  "derived_digest sha entries = sha (derived_json entries)"

section \<open>Rendering\<close>

definition normalise :: "derived_entry \<Rightarrow> derived_entry" where
  "normalise e = (case map_of status_aliases (de_value e) of
     Some v \<Rightarrow> if de_head e = ''status'' then e\<lparr>de_value := v\<rparr> else e
   | None \<Rightarrow> e)"

definition ordered_entries :: "derived_entry list \<Rightarrow> derived_entry list" where
  "ordered_entries entries = sort_key entry_key (map normalise entries)"

definition subkey_line :: "string \<Rightarrow> string \<Rightarrow> string" where
  "subkey_line key v = ''  '' @ key @ '': '' @ v"

definition entry_lines :: "derived_entry \<Rightarrow> string list" where
  "entry_lines e = [entry_line (de_head e) (de_value e), subkey_line ''proposal'' (de_proposal e), subkey_line ''provider'' (de_provider e),
      subkey_line ''reviewer'' (de_reviewer e), subkey_line ''at'' (de_at e)]
     @ (if de_note e = [] then [] else [subkey_line ''note'' (de_note e)])"

definition block_lines :: "(string \<Rightarrow> string) \<Rightarrow> derived_entry list \<Rightarrow> string list" where
  "block_lines sha ordered = [open_fence] @ concat (map entry_lines ordered)
     @ [''digest: '' @ derived_digest sha ordered, close_fence]"

definition render_derived_block :: "(string \<Rightarrow> string) \<Rightarrow> derived_entry list \<Rightarrow> string block_result" where
  "render_derived_block sha entries =
     (let ordered = ordered_entries entries
      in and_then (validate_set ordered) (\<lambda>_. and_then (validate_entries ordered) (\<lambda>_.
           Inr (join_with [lf] (block_lines sha ordered) @ [lf]))))"

section \<open>Parsing\<close>

record derived_block =
  db_entries :: "derived_entry list"
  db_digest :: string

definition required_subkeys :: "string list" where
  "required_subkeys = [''proposal'', ''provider'', ''reviewer'', ''at'']"

definition subkeys :: "string list" where
  "subkeys = required_subkeys @ [''note'']"

text \<open>\<open>s.partition(": ")\<close>, None without the separator.\<close>

fun partition_colon :: "string \<Rightarrow> (string \<times> string) option" where
  "partition_colon [] = None"
| "partition_colon (c # s) =
     (if starts_with (c # s) '': '' then Some ([], drop 2 (c # s))
      else map_option (\<lambda>(a, b). (c # a, b)) (partition_colon s))"

type_synonym raw_entry = "(string, string) dict"

definition entry_from :: "raw_entry \<Rightarrow> derived_entry block_result" where
  "entry_from raw =
     (if \<not> list_all (\<lambda>k. map_of raw k \<noteq> None) required_subkeys then refuse ''entry is missing a sub-key''
      else let e = \<lparr>de_head = dict_get raw ''head'' [], de_value = dict_get raw ''value'' [], de_proposal = dict_get raw ''proposal'' [],
                   de_provider = dict_get raw ''provider'' [], de_reviewer = dict_get raw ''reviewer'' [], de_at = dict_get raw ''at'' [],
                   de_note = dict_get raw ''note'' []\<rparr>
           in and_then (validate_entry e) (\<lambda>_. Inr e))"

definition close_entry :: "raw_entry option \<Rightarrow> derived_entry list \<Rightarrow> derived_entry list block_result" where
  "close_entry current entries = (case current of
     None \<Rightarrow> Inr entries
   | Some raw \<Rightarrow> and_then (entry_from raw) (\<lambda>e. Inr (entries @ [e])))"

fun parse_entries :: "string list \<Rightarrow> raw_entry option \<Rightarrow> derived_entry list \<Rightarrow> derived_entry list block_result" where
  "parse_entries [] current entries = close_entry current entries"
| "parse_entries (line # lines) current entries =
     (if py_strip line = [] then refuse ''a derived block contains no blank lines''
      else if starts_with line ''  '' then
        (case current of
           None \<Rightarrow> refuse ''a sub-key appears before any head''
         | Some raw \<Rightarrow>
             (let rest = drop 2 line in
              if starts_with rest '' '' then refuse ''a sub-key must be indented exactly two spaces''
              else case partition_colon rest of
                None \<Rightarrow> refuse ''malformed sub-key line''
              | Some (key, v) \<Rightarrow>
                  if key \<notin> set subkeys then refuse ''unknown sub-key''
                  else if map_of raw key \<noteq> None then refuse ''duplicate sub-key''
                  else parse_entries lines (Some (dict_set key v raw)) entries))
      else and_then (close_entry current entries) (\<lambda>entries'.
        case partition_colon line of
          None \<Rightarrow> refuse ''malformed head line''
        | Some (head, v) \<Rightarrow> parse_entries lines (Some [(''head'', head), (''value'', v)]) entries'))"

definition block_text_lines :: "string \<Rightarrow> string list" where
  "block_text_lines text = (let lines = split_on lf (crlf_to_lf text) in if last lines = [] then butlast lines else lines)"

definition parse_derived_block :: "string \<Rightarrow> derived_block block_result" where
  "parse_derived_block text =
     (let lines = block_text_lines text;
          before = takeWhile (\<lambda>l. py_strip l \<noteq> close_fence) lines;
          after = drop (length before + 1) lines; inner = tl before
      in if lines = [] \<or> py_strip (hd lines) \<noteq> open_fence then refuse ''a derived block must start with the open fence''
         else if length before = length lines then refuse ''unclosed block: no close fence line''
         else if list_ex (\<lambda>l. py_strip l = open_fence) inner then refuse ''a second open fence inside a block''
         else if list_ex (\<lambda>l. py_strip l \<noteq> []) after then
           (if list_ex (\<lambda>l. py_strip l = open_fence) after then refuse ''a second open fence follows the close fence''
            else refuse ''content after the close fence'')
         else if inner = [] \<or> \<not> starts_with (last inner) ''digest: '' then refuse ''digest must be the last line before the close fence''
         else let digest = py_strip (drop 8 (last inner))
              in if \<not> hex64 digest then refuse ''digest must be 64 lowercase hex characters''
                 else and_then (parse_entries (butlast inner) None []) (\<lambda>entries.
                   and_then (validate_set entries) (\<lambda>_.
                     if \<not> sorted (map entry_key entries) then refuse ''entries must be sorted by (head, value)''
                     else Inr \<lparr>db_entries = entries, db_digest = digest\<rparr>)))"

definition verify_derived_block :: "(string \<Rightarrow> string) \<Rightarrow> string \<Rightarrow> derived_block block_result" where
  "verify_derived_block sha text = and_then (parse_derived_block text) (\<lambda>block.
     let expected = derived_digest sha (db_entries block)
     in if expected \<noteq> db_digest block then Inl (DerivedDigestMismatch (db_digest block) expected) else Inr block)"

definition diagnose_derived_block :: "(string \<Rightarrow> string) \<Rightarrow> string \<Rightarrow> string option" where
  "diagnose_derived_block sha text =
     (if text = [] then None
      else let lines = split_on lf (crlf_to_lf text);
               after = tl (dropWhile (\<lambda>l. py_strip l \<noteq> close_fence) lines)
           in if length (filter (\<lambda>l. py_strip l = open_fence) lines) > 1 then Some ''derived-block-duplicated''
              else if list_ex (\<lambda>l. py_strip l = close_fence) lines \<and> py_strip (join_with [lf] after) \<noteq> []
              then Some ''derived-block-not-last''
              else (case verify_derived_block sha text of
                 Inl (DerivedDigestMismatch claimed expected) \<Rightarrow> Some ''derived-block-tampered''
               | Inl (DerivedBlockError msg) \<Rightarrow> Some ''derived-block-malformed''
               | Inr block \<Rightarrow> None))"

end
