(* ===== verification/MemoTextCorrect.thy ===== *)
theory MemoTextCorrect
  imports MemoText
begin

text \<open>
  What editing a memo guarantees: a key written into the block is the key the parser reads back, the rest of
  the block keeps its meaning and the body keeps its text, whatever line endings the file uses.
\<close>

section \<open>Lines and their ends\<close>

lemma keep_lines_ne [simp]: "keep_lines brk (c # s) \<noteq> []"
  by (cases s) (auto split: list.splits)

lemma keep_lines_step:
  "\<not> (c = cr \<and> d = lf) \<Longrightarrow> keep_lines brk (c # d # s) =
     (if brk c then [c] # keep_lines brk (d # s)
      else (c # hd (keep_lines brk (d # s))) # tl (keep_lines brk (d # s)))"
  by (cases "keep_lines brk (d # s)") auto

lemma concat_keep_lines [simp]: "concat (keep_lines brk s) = s"
proof (induction brk s rule: keep_lines.induct)
  case (3 brk c d s)
  show ?case
  proof (cases "c = cr \<and> d = lf")
    case False
    then show ?thesis using 3 by (cases "keep_lines brk (d # s)") auto
  qed (use 3 in simp)
qed simp_all

lemma has_line_break_iff: "has_line_break s \<longleftrightarrow> (\<exists>c \<in> set s. line_break c)"
proof
  assume "\<exists>c \<in> set s. line_break c"
  then obtain c l where c: "l \<in> set (keep_lines line_break s)" "c \<in> set l" "line_break c"
    using concat_keep_lines [of line_break s] by (metis UN_E set_concat)
  let ?t = "takeWhile (\<lambda>c. \<not> line_break c)"
  have short: "length (?t m) \<le> length m" for m by (rule length_takeWhile_le)
  have "?t l \<noteq> l" using c(2,3) by (metis set_takeWhileD)
  then have "length (?t l) < length l"
    using takeWhile_dropWhile_id [of "\<lambda>c. \<not> line_break c" l] short [of l]
    by (metis append_self_conv le_neq_implies_less length_0_conv length_append add_cancel_left_right)
  moreover have "length (concat (map ?t ls)) \<le> length (concat ls)" for ls
    by (induction ls) (auto intro: add_mono short)
  moreover obtain xs ys where "keep_lines line_break s = xs @ l # ys" using c(1) by (meson split_list)
  ultimately have "length (concat (map ?t (keep_lines line_break s))) < length (concat (keep_lines line_break s))"
    using add_mono by (simp add: add_le_less_mono add_less_le_mono)
  then show "has_line_break s" unfolding has_line_break_def py_splitlines_def by (metis concat_keep_lines less_irrefl)
next
  assume broken: "has_line_break s"
  show "\<exists>c \<in> set s. line_break c"
  proof (rule ccontr)
    assume none: "\<not> (\<exists>c \<in> set s. line_break c)"
    have "takeWhile (\<lambda>c. \<not> line_break c) l = l" if "l \<in> set (keep_lines line_break s)" for l
      using none that concat_keep_lines [of line_break s] by (subst takeWhile_eq_all_conv) (metis UN_I set_concat)
    then have "py_splitlines s = keep_lines line_break s" by (simp add: py_splitlines_def map_idI)
    then show False using broken by (simp add: has_line_break_def)
  qed
qed

definition bare :: "string \<Rightarrow> bool" where
  "bare w \<longleftrightarrow> (\<forall>c \<in> set w. \<not> byte_break c)"

definition terminators :: "string set" where
  "terminators = {[lf], [cr], [cr, lf]}"

text \<open>Lines as a file holds them: each but the last has a terminator, and no carriage return meets a line feed.\<close>

definition content :: "string \<Rightarrow> string" where
  "content l = takeWhile (\<lambda>c. \<not> byte_break c) l"

definition terminated :: "string \<Rightarrow> bool" where
  "terminated l \<longleftrightarrow> (\<exists>t \<in> terminators. l = content l @ t)"

fun proper :: "string list \<Rightarrow> bool" where
  "proper [] = True"
| "proper [l] = (terminated l \<or> l \<noteq> [] \<and> bare l)"
| "proper (l # m # ls) = (terminated l \<and> (l = content l @ [cr] \<longrightarrow> hd m \<noteq> lf) \<and> m \<noteq> [] \<and> proper (m # ls))"

lemma content_bare: "bare (content l)"
  by (auto simp: bare_def content_def dest: set_takeWhileD)

lemma content_append:
  assumes "bare w" "t \<in> terminators"
  shows "content (w @ t) = w"
proof -
  have "content (w @ t) = w @ content t"
    unfolding content_def by (rule takeWhile_append2) (use assms(1) in \<open>simp add: bare_def\<close>)
  moreover have "content t = []" using assms(2) by (auto simp: content_def terminators_def byte_break_def)
  ultimately show ?thesis by simp
qed

lemma content_Cons: "\<not> byte_break c \<Longrightarrow> content (c # l) = c # content l"
  by (simp add: content_def)

lemma content_id: "bare w \<Longrightarrow> content w = w"
  by (simp add: bare_def content_def)

lemma terminated_intro: "bare w \<Longrightarrow> t \<in> terminators \<Longrightarrow> terminated (w @ t)"
  by (auto simp: terminated_def content_append)

lemma crlf_append: "bare w \<Longrightarrow> crlf_to_lf (w @ s) = w @ crlf_to_lf s"
proof (induction w)
  case (Cons c w)
  then have "c \<noteq> cr" "bare w" by (auto simp: bare_def byte_break_def)
  then show ?case using Cons by (cases "w @ s") auto
qed simp

lemma universal_bare: "bare w \<Longrightarrow> universal (w @ s) = w @ universal s"
proof -
  assume w: "bare w"
  then have "replace_char cr lf w = w" unfolding replace_char_def by (intro map_idI) (auto simp: bare_def byte_break_def)
  then show ?thesis using w by (simp add: universal_def crlf_append) (simp add: replace_char_def)
qed

lemma universal_line:
  assumes "bare w" "t \<in> terminators" "t = [cr] \<longrightarrow> s = [] \<or> hd s \<noteq> lf"
  shows "universal (w @ t @ s) = w @ lf # universal s"
proof -
  have "universal (t @ s) = lf # universal s"
    using assms(2,3) by (cases s) (auto simp: terminators_def universal_def replace_char_def)
  then show ?thesis using universal_bare [OF assms(1)] by simp
qed

lemma split_on_append_sep: "c \<notin> set w \<Longrightarrow> split_on c (w @ c # s) = w # split_on c s"
  by (induction w) auto

lemma bare_no_lf: "bare w \<Longrightarrow> lf \<notin> set w"
  by (auto simp: bare_def byte_break_def)

text \<open>The lines the parser sees are the contents of the lines the file holds.\<close>

lemma text_lines:
  "proper ls \<Longrightarrow> split_on lf (universal (concat ls)) =
     map content ls @ (if ls = [] \<or> terminated (last ls) then [[]] else [])"
proof (induction ls rule: proper.induct)
  case 1
  show ?case by (simp add: universal_def replace_char_def)
next
  case (2 l)
  show ?case
  proof (cases "terminated l")
    case True
    then obtain t where t: "t \<in> terminators" "l = content l @ t" by (auto simp: terminated_def)
    have "universal (content l @ t @ []) = content l @ lf # universal []"
      by (rule universal_line [OF content_bare t(1)]) simp
    then have "universal l = content l @ [lf]" using t(2) by (simp add: universal_def replace_char_def)
    then show ?thesis using True split_on_append_sep [OF bare_no_lf [OF content_bare], of l "[]"] by simp
  next
    case False
    then have "bare l" using 2 by simp
    then have "universal l = l" using universal_bare [of l "[]"] by (simp add: universal_def replace_char_def)
    then show ?thesis using False \<open>bare l\<close> by (simp add: content_id split_on_id bare_no_lf)
  qed
next
  case (3 l m ls)
  then obtain t where t: "t \<in> terminators" "l = content l @ t" by (auto simp: terminated_def)
  have "universal (content l @ t @ concat (m # ls)) = content l @ lf # universal (concat (m # ls))"
    using 3 t by (intro universal_line [OF content_bare]) (auto simp: hd_append)
  then have "universal (concat (l # m # ls)) = content l @ lf # universal (concat (m # ls))"
    by (subst concat.simps(2), subst t(2)) simp
  then show ?case using 3 split_on_append_sep [OF bare_no_lf [OF content_bare]] by simp
qed

lemma proper_keep_lines: "proper (keep_lines byte_break s)"
proof -
  have "proper (keep_lines byte_break s) \<and> (\<forall>l ls. keep_lines byte_break s = l # ls \<longrightarrow> l \<noteq> [] \<and> (s \<noteq> [] \<longrightarrow> hd l = hd s))"
  proof (induction byte_break s rule: keep_lines.induct)
    case (2 c)
    show ?case
    proof (cases "byte_break c")
      case True
      then have "terminated ([] @ [c])" by (intro terminated_intro) (auto simp: bare_def terminators_def byte_break_def)
      then show ?thesis by simp
    qed (simp add: bare_def)
  next
    case (3 c d s)
    consider (crlf) "c = cr" "d = lf" | (final) "\<not> (c = cr \<and> d = lf)" "byte_break c"
      | (inside) "\<not> (c = cr \<and> d = lf)" "\<not> byte_break c" by blast
    then show ?case
    proof cases
      case crlf
      have "terminated ([] @ [cr, lf])" by (rule terminated_intro) (simp_all add: bare_def terminators_def)
      moreover have "content [cr, lf] = []" by (simp add: content_def byte_break_def)
      ultimately show ?thesis using crlf 3 by (cases "keep_lines byte_break s") simp_all
    next
      case final
      have "terminated ([] @ [c])" using final(2) by (intro terminated_intro) (auto simp: bare_def terminators_def byte_break_def)
      moreover have "content [c] = []" using final(2) by (simp add: content_def)
      moreover obtain l ls where l: "keep_lines byte_break (d # s) = l # ls" by (cases "keep_lines byte_break (d # s)") auto
      moreover have "l \<noteq> []" "hd l = d" "proper (l # ls)" using 3(2) [OF final] l by auto
      ultimately show ?thesis using final unfolding keep_lines_step [OF final(1)] by auto
    next
      case inside
      obtain l ls where l: "keep_lines byte_break (d # s) = l # ls" by (cases "keep_lines byte_break (d # s)") auto
      have IH: "proper (l # ls)" using 3(3) [OF inside] l by auto
      have "terminated l \<Longrightarrow> terminated (c # l)" using inside(2) by (auto simp: terminated_def content_Cons)
      then have "proper ((c # l) # ls)" using IH inside(2) by (cases ls) (auto simp: bare_def content_Cons)
      then show ?thesis using inside l unfolding keep_lines_step [OF inside(1)] by simp
    qed
  qed simp
  then show ?thesis ..
qed

section \<open>The line an editor writes\<close>

definition plain_key :: "string \<Rightarrow> bool" where
  "plain_key key \<longleftrightarrow> key \<noteq> [] \<and> (\<forall>c \<in> set key. \<not> py_isspace c \<and> c \<notin> set '':#-*+`[>|'')"

lemma plain_validity_keys: "key \<in> set validity_keys \<Longrightarrow> plain_key key"
  by (auto simp: validity_keys_def plain_key_def py_isspace_def)

lemma strip_keeps_head:
  assumes "s \<noteq> []" "\<not> py_isspace (hd s)"
  shows "py_strip s \<noteq> []" "hd (py_strip s) = hd s"
proof -
  obtain c t where s: "s = c # t" "\<not> py_isspace c" using assms by (cases s) auto
  then have "py_strip s = c # rev (dropWhile py_isspace (rev t))" by (simp add: strip_by_def dropWhile_append3)
  then show "py_strip s \<noteq> []" "hd (py_strip s) = hd s" using s by simp_all
qed

lemma strip_id: "\<forall>c \<in> set s. \<not> py_isspace c \<Longrightarrow> py_strip s = s"
proof -
  assume "\<forall>c \<in> set s. \<not> py_isspace c"
  then have "dropWhile py_isspace s = s" "dropWhile py_isspace (rev s) = rev s"
    unfolding dropWhile_eq_self_iff by (metis hd_in_set, metis hd_in_set rev_is_Nil_conv set_rev)
  then show ?thesis by (simp add: strip_by_def)
qed

lemma strip_space: "py_strip (CHR '' '' # s) = py_strip s"
  by (simp add: strip_by_def py_isspace_def)

lemma entry_head:
  assumes "plain_key key"
  shows "entry_line key v \<noteq> []" "hd (entry_line key v) = hd key" "\<not> py_isspace (hd (entry_line key v))"
    "hd (entry_line key v) \<notin> set '':#-*+`[>|''"
  using assms by (auto simp: entry_line_def plain_key_def)

lemma entry_key_line: "plain_key key \<Longrightarrow> key_line (entry_line key v)"
  by (cases key) (auto simp: entry_line_def key_line_def bare_key_def plain_key_def)

lemma entry_strip:
  assumes "plain_key key"
  shows "py_strip (entry_line key v) \<noteq> fence" "py_strip (entry_line key v) \<noteq> []"
  using strip_keeps_head [OF entry_head(1,3) [OF assms], of v] entry_head(4) [OF assms, of v] by auto

lemma entry_colon:
  assumes "plain_key key"
  shows "CHR '':'' \<in> set (entry_line key v)" "before_colon (entry_line key v) = key"
    "after_colon (entry_line key v) = CHR '' '' # v"
proof -
  have "\<And>c. c \<in> set key \<Longrightarrow> c \<noteq> CHR '':''" using assms by (auto simp: plain_key_def)
  then show "before_colon (entry_line key v) = key" "after_colon (entry_line key v) = CHR '' '' # v"
    by (simp_all add: entry_line_def before_colon_def after_colon_def)
qed (simp add: entry_line_def)

lemma entry_not_item: "plain_key key \<Longrightarrow> block_item (entry_line key v) = None"
  using entry_head [of key v] by (cases "entry_line key v") (auto simp: block_item_def)

lemma byte_break_kinds: "byte_break c \<Longrightarrow> py_isspace c \<and> line_break c"
  by (cases "c = lf") (simp_all add: byte_break_def py_isspace_def line_break_def)

lemma bare_append: "bare (s @ t) \<longleftrightarrow> bare s \<and> bare t"
  by (auto simp: bare_def)

lemma bare_Cons: "bare (c # s) \<longleftrightarrow> \<not> byte_break c \<and> bare s"
  by (auto simp: bare_def)

lemma plain_key_bare: "plain_key key \<Longrightarrow> bare key"
  using byte_break_kinds unfolding bare_def plain_key_def by blast

lemma unbroken_bare: "\<not> has_line_break v \<Longrightarrow> bare v"
  using byte_break_kinds unfolding bare_def has_line_break_iff by blast

lemma entry_bare: "plain_key key \<Longrightarrow> \<not> has_line_break v \<Longrightarrow> bare (entry_line key v)"
  by (simp add: entry_line_def bare_append bare_Cons plain_key_bare unbroken_bare byte_break_def)

section \<open>The block after an insertion\<close>

text \<open>Whether a line may stand in a block, and whether a key has been seen after it.\<close>

definition admits :: "bool \<Rightarrow> string \<Rightarrow> bool option" where
  "admits seen line =
     (let stripped = py_strip line in
      if stripped = [] then Some seen
      else if py_isspace (hd line) then Some (seen \<or> key_line stripped)
      else if key_line line \<or> explicit_key line then Some True
      else if seen \<and> (starts_with stripped ''#'' \<or> sequence_item line \<or> flow_closer line) then Some seen
      else None)"

lemma span_from_Cons:
  "span_from i seen (line # lines) =
     (if py_strip line = fence then (if seen then Some i else None)
      else Option.bind (admits seen line) (\<lambda>seen'. span_from (Suc i) seen' lines))"
  by (auto simp: admits_def Let_def)

declare span_from.simps(2) [simp del]

lemma span_from_bounds: "span_from i seen ls = Some j \<Longrightarrow> i \<le> j \<and> j < i + length ls"
proof (induction ls arbitrary: i seen)
  case (Cons line lines)
  then show ?case by (fastforce simp: span_from_Cons bind_eq_Some_conv split: if_splits)
qed simp

lemma span_from_fence: "span_from i seen ls = Some j \<Longrightarrow> py_strip (ls ! (j - i)) = fence"
proof (induction ls arbitrary: i seen)
  case (Cons line lines)
  show ?case
  proof (cases "py_strip line = fence")
    case False
    then obtain seen' where tail: "span_from (Suc i) seen' lines = Some j"
      using Cons.prems by (auto simp: span_from_Cons bind_eq_Some_conv)
    then show ?thesis using Cons.IH [OF tail] span_from_bounds [OF tail] by (simp add: nth_Cons')
  qed (use Cons.prems in \<open>simp add: span_from_Cons split: if_splits\<close>)
qed simp

lemma admits_entry: "plain_key key \<Longrightarrow> admits seen (entry_line key v) = Some True"
  using entry_strip [of key v] entry_head [of key v] entry_key_line [of key v] by (simp add: admits_def Let_def)

lemma span_insert:
  assumes "plain_key key" "span_from i seen (xs @ c # ys) = Some (i + length xs)"
  shows "span_from i seen (xs @ entry_line key v # c # ys) = Some (Suc (i + length xs))"
  using assms(2)
proof (induction xs arbitrary: i seen)
  case Nil
  have "py_strip c = fence" using span_from_fence [OF Nil] by simp
  then show ?case using entry_strip [OF assms(1), of v] admits_entry [OF assms(1), of _ v] by (simp add: span_from_Cons)
next
  case (Cons x xs)
  have "py_strip x \<noteq> fence" using Cons.prems by (auto simp: span_from_Cons split: if_splits)
  then show ?case using Cons.prems Cons.IH by (auto simp: span_from_Cons bind_eq_Some_conv)
qed

section \<open>What the parser reads from an edited block\<close>

lemma parse_block_append:
  assumes "plain_key key" "key \<noteq> ''supersedes''"
  shows "parse_block loads (b @ [entry_line key v]) st =
    read_key loads (entry_line key v) key (CHR '' '' # v) (parse_block loads b st)"
proof (induction loads b st rule: parse_block.induct)
  case (1 loads st)
  have "py_strip key = key" using assms(1) by (intro strip_id) (simp add: plain_key_def)
  then show ?case using entry_colon [OF assms(1), of v] assms(2) by (simp add: Let_def)
next
  case (2 loads line rest st)
  have "dropWhile (\<lambda>l. block_item l \<noteq> None) (rest @ [entry_line key v]) =
      dropWhile (\<lambda>l. block_item l \<noteq> None) rest @ [entry_line key v]"
    using entry_not_item [OF assms(1), of v] by (simp add: dropWhile_append3)
  moreover have "takeWhile (\<lambda>l. block_item l \<noteq> None) (rest @ [entry_line key v]) = takeWhile (\<lambda>l. block_item l \<noteq> None) rest"
    using entry_not_item [OF assms(1), of v] by (induction rest) auto
  ultimately show ?case using 2 by (simp add: Let_def items_of_def)
qed

lemma parse_block_labels:
  "set (dict_keys (bk_labels st)) \<subseteq> {''name'', ''description''} \<Longrightarrow>
     set (dict_keys (bk_labels (parse_block loads b st))) \<subseteq> {''name'', ''description''}"
proof (induction loads b st rule: parse_block.induct)
  case (2 loads line rest st)
  have "set (dict_keys (bk_labels (read_key loads line k v st))) \<subseteq> {''name'', ''description''}" for k v
    using 2(5) by (auto simp: read_key_def set_meta_def Let_def)
  then show ?case using 2 by (simp add: Let_def add_targets_def)
qed simp

lemma fold_labels_cong:
  assumes "key \<notin> set (dict_keys labels)" "map_of m' = (map_of m)(key \<mapsto> x)"
  shows "map_of (fold (\<lambda>(k, v). dict_set k (PStr v)) labels m') = (map_of (fold (\<lambda>(k, v). dict_set k (PStr v)) labels m))(key \<mapsto> x)"
  using assms
proof (induction labels arbitrary: m m')
  case (Cons kv labels)
  obtain k v where kv: "kv = (k, v)" by (cases kv)
  have "map_of (dict_set k (PStr v) m') = (map_of (dict_set k (PStr v) m))(key \<mapsto> x)"
    using Cons.prems kv by (auto simp: fun_eq_iff)
  from Cons.IH [OF _ this] show ?case using Cons.prems(1) kv by simp
qed simp

lemma finish_set:
  assumes "set (dict_keys (bk_labels st)) \<subseteq> {''name'', ''description''}" "key \<in> {''valid_from'', ''valid_until''}"
  shows "map_of (finish_block (set_meta key x st)) = (map_of (finish_block st))(key \<mapsto> x)"
proof -
  let ?meta = "\<lambda>st. case bk_targets st of None \<Rightarrow> bk_meta st | Some ts \<Rightarrow> dict_set ''supersedes'' (supersedes_value ts) (bk_meta st)"
  have key: "key \<notin> set (dict_keys (bk_labels st))" "key \<noteq> ''supersedes''" "key \<noteq> ''recall_record''" using assms by auto
  have "map_of (?meta (set_meta key x st)) = (map_of (?meta st))(key \<mapsto> x)"
    using key(2) by (auto simp: set_meta_def fun_upd_twist split: option.split)
  then show ?thesis
    using fold_labels_cong [OF key(1), of "?meta (set_meta key x st)" "?meta st" x] key(3)
    by (simp add: finish_block_def Let_def) (simp add: set_meta_def)
qed

section \<open>Inserting a line into a file\<close>

lemma dominant_newline_terminator: "dominant_newline s \<in> terminators"
  by (induction s) (auto simp: terminators_def)

lemma line_terminator_terminator: "t \<in> terminators \<Longrightarrow> line_terminator l t \<in> terminators"
  by (auto simp: line_terminator_def terminators_def)

lemma dominant_newline_cr: "dominant_newline s = [cr] \<Longrightarrow> s = [] \<or> hd s \<noteq> lf"
  by (cases s) (auto split: if_splits)

lemma content_hd: "content l \<noteq> [] \<Longrightarrow> l \<noteq> [] \<and> hd l \<noteq> lf"
  by (cases l) (auto simp: content_def byte_break_def split: if_splits)

lemma proper_tl: "proper (l # ls) \<Longrightarrow> proper ls"
  by (cases ls) auto

lemma proper_insert:
  assumes "proper (xs @ c # ys)" "bare e" "e \<noteq> []" "t \<in> terminators" "content c \<noteq> []"
  shows "proper (xs @ (e @ t) # c # ys)"
  using assms(1)
proof (induction xs)
  case Nil
  then show ?case using assms terminated_intro content_hd [OF assms(5)] by simp
next
  case (Cons x xs)
  have e: "hd (e @ t) \<noteq> lf" "e @ t \<noteq> []" using assms(2,3) by (cases e; auto simp: bare_def byte_break_def)+
  have "proper (xs @ (e @ t) # c # ys)" using Cons proper_tl by simp
  then show ?case using Cons.prems e by (cases xs) auto
qed

lemma memo_lines:
  "split_on lf (memo_text raw) = map content (split_lines (snd raw)) @
     (if split_lines (snd raw) = [] \<or> terminated (last (split_lines (snd raw))) then [[]] else [])"
  using text_lines [OF proper_keep_lines [of "snd raw"]] by (simp add: memo_text_def split_lines_def)

lemma strip_Nil [simp]: "py_strip [] = []"
  by (simp add: strip_by_def)

text \<open>The closing fence of a block is a line of the file, after its first.\<close>

lemma span_line:
  assumes "frontmatter_span (memo_text raw) = Some k"
  shows "1 \<le> k" "k < length (split_lines (snd raw))" "content (split_lines (snd raw) ! k) \<noteq> []"
    "py_strip (hd (split_on lf (memo_text raw))) = fence"
    "span_from 1 False (tl (split_on lf (memo_text raw))) = Some k"
proof -
  let ?T = "split_on lf (memo_text raw)" and ?L = "split_lines (snd raw)"
  show hd: "py_strip (hd ?T) = fence" and tl: "span_from 1 False (tl ?T) = Some k"
    using assms by (auto simp: frontmatter_span_def Let_def split: if_splits)
  have k: "1 \<le> k" "k < 1 + length (tl ?T)" using span_from_bounds [OF tl] by simp_all
  then have "py_strip (?T ! k) = fence" using span_from_fence [OF tl] by (simp add: nth_tl)
  then have ne: "?T ! k \<noteq> []" by auto
  have "k < length ?T" using k by (cases ?T) auto
  then have "k < length ?L" using ne unfolding memo_lines by (auto simp: nth_append split: if_splits)
  moreover have "?T ! k = content (?L ! k)" using calculation unfolding memo_lines by (simp add: nth_append)
  ultimately show "1 \<le> k" "k < length ?L" "content (?L ! k) \<noteq> []" using ne k(1) by simp_all
qed

lemma insert_lines:
  assumes "plain_key key" "\<not> has_line_break v" "frontmatter_span (memo_text raw) = Some k"
    and "insert_frontmatter_line raw key v = Inr raw'"
  shows "split_on lf (memo_text raw') =
    take k (split_on lf (memo_text raw)) @ entry_line key v # drop k (split_on lf (memo_text raw))"
proof -
  let ?L = "split_lines (snd raw)" and ?e = "entry_line key v"
  define t where "t = line_terminator (?L ! k) (dominant_newline (snd raw))"
  note stop = span_line [OF assms(3)]
  have t: "t \<in> terminators"
    unfolding t_def by (rule line_terminator_terminator [OF dominant_newline_terminator])
  have L: "?L = take k ?L @ (?L ! k) # drop (Suc k) ?L" using stop(2) by (simp add: id_take_nth_drop)
  define ls where "ls = take k ?L @ (?e @ t) # (?L ! k) # drop (Suc k) ?L"
  have raw': "snd raw' = concat ls"
    using assms(2-4) stop(2) by (auto simp: insert_frontmatter_line_def Let_def ls_def t_def Cons_nth_drop_Suc)
  have e: "bare ?e" "?e \<noteq> []" using entry_bare [OF assms(1,2)] entry_head [OF assms(1)] by auto
  have "proper ls"
    unfolding ls_def by (rule proper_insert [OF _ e t stop(3)]) (use proper_keep_lines L in \<open>simp add: split_lines_def\<close>)
  from text_lines [OF this] have "split_on lf (memo_text raw') = map content ls @ (if terminated (last ls) then [[]] else [])"
    using raw' by (simp add: memo_text_def) (simp add: ls_def)
  moreover have "last ls = last ?L" using L by (metis ls_def last.simps last_append list.distinct(1))
  moreover have "map content ls = take k (map content ?L) @ ?e # drop k (map content ?L)"
    using stop(2) content_append [OF e(1) t]
    by (simp add: ls_def take_map drop_map Cons_nth_drop_Suc [symmetric] del: Cons_nth_drop_Suc)
  moreover have "?L \<noteq> []" using stop(2) by auto
  ultimately show ?thesis unfolding memo_lines [of raw] using stop(2) by simp
qed

lemma insert_into_block:
  assumes "key \<in> {''valid_from'', ''valid_until''}" "insert_frontmatter_line raw key v = Inr raw'"
    and "frontmatter_span (memo_text raw) = Some k"
  shows "map_of (fst (parse_frontmatter loads (memo_text raw'))) =
      (map_of (fst (parse_frontmatter loads (memo_text raw))))(key \<mapsto> PStr (unquote_scalar (py_strip v)))"
    and "snd (parse_frontmatter loads (memo_text raw')) = snd (parse_frontmatter loads (memo_text raw))"
proof -
  let ?T = "split_on lf (memo_text raw)" and ?T' = "split_on lf (memo_text raw')" and ?e = "entry_line key v"
  have plain: "plain_key key" and key: "key \<noteq> ''supersedes''"
    using assms(1) plain_validity_keys [of key] by (auto simp: validity_keys_def)
  have unbroken: "\<not> has_line_break v" using assms(2) by (auto simp: insert_frontmatter_line_def split: if_splits)
  note stop = span_line [OF assms(3)]
  have T': "?T' = take k ?T @ ?e # drop k ?T" by (rule insert_lines [OF plain unbroken assms(3,2)])
  have kT: "k < length ?T" using stop(2) by (simp add: memo_lines)
  define xs where "xs = take (k - 1) (tl ?T)"
  have tl: "tl ?T = xs @ ?T ! k # drop (Suc k) ?T"
    using stop(1) kT by (cases ?T; cases k) (simp_all add: xs_def id_take_nth_drop)
  have len: "length xs = k - 1" using kT stop(1) by (simp add: xs_def)
  have hd: "hd ?T' = hd ?T" using T' stop(1) kT by (cases ?T; cases k) auto
  have "tl ?T' = xs @ ?e # drop k ?T" using T' stop(1) kT by (cases ?T; cases k) (simp_all add: xs_def)
  then have tl': "tl ?T' = xs @ ?e # ?T ! k # drop (Suc k) ?T" using kT by (simp add: Cons_nth_drop_Suc)
  have "span_from 1 False (tl ?T') = Some (Suc k)"
    unfolding tl' using span_insert [OF plain, of 1 False xs "?T ! k" "drop (Suc k) ?T" v] stop(1,5) tl len by simp
  then have span': "frontmatter_span (memo_text raw') = Some (Suc k)"
    using stop(4) hd by (simp add: frontmatter_span_def Let_def)
  define init where "init = \<lparr>bk_meta = [], bk_labels = [], bk_targets = None\<rparr>"
  have block: "take k (tl ?T') = xs @ [?e]" "take (k - 1) (tl ?T) = xs" unfolding tl' using len stop(1) by (simp_all add: xs_def)
  have body: "drop (Suc (Suc k)) ?T' = drop (Suc k) ?T" using T' kT by (simp add: Cons_nth_drop_Suc [symmetric])
  have labels: "set (dict_keys (bk_labels (parse_block loads xs init))) \<subseteq> {''name'', ''description''}"
    by (rule parse_block_labels) (simp add: init_def)
  have "parse_block loads (xs @ [?e]) init = set_meta key (PStr (unquote_scalar (py_strip v))) (parse_block loads xs init)"
    unfolding parse_block_append [OF plain key] using assms(1) by (auto simp: read_key_def validity_keys_def strip_space)
  then show "map_of (fst (parse_frontmatter loads (memo_text raw'))) =
      (map_of (fst (parse_frontmatter loads (memo_text raw))))(key \<mapsto> PStr (unquote_scalar (py_strip v)))"
    using finish_set [OF labels assms(1)] block
    by (simp add: parse_frontmatter_def assms(3) span' Let_def init_def)
  show "snd (parse_frontmatter loads (memo_text raw')) = snd (parse_frontmatter loads (memo_text raw))"
    using body by (simp add: parse_frontmatter_def assms(3) span' Let_def)
qed

lemma join_split_lf: "join_with [lf] (split_on lf s) = s"
  by (rule join_split_on)

lemma insert_new_block:
  assumes "key \<in> {''valid_from'', ''valid_until''}" "insert_frontmatter_line raw key v = Inr raw'"
    and "frontmatter_span (memo_text raw) = None"
  shows "map_of (fst (parse_frontmatter loads (memo_text raw'))) = [key \<mapsto> PStr (unquote_scalar (py_strip v))]"
    and "snd (parse_frontmatter loads (memo_text raw')) = dropWhile (\<lambda>c. c = lf) (memo_text raw)"
proof -
  let ?e = "entry_line key v" and ?n = "dominant_newline (snd raw)"
  have plain: "plain_key key" and key: "key \<noteq> ''supersedes''"
    using assms(1) plain_validity_keys [of key] by (auto simp: validity_keys_def)
  have unbroken: "\<not> has_line_break v" and raw': "snd raw' = fence @ ?n @ ?e @ ?n @ fence @ ?n @ snd raw"
    using assms(2,3) by (auto simp: insert_frontmatter_line_def Let_def split: if_splits)
  have n: "?n \<in> terminators" by (rule dominant_newline_terminator)
  have f: "bare fence" by (simp add: bare_def byte_break_def)
  have e: "bare ?e" "?e \<noteq> []" "hd ?e \<noteq> lf"
    using entry_bare [OF plain unbroken] entry_head [OF plain, of v] by (auto simp: py_isspace_def)
  have "universal (fence @ ?n @ snd raw) = fence @ lf # memo_text raw"
    using universal_line [OF f n, of "snd raw"] dominant_newline_cr [of "snd raw"] by (simp add: memo_text_def)
  moreover have "universal (?e @ ?n @ fence @ ?n @ snd raw) = ?e @ lf # universal (fence @ ?n @ snd raw)"
    by (rule universal_line [OF e(1) n]) simp
  moreover have "universal (fence @ ?n @ ?e @ ?n @ fence @ ?n @ snd raw) = fence @ lf # universal (?e @ ?n @ fence @ ?n @ snd raw)"
    by (rule universal_line [OF f n]) (use e in simp)
  ultimately have "memo_text raw' = fence @ lf # ?e @ lf # fence @ lf # memo_text raw"
    unfolding memo_text_def [of raw'] raw' by simp
  then have T': "split_on lf (memo_text raw') = fence # ?e # fence # split_on lf (memo_text raw)"
    using split_on_append_sep [OF bare_no_lf [OF f]] split_on_append_sep [OF bare_no_lf [OF e(1)]] by simp
  have fence: "py_strip fence = fence" by (rule strip_id) (simp add: py_isspace_def)
  have "span_from 1 False (?e # fence # ys) = Some 2" for ys
    using entry_strip [OF plain, of v] admits_entry [OF plain, of False v] fence by (simp add: span_from_Cons)
  then have span': "frontmatter_span (memo_text raw') = Some 2"
    using T' fence by (simp add: frontmatter_span_def)
  define init where "init = \<lparr>bk_meta = [], bk_labels = [], bk_targets = None\<rparr>"
  have "parse_block loads ([] @ [?e]) init = set_meta key (PStr (unquote_scalar (py_strip v))) init"
    unfolding parse_block_append [OF plain key] using assms(1) by (auto simp: read_key_def validity_keys_def strip_space)
  then show "map_of (fst (parse_frontmatter loads (memo_text raw'))) = [key \<mapsto> PStr (unquote_scalar (py_strip v))]"
    using assms(1) unfolding parse_frontmatter_def span' T'
    by (auto simp: Let_def init_def finish_block_def set_meta_def)
  show "snd (parse_frontmatter loads (memo_text raw')) = dropWhile (\<lambda>c. c = lf) (memo_text raw)"
    unfolding parse_frontmatter_def span' T' by (simp add: Let_def join_split_lf numeral_2_eq_2)
qed

lemma insert_only_adds:
  assumes "insert_frontmatter_line raw key v = Inr raw'"
  shows "\<exists>before added after. snd raw = before @ after \<and> snd raw' = before @ added @ after"
proof (cases "frontmatter_span (memo_text raw)")
  case None
  then have "snd raw' = [] @ (fence @ dominant_newline (snd raw) @ entry_line key v @ dominant_newline (snd raw) @ fence
      @ dominant_newline (snd raw)) @ snd raw"
    using assms by (auto simp: insert_frontmatter_line_def Let_def split: if_splits)
  then show ?thesis by (metis append_Nil)
next
  case (Some stop)
  define lines where "lines = split_lines (snd raw)"
  have "snd raw = concat (take stop lines) @ concat (drop stop lines)"
    by (simp only: concat_append [symmetric] append_take_drop_id lines_def split_lines_def concat_keep_lines)
  moreover have "\<exists>added. snd raw' = concat (take stop lines) @ added @ concat (drop stop lines)"
    using assms Some by (auto simp: insert_frontmatter_line_def lines_def Let_def split: if_splits)
  ultimately show ?thesis by blast
qed

text \<open>
  C28. A validity date written into a memo is the date read back from it. Inserting \<open>valid_from\<close> or \<open>valid_until\<close>
  is refused exactly when the value holds a line break. Otherwise it only adds text at one place of the file: what was there, its byte
  order marks included, is still there, byte for byte and in order. For the parser it
  sets that key and no other. A memo that had a block keeps the body it had; one that had none gets a block, and its
  body is what it was without its leading blank lines, which the parser drops after a block. This holds whatever line
  endings the file mixes, a header that is no block, or a horizontal rule at its top.
\<close>

theorem inserted_date_reads_back:
  assumes "key \<in> {''valid_from'', ''valid_until''}"
  shows "case insert_frontmatter_line raw key v of
     Inl err \<Rightarrow> (\<exists>c \<in> set v. line_break c) \<and> err = ValueError (key @ '' value contains a line break and would split the block'')
   | Inr raw' \<Rightarrow> (\<nexists>c. c \<in> set v \<and> line_break c) \<and> fst raw' = fst raw \<and>
       (\<exists>before added after. snd raw = before @ after \<and> snd raw' = before @ added @ after) \<and>
       (let (meta, body) = parse_frontmatter loads (memo_text raw); (meta', body') = parse_frontmatter loads (memo_text raw')
        in map_of meta' = (map_of meta)(key \<mapsto> PStr (unquote_scalar (py_strip v))) \<and>
           body' = (if frontmatter_span (memo_text raw) = None then dropWhile (\<lambda>c. c = lf) body else body))"
proof (cases "insert_frontmatter_line raw key v")
  case (Inl err)
  then show ?thesis by (auto simp: insert_frontmatter_line_def has_line_break_iff Let_def split: if_splits)
next
  case (Inr raw')
  have boms: "fst raw' = fst raw" "\<nexists>c. c \<in> set v \<and> line_break c"
    using Inr by (auto simp: insert_frontmatter_line_def has_line_break_iff Let_def split: if_splits)
  note added = insert_only_adds [OF Inr]
  show ?thesis
  proof (cases "frontmatter_span (memo_text raw)")
    case None
    have "parse_frontmatter loads (memo_text raw) = ([], memo_text raw)" using None by (simp add: parse_frontmatter_def)
    then show ?thesis using Inr boms added None insert_new_block [OF assms Inr None, of loads] by (simp add: case_prod_beta)
  next
    case (Some k)
    then show ?thesis using Inr boms added insert_into_block [OF assms Inr Some, of loads] by (simp add: case_prod_beta)
  qed
qed

theorem inserted_date_reads_back_witness:
  "case insert_frontmatter_line (1, ''Notes'') ''valid_until'' ''2024-01-31'' of
     Inl err \<Rightarrow> False
   | Inr raw' \<Rightarrow> map_of (fst (parse_frontmatter (\<lambda>_. None) (memo_text raw'))) = [''valid_until'' \<mapsto> PStr ''2024-01-31'']
       \<and> snd (parse_frontmatter (\<lambda>_. None) (memo_text raw')) = ''Notes''"
proof -
  have "frontmatter_span (memo_text (1, ''Notes'')) = None" by code_simp
  then have old: "frontmatter_span (memo_text (1, ''Notes'')) = None"
    "parse_frontmatter (\<lambda>_. None) (memo_text (1, ''Notes'')) = ([], ''Notes'')"
    by (simp_all add: parse_frontmatter_def) code_simp
  have "\<not> (\<exists>c \<in> set ''2024-01-31''. line_break c)" by (simp add: line_break_def)
  moreover have "unquote_scalar (py_strip ''2024-01-31'') = ''2024-01-31''" by code_simp
  ultimately show ?thesis
    using inserted_date_reads_back [where key = "''valid_until''" and raw = "(1, ''Notes'')" and v = "''2024-01-31''"
        and loads = "\<lambda>_. None"] old
    by (auto simp: case_prod_beta split: sum.splits)
qed

text \<open>
  Withdrawing the only reference of a memo whose block declares nothing else leaves two fences with nothing
  between them, which the parser reads as two rules of the body.
\<close>

lemma emptied_block_becomes_body:
  "case remove_supersedes_target (\<lambda>_. None) (0, ''---'' @ [lf] @ ''supersedes: a.md'' @ [lf] @ ''---'' @ [lf] @ ''Notes'') ''a'' of
     Inr (Some raw') \<Rightarrow> parse_frontmatter (\<lambda>_. None) (memo_text raw') = ([], ''---'' @ [lf] @ ''---'' @ [lf] @ ''Notes'')
   | _ \<Rightarrow> False"
  by code_simp

end
