(* ===== verification/DerivedBlockCorrect.thy ===== *)
theory DerivedBlockCorrect
  imports DerivedBlock MemoTextCorrect
begin

text \<open>
  What the machine block promises: a rendered block is read back exactly, the human part of a body is a prefix
  that a written block does not change, and lint's diagnosis is silent exactly where the block verifies.
\<close>

section \<open>Single lines\<close>

lemma bare_Nil [simp]: "bare []"
  by (simp add: bare_def)

lemmas bare_simps = bare_append bare_Cons byte_break_def

lemma digit_bare: "digit c \<noteq> None \<Longrightarrow> \<not> byte_break c"
  by (cases "c = lf"; cases "c = cr") (auto simp: digit_def byte_break_def)

lemma year_field_bare: "year_field s \<noteq> None \<Longrightarrow> bare s"
  by (cases s rule: year_field.cases) (auto simp: bare_Cons digit_bare bare_def split: option.splits)

lemma month_field_bare: "month_field s \<noteq> None \<Longrightarrow> bare s"
  by (cases s rule: month_field.cases) (auto simp: bare_Cons digit_bare bare_def split: option.splits)

lemma space_bare: "\<not> byte_break (CHR '' '')"
  by (simp add: byte_break_def)

lemma day_field_bare: "day_field s \<noteq> None \<Longrightarrow> bare s"
  by (cases s rule: day_field.cases) (auto simp: bare_Cons digit_bare space_bare bare_def split: option.splits if_splits)

lemma clock_field_bare: "clock_field n s \<Longrightarrow> bare s"
  by (cases "(n, s)" rule: clock_field.cases) (auto simp: bare_Cons digit_bare bare_def split: option.splits)

lemma bare_join: "bare sep \<Longrightarrow> \<forall>x \<in> set xs. bare x \<Longrightarrow> bare (join_with sep xs)"
  by (induction sep xs rule: join_with.induct) (simp_all add: bare_append)

lemma is_utc_instant_bare:
  assumes "is_utc_instant s"
  shows "bare s"
proof -
  obtain ys ms rest where s: "split_on (CHR ''-'') s = [ys, ms, rest]"
    using assms by (auto simp: is_utc_instant_def split: list.splits)
  define ds where "ds = takeWhile (\<lambda>c. c \<noteq> CHR ''T'' \<and> c \<noteq> CHR ''t'') rest"
  define clock where "clock = drop (Suc (length ds)) rest"
  have parts: "length ds < length rest" "year_field ys \<noteq> None" "month_field ms \<noteq> None" "day_field ds \<noteq> None"
      and clock: "case split_on (CHR '':'') clock of
              [h, m, sz] \<Rightarrow> clock_field 24 h \<and> clock_field 60 m \<and> clock_field 60 (butlast sz) \<and> last sz = CHR ''Z''
            | _ \<Rightarrow> False"
    using assms s by (auto simp: is_utc_instant_def Let_def ds_def clock_def split: option.splits)
  obtain h m sz where hms: "split_on (CHR '':'') clock = [h, m, sz]" "clock_field 24 h" "clock_field 60 m"
      "clock_field 60 (butlast sz)" "last sz = CHR ''Z''"
    using clock by (auto split: list.splits)
  have "sz \<noteq> []" using hms(4) by auto
  then have "sz = butlast sz @ ''Z''" using hms(5) by (metis append_butlast_last_id)
  moreover have "bare (butlast sz @ ''Z'')" using clock_field_bare [OF hms(4)] by (simp add: bare_simps)
  ultimately have "bare sz" by metis
  then have "bare (join_with '':'' [h, m, sz])"
    using clock_field_bare hms(2,3) by (intro bare_join) (simp_all add: bare_simps)
  then have "bare clock" using join_split_on [of "CHR '':''" clock] hms(1) by simp
  moreover have "rest = ds @ rest ! length ds # clock" "rest ! length ds \<in> {CHR ''T'', CHR ''t''}"
  proof -
    have "ds = take (length ds) rest" unfolding ds_def by (rule takeWhile_eq_take)
    then show "rest = ds @ rest ! length ds # clock"
      using id_take_nth_drop [OF parts(1)] unfolding clock_def by simp
    show "rest ! length ds \<in> {CHR ''T'', CHR ''t''}"
      using nth_length_takeWhile [OF parts(1) [unfolded ds_def]] unfolding ds_def by blast
  qed
  moreover have "bare (ds @ c # clock)" if "c \<in> {CHR ''T'', CHR ''t''}" for c
    using that day_field_bare [OF parts(4)] calculation(1) by (auto simp: bare_simps)
  ultimately have "bare rest" by metis
  then have "bare (join_with ''-'' [ys, ms, rest])"
    using year_field_bare [OF parts(2)] month_field_bare [OF parts(3)] by (intro bare_join) (simp_all add: bare_simps)
  then show ?thesis using join_split_on [of "CHR ''-''" s] s by simp
qed

lemma hex64_bare: "hex64 s \<Longrightarrow> bare s \<and> (\<forall>c \<in> set s. \<not> py_isspace c) \<and> s \<noteq> []"
proof -
  assume s: "hex64 s"
  have "\<forall>c \<in> set ''0123456789abcdef''. \<not> byte_break c \<and> \<not> py_isspace c"
    by (simp add: byte_break_def py_isspace_def)
  moreover have "\<forall>c \<in> set s. c \<in> set ''0123456789abcdef''" using s unfolding hex64_def list_all_iff by blast
  moreover have "s \<noteq> []" using s unfolding hex64_def by (metis list.size(3) zero_neq_numeral)
  ultimately show ?thesis unfolding bare_def by blast
qed

section \<open>What a valid entry looks like\<close>

lemma validate_entryD:
  assumes "validate_entry e = Inr ()"
  shows "de_head e \<in> set derived_heads" "bare (de_value e)" "bare (de_proposal e)" "bare (de_provider e)"
    "bare (de_reviewer e)" "bare (de_at e)" "bare (de_note e)"
  using assms is_utc_instant_bare hex64_bare unbroken_bare
  by (auto simp: validate_entry_def refuse_def split: if_splits)

lemma head_first:
  assumes "h \<in> set derived_heads"
  shows "h \<noteq> []" "hd h \<notin> set '' <''" "\<not> py_isspace (hd h)" "CHR '':'' \<notin> set h" "bare h" "h \<noteq> ''digest''"
  using assms by (auto simp: derived_heads_def py_isspace_def bare_simps)

lemma key_first:
  assumes "k \<in> set subkeys"
  shows "k \<noteq> []" "hd k \<notin> set '' <''" "\<not> py_isspace (hd k)" "CHR '':'' \<notin> set k" "bare k" "k \<notin> {''head'', ''value''}"
  using assms by (auto simp: subkeys_def required_subkeys_def py_isspace_def bare_simps)

lemma partition_colon_key: "CHR '':'' \<notin> set k \<Longrightarrow> partition_colon (k @ '': '' @ v) = Some (k, v)"
  by (induction k) (auto simp: starts_with_def)

lemma strip_key_line:
  assumes "k \<noteq> []" "\<not> py_isspace (hd k)" "hd k \<notin> set '' <''"
  shows "py_strip (k @ s) \<noteq> []" "py_strip (k @ s) \<notin> {open_fence, close_fence}"
    "py_strip (''  '' @ k @ s) \<noteq> []" "py_strip (''  '' @ k @ s) \<notin> {open_fence, close_fence}"
proof -
  have head: "py_strip (k @ s) \<noteq> []" "hd (py_strip (k @ s)) = hd k"
    using strip_keeps_head [of "k @ s"] assms(1,2) by simp_all
  moreover have "hd open_fence = CHR ''<''" "hd close_fence = CHR ''<''" by (simp_all add: open_fence_def close_fence_def)
  ultimately show "py_strip (k @ s) \<noteq> []" "py_strip (k @ s) \<notin> {open_fence, close_fence}"
    "py_strip (''  '' @ k @ s) \<noteq> []" "py_strip (''  '' @ k @ s) \<notin> {open_fence, close_fence}"
    using assms(3) by (auto simp: strip_space)
qed

section \<open>Reading a rendered entry\<close>

declare parse_entries.simps(2) [simp del]

definition raw_of :: "derived_entry \<Rightarrow> raw_entry" where
  "raw_of e = [(''head'', de_head e), (''value'', de_value e), (''proposal'', de_proposal e), (''provider'', de_provider e),
      (''reviewer'', de_reviewer e), (''at'', de_at e)] @ (if de_note e = [] then [] else [(''note'', de_note e)])"

lemma parse_subkey:
  assumes "k \<in> set subkeys" "map_of raw k = None"
  shows "parse_entries (subkey_line k v # lines) (Some raw) acc = parse_entries lines (Some (dict_set k v raw)) acc"
proof -
  note k = key_first [OF assms(1)]
  have "py_strip (subkey_line k v) \<noteq> []" using strip_key_line(3) [OF k(1,3,2)] by (simp add: subkey_line_def)
  moreover have "drop 2 (subkey_line k v) = k @ '': '' @ v" "starts_with (subkey_line k v) ''  ''"
    by (simp_all add: subkey_line_def starts_with_def numeral_2_eq_2)
  moreover have "\<not> starts_with (k @ '': '' @ v) '' ''" using k(1,2) by (cases k) (auto simp: starts_with_def)
  ultimately show ?thesis using assms partition_colon_key [OF k(4), of v] by (simp add: parse_entries.simps(2))
qed

lemma parse_head:
  assumes "h \<in> set derived_heads"
  shows "parse_entries (entry_line h v # lines) current acc =
    and_then (close_entry current acc) (\<lambda>acc'. parse_entries lines (Some [(''head'', h), (''value'', v)]) acc')"
proof -
  note h = head_first [OF assms]
  have "py_strip (h @ '': '' @ v) \<noteq> []" by (rule strip_key_line(1) [OF h(1,3,2)])
  moreover have "\<not> starts_with (h @ '': '' @ v) ''  ''" using h(1,2) by (cases h) (auto simp: starts_with_def)
  ultimately show ?thesis using partition_colon_key [OF h(4), of v] by (simp add: entry_line_def parse_entries.simps(2))
qed

lemma parse_entry:
  assumes "de_head e \<in> set derived_heads"
  shows "parse_entries (entry_lines e @ lines) current acc =
    and_then (close_entry current acc) (\<lambda>acc'. parse_entries lines (Some (raw_of e)) acc')"
proof -
  have "''proposal'' \<in> set subkeys" "''provider'' \<in> set subkeys" "''reviewer'' \<in> set subkeys" "''at'' \<in> set subkeys" "''note'' \<in> set subkeys"
    by (simp_all add: subkeys_def required_subkeys_def)
  then show ?thesis
    unfolding entry_lines_def by (simp add: parse_head [OF assms] parse_subkey raw_of_def)
qed

lemma entry_from_raw:
  assumes "validate_entry e = Inr ()"
  shows "entry_from (raw_of e) = Inr e"
proof (cases "de_note e = []")
  case True
  then show ?thesis
    using assms by (cases e) (simp add: entry_from_def required_subkeys_def dict_get_def raw_of_def Let_def)
next
  case False
  then show ?thesis
    using assms by (cases e) (simp add: entry_from_def required_subkeys_def dict_get_def raw_of_def Let_def)
qed

lemma parse_rendered:
  assumes "\<forall>e \<in> set es. validate_entry e = Inr ()" "close_entry current acc = Inr acc'"
  shows "parse_entries (concat (map entry_lines es)) current acc = Inr (acc' @ es)"
  using assms
proof (induction es arbitrary: current acc acc')
  case (Cons e es)
  have "close_entry (Some (raw_of e)) acc' = Inr (acc' @ [e])"
    using entry_from_raw Cons.prems(1) by (simp add: close_entry_def)
  then show ?case using Cons validate_entryD(1) by (simp add: parse_entry)
qed simp

section \<open>Reading a rendered block\<close>

lemma split_on_snoc: "split_on c (s @ [c]) = split_on c s @ [[]]"
  by (induction s) (auto split: list.split)

lemma split_on_join: "ls \<noteq> [] \<Longrightarrow> \<forall>l \<in> set ls. c \<notin> set l \<Longrightarrow> split_on c (join_with [c] ls) = ls"
  by (induction "[c]" ls rule: join_with.induct) (auto simp: split_on_id split_on_append_sep)

lemma crlf_id: "cr \<notin> set s \<Longrightarrow> crlf_to_lf s = s"
  by (induction s rule: crlf_to_lf.induct) auto

lemma join_no_cr: "\<forall>l \<in> set ls. bare l \<Longrightarrow> cr \<notin> set (join_with [lf] ls)"
  by (induction "[lf]" ls rule: join_with.induct) (auto simp: bare_def byte_break_def)

lemma entry_lines_ok:
  assumes "validate_entry e = Inr ()" "l \<in> set (entry_lines e)"
  shows "bare l" "py_strip l \<notin> {open_fence, close_fence}" "l \<noteq> []"
proof -
  note v = validate_entryD [OF assms(1)]
  note h = head_first [OF v(1)]
  consider (head) "l = entry_line (de_head e) (de_value e)"
    | (sub) k w where "l = subkey_line k w" "k \<in> set subkeys" "bare w"
    using assms(2) v by (auto simp: entry_lines_def subkeys_def required_subkeys_def split: if_splits)
  then have "bare l \<and> py_strip l \<notin> {open_fence, close_fence} \<and> l \<noteq> []"
  proof cases
    case head
    then show ?thesis
      using h v strip_key_line(2) [OF h(1,3,2), of "'': '' @ de_value e"] by (simp add: entry_line_def bare_simps)
  next
    case sub
    note k = key_first [OF sub(2)]
    show ?thesis
      using sub k strip_key_line(4) [OF k(1,3,2), of "'': '' @ w"] by (simp add: subkey_line_def bare_simps)
  qed
  then show "bare l" "py_strip l \<notin> {open_fence, close_fence}" "l \<noteq> []" by auto
qed

lemma validate_entries_iff: "validate_entries es = Inr () \<longleftrightarrow> (\<forall>e \<in> set es. validate_entry e = Inr ())"
  by (induction es) auto

lemma strip_fences: "py_strip open_fence = open_fence" "py_strip close_fence = close_fence" "open_fence \<noteq> close_fence"
  "bare open_fence" "bare close_fence" "open_fence \<noteq> []" "close_fence \<noteq> []"
  by (simp_all add: open_fence_def close_fence_def strip_by_def py_isspace_def bare_simps)

lemma parse_block_lines:
  assumes "\<forall>e \<in> set es. validate_entry e = Inr ()" "validate_set es = Inr ()" "sorted (map entry_key es)"
    and "hex64 (derived_digest sha es)" "block_text_lines text = block_lines sha es"
  shows "parse_derived_block text = Inr \<lparr>db_entries = es, db_digest = derived_digest sha es\<rparr>"
proof -
  define d where "d = ''digest: '' @ derived_digest sha es"
  define mid where "mid = concat (map entry_lines es)"
  have lines: "block_lines sha es = (open_fence # mid @ [d]) @ [close_fence]" by (simp add: block_lines_def d_def mid_def)
  have mid: "py_strip l \<notin> {open_fence, close_fence}" if "l \<in> set mid" for l
    using that entry_lines_ok(2) assms(1) by (auto simp: mid_def)
  have d: "py_strip d \<notin> {open_fence, close_fence}"
    using strip_key_line(2) [of "''digest''" "'': '' @ derived_digest sha es"] by (simp add: py_isspace_def d_def)
  have "\<And>l. l \<in> set (open_fence # mid @ [d]) \<Longrightarrow> py_strip l \<noteq> close_fence" using mid d strip_fences by auto
  then have "takeWhile (\<lambda>l. py_strip l \<noteq> close_fence) (block_lines sha es) = open_fence # mid @ [d]"
    unfolding lines using strip_fences by (subst takeWhile_append2) auto
  moreover have "drop 8 d = derived_digest sha es" "starts_with d ''digest: ''" by (simp_all add: starts_with_def d_def)
  moreover have "py_strip (derived_digest sha es) = derived_digest sha es"
    using hex64_bare [OF assms(4)] by (intro strip_id) simp
  moreover have "parse_entries mid None [] = Inr es"
    using parse_rendered [OF assms(1), of None "[]" "[]"] by (simp add: close_entry_def mid_def)
  ultimately show ?thesis
    unfolding parse_derived_block_def assms(5) Let_def
    using mid d strip_fences assms(2-4) by (simp add: lines list_ex_iff)
qed

text \<open>
  C27. Round trip of the machine block: whatever entries the renderer accepts, in whatever order they come, the
  text it writes verifies, and the entries read back are those entries, with the two closure aliases normalised
  and sorted by head and value.
\<close>

theorem rendered_block_verifies:
  assumes "\<And>x. hex64 (sha x)"
  shows "case render_derived_block sha entries of
     Inl err \<Rightarrow> validate_set (ordered_entries entries) \<noteq> Inr () \<or> (\<exists>e \<in> set entries. validate_entry (normalise e) \<noteq> Inr ())
   | Inr text \<Rightarrow> verify_derived_block sha text =
       Inr \<lparr>db_entries = sort_key entry_key (map normalise entries), db_digest = sha (derived_json (sort_key entry_key (map normalise entries)))\<rparr>"
proof (cases "render_derived_block sha entries")
  case (Inl err)
  then show ?thesis
    using validate_entries_iff [of "ordered_entries entries"]
    by (auto simp: render_derived_block_def Let_def ordered_entries_def and_then_def split: sum.splits)
next
  case (Inr rendered)
  define es where "es = ordered_entries entries"
  have ok: "validate_set es = Inr ()" "\<forall>e \<in> set es. validate_entry e = Inr ()"
    and written: "rendered = join_with [lf] (block_lines sha es) @ [lf]"
    using Inr validate_entries_iff [of es] by (auto simp: render_derived_block_def Let_def es_def)
  have digest: "hex64 (derived_digest sha es)" using assms by (simp add: derived_digest_def)
  have bare: "\<forall>l \<in> set (block_lines sha es). bare l"
    using entry_lines_ok(1) ok(2) strip_fences hex64_bare [OF digest] by (auto simp: block_lines_def bare_simps)
  have ne: "block_lines sha es \<noteq> []" by (simp add: block_lines_def)
  have "crlf_to_lf rendered = rendered" using join_no_cr [OF bare] written by (intro crlf_id) simp
  then have "split_on lf (crlf_to_lf rendered) = block_lines sha es @ [[]]"
    using split_on_join [OF ne, of lf] bare written by (simp add: split_on_snoc bare_no_lf)
  then have "block_text_lines rendered = block_lines sha es" by (simp add: block_text_lines_def)
  moreover have "sorted (map entry_key es)" by (simp add: es_def ordered_entries_def)
  ultimately have "parse_derived_block rendered = Inr \<lparr>db_entries = es, db_digest = derived_digest sha es\<rparr>"
    using parse_block_lines [OF ok(2,1) _ digest] by simp
  then show ?thesis using Inr by (simp add: verify_derived_block_def Let_def derived_digest_def es_def ordered_entries_def)
qed

definition sample_entry :: derived_entry where
  "sample_entry = \<lparr>de_head = ''status'', de_value = ''obsolete'', de_proposal = replicate 64 (CHR ''b''), de_provider = ''p'',
     de_reviewer = ''r'', de_at = ''2024-01-31T10:00:00Z'', de_note = []\<rparr>"

theorem rendered_block_verifies_witness:
  "case render_derived_block (\<lambda>_. replicate 64 (CHR ''a'')) [sample_entry] of
     Inl err \<Rightarrow> False
   | Inr block \<Rightarrow> verify_derived_block (\<lambda>_. replicate 64 (CHR ''a'')) block =
       Inr \<lparr>db_entries = [sample_entry\<lparr>de_value := ''superseded''\<rparr>], db_digest = replicate 64 (CHR ''a'')\<rparr>"
proof -
  have hex: "hex64 (replicate 64 (CHR ''a''))" by (simp add: hex64_def list_all_iff)
  have norm: "normalise sample_entry = sample_entry\<lparr>de_value := ''superseded''\<rparr>"
    by (simp add: normalise_def sample_entry_def status_aliases_def)
  have "validate_set (ordered_entries [sample_entry]) = Inr ()" by code_simp
  moreover have "validate_entry (normalise sample_entry) = Inr ()" by code_simp
  ultimately show ?thesis
    using rendered_block_verifies [of "\<lambda>_. replicate 64 (CHR ''a'')" "[sample_entry]"] hex norm
    by (simp split: sum.splits)
qed

section \<open>The human part of a body\<close>

lemma line_break_kinds: "line_break lf" "line_break cr" "py_isspace lf"
  by (simp_all add: line_break_def py_isspace_def)

lemma keep_lines_single: "\<forall>c \<in> set s. \<not> brk c \<Longrightarrow> cr \<notin> set s \<Longrightarrow> s \<noteq> [] \<Longrightarrow> keep_lines brk s = [s]"
  by (induction brk s rule: keep_lines.induct) auto

lemma keep_lines_hd: "\<exists>u v. hd (keep_lines brk (c # s)) = c # u \<and> s = u @ v"
proof -
  obtain l ls where l: "keep_lines brk (c # s) = l # ls" by (cases "keep_lines brk (c # s)") auto
  have "l \<noteq> []" using l by (cases s) (auto split: if_splits list.splits)
  moreover have "l @ concat ls = c # s" using l concat_keep_lines [of brk "c # s"] by simp
  ultimately show ?thesis using l by (cases l) auto
qed

text \<open>Lengthening a text only lengthens its last line and adds lines.\<close>

lemma keep_lines_extend:
  "p \<noteq> [] \<Longrightarrow> \<exists>u rest. keep_lines brk (p @ w) = butlast (keep_lines brk p) @ (last (keep_lines brk p) @ u) # rest \<and> set u \<subseteq> set w"
proof (induction brk p rule: keep_lines.induct)
  case (2 brk c)
  show ?case
  proof (cases w)
    case (Cons d v)
    obtain u x where u: "hd (keep_lines brk (d # v)) = d # u" "v = u @ x" using keep_lines_hd by blast
    consider "c = cr" "d = lf" | "\<not> (c = cr \<and> d = lf)" "brk c" | "\<not> (c = cr \<and> d = lf)" "\<not> brk c" by blast
    then show ?thesis
    proof cases
      case 3
      then have "keep_lines brk ([c] @ w) = (c # d # u) # tl (keep_lines brk (d # v))"
        using Cons u(1) keep_lines_step [OF 3(1), of brk v] by simp
      then show ?thesis using Cons u(2) by auto
    qed (use Cons in auto)
  qed simp
next
  case (3 brk c d s)
  consider (crlf) "c = cr" "d = lf" | (stop) "\<not> (c = cr \<and> d = lf)" "brk c" | (inside) "\<not> (c = cr \<and> d = lf)" "\<not> brk c" by blast
  then show ?case
  proof cases
    case crlf
    then show ?thesis using 3 by (cases s) auto
  next
    case stop
    then show ?thesis using 3(2) [OF stop] by (auto simp: keep_lines_step [OF stop(1)])
  next
    case inside
    obtain l ls where l: "keep_lines brk (d # s) = l # ls" by (cases "keep_lines brk (d # s)") auto
    obtain u rest where ih: "keep_lines brk (d # s @ w) = butlast (l # ls) @ (last (l # ls) @ u) # rest" "set u \<subseteq> set w"
      using 3(3) [OF inside] l by auto
    show ?thesis
      using ih inside l by (cases ls) (auto simp: keep_lines_step [OF inside(1)])
  qed
qed simp

lemma keep_lines_before_lf:
  "p \<noteq> [] \<Longrightarrow> \<not> line_break (last p) \<Longrightarrow> keep_lines line_break (p @ lf # r) =
     butlast (keep_lines line_break p) @ (last (keep_lines line_break p) @ [lf]) # keep_lines line_break r"
proof (induction line_break p rule: keep_lines.induct)
  case (2 c)
  then have "\<not> line_break c" "c \<noteq> cr" using line_break_kinds by auto
  then show ?case using line_break_kinds by (cases r) auto
next
  case (3 c d s)
  consider (crlf) "c = cr" "d = lf" | (stop) "\<not> (c = cr \<and> d = lf)" "line_break c"
    | (inside) "\<not> (c = cr \<and> d = lf)" "\<not> line_break c" by blast
  then show ?case
  proof cases
    case crlf
    then show ?thesis using 3 line_break_kinds by (cases s) auto
  next
    case stop
    then show ?thesis using 3 by (auto simp: keep_lines_step [OF stop(1)])
  next
    case inside
    obtain l ls where l: "keep_lines line_break (d # s) = l # ls" by (cases "keep_lines line_break (d # s)") auto
    have ih: "keep_lines line_break (d # s @ lf # r) = butlast (l # ls) @ (last (l # ls) @ [lf]) # keep_lines line_break r"
      using 3(3) [OF inside] 3(5) l by simp
    show ?thesis using ih inside l by (cases ls) (auto simp: keep_lines_step [OF inside(1)])
  qed
qed simp

lemma dropWhile_spaces: "\<forall>c \<in> set w. py_isspace c \<Longrightarrow> dropWhile py_isspace (rev w @ t) = dropWhile py_isspace t"
  by (rule dropWhile_append2) simp

lemma strip_trailing:
  assumes "\<forall>c \<in> set w. py_isspace c"
  shows "py_strip (s @ w) = py_strip s"
proof (cases "\<forall>c \<in> set s. py_isspace c")
  case True
  then have "dropWhile py_isspace (s @ w) = []" "dropWhile py_isspace s = []" using assms by auto
  then show ?thesis unfolding strip_by_def by (simp only:)
next
  case False
  then have "dropWhile py_isspace (s @ w) = dropWhile py_isspace s @ w" by (auto simp: dropWhile_append)
  then show ?thesis by (simp add: strip_by_def dropWhile_spaces [OF assms])
qed

definition has_fence :: "string \<Rightarrow> bool" where
  "has_fence s \<longleftrightarrow> (\<exists>l \<in> set (keep_lines line_break s). py_strip l \<in> {open_fence, legacy_open_fence})"

lemma has_fence_trailing:
  assumes "has_fence p" "\<forall>c \<in> set w. py_isspace c"
  shows "has_fence (p @ w)"
proof (cases "p = []")
  case False
  obtain u rest where e: "keep_lines line_break (p @ w) = butlast (keep_lines line_break p) @ (last (keep_lines line_break p) @ u) # rest"
      "set u \<subseteq> set w"
    using keep_lines_extend [OF False] by blast
  obtain l where l: "l \<in> set (keep_lines line_break p)" "py_strip l \<in> {open_fence, legacy_open_fence}"
    using assms(1) by (auto simp: has_fence_def)
  have "py_strip (last (keep_lines line_break p) @ u) = py_strip (last (keep_lines line_break p))"
    using e(2) assms(2) by (intro strip_trailing) auto
  moreover have "l \<in> set (butlast (keep_lines line_break p)) \<or> l = last (keep_lines line_break p)"
    using l(1) by (metis append_butlast_last_id empty_iff empty_set in_set_conv_decomp_last set_ConsD Un_iff set_append)
  ultimately show ?thesis using l(2) e(1) unfolding has_fence_def by auto
qed (use assms(1) in \<open>simp add: has_fence_def\<close>)

lemma fence_offset_None: "fence_offset c ls = None \<longleftrightarrow> (\<forall>l \<in> set ls. py_strip l \<notin> {open_fence, legacy_open_fence})"
  by (induction c ls rule: fence_offset.induct) auto

lemma fence_offset_Some:
  "fence_offset c ls = Some n \<Longrightarrow> \<exists>xs l ys. ls = xs @ l # ys \<and> n = c + length (concat xs)
     \<and> (\<forall>x \<in> set xs. py_strip x \<notin> {open_fence, legacy_open_fence})"
proof (induction c ls rule: fence_offset.induct)
  case (2 c l ls)
  show ?case
  proof (cases "py_strip l \<in> {open_fence, legacy_open_fence}")
    case True
    then show ?thesis using 2(2) by (intro exI [of _ "[]"] exI [of _ l] exI [of _ ls]) auto
  next
    case False
    then obtain xs m ys where "ls = xs @ m # ys" "n = c + length l + length (concat xs)"
        "\<forall>x \<in> set xs. py_strip x \<notin> {open_fence, legacy_open_fence}"
      using 2(1) [OF False] 2(2) by auto
    then show ?thesis using False by (intro exI [of _ "l # xs"] exI [of _ m] exI [of _ ys]) simp
  qed
qed simp

lemma fence_offset_skip:
  "\<forall>x \<in> set xs. py_strip x \<notin> {open_fence, legacy_open_fence} \<Longrightarrow> fence_offset c (xs @ ls) = fence_offset (c + length (concat xs)) ls"
  by (induction xs arbitrary: c) (simp_all add: add.assoc)

lemma rstrip_parts: "\<exists>w. s = rstrip s @ w \<and> (\<forall>c \<in> set w. py_isspace c)"
proof (intro exI conjI)
  have "rev s = takeWhile py_isspace (rev s) @ dropWhile py_isspace (rev s)" by simp
  then have "s = rev (dropWhile py_isspace (rev s)) @ rev (takeWhile py_isspace (rev s))"
    by (metis rev_append rev_rev_ident)
  then show "s = rstrip s @ rev (takeWhile py_isspace (rev s))" by (simp add: rstrip_def)
qed (auto dest: set_takeWhileD)

lemma rstrip_trailing: "\<forall>c \<in> set w. py_isspace c \<Longrightarrow> rstrip (s @ w) = rstrip s"
  by (simp add: rstrip_def dropWhile_spaces)

lemma rstrip_rstrip [simp]: "rstrip (rstrip s) = rstrip s"
  using rstrip_parts [of s] rstrip_trailing [of _ "rstrip s"] by metis

lemma rstrip_last: "rstrip s \<noteq> [] \<Longrightarrow> \<not> py_isspace (last (rstrip s))"
  unfolding rstrip_def by (metis hd_dropWhile hd_rev rev_is_Nil_conv rev_rev_ident)

lemma keep_lines_nonempty: "l \<in> set (keep_lines brk s) \<Longrightarrow> l \<noteq> []"
proof (induction brk s rule: keep_lines.induct)
  case (3 brk c d s)
  then show ?case by (cases "keep_lines brk (d # s)") (auto split: if_splits)
qed auto

text \<open>The first lines of a text are the lines of their own text.\<close>

lemma keep_lines_prefix:
  assumes "keep_lines brk s = xs @ ys"
  shows "set (keep_lines brk (concat xs)) \<subseteq> set xs"
proof (cases "concat xs = []")
  case False
  define K where "K = keep_lines brk (concat xs)"
  have s: "s = concat xs @ concat ys" using assms concat_keep_lines [of brk s] by simp
  obtain u rest where e: "xs @ ys = butlast K @ (last K @ u) # rest"
    using keep_lines_extend [OF False, of brk "concat ys"] assms s unfolding K_def by auto
  have K: "concat K = concat xs" by (simp add: K_def)
  then have K_ne: "K \<noteq> []" using False by (metis concat.simps(1))
  have last: "last K \<noteq> []" using K_ne keep_lines_nonempty unfolding K_def by (metis last_in_set)
  have sum: "concat (butlast K) @ last K = concat xs" using K K_ne by (metis append_butlast_last_id concat_append concat.simps append_Nil2)
  from e consider zs where "xs = butlast K @ (last K @ u) # zs" | zs where "butlast K = xs @ zs"
    by (auto simp: append_eq_append_conv2 Cons_eq_append_conv append_eq_Cons_conv) metis
  then show ?thesis
  proof cases
    case 1
    then have "concat (butlast K) @ last K @ u @ concat zs = concat (butlast K) @ last K" using sum by simp
    then have "u = []" by simp
    then have "set K \<subseteq> set xs" using 1 append_butlast_last_id [OF K_ne] by (metis append.right_neutral set_append
      Un_upper1 append_Cons append_assoc append_Nil)
    then show ?thesis by (simp add: K_def)
  next
    case 2
    then have "concat zs @ last K = []" using sum by simp
    then show ?thesis using last by simp
  qed
qed (metis empty_subsetI empty_set keep_lines.simps(1))

lemma human_no_fence: "\<not> has_fence (ds_human (split_derived_block body))"
proof (cases "first_fence_offset body")
  case None
  obtain w where "body = rstrip body @ w" "\<forall>c \<in> set w. py_isspace c" using rstrip_parts by blast
  moreover have "\<not> has_fence body" using None by (auto simp: first_fence_offset_def fence_offset_None has_fence_def)
  ultimately show ?thesis using None has_fence_trailing by (fastforce simp: split_derived_block_def)
next
  case (Some n)
  obtain xs l ys where ls: "keep_lines line_break body = xs @ l # ys" "n = length (concat xs)"
      and clear: "\<forall>x \<in> set xs. py_strip x \<notin> {open_fence, legacy_open_fence}"
    using fence_offset_Some [of 0 _ n] Some unfolding first_fence_offset_def by fastforce
  have "body = concat xs @ l @ concat ys" using ls(1) concat_keep_lines [of line_break body] by simp
  then have taken: "take n body = concat xs" using ls(2) by simp
  have "\<not> has_fence (concat xs)" using keep_lines_prefix [OF ls(1)] clear by (auto simp: has_fence_def)
  moreover obtain w where "concat xs = rstrip (concat xs) @ w" "\<forall>c \<in> set w. py_isspace c" using rstrip_parts by blast
  ultimately show ?thesis using Some taken has_fence_trailing by (fastforce simp: split_derived_block_def)
qed

lemma human_prefix: "\<exists>rest. body = ds_human (split_derived_block body) @ rest"
  using rstrip_parts by (cases "first_fence_offset body") (simp_all add: split_derived_block_def, metis, metis append_assoc append_take_drop_id)

lemma human_rstrip: "rstrip (ds_human (split_derived_block body)) = ds_human (split_derived_block body)"
  by (simp add: split_derived_block_def split: option.split)

lemma split_written:
  assumes "rstrip h = h" "\<not> has_fence h"
  shows "split_derived_block (h @ [lf, lf] @ open_fence @ lf # s) =
    \<lparr>ds_human = h, ds_block_text = open_fence @ lf # s, ds_fence_start = Some (length h + 2)\<rparr>"
proof -
  let ?k = "keep_lines line_break" and ?clear = "\<lambda>xs. \<forall>x \<in> set xs. py_strip x \<notin> {open_fence, legacy_open_fence}"
  have fence: "?k (open_fence @ lf # s) = (open_fence @ [lf]) # ?k s"
  proof -
    have plain: "\<forall>c \<in> set open_fence. \<not> line_break c" "cr \<notin> set open_fence" "open_fence \<noteq> []"
      by (simp_all add: open_fence_def line_break_def)
    then show ?thesis using keep_lines_before_lf [of open_fence s] keep_lines_single [of open_fence line_break] by simp
  qed
  have "fence_offset c (?k (open_fence @ lf # s)) = Some c" for c
    unfolding fence using strip_trailing [of "[lf]" open_fence] strip_fences(1) line_break_kinds by simp
  moreover have "\<exists>xs. ?k (h @ lf # lf # open_fence @ lf # s) = xs @ ?k (open_fence @ lf # s) \<and> concat xs = h @ [lf, lf] \<and> ?clear xs"
  proof -
    have nl: "?k (lf # r) = [lf] # ?k r" for r using line_break_kinds by (cases r) auto
    have blank: "?clear [[lf]]" using strip_trailing [of "[lf]" "[]"] line_break_kinds
      by (simp add: open_fence_def legacy_open_fence_def)
    show ?thesis
    proof (cases "h = []")
      case True
      then show ?thesis using blank by (intro exI [of _ "[[lf], [lf]]"]) (simp add: nl line_break_kinds)
    next
      case False
      have "\<not> line_break (last h)"
        using rstrip_last [of h] assms(1) False by (auto simp: line_break_def py_isspace_def)
      note lines = keep_lines_before_lf [OF False this, of "lf # open_fence @ lf # s"]
      define xs where "xs = butlast (?k h) @ [last (?k h) @ [lf]]"
      have ne: "?k h \<noteq> []" using False by (cases h) auto
      have "concat xs = concat (butlast (?k h) @ [last (?k h)]) @ [lf]" by (simp add: xs_def)
      then have "concat xs = h @ [lf]" using append_butlast_last_id [OF ne] by simp
      moreover have "?clear xs"
        using assms(2) ne strip_trailing [of "[lf]" "last (?k h)"] line_break_kinds
        by (auto simp: xs_def has_fence_def dest: in_set_butlastD)
      ultimately show ?thesis using blank lines nl by (intro exI [of _ "xs @ [[lf]]"]) (auto simp: xs_def)
    qed
  qed
  ultimately have "first_fence_offset (h @ lf # lf # open_fence @ lf # s) = Some (length h + 2)"
    using fence_offset_skip unfolding first_fence_offset_def by fastforce
  moreover have "rstrip (h @ [lf, lf]) = h" using rstrip_trailing [of "[lf, lf]" h] assms(1) line_break_kinds by simp
  ultimately show ?thesis by (simp add: split_derived_block_def)
qed

lemma rendered_starts: "render_derived_block sha entries = Inr block \<Longrightarrow> \<exists>s. block = open_fence @ lf # s"
proof -
  assume "render_derived_block sha entries = Inr block"
  then have block: "block = join_with [lf] (block_lines sha (ordered_entries entries)) @ [lf]"
    by (auto simp: render_derived_block_def Let_def)
  obtain l ls where "block_lines sha (ordered_entries entries) = open_fence # l # ls"
    by (cases "concat (map entry_lines (ordered_entries entries))") (auto simp: block_lines_def)
  then show ?thesis using block by simp
qed

text \<open>
  C29. Machine output never becomes evidence. The part of a body its readers see is a prefix of the body, and
  writing any rendered block after it, one blank line down, changes nothing of that part: it is the same text, and
  everything after it is the block.
\<close>

theorem written_block_is_invisible:
  "let human = ds_human (split_derived_block body)
   in (\<exists>rest. body = human @ rest) \<and>
      (case render_derived_block sha entries of
         Inl err \<Rightarrow> True
       | Inr block \<Rightarrow> split_derived_block (human @ [lf, lf] @ block) =
           \<lparr>ds_human = human, ds_block_text = block, ds_fence_start = Some (length human + 2)\<rparr>)"
proof (cases "render_derived_block sha entries")
  case (Inr block)
  obtain s where "block = open_fence @ lf # s" using rendered_starts [OF Inr] by blast
  then show ?thesis
    using Inr human_prefix split_written [OF human_rstrip human_no_fence] by (simp add: Let_def)
qed (simp add: Let_def human_prefix)

section \<open>Diagnosis\<close>

lemma blank_join: "\<forall>l \<in> set ls. py_strip l = [] \<Longrightarrow> py_strip (join_with [lf] ls) = []"
proof -
  have blank: "py_strip l = [] \<longleftrightarrow> (\<forall>c \<in> set l. py_isspace c)" for l
  proof -
    have "dropWhile py_isspace l = []" if "py_strip l = []"
    proof (rule ccontr)
      assume ne: "dropWhile py_isspace l \<noteq> []"
      have "\<forall>c \<in> set (dropWhile py_isspace l). py_isspace c" using that by (simp add: strip_by_def)
      then show False using hd_dropWhile [OF ne] hd_in_set [OF ne] by blast
    qed
    moreover have "py_strip l = []" if "dropWhile py_isspace l = []" using that unfolding strip_by_def by (simp only:) simp
    ultimately show ?thesis unfolding dropWhile_eq_Nil_conv by blast
  qed
  assume "\<forall>l \<in> set ls. py_strip l = []"
  then have "\<forall>c \<in> set (join_with [lf] ls). py_isspace c"
    using line_break_kinds(3) by (induction "[lf]" ls rule: join_with.induct) (auto simp: blank)
  then show ?thesis by (simp add: blank)
qed

lemma parsed_shape:
  assumes "parse_derived_block text = Inr block"
  shows "\<exists>inner c after. block_text_lines text = hd (block_text_lines text) # inner @ c # after
    \<and> py_strip (hd (block_text_lines text)) = open_fence \<and> py_strip c = close_fence
    \<and> (\<forall>l \<in> set inner. py_strip l \<notin> {open_fence, close_fence}) \<and> (\<forall>l \<in> set after. py_strip l = [])"
proof -
  define lines where "lines = block_text_lines text"
  define before where "before = takeWhile (\<lambda>l. py_strip l \<noteq> close_fence) lines"
  define after where "after = drop (length before + 1) lines"
  have facts: "lines \<noteq> []" "py_strip (hd lines) = open_fence" "length before \<noteq> length lines"
      "\<forall>l \<in> set (tl before). py_strip l \<noteq> open_fence" "\<forall>l \<in> set after. py_strip l = []"
    using assms unfolding parse_derived_block_def Let_def lines_def [symmetric] before_def [symmetric] after_def [symmetric]
    by (auto simp: refuse_def list_ex_iff split: if_splits)
  have short: "length before < length lines" using facts(3) length_takeWhile_le before_def by (metis le_neq_implies_less)
  have "before = take (length before) lines" unfolding before_def by (rule takeWhile_eq_take)
  then have lines: "lines = before @ lines ! length before # after"
    using id_take_nth_drop [OF short] by (simp add: after_def)
  have close: "py_strip (lines ! length before) = close_fence"
    using nth_length_takeWhile [OF short [unfolded before_def]] unfolding before_def by blast
  have "before \<noteq> []" using facts(1,2) strip_fences(3) by (cases lines) (auto simp: before_def)
  then have "before = hd lines # tl before" using lines by (cases before) (simp_all, metis append_Cons list.sel(1))
  moreover have "\<forall>l \<in> set before. py_strip l \<noteq> close_fence" by (auto simp: before_def dest: set_takeWhileD)
  ultimately have "lines = hd lines # tl before @ lines ! length before # after"
      "\<forall>l \<in> set (tl before). py_strip l \<notin> {open_fence, close_fence}"
    using lines facts(4) by (metis append_Cons, metis insertE list.set_intros(2) singletonD)
  then show ?thesis using close facts(2,5) unfolding lines_def [symmetric] by blast
qed

text \<open>Parsing fails with a malformed block, never with a mismatch of digests.\<close>

definition malformed_only :: "'a block_result \<Rightarrow> bool" where
  "malformed_only r \<longleftrightarrow> (case r of Inl (DerivedDigestMismatch c x) \<Rightarrow> False | _ \<Rightarrow> True)"

lemma malformed_simps [simp]: "malformed_only (refuse m)" "malformed_only (Inr x)"
  by (simp_all add: malformed_only_def refuse_def)

lemma malformed_and_then: "malformed_only r \<Longrightarrow> (\<And>x. malformed_only (f x)) \<Longrightarrow> malformed_only (and_then r f)"
  by (cases r) (simp_all add: malformed_only_def)

lemma malformed_checks: "malformed_only (validate_entry e)" "malformed_only (validate_set es)"
  by (simp_all add: validate_entry_def validate_set_def)

lemma malformed_close: "malformed_only (close_entry current entries)"
  by (auto simp: close_entry_def entry_from_def Let_def malformed_checks intro!: malformed_and_then split: option.split)

lemma malformed_entries: "malformed_only (parse_entries lines current entries)"
proof (induction lines current entries rule: parse_entries.induct)
  case (1 current entries)
  show ?case by (simp add: malformed_close)
next
  case (2 line lines current entries)
  then show ?case
    by (auto simp: parse_entries.simps(2) Let_def malformed_close intro!: malformed_and_then split: option.split)
qed

lemma parse_malformed_only: "malformed_only (parse_derived_block text)"
  by (auto simp: parse_derived_block_def Let_def malformed_entries malformed_checks intro!: malformed_and_then)

text \<open>
  Lint is silent about a machine block exactly when there is none or it verifies, and it reports tampering
  exactly when the block parses and its entries do not hash to the digest it carries: a half-written file is never
  called an attack.
\<close>

theorem diagnosis_is_exact:
  "(diagnose_derived_block sha text = None \<longleftrightarrow> text = [] \<or> (\<exists>block. verify_derived_block sha text = Inr block)) \<and>
   (diagnose_derived_block sha text = Some ''derived-block-tampered'' \<longleftrightarrow> text \<noteq> [] \<and>
      (\<exists>block. parse_derived_block text = Inr block \<and> sha (derived_json (db_entries block)) \<noteq> db_digest block))"
proof -
  have quiet: "length (filter (\<lambda>l. py_strip l = open_fence) lines) \<le> 1
      \<and> py_strip (join_with [lf] (tl (dropWhile (\<lambda>l. py_strip l \<noteq> close_fence) lines))) = []"
    if parsed: "parse_derived_block text = Inr block" and lines: "lines = split_on lf (crlf_to_lf text)" for block lines
  proof -
    obtain o' inner c after where shape: "block_text_lines text = o' # inner @ c # after" "py_strip o' = open_fence"
        "py_strip c = close_fence" "\<forall>l \<in> set inner. py_strip l \<notin> {open_fence, close_fence}" "\<forall>l \<in> set after. py_strip l = []"
      using parsed_shape [OF parsed] by metis
    obtain tail where tail: "lines = o' # inner @ c # after @ tail" "tail \<in> {[], [[]]}"
      using shape(1) lines by (auto simp: block_text_lines_def Let_def split: if_splits)
        (metis append_butlast_last_id append_Cons append_assoc split_on_ne)
    have rest: "\<forall>l \<in> set (after @ tail). py_strip l = []" using shape(5) tail(2) by auto
    have "filter (\<lambda>l. py_strip l = open_fence) inner = []" "filter (\<lambda>l. py_strip l = open_fence) (after @ tail) = []"
      using shape(4) rest strip_fences(6) by (auto simp: filter_empty_conv)
    moreover have "dropWhile (\<lambda>l. py_strip l \<noteq> close_fence) lines = c # after @ tail"
      using tail(1) shape(2-4) strip_fences(3) by (simp add: dropWhile_append3)
    ultimately show ?thesis using tail(1) shape(2,3) strip_fences(3) blank_join [OF rest] by simp
  qed
  show ?thesis
  proof (cases "parse_derived_block text")
    case (Inl err)
    obtain msg where "err = DerivedBlockError msg"
      using parse_malformed_only [of "text"] Inl by (cases err) (auto simp: malformed_only_def)
    then show ?thesis using Inl by (auto simp: diagnose_derived_block_def verify_derived_block_def Let_def)
  next
    case (Inr block)
    then show ?thesis
      using quiet [OF Inr refl] by (auto simp: diagnose_derived_block_def verify_derived_block_def derived_digest_def Let_def)
  qed
qed

end
