(* ===== verification/GenerationTypes.thy ===== *)
theory GenerationTypes
  imports SupersessionResolver TrustPolicy
begin

text \<open>
  The tables behind \<open>src/recall/generations.py\<close> and the statements its transactions share. One value of
  type \<open>db\<close> holds one tenant's rows: every statement of the code filters on \<open>tenant_id\<close>, and row level
  security repeats the filter. Constraints of the schema that a statement relies on are written where
  the statement is: foreign keys with \<open>ON DELETE CASCADE\<close> delete the dependent rows, and a violated
  primary or foreign key is a \<open>DatabaseError\<close>. Embeddings and text search vectors are not part of a row.

  What the code does not define is gathered in a record \<open>world\<close>: the clock, the supply of fresh event
  ids, the digest function \<open>canonical_sha256\<close>, the text PostgreSQL prints for a JSON value, the width of
  the embedding column and the text search configurations the server knows, the digest of a stored query
  set, and the two projection builders over a generation's chunks. One transaction reads the clock once.
\<close>

section \<open>Generation states and errors\<close>

datatype generation_state =
    BUILDING | VALIDATING | READY | ACTIVE | RETIRED | FAILED | LEGACY_UNVERIFIED

definition readable_generation_states :: "generation_state set" where
  "readable_generation_states = {READY, ACTIVE, RETIRED}"

text \<open>An error keeps the fixed part of its message; names and states that the message quotes are left out.\<close>

datatype gen_error =
    GenerationError string
  | GenerationNotFound string
  | InvalidGenerationTransition string
  | StepPrecondition string
  | UnsafePromotion string
  | NoActiveGeneration
  | UnverifiedPipelineError
  | GenValueError string
  | CalibrationBindingError string
  | CalibrationNotFound string
  | CalibrationUncertifiedError string
  | DatabaseError string
  | OtherError string

section \<open>Manifests\<close>

record manifest_object =
  mo_uri :: string
  mo_version_id :: string
  mo_media_type :: string
  mo_size :: int
  mo_sha256 :: string
  mo_context_group_id :: "string option"

record index_manifest =
  im_tenant_id :: string
  im_corpus_version :: string
  im_objects :: "manifest_object list"

definition object_to_dict :: "manifest_object \<Rightarrow> pyval" where
  "object_to_dict x = PDict ([(''uri'', PStr (mo_uri x)), (''version_id'', PStr (mo_version_id x)),
     (''media_type'', PStr (mo_media_type x)), (''size'', PInt (mo_size x)), (''sha256'', PStr (mo_sha256 x))]
     @ (case mo_context_group_id x of None \<Rightarrow> [] | Some g \<Rightarrow> [(''context_group_id'', PStr g)]))"

definition manifest_to_dict :: "index_manifest \<Rightarrow> pyval" where
  "manifest_to_dict m = PDict [(''schema_version'', PInt 1), (''tenant_id'', PStr (im_tenant_id m)),
     (''corpus_version'', PStr (im_corpus_version m)), (''objects'', PList (map object_to_dict (im_objects m)))]"

definition manifest_uris :: "index_manifest \<Rightarrow> string list" where
  "manifest_uris m = map mo_uri (im_objects m)"

section \<open>Projections of a generation\<close>

record semantic_graph =
  sg_schema_version :: int
  sg_graph_id :: string
  sg_fingerprint :: string
  sg_entities :: "string list"
  sg_mentions :: "(string \<times> string) list"
  sg_relations :: "(string \<times> string \<times> string) list"
  sg_evidence :: "(string \<times> string) list"
  sg_diagnostics :: nat

record graph_marker =
  gm_schema_version :: pyval
  gm_graph_id :: string
  gm_fingerprint :: string
  gm_counts :: "nat \<times> nat \<times> nat \<times> nat"
  gm_ready :: bool

definition semantic_graph_marker :: "semantic_graph \<Rightarrow> graph_marker" where
  "semantic_graph_marker g = \<lparr>gm_schema_version = PInt (sg_schema_version g), gm_graph_id = sg_graph_id g,
     gm_fingerprint = sg_fingerprint g,
     gm_counts = (length (sg_entities g), length (sg_mentions g), length (sg_relations g), sg_diagnostics g),
     gm_ready = True\<rparr>"

definition legacy_graph_schema_version :: int where
  "legacy_graph_schema_version = 2"

definition marker_schema_version :: "graph_marker \<Rightarrow> int" where
  "marker_schema_version m = (case gm_schema_version m of
     PInt i \<Rightarrow> if i < 1 then legacy_graph_schema_version else i
   | _ \<Rightarrow> legacy_graph_schema_version)"

record build_summary =
  bs_objects :: nat
  bs_chunks :: nat
  bs_reused_objects :: nat
  bs_reused_chunks :: nat
  bs_tombstoned_objects :: nat
  bs_empty_objects :: nat
  bs_indexed_sources :: "string list"
  bs_semantic_graph :: "graph_marker option"
  bs_dependency_projection :: pyval
  bs_validated :: "(nat \<times> nat) option"

section \<open>Tables\<close>

record generation_row =
  g_id :: string
  g_state :: generation_state
  g_pipeline_fingerprint :: string
  g_corpus_fingerprint :: string
  g_manifest :: "index_manifest option"
  g_corpus_version :: string
  g_parent :: "string option"
  g_failure_reason :: "string option"
  g_summary :: "build_summary option"
  g_created_at :: instant
  g_validating_at :: "instant option"
  g_ready_at :: "instant option"
  g_activated_at :: "instant option"
  g_retired_at :: "instant option"

record chunk_row =
  c_generation :: string
  c_chunk_id :: string
  c_source_uri :: string
  c_object_version_id :: string
  c_sha256 :: string
  c_ordinal :: int
  c_text :: string
  c_metadata :: metadata
  c_indexed_at :: instant
  c_first_indexed_at :: "instant option"

text \<open>A row of a legacy chunk table, and what the supersession scan reads of a row of either table.\<close>

record stored_row =
  row_id :: string
  row_source :: string
  row_metadata :: metadata
  row_first_indexed_at :: "instant option"
  row_indexed_at :: instant

definition stored_of_chunk :: "chunk_row \<Rightarrow> stored_row" where
  "stored_of_chunk c = \<lparr>row_id = c_chunk_id c, row_source = c_source_uri c, row_metadata = c_metadata c,
     row_first_indexed_at = c_first_indexed_at c, row_indexed_at = c_indexed_at c\<rparr>"

datatype lifecycle_state = DRAFT | PUBLISHED | SUPERSEDED | REJECTED | LEGACY_UNBOUND

record calibration_row =
  cal_id :: string
  cal_generation :: "string option"
  cal_lifecycle :: lifecycle_state
  cal_certified :: bool
  cal_reason :: string
  cal_pipeline_fingerprint :: string
  cal_corpus_fingerprint :: string
  cal_query_set_digest :: string
  cal_created_at :: instant
  cal_checksum_ok :: bool

datatype audit_payload =
    NoPayload
  | CreatedPayload string string bool
  | SummaryPayload build_summary
  | ReasonPayload string
  | UpgradePayload int int
  | MarkerPayload graph_marker
  | CountPayload nat nat
  | PreviousPayload "string option"
  | RollbackPayload "string option" string "string option"
  | GenerationsPayload "string list"
  | InvalidatedPayload string string string
  | CalibrationPayload string "string option"
  | RecordPayload string supersession_record

record audit_event =
  ae_id :: string
  ae_type :: string
  ae_generation :: "string option"
  ae_source :: "string option"
  ae_payload :: audit_payload

record db =
  db_generations :: "generation_row list"
  db_tenant :: "(string option \<times> string option) option"
  db_chunks :: "chunk_row list"
  db_tombstones :: "(string, string \<times> instant) dict"
  db_audit :: "audit_event list"
  db_calibrations :: "calibration_row list"
  db_query_sets :: "(string, pyval) dict"
  db_sparse :: "string list option"
  db_legacy :: "(string, stored_row list) dict"
  db_entities :: "(string \<times> string) list"
  db_mentions :: "(string \<times> string \<times> string) list"
  db_relations :: "(string \<times> string \<times> string \<times> string) list"
  db_evidence :: "(string \<times> string \<times> string) list"

record world =
  w_now :: instant
  w_new_id :: "nat \<Rightarrow> string"
  w_sha :: "pyval \<Rightarrow> string"
  w_json_text :: "pyval \<Rightarrow> string"
  w_graph :: "chunk_row list \<Rightarrow> string \<Rightarrow> string \<Rightarrow> string \<Rightarrow> string + semantic_graph"
  w_dependency :: "db \<Rightarrow> chunk_row list \<Rightarrow> string \<Rightarrow> string \<Rightarrow> string + pyval"
  w_query_digest :: "pyval \<Rightarrow> gen_error + string"
  w_dimension :: "int option"
  w_regconfig :: "string \<Rightarrow> bool"

text \<open>What the two builders raise is not an error of the generation manager's own.\<close>

definition build_semantic_graph ::
  "world \<Rightarrow> chunk_row list \<Rightarrow> string \<Rightarrow> string \<Rightarrow> string \<Rightarrow> gen_error + semantic_graph" where
  "build_semantic_graph w chunks gid pipeline_fingerprint corpus_fingerprint =
     map_sum OtherError id (w_graph w chunks gid pipeline_fingerprint corpus_fingerprint)"

definition persist_dependency_projection ::
  "world \<Rightarrow> db \<Rightarrow> chunk_row list \<Rightarrow> string \<Rightarrow> string \<Rightarrow> gen_error + pyval" where
  "persist_dependency_projection w d chunks gid corpus_fingerprint =
     map_sum OtherError id (w_dependency w d chunks gid corpus_fingerprint)"

section \<open>Rows by id\<close>

definition find_generation :: "string \<Rightarrow> db \<Rightarrow> generation_row option" where
  "find_generation gid d = find (\<lambda>g. g_id g = gid) (db_generations d)"

definition require_generation :: "string \<Rightarrow> db \<Rightarrow> gen_error + generation_row" where
  "require_generation gid d = (case find_generation gid d of
     None \<Rightarrow> Inl (GenerationNotFound gid) | Some g \<Rightarrow> Inr g)"

text \<open>\<open>UPDATE recall_generations SET ... WHERE generation_id = gid AND ...\<close>\<close>

definition update_generation ::
  "string \<Rightarrow> (generation_row \<Rightarrow> bool) \<Rightarrow> (generation_row \<Rightarrow> generation_row) \<Rightarrow> db \<Rightarrow> db" where
  "update_generation gid P f d = d\<lparr>db_generations :=
     map (\<lambda>g. if g_id g = gid \<and> P g then f g else g) (db_generations d)\<rparr>"

definition generation_chunks :: "string \<Rightarrow> db \<Rightarrow> chunk_row list" where
  "generation_chunks gid d = sort_key c_chunk_id (filter (\<lambda>c. c_generation c = gid) (db_chunks d))"

text \<open>The pair of pointers \<open>_lock_tenant_state\<close> reads, and the set of generations they protect.\<close>

definition lock_tenant_state :: "db \<Rightarrow> (string option \<times> string option) option" where
  "lock_tenant_state d = db_tenant d"

definition tenant_active :: "db \<Rightarrow> string option" where
  "tenant_active d = (case lock_tenant_state d of None \<Rightarrow> None | Some (a, p) \<Rightarrow> nonempty a)"

definition tenant_previous :: "db \<Rightarrow> string option" where
  "tenant_previous d = (case lock_tenant_state d of None \<Rightarrow> None | Some (a, p) \<Rightarrow> nonempty p)"

definition protected_ids :: "db \<Rightarrow> string list" where
  "protected_ids d = List.map_filter id [tenant_active d, tenant_previous d]"

definition protected_generations :: "db \<Rightarrow> string set" where
  "protected_generations d = set (protected_ids d)"

lemma protected_generations_iff:
  "gid \<in> protected_generations d \<longleftrightarrow> tenant_active d = Some gid \<or> tenant_previous d = Some gid"
  by (auto simp: protected_generations_def protected_ids_def List.map_filter_simps split: option.splits)

text \<open>\<open>INSERT INTO recall_tenant_state ... ON CONFLICT DO NOTHING\<close>\<close>

definition ensure_tenant_row :: "db \<Rightarrow> db" where
  "ensure_tenant_row d = (case db_tenant d of
     None \<Rightarrow> d\<lparr>db_tenant := Some (None, None)\<rparr> | Some _ \<Rightarrow> d)"

section \<open>Audit events\<close>

definition audit ::
  "world \<Rightarrow> string \<Rightarrow> string option \<Rightarrow> string option \<Rightarrow> audit_payload \<Rightarrow> db \<Rightarrow> db" where
  "audit w event_type gid uri payload d = d\<lparr>db_audit := db_audit d @
     [\<lparr>ae_id = w_new_id w (length (db_audit d)), ae_type = event_type, ae_generation = gid,
       ae_source = uri, ae_payload = payload\<rparr>]\<rparr>"

section \<open>Tombstones and the effective corpus\<close>

definition is_tombstoned :: "string \<Rightarrow> db \<Rightarrow> bool" where
  "is_tombstoned uri d \<longleftrightarrow> map_of (db_tombstones d) uri \<noteq> None"

definition effective_corpus_fingerprint :: "(pyval \<Rightarrow> string) \<Rightarrow> index_manifest \<Rightarrow> string set \<Rightarrow> string" where
  "effective_corpus_fingerprint canonical_sha256 m tombstoned =
     (let excluded = sort (remdups (filter (\<lambda>u. u \<in> tombstoned) (manifest_uris m)));
          fingerprint = canonical_sha256 (manifest_to_dict m)
      in if excluded = [] then fingerprint
         else canonical_sha256 (PDict [(''manifest_corpus_fingerprint'', PStr fingerprint),
                              (''excluded_sources'', PList (map PStr excluded))]))"

section \<open>Deletions and their cascades\<close>

definition delete_chunks :: "(chunk_row \<Rightarrow> bool) \<Rightarrow> db \<Rightarrow> db" where
  "delete_chunks P d =
     (let gone = map (\<lambda>c. (c_generation c, c_chunk_id c)) (filter P (db_chunks d))
      in d\<lparr>db_chunks := filter (\<lambda>c. \<not> P c) (db_chunks d),
           db_mentions := filter (\<lambda>(g, e, c). (g, c) \<notin> set gone) (db_mentions d),
           db_evidence := filter (\<lambda>(g, r, c). (g, c) \<notin> set gone) (db_evidence d)\<rparr>)"

definition delete_generations :: "string set \<Rightarrow> db \<Rightarrow> db" where
  "delete_generations gids d = d\<lparr>
     db_generations := filter (\<lambda>g. g_id g \<notin> gids) (db_generations d),
     db_chunks := filter (\<lambda>c. c_generation c \<notin> gids) (db_chunks d),
     db_calibrations := filter (\<lambda>c. case cal_generation c of None \<Rightarrow> True | Some g \<Rightarrow> g \<notin> gids) (db_calibrations d),
     db_entities := filter (\<lambda>(g, _). g \<notin> gids) (db_entities d),
     db_mentions := filter (\<lambda>(g, _). g \<notin> gids) (db_mentions d),
     db_relations := filter (\<lambda>(g, _). g \<notin> gids) (db_relations d),
     db_evidence := filter (\<lambda>(g, _). g \<notin> gids) (db_evidence d)\<rparr>"

definition scrub_sparse_rows :: "string list \<Rightarrow> db \<Rightarrow> db" where
  "scrub_sparse_rows ids d =
     (if ids = [] then d
      else (case db_sparse d of
        None \<Rightarrow> d
      | Some rows \<Rightarrow> d\<lparr>db_sparse := Some (filter (\<lambda>i. i \<notin> set ids) rows)\<rparr>))"

text \<open>
  \<open>write_semantic_graph\<close>: the generation's entities are deleted, which cascades to all its other graph
  rows, and the new rows are inserted under the foreign keys of the graph tables.
\<close>

definition graph_rows_fit :: "string \<Rightarrow> semantic_graph \<Rightarrow> db \<Rightarrow> bool" where
  "graph_rows_fit gid g d \<longleftrightarrow>
     (let held = set (map c_chunk_id (filter (\<lambda>c. c_generation c = gid) (db_chunks d)));
          entities = set (sg_entities g); relations = set (map fst (sg_relations g))
      in list_all (\<lambda>(e, c). e \<in> entities \<and> c \<in> held) (sg_mentions g)
         \<and> list_all (\<lambda>(r, s, t). s \<in> entities \<and> t \<in> entities) (sg_relations g)
         \<and> list_all (\<lambda>(r, c). r \<in> relations \<and> c \<in> held) (sg_evidence g))"

definition write_semantic_graph :: "string \<Rightarrow> semantic_graph \<Rightarrow> db \<Rightarrow> gen_error + db" where
  "write_semantic_graph gid g d =
     (if graph_rows_fit gid g d
      then Inr (d\<lparr>
        db_entities := filter (\<lambda>(x, _). x \<noteq> gid) (db_entities d) @ map (\<lambda>e. (gid, e)) (sg_entities g),
        db_mentions := filter (\<lambda>(x, _). x \<noteq> gid) (db_mentions d) @ map (\<lambda>(e, c). (gid, e, c)) (sg_mentions g),
        db_relations := filter (\<lambda>(x, _). x \<noteq> gid) (db_relations d) @ map (\<lambda>(r, s, t). (gid, r, s, t)) (sg_relations g),
        db_evidence := filter (\<lambda>(x, _). x \<noteq> gid) (db_evidence d) @ map (\<lambda>(r, c). (gid, r, c)) (sg_evidence g)\<rparr>)
      else Inl (DatabaseError ''foreign key violation''))"

section \<open>The supersession scan\<close>

text \<open>\<open>value ->> key\<close> in PostgreSQL: null for an absent key and for a JSON null, the text otherwise.\<close>

fun arrow_text :: "world \<Rightarrow> pyval \<Rightarrow> string option" where
  "arrow_text w PNone = None"
| "arrow_text w (PStr s) = Some s"
| "arrow_text w v = Some (w_json_text w v)"

definition supersedes_target_rows :: "world \<Rightarrow> metadata \<Rightarrow> string option list" where
  "supersedes_target_rows w m =
     (if arrow_text w (py_get m ''record_type'') = Some ''compiled'' then [None]
      else (case py_get m ''supersedes'' of
        PList [] \<Rightarrow> [None]
      | PList vs \<Rightarrow> map (arrow_text w) vs
      | v \<Rightarrow> [arrow_text w v]))"

type_synonym scan_key = "string option \<times> string option \<times> string \<times> string option \<times> string option"

definition nulls_last :: "string option \<Rightarrow> nat \<times> string" where
  "nulls_last s = (case s of None \<Rightarrow> (1, []) | Some t \<Rightarrow> (0, t))"

definition scan_order :: "scan_key \<Rightarrow> (nat \<times> string) \<times> (nat \<times> string) \<times> string \<times> (nat \<times> string) \<times> (nat \<times> string)" where
  "scan_order k = (case k of (f, t, s, vf, vu) \<Rightarrow> (nulls_last f, nulls_last t, s, nulls_last vf, nulls_last vu))"

definition row_cells :: "world \<Rightarrow> stored_row \<Rightarrow> (scan_key \<times> instant) list" where
  "row_cells w r =
     (let m = row_metadata r;
          first = (case row_first_indexed_at r of None \<Rightarrow> row_indexed_at r | Some t \<Rightarrow> t)
      in if map_of m ''file'' = None then []
         else map (\<lambda>t. ((arrow_text w (py_get m ''file''), t, row_source r,
                         arrow_text w (py_get m ''valid_from''), arrow_text w (py_get m ''valid_until'')), first))
                (supersedes_target_rows w m))"

fun opt_val :: "string option \<Rightarrow> pyval" where
  "opt_val None = PNone"
| "opt_val (Some s) = PStr s"

definition supersession_rows :: "world \<Rightarrow> stored_row list \<Rightarrow> supersession_row list" where
  "supersession_rows w rows =
     (let cells = concat (map (row_cells w) rows)
      in map (\<lambda>k. case k of (f, t, s, vf, vu) \<Rightarrow>
            Row6 (opt_val f) (opt_val t) (PTime (Min (set (map snd (filter (\<lambda>c. fst c = k) cells)))))
              (PStr s) (opt_val vf) (opt_val vu))
          (sort_key scan_order (remdups (map fst cells))))"

section \<open>Records of removed memos\<close>

definition record_kind_of :: "bool \<Rightarrow> record_kind" where
  "record_kind_of withdraw = (if withdraw then Withdrawn else Forgotten)"

definition record_events :: "string list \<Rightarrow> db \<Rightarrow> record_event list" where
  "record_events sources d = List.map_filter (\<lambda>e. case ae_payload e of
       RecordPayload scope r \<Rightarrow>
         if sr_source r \<noteq> [] \<and> sr_source r \<in> set sources then Some (scope, Some r) else None
     | _ \<Rightarrow> None) (db_audit d)"

definition pg_records :: "string \<Rightarrow> string list \<Rightarrow> db \<Rightarrow> supersession_record list" where
  "pg_records scope sources d = map snd (latest_records (record_events sources d) scope)"

definition present_files :: "supersession_row list \<Rightarrow> (string, string) dict" where
  "present_files rows = fold (\<lambda>row acc. case (rp_file (parts_of_row row), rp_source (parts_of_row row)) of
       (Some f, Some s) \<Rightarrow> dict_setdefault s f acc | _ \<Rightarrow> acc) rows []"

definition by_source :: "supersession_record list \<Rightarrow> (string, supersession_record) dict" where
  "by_source rs = fold (\<lambda>r. dict_set (sr_source r) r) rs []"

definition pending_records ::
  "supersession_row list \<Rightarrow> string list \<Rightarrow> bool \<Rightarrow> supersession_record list \<Rightarrow> supersession_record list" where
  "pending_records rows sources withdraw standing =
     (let kind = record_kind_of withdraw;
          claimed = by_source (records_from_rows kind rows);
          present = present_files rows;
          prior = by_source standing
      in List.map_filter (\<lambda>source.
           case map_of claimed source of
             Some r \<Rightarrow> Some r
           | None \<Rightarrow>
               (case map_of present source of
                  Some file \<Rightarrow>
                    if map_of prior source \<noteq> None
                    then Some \<lparr>sr_kind = kind, sr_file = file, sr_source = source, sr_claims = []\<rparr>
                    else None
                | None \<Rightarrow>
                    if withdraw then map_option (\<lambda>r. r\<lparr>sr_kind := Withdrawn\<rparr>) (map_of prior source) else None))
         (sort (remdups sources)))"

definition record_event_type :: "record_kind \<Rightarrow> string" where
  "record_event_type k = (case k of Forgotten \<Rightarrow> ''supersession_forgotten'' | Withdrawn \<Rightarrow> ''supersession_withdrawn'')"

text \<open>\<open>pg_record_removals\<close>: the records are appended, and their number is returned.\<close>

definition pg_record_removals ::
  "world \<Rightarrow> string \<Rightarrow> stored_row list \<Rightarrow> string list \<Rightarrow> bool \<Rightarrow> db \<Rightarrow> db \<times> nat" where
  "pg_record_removals w scope removed sources withdraw d =
     (let records = pending_records (supersession_rows w removed) sources withdraw (pg_records scope sources d)
      in (fold (\<lambda>r. audit w (record_event_type (sr_kind r)) None (Some (sr_source r)) (RecordPayload scope r)) records d,
          length records))"

end
