(* ===== verification/Generations.thy ===== *)
theory Generations
  imports GenerationTypes
begin

text \<open>
  The operations of \<open>GenerationManager\<close> that move a generation through its states
  (\<open>src/recall/generations.py\<close>), and the two operations of \<open>CalibrationRepository\<close> that write the
  calibrations a promotion depends on (\<open>src/recall/calibration_v2.py\<close>). Each is one transaction: it
  returns the tables it commits, or the error it raises, after which the tables are what they were. The row
  locks the code takes serialise the transactions of one tenant, which is why a transaction is one step.
  What \<open>promote\<close>, \<open>rollback\<close> and \<open>gc\<close> do after their commit, recording or retracting stated facts on a best
  effort basis, belongs to the fact ledger and is not part of these tables.
\<close>

section \<open>The manager\<close>

record manager =
  mgr_tenant_id :: string
  mgr_environment :: string
  mgr_serving_environment :: string

definition environment_names :: "string list" where
  "environment_names = [''development'', ''test'', ''production'']"

text \<open>\<open>given or fallback\<close>, then stripped and lower-cased.\<close>

definition read_environment :: "string option \<Rightarrow> string \<Rightarrow> string" where
  "read_environment given fallback =
     py_lower (py_strip (case nonempty given of None \<Rightarrow> fallback | Some s \<Rightarrow> s))"

definition generation_manager ::
  "string \<Rightarrow> string option \<Rightarrow> string \<Rightarrow> string option \<Rightarrow> gen_error + manager" where
  "generation_manager tenant_id environment process_environment serving_environment =
     (if py_strip tenant_id = [] then Inl (GenValueError ''tenant_id must be non-empty'')
      else (let env = read_environment environment process_environment
        in if env \<notin> set environment_names
           then Inl (GenValueError ''environment (RECALL_ENV) must be development, test, or production'')
           else (let serving = read_environment serving_environment env
             in if serving \<notin> set environment_names
                then Inl (GenValueError ''serving_environment must be development, test, or production'')
                else Inr \<lparr>mgr_tenant_id = tenant_id, mgr_environment = env, mgr_serving_environment = serving\<rparr>)))"

definition certification_required :: "manager \<Rightarrow> bool" where
  "certification_required mgr \<longleftrightarrow> mgr_serving_environment mgr = ''production''"

section \<open>Creating a generation\<close>

record pipeline_identity =
  pi_fingerprint :: string
  pi_verified :: bool
  pi_production_admissible :: bool
  pi_hosted :: bool
  pi_dimension :: int
  pi_fts_language :: pyval
  pi_fts_schema_version :: pyval

definition admit_pipeline :: "manager \<Rightarrow> pipeline_identity \<Rightarrow> bool \<Rightarrow> gen_error + unit" where
  "admit_pipeline mgr p allow_unverified =
     (if mgr_environment mgr = ''production'' then
        (if \<not> pi_production_admissible p then Inl UnverifiedPipelineError
         else if allow_unverified \<and> \<not> pi_hosted p
         then Inl (GenerationError ''allow_unverified is unavailable in production'')
         else Inr ())
      else if \<not> pi_verified p \<and> \<not> allow_unverified
      then Inl (GenerationError ''unverified development pipeline requires allow_unverified=True explicitly'')
      else Inr ())"

definition check_pipeline_columns :: "world \<Rightarrow> pipeline_identity \<Rightarrow> gen_error + unit" where
  "check_pipeline_columns w p =
     (if w_dimension w \<noteq> Some (pi_dimension p)
      then Inl (GenerationError ''pipeline dimension does not match recall_chunks_v1'')
      else (case pi_fts_language p of
        PStr language \<Rightarrow>
          if as_int (pi_fts_schema_version p) \<noteq> Some 1
          then Inl (GenerationError ''FTS configuration requires a language string and schema_version=1'')
          else if \<not> w_regconfig w language
          then Inl (GenerationError ''PostgreSQL text search configuration is absent'')
          else Inr ()
      | _ \<Rightarrow> Inl (GenerationError ''FTS configuration requires a language string and schema_version=1'')))"

definition new_generation_row ::
  "world \<Rightarrow> string \<Rightarrow> index_manifest \<Rightarrow> pipeline_identity \<Rightarrow> db \<Rightarrow> generation_row" where
  "new_generation_row w gid m p d =
     \<lparr>g_id = gid, g_state = BUILDING, g_pipeline_fingerprint = pi_fingerprint p,
      g_corpus_fingerprint = effective_corpus_fingerprint (w_sha w) m
        (set (filter (\<lambda>u. is_tombstoned u d) (manifest_uris m))),
      g_manifest = Some m, g_corpus_version = im_corpus_version m, g_parent = tenant_active d,
      g_failure_reason = None, g_summary = None, g_created_at = w_now w, g_validating_at = None,
      g_ready_at = None, g_activated_at = None, g_retired_at = None\<rparr>"

text \<open>\<open>generation_id or _new_id("gen")\<close>, with the hexadecimal digits of the new id as an argument.\<close>

definition chosen_id :: "string option \<Rightarrow> string \<Rightarrow> string" where
  "chosen_id given digits = (case nonempty given of None \<Rightarrow> ''gen_'' @ digits | Some gid \<Rightarrow> gid)"

definition create ::
  "world \<Rightarrow> manager \<Rightarrow> index_manifest \<Rightarrow> pipeline_identity \<Rightarrow> bool \<Rightarrow> string option \<Rightarrow> string \<Rightarrow> db \<Rightarrow> gen_error + db" where
  "create w mgr m p allow_unverified given digits d = (let gid = chosen_id given digits in
     if im_tenant_id m \<noteq> mgr_tenant_id mgr
      then Inl (GenerationError ''manifest tenant does not match authenticated tenant'')
      else and_then (admit_pipeline mgr p allow_unverified) (\<lambda>_.
           and_then (check_pipeline_columns w p) (\<lambda>_.
           if find_generation gid d \<noteq> None then Inl (DatabaseError ''duplicate generation_id'')
           else (let d1 = d\<lparr>db_generations := db_generations d @ [new_generation_row w gid m p d]\<rparr>
             in Inr (audit w ''generation_created'' (Some gid) None
                  (CreatedPayload (pi_fingerprint p) (w_sha w (manifest_to_dict m)) (pi_verified p))
                  (ensure_tenant_row d1))))))"

section \<open>Failing and abandoning\<close>

definition fail :: "world \<Rightarrow> string \<Rightarrow> string \<Rightarrow> db \<Rightarrow> gen_error + db" where
  "fail w gid reason d = and_then (require_generation gid d) (\<lambda>current.
     if g_state current \<in> {ACTIVE, RETIRED, READY, LEGACY_UNVERIFIED}
     then Inl (InvalidGenerationTransition ''cannot fail generation in this state'')
     else Inr (audit w ''generation_failed'' (Some gid) None (ReasonPayload (take 2000 reason))
       (update_generation gid (\<lambda>_. True)
         (\<lambda>g. g\<lparr>g_state := FAILED, g_failure_reason := Some (take 2000 reason)\<rparr>) d)))"

definition abandon :: "world \<Rightarrow> string \<Rightarrow> string \<Rightarrow> db \<Rightarrow> gen_error + db" where
  "abandon w gid reason d = and_then (require_generation gid d) (\<lambda>current.
     if g_state current \<noteq> READY
     then Inl (InvalidGenerationTransition ''abandon requires ready state'')
     else if gid \<in> protected_generations d
     then Inl (InvalidGenerationTransition ''cannot abandon protected generation'')
     else Inr (audit w ''generation_abandoned'' (Some gid) None (ReasonPayload (take 2000 reason))
       (update_generation gid (\<lambda>_. True)
         (\<lambda>g. g\<lparr>g_state := FAILED, g_failure_reason := Some (take 2000 reason)\<rparr>) d)))"

section \<open>Calibrations\<close>

text \<open>The lineage of a ready, active or retired generation: its pipeline and corpus fingerprints.\<close>

definition calibration_lineage :: "string \<Rightarrow> db \<Rightarrow> gen_error + string \<times> string" where
  "calibration_lineage gid d = (case find_generation gid d of
     None \<Rightarrow> Inl (CalibrationBindingError ''generation does not exist'')
   | Some g \<Rightarrow> if g_state g \<notin> readable_generation_states
       then Inl (CalibrationBindingError ''expected ready, active, or retired'')
       else Inr (g_pipeline_fingerprint g, g_corpus_fingerprint g))"

definition published_of :: "string \<Rightarrow> db \<Rightarrow> calibration_row list" where
  "published_of gid d = filter (\<lambda>c. cal_generation c = Some gid \<and> cal_lifecycle c = PUBLISHED) (db_calibrations d)"

definition newest_calibration :: "string \<Rightarrow> db \<Rightarrow> calibration_row option" where
  "newest_calibration gid d =
     (let own = filter (\<lambda>c. cal_generation c = Some gid) (db_calibrations d)
      in if own = [] then None else Some (last (sort_key (\<lambda>c. (cal_created_at c, cal_id c)) own)))"

definition unpublished_status :: "string \<Rightarrow> db \<Rightarrow> calibration_status" where
  "unpublished_status gid d =
     (let otherwise = (if \<exists>c\<in>set (db_calibrations d). cal_lifecycle c = PUBLISHED then StatusStale else StatusMissing)
      in case newest_calibration gid d of
           None \<Rightarrow> otherwise
         | Some local \<Rightarrow>
             if \<not> cal_certified local then StatusUncertified
             else if cal_lifecycle local = DRAFT then StatusDraft
             else if cal_lifecycle local = SUPERSEDED then StatusStale
             else otherwise)"

definition published_status :: "world \<Rightarrow> string \<times> string \<Rightarrow> calibration_row \<Rightarrow> db \<Rightarrow> gen_error + calibration_status" where
  "published_status w lineage c d =
     (if \<not> cal_checksum_ok c then Inl (CalibrationBindingError ''calibration checksum mismatch'')
      else if (cal_pipeline_fingerprint c, cal_corpus_fingerprint c) \<noteq> lineage then Inr StatusStale
      else (case map_of (db_query_sets d) (cal_query_set_digest c) of
        None \<Rightarrow> Inr StatusStale
      | Some queries \<Rightarrow> and_then (w_query_digest w queries) (\<lambda>digest.
          Inr (if digest \<noteq> cal_query_set_digest c then StatusStale
               else if \<not> cal_certified c then StatusUncertified
               else StatusCertified))))"

definition resolve_within :: "world \<Rightarrow> string \<Rightarrow> db \<Rightarrow> gen_error + calibration_status" where
  "resolve_within w gid d = and_then (calibration_lineage gid d) (\<lambda>lineage.
     case published_of gid d of
       [] \<Rightarrow> Inr (unpublished_status gid d)
     | c # _ \<Rightarrow> published_status w lineage c d)"

definition calibration_status_for :: "world \<Rightarrow> string \<Rightarrow> db \<Rightarrow> string" where
  "calibration_status_for w gid d =
     (case resolve_within w gid d of Inl _ \<Rightarrow> ''unknown'' | Inr status \<Rightarrow> status_name status)"

definition require_certified_for_production :: "world \<Rightarrow> string \<Rightarrow> db \<Rightarrow> gen_error + unit" where
  "require_certified_for_production w gid d = (case resolve_within w gid d of
     Inl (CalibrationBindingError _) \<Rightarrow> Inl (UnsafePromotion ''generation cannot go live in production'')
   | Inl e \<Rightarrow> Inl e
   | Inr StatusCertified \<Rightarrow> Inr ()
   | Inr _ \<Rightarrow> Inl (UnsafePromotion ''generation cannot go live in production: calibration is not certified''))"

text \<open>
  The transaction of \<open>calibrate\<close>: the artifact was fitted before it and is bound to the fingerprints read
  then; it is stored as a draft when it is certified and as rejected when it is not.
\<close>

definition store_calibration :: "world \<Rightarrow> pyval \<Rightarrow> calibration_row \<Rightarrow> db \<Rightarrow> gen_error + db" where
  "store_calibration w queries c d =
     (if cal_id c \<in> set (map cal_id (db_calibrations d)) then Inl (DatabaseError ''duplicate calibration_id'')
      else (case cal_generation c of
        None \<Rightarrow> Inl (DatabaseError ''calibration without a generation'')
      | Some gid \<Rightarrow>
          if find_generation gid d = None then Inl (DatabaseError ''foreign key violation'')
          else (let row = c\<lparr>cal_lifecycle := if cal_certified c then DRAFT else REJECTED\<rparr>;
                    d1 = d\<lparr>db_query_sets := dict_setdefault (cal_query_set_digest c) queries (db_query_sets d),
                           db_calibrations := db_calibrations d @ [row]\<rparr>;
                    d2 = audit w ''calibration_created'' (Some gid) None (CalibrationPayload (cal_id c) None) d1
                in Inr (if cal_certified c then d2
                   else audit w ''calibration_rejected'' (Some gid) None
                          (CalibrationPayload (cal_id c) (Some (cal_reason c))) d2))))"

definition find_calibration :: "string \<Rightarrow> db \<Rightarrow> calibration_row option" where
  "find_calibration cid d = find (\<lambda>c. cal_id c = cid \<and> cal_generation c \<noteq> None) (db_calibrations d)"

definition supersede_calibration :: "world \<Rightarrow> string \<Rightarrow> string \<Rightarrow> string \<Rightarrow> db \<Rightarrow> db" where
  "supersede_calibration w new_id gid old_id d =
     (if old_id = new_id then d
      else audit w ''calibration_superseded'' (Some gid) None (CalibrationPayload old_id (Some new_id))
        (d\<lparr>db_calibrations := map (\<lambda>c. if cal_id c = old_id then c\<lparr>cal_lifecycle := SUPERSEDED\<rparr> else c)
             (db_calibrations d)\<rparr>))"

definition publish :: "world \<Rightarrow> string \<Rightarrow> db \<Rightarrow> gen_error + db" where
  "publish w cid d = (case find_calibration cid d of
     None \<Rightarrow> Inl (CalibrationNotFound cid)
   | Some artifact \<Rightarrow>
       if \<not> cal_checksum_ok artifact then Inl (CalibrationBindingError ''calibration checksum mismatch'')
       else if \<not> cal_certified artifact then Inl (CalibrationUncertifiedError (cal_reason artifact))
       else (case cal_generation artifact of
         None \<Rightarrow> Inl (CalibrationNotFound cid)
       | Some gid \<Rightarrow> and_then (calibration_lineage gid d) (\<lambda>lineage.
           if lineage \<noteq> (cal_pipeline_fingerprint artifact, cal_corpus_fingerprint artifact)
           then Inl (CalibrationBindingError ''generation lineage changed after calibration'')
           else (let d1 = fold (supersede_calibration w cid gid) (map cal_id (published_of gid d)) d;
                     d2 = d1\<lparr>db_calibrations := map (\<lambda>c.
                            if cal_id c = cid \<and> cal_lifecycle c \<in> {DRAFT, PUBLISHED, SUPERSEDED}
                            then c\<lparr>cal_lifecycle := PUBLISHED\<rparr> else c) (db_calibrations d1)\<rparr>
                 in Inr (audit w ''calibration_published'' (Some gid) None (CalibrationPayload cid None) d2)))))"

section \<open>Promotion and rollback\<close>

definition sources_of :: "string \<Rightarrow> db \<Rightarrow> string list" where
  "sources_of gid d = remdups (map c_source_uri (filter (\<lambda>c. c_generation c = gid) (db_chunks d)))"

definition chunk_scope :: string where
  "chunk_scope = ''recall_chunks_v1''"

text \<open>The rows of one generation for some sources, as the supersession scan reads them.\<close>

definition scoped_rows :: "string \<Rightarrow> string list \<Rightarrow> db \<Rightarrow> stored_row list" where
  "scoped_rows gid sources d =
     map stored_of_chunk (filter (\<lambda>c. c_generation c = gid \<and> c_source_uri c \<in> set sources) (db_chunks d))"

definition record_omitted_supersession :: "world \<Rightarrow> string option \<Rightarrow> string \<Rightarrow> db \<Rightarrow> db \<times> nat" where
  "record_omitted_supersession w outgoing incoming d = (case outgoing of
     None \<Rightarrow> (d, 0)
   | Some old \<Rightarrow>
       if old = incoming then (d, 0)
       else (let omitted = filter (\<lambda>u. u \<notin> set (sources_of incoming d)) (sources_of old d)
         in if omitted = [] then (d, 0)
            else pg_record_removals w chunk_scope (scoped_rows old omitted d) omitted False d))"

text \<open>The row update to \<open>active\<close>, under the unique index on the active generation of a tenant.\<close>

definition activate_generation :: "world \<Rightarrow> string \<Rightarrow> db \<Rightarrow> gen_error + db" where
  "activate_generation w gid d =
     (if \<exists>g\<in>set (db_generations d). g_state g = ACTIVE \<and> g_id g \<noteq> gid
      then Inl (DatabaseError ''recall_generations_one_active_idx'')
      else Inr (update_generation gid (\<lambda>_. True)
        (\<lambda>g. g\<lparr>g_state := ACTIVE, g_activated_at := Some (w_now w), g_retired_at := None\<rparr>) d))"

definition deactivate ::
  "string option \<Rightarrow> generation_state \<Rightarrow> instant option \<Rightarrow> db \<Rightarrow> db" where
  "deactivate active to retired_at d = (case active of
     None \<Rightarrow> d
   | Some a \<Rightarrow> update_generation a (\<lambda>g. g_state g = ACTIVE) (\<lambda>g. g\<lparr>g_state := to, g_retired_at := retired_at\<rparr>) d)"

definition promotion_mode :: "manager \<Rightarrow> bool \<Rightarrow> gen_error + unit" where
  "promotion_mode mgr unsafe_development =
     (if certification_required mgr then
        (if unsafe_development
         then Inl (UnsafePromotion ''unsafe_development is unavailable for a tenant served under production'')
         else Inr ())
      else if \<not> unsafe_development
      then Inl (UnsafePromotion ''development promotion requires unsafe_development=True'')
      else Inr ())"

definition promote_generation :: "world \<Rightarrow> manager \<Rightarrow> string \<Rightarrow> bool \<Rightarrow> db \<Rightarrow> gen_error + db \<times> nat" where
  "promote_generation w mgr gid unsafe_development d = and_then (promotion_mode mgr unsafe_development) (\<lambda>_.
     let d0 = ensure_tenant_row d in
     and_then (require_generation gid d0) (\<lambda>target.
     if g_state target \<noteq> READY
     then Inl (InvalidGenerationTransition ''promotion requires ready state'')
     else and_then (if certification_required mgr then require_certified_for_production w gid d0 else Inr ()) (\<lambda>_.
       let active = tenant_active d0;
           (d1, omitted) = record_omitted_supersession w active gid d0;
           d2 = deactivate active RETIRED (Some (w_now w)) d1
       in and_then (activate_generation w gid d2) (\<lambda>d3.
         Inr (audit w (if certification_required mgr then ''generation_promoted_certified''
                       else ''generation_promoted_unsafe_development'') (Some gid) None (PreviousPayload active)
                (d3\<lparr>db_tenant := Some (Some gid, active)\<rparr>), omitted)))))"

definition rollback :: "world \<Rightarrow> string option \<Rightarrow> db \<Rightarrow> gen_error + db \<times> string" where
  "rollback w provisional_reason d = (case tenant_previous d of
     None \<Rightarrow> Inl NoActiveGeneration
   | Some previous \<Rightarrow> and_then (require_generation previous d) (\<lambda>target.
       if g_state target \<notin> {RETIRED, READY}
       then Inl (InvalidGenerationTransition ''rollback target expected retired or ready'')
       else (let active = tenant_active d;
                 status = calibration_status_for w previous d;
                 d1 = deactivate active READY None d
         in and_then (activate_generation w previous d1) (\<lambda>d2.
           Inr (audit w ''generation_rolled_back'' (Some previous) None
                  (RollbackPayload active status
                    (if status \<noteq> ''certified''
                     then Some (case nonempty provisional_reason of None \<Rightarrow> ''rollback: incident recovery'' | Some r \<Rightarrow> r)
                     else None))
                  (d2\<lparr>db_tenant := Some (Some previous, active)\<rparr>), previous)))))"

section \<open>Reading the serving state\<close>

definition active_generation_id :: "db \<Rightarrow> gen_error + string" where
  "active_generation_id d = (case tenant_active d of None \<Rightarrow> Inl NoActiveGeneration | Some a \<Rightarrow> Inr a)"

definition active_manifest :: "db \<Rightarrow> gen_error + index_manifest" where
  "active_manifest d = (case tenant_active d of
     None \<Rightarrow> Inl NoActiveGeneration
   | Some a \<Rightarrow> (case find_generation a d of
       None \<Rightarrow> Inl NoActiveGeneration
     | Some g \<Rightarrow> (case g_manifest g of None \<Rightarrow> Inl NoActiveGeneration | Some m \<Rightarrow> Inr m)))"

definition servable :: "generation_row \<Rightarrow> bool" where
  "servable g \<longleftrightarrow> g_state g = ACTIVE \<or> (g_state g = READY \<and> g_activated_at g = None)"

definition servable_generation :: "db \<Rightarrow> generation_row option" where
  "servable_generation d =
     (let rows = sort_key (\<lambda>g. (g_created_at g, g_id g)) (filter servable (db_generations d))
      in if rows = [] then None else Some (last rows))"

definition servable_manifest :: "db \<Rightarrow> gen_error + index_manifest" where
  "servable_manifest d = (case servable_generation d of
     None \<Rightarrow> active_manifest d
   | Some g \<Rightarrow> (case g_manifest g of None \<Rightarrow> active_manifest d | Some m \<Rightarrow> Inr m))"

text \<open>\<open>list_generations\<close>: the newest first, ties by id.\<close>

definition list_generations :: "db \<Rightarrow> generation_row list" where
  "list_generations d = sort_key (\<lambda>g. (- g_created_at g, g_id g)) (db_generations d)"

definition superseded_ready_generations :: "string \<Rightarrow> string option \<Rightarrow> db \<Rightarrow> string list" where
  "superseded_ready_generations keep prefix d =
     map g_id (filter (\<lambda>g. g_state g = READY \<and> g_id g \<noteq> keep
       \<and> (case prefix of None \<Rightarrow> True | Some p \<Rightarrow> starts_with (g_corpus_version g) p)) (list_generations d))"

end
