(* ===== verification/GenerationErasure.thy ===== *)
theory GenerationErasure
  imports Generations
begin

text \<open>
  The two operations of \<open>GenerationManager\<close> that delete rows: \<open>forget\<close>, which erases one source from every
  generation and tombstones it against later builds, and \<open>gc\<close>, which collects retired and failed
  generations past their retention (\<open>src/recall/generations.py\<close>).
\<close>

section \<open>Forgetting a source\<close>

record erasure_result =
  er_source_uri :: string
  er_generation_ids :: "string list"
  er_chunks_removed :: nat
  er_event_id :: string

definition mutable_generations :: "db \<Rightarrow> generation_row list" where
  "mutable_generations d = filter (\<lambda>g. g_state g \<noteq> LEGACY_UNVERIFIED) (db_generations d)"

definition selected_generations :: "db \<Rightarrow> string list" where
  "selected_generations d = sort (remdups (protected_ids d @ map g_id (mutable_generations d)))"

definition add_tombstone :: "world \<Rightarrow> string \<Rightarrow> string \<Rightarrow> db \<Rightarrow> db" where
  "add_tombstone w uri event_id d =
     d\<lparr>db_tombstones := dict_setdefault uri (event_id, w_now w) (db_tombstones d)\<rparr>"

definition published_ids :: "string \<Rightarrow> db \<Rightarrow> string list" where
  "published_ids gid d = map cal_id (published_of gid d)"

text \<open>One round of the loop over the manifests: the new fingerprint, and the calibrations it invalidates.\<close>

definition refingerprint :: "world \<Rightarrow> string set \<Rightarrow> string \<times> index_manifest \<times> string \<Rightarrow> db \<Rightarrow> db" where
  "refingerprint w tombstones item d = (case item of (gid, m, previous) \<Rightarrow>
     let effective = effective_corpus_fingerprint (w_sha w) m tombstones;
         d1 = update_generation gid (\<lambda>_. True) (\<lambda>g. g\<lparr>g_corpus_fingerprint := effective\<rparr>) d
     in if effective = previous then d1
        else (let invalidated = published_ids gid d1;
                  d2 = d1\<lparr>db_calibrations := map (\<lambda>c.
                         if cal_generation c = Some gid \<and> cal_lifecycle c = PUBLISHED
                         then c\<lparr>cal_lifecycle := SUPERSEDED\<rparr> else c) (db_calibrations d1)\<rparr>
              in fold (\<lambda>cid. audit w ''calibration_invalidated'' (Some gid) None
                   (InvalidatedPayload cid previous effective)) invalidated d2))"

definition manifests_of :: "db \<Rightarrow> (string \<times> index_manifest \<times> string) list" where
  "manifests_of d = List.map_filter (\<lambda>g. map_option (\<lambda>m. (g_id g, m, g_corpus_fingerprint g)) (g_manifest g))
     (mutable_generations d)"

text \<open>The generation whose copy of the source speaks for it: the active one, else the newest that holds it.\<close>

definition holder_generation :: "string \<Rightarrow> string list \<Rightarrow> db \<Rightarrow> string option" where
  "holder_generation uri selected d =
     (let holders = filter (\<lambda>g. g_id g \<in> set selected \<and>
            (\<exists>c\<in>set (db_chunks d). c_generation c = g_id g \<and> c_source_uri c = uri)) (db_generations d)
      in if \<exists>g\<in>set holders. Some (g_id g) = tenant_active d then tenant_active d
         else if holders = [] then None
         else Some (g_id (last (sort_key g_created_at holders))))"

definition delete_orphan_relations :: "string list \<Rightarrow> db \<Rightarrow> db" where
  "delete_orphan_relations selected d = d\<lparr>db_relations := filter (\<lambda>(g, r, s, t).
     \<not> (g \<in> set selected \<and> (g, r) \<notin> set (map (\<lambda>(g', r', c). (g', r')) (db_evidence d)))) (db_relations d)\<rparr>"

definition delete_orphan_entities :: "string list \<Rightarrow> db \<Rightarrow> db" where
  "delete_orphan_entities selected d = d\<lparr>db_entities := filter (\<lambda>(g, e).
     \<not> (g \<in> set selected \<and> (g, e) \<notin> set (map (\<lambda>(g', e', c). (g', e')) (db_mentions d))
        \<and> (g, e) \<notin> set (map (\<lambda>(g', r, s, t). (g', s)) (db_relations d))
        \<and> (g, e) \<notin> set (map (\<lambda>(g', r, s, t). (g', t)) (db_relations d)))) (db_entities d)\<rparr>"

definition erased :: "string \<Rightarrow> string list \<Rightarrow> chunk_row \<Rightarrow> bool" where
  "erased uri selected c \<longleftrightarrow> c_generation c \<in> set selected \<and> c_source_uri c = uri"

definition erase_chunks :: "string \<Rightarrow> string list \<Rightarrow> db \<Rightarrow> db \<times> nat" where
  "erase_chunks uri selected d =
     (if selected = [] then (d, 0)
      else (let ids = map c_chunk_id (filter (erased uri selected) (db_chunks d));
                d1 = scrub_sparse_rows ids (delete_chunks (erased uri selected) d)
            in (delete_orphan_entities selected (delete_orphan_relations selected d1), length ids)))"

text \<open>\<open>str.isidentifier\<close> on strings of code points below 256.\<close>

definition id_start :: "char \<Rightarrow> bool" where
  "id_start c \<longleftrightarrow> (let n = (of_char c :: nat) in
     65 \<le> n \<and> n \<le> 90 \<or> 97 \<le> n \<and> n \<le> 122 \<or> n = 95 \<or> n = 170 \<or> n = 181 \<or> n = 186
     \<or> 192 \<le> n \<and> n \<noteq> 215 \<and> n \<noteq> 247)"

definition id_continue :: "char \<Rightarrow> bool" where
  "id_continue c \<longleftrightarrow> id_start c \<or> (let n = (of_char c :: nat) in 48 \<le> n \<and> n \<le> 57 \<or> n = 183)"

fun isidentifier :: "string \<Rightarrow> bool" where
  "isidentifier [] = False"
| "isidentifier (c # s) = (id_start c \<and> list_all id_continue s)"

definition forget_legacy :: "world \<Rightarrow> string \<Rightarrow> string option \<Rightarrow> bool \<Rightarrow> db \<Rightarrow> gen_error + db \<times> nat" where
  "forget_legacy w uri legacy_table withdraw d = (case legacy_table of
     None \<Rightarrow> Inr (d, 0)
   | Some table \<Rightarrow>
       if \<not> isidentifier table then Inl (GenValueError ''legacy_table must be a valid SQL identifier'')
       else (case map_of (db_legacy d) table of
         None \<Rightarrow> Inr (d, 0)
       | Some rows \<Rightarrow>
           (let removed = filter (\<lambda>r. row_source r = uri) rows;
                d1 = d\<lparr>db_legacy := dict_set table (filter (\<lambda>r. row_source r \<noteq> uri) rows) (db_legacy d)\<rparr>
            in Inr (fst (pg_record_removals w table removed [uri] withdraw d1), length removed))))"

definition forget ::
  "world \<Rightarrow> string \<Rightarrow> string option \<Rightarrow> bool \<Rightarrow> db \<Rightarrow> gen_error + db \<times> erasure_result" where
  "forget w uri legacy_table withdraw d =
     (if uri = [] then Inl (GenValueError ''source_uri must be non-empty'')
      else (let event_id = w_new_id w (length (db_audit d));
                selected = selected_generations d;
                d1 = audit w ''source_forgotten'' None (Some uri) (GenerationsPayload selected) d;
                d2 = add_tombstone w uri event_id d1;
                tombstones = set (dict_keys (db_tombstones d2));
                d3 = fold (refingerprint w tombstones) (manifests_of d) d2;
                removed_rows = (case holder_generation uri selected d3 of
                  None \<Rightarrow> [] | Some holder \<Rightarrow> scoped_rows holder [uri] d3);
                d4 = fst (pg_record_removals w chunk_scope removed_rows [uri] withdraw d3);
                (d5, removed) = erase_chunks uri selected d4
            in and_then (forget_legacy w uri legacy_table withdraw d5) (\<lambda>(d6, legacy_removed).
                 Inr (d6, \<lparr>er_source_uri = uri, er_generation_ids = selected,
                           er_chunks_removed = removed + legacy_removed, er_event_id = event_id\<rparr>))))"

section \<open>Collecting generations\<close>

definition generation_age :: "generation_row \<Rightarrow> instant" where
  "generation_age g = (case g_retired_at g of None \<Rightarrow> g_created_at g | Some t \<Rightarrow> t)"

definition collectable_rows :: "db \<Rightarrow> generation_row list" where
  "collectable_rows d = rev (sort_key generation_age
     (filter (\<lambda>g. g_state g \<in> {RETIRED, FAILED}) (db_generations d)))"

fun gc_select :: "string set \<Rightarrow> int \<Rightarrow> instant \<Rightarrow> int \<Rightarrow> generation_row list \<Rightarrow> string list" where
  "gc_select protected retain cutoff kept [] = []"
| "gc_select protected retain cutoff kept (g # gs) =
     (if g_id g \<in> protected then gc_select protected retain cutoff kept gs
      else if g_state g = RETIRED \<and> kept < retain then gc_select protected retain cutoff (kept + 1) gs
      else if generation_age g \<ge> cutoff then gc_select protected retain cutoff kept gs
      else g_id g # gc_select protected retain cutoff kept gs)"

definition gc :: "world \<Rightarrow> instant option \<Rightarrow> int \<Rightarrow> int \<Rightarrow> db \<Rightarrow> gen_error + db \<times> string list" where
  "gc w now retention_days retain_previous d =
     (if retention_days < 0 \<or> retain_previous < 0
      then Inl (GenValueError ''retention_days and retain_previous cannot be negative'')
      else (let cutoff = (case now of None \<Rightarrow> w_now w | Some t \<Rightarrow> t) - retention_days * day_length;
                kept = (if tenant_previous d = None then 0 else 1);
                doomed = gc_select (protected_generations d) retain_previous cutoff kept (collectable_rows d)
            in if doomed = [] then Inr (d, [])
               else (let ids = map c_chunk_id (filter (\<lambda>c. c_generation c \<in> set doomed) (db_chunks d))
                     in Inr (audit w ''generation_gc'' None None (GenerationsPayload doomed)
                          (scrub_sparse_rows ids (delete_generations (set doomed) d)), doomed))))"

end
