(* ===== verification/GenerationBuild.thy ===== *)
theory GenerationBuild
  imports Generations
begin

text \<open>
  Building a generation (\<open>src/recall/generations.py\<close>): the transactions \<open>build\<close> runs for each source, the
  loop over the manifest for an embedder that encodes passages one by one, the graph step, the move to
  validating, and \<open>validate\<close>. Reading and chunking a source, and embedding its chunks, are inputs of the
  loop; what a transaction stores of them is modelled.
\<close>

section \<open>Reusing a source of an earlier generation\<close>

record reuse_request =
  rq_pipeline_fingerprint :: string
  rq_uri :: string
  rq_sha256 :: string
  rq_version_id :: string
  rq_expected_file :: string
  rq_body_rule :: "string option"
  rq_metadata_rules :: "string list"
  rq_policy_digest :: "string option"
  rq_group_fingerprint :: "string option"
  rq_require_anchor_repo :: bool
  rq_anchor_repo :: "string option"
  rq_provenance :: metadata

definition metadata_rule_version :: string where
  "metadata_rule_version = ''recall-record-2026-10-21''"

definition pre_record_metadata_rule_version :: string where
  "pre_record_metadata_rule_version = ''relative-file-paths-2026-08-29''"

definition meta_text :: "world \<Rightarrow> metadata \<Rightarrow> string \<Rightarrow> string option" where
  "meta_text w m key = arrow_text w (py_get m key)"

definition anchor_repo :: "world \<Rightarrow> metadata \<Rightarrow> string option" where
  "anchor_repo w m = (case py_get m ''code_anchor'' of PDict anchor \<Rightarrow> meta_text w anchor ''repo'' | _ \<Rightarrow> None)"

text \<open>The conditions on one stored chunk, and on every chunk of its source in its generation.\<close>

definition reuse_chunk :: "world \<Rightarrow> reuse_request \<Rightarrow> chunk_row \<Rightarrow> bool" where
  "reuse_chunk w rq c \<longleftrightarrow>
     c_source_uri c = rq_uri rq \<and> c_sha256 c = rq_sha256 rq
     \<and> meta_text w (c_metadata c) ''body_rule_version'' = rq_body_rule rq
     \<and> (case meta_text w (c_metadata c) ''metadata_rule_version'' of
          None \<Rightarrow> False | Some rule \<Rightarrow> rule \<in> set (rq_metadata_rules rq))
     \<and> meta_text w (c_metadata c) ''security_policy_digest'' = rq_policy_digest rq
     \<and> (case rq_group_fingerprint rq of
          None \<Rightarrow> True | Some g \<Rightarrow> meta_text w (c_metadata c) ''context_group_fingerprint'' = Some g)
     \<and> (rq_require_anchor_repo rq \<longrightarrow> anchor_repo w (c_metadata c) = rq_anchor_repo rq)"

definition same_file :: "world \<Rightarrow> reuse_request \<Rightarrow> string \<Rightarrow> db \<Rightarrow> bool" where
  "same_file w rq gid d \<longleftrightarrow> (\<forall>c\<in>set (db_chunks d). c_generation c = gid \<and> c_source_uri c = rq_uri rq
     \<longrightarrow> meta_text w (c_metadata c) ''file'' = Some (rq_expected_file rq))"

definition reuse_candidates :: "world \<Rightarrow> reuse_request \<Rightarrow> db \<Rightarrow> generation_row list" where
  "reuse_candidates w rq d = filter (\<lambda>g. g_pipeline_fingerprint g = rq_pipeline_fingerprint rq
     \<and> g_state g \<in> readable_generation_states
     \<and> (\<exists>c\<in>set (db_chunks d). c_generation c = g_id g \<and> reuse_chunk w rq c)
     \<and> same_file w rq (g_id g) d) (db_generations d)"

text \<open>\<open>ORDER BY activated_at DESC NULLS LAST, created_at DESC LIMIT 1\<close>\<close>

definition reuse_order :: "generation_row \<Rightarrow> (nat \<times> instant) \<times> instant" where
  "reuse_order g = (case g_activated_at g of None \<Rightarrow> (0, 0) | Some t \<Rightarrow> (1, t), g_created_at g)"

definition reuse_generation :: "world \<Rightarrow> reuse_request \<Rightarrow> db \<Rightarrow> string option" where
  "reuse_generation w rq d =
     (let found = sort_key reuse_order (reuse_candidates w rq d)
      in if found = [] then None else Some (g_id (last found)))"

definition copied_chunk :: "world \<Rightarrow> string \<Rightarrow> reuse_request \<Rightarrow> string \<Rightarrow> chunk_row \<Rightarrow> chunk_row" where
  "copied_chunk w gid rq origin c = c\<lparr>c_generation := gid, c_object_version_id := rq_version_id rq,
     c_metadata := dict_set ''metadata_rule_version'' (PStr metadata_rule_version)
       (dict_set ''reused_from_generation'' (PStr origin)
         (fold (\<lambda>(k, v). dict_set k v) (rq_provenance rq) (c_metadata c))),
     c_indexed_at := w_now w,
     c_first_indexed_at := Some (case c_first_indexed_at c of None \<Rightarrow> c_indexed_at c | Some t \<Rightarrow> t)\<rparr>"

text \<open>\<open>INSERT INTO recall_chunks_v1\<close> under its primary key and its foreign key to the generation.\<close>

definition insert_chunks :: "string \<Rightarrow> chunk_row list \<Rightarrow> db \<Rightarrow> gen_error + db" where
  "insert_chunks gid rows d =
     (if rows = [] then Inr d
      else if find_generation gid d = None then Inl (DatabaseError ''foreign key violation'')
      else if \<not> distinct (map c_chunk_id rows)
        \<or> (\<exists>c\<in>set (db_chunks d). c_generation c = gid \<and> c_chunk_id c \<in> set (map c_chunk_id rows))
      then Inl (DatabaseError ''duplicate chunk_id'')
      else Inr (d\<lparr>db_chunks := db_chunks d @ rows\<rparr>))"

definition reuse_source :: "world \<Rightarrow> string \<Rightarrow> reuse_request \<Rightarrow> db \<Rightarrow> gen_error + db \<times> nat" where
  "reuse_source w gid rq d = (case reuse_generation w rq d of
     None \<Rightarrow> Inr (d, 0)
   | Some origin \<Rightarrow>
       (let rows = map (copied_chunk w gid rq origin)
              (filter (\<lambda>c. c_generation c = origin \<and> c_source_uri c = rq_uri rq) (db_chunks d))
        in and_then (insert_chunks gid rows d) (\<lambda>d1. Inr (d1, length rows))))"

section \<open>Writing a source\<close>

text \<open>\<open>_first_indexed_by_ordinal\<close>: the earliest first write of each ordinal, and of the source at these bytes.\<close>

definition first_write :: "chunk_row \<Rightarrow> instant" where
  "first_write c = (case c_first_indexed_at c of None \<Rightarrow> c_indexed_at c | Some t \<Rightarrow> t)"

definition live_rows :: "string \<Rightarrow> db \<Rightarrow> chunk_row list" where
  "live_rows uri d = filter (\<lambda>c. c_source_uri c = uri
     \<and> (\<exists>g\<in>set (db_generations d). g_id g = c_generation c \<and> g_state g \<in> readable_generation_states)) (db_chunks d)"

definition min_opt :: "instant list \<Rightarrow> instant option" where
  "min_opt ts = (if ts = [] then None else Some (Min (set ts)))"

definition first_seen :: "string \<Rightarrow> string \<Rightarrow> db \<Rightarrow> int \<Rightarrow> instant option" where
  "first_seen uri sha d ordinal =
     (case min_opt (map first_write (filter (\<lambda>c. c_ordinal c = ordinal) (live_rows uri d))) of
        Some t \<Rightarrow> Some t
      | None \<Rightarrow> min_opt (map first_write (filter (\<lambda>c. c_sha256 c = sha) (live_rows uri d))))"

record new_chunk =
  nc_id :: string
  nc_ordinal :: int
  nc_text :: string
  nc_metadata :: metadata

definition written_chunk ::
  "world \<Rightarrow> string \<Rightarrow> manifest_object \<Rightarrow> db \<Rightarrow> new_chunk \<Rightarrow> chunk_row" where
  "written_chunk w gid entry d c = \<lparr>c_generation = gid, c_chunk_id = nc_id c, c_source_uri = mo_uri entry,
     c_object_version_id = mo_version_id entry, c_sha256 = mo_sha256 entry, c_ordinal = nc_ordinal c,
     c_text = nc_text c, c_metadata = nc_metadata c, c_indexed_at = w_now w,
     c_first_indexed_at = Some (case first_seen (mo_uri entry) (mo_sha256 entry) d (nc_ordinal c) of
        None \<Rightarrow> w_now w | Some t \<Rightarrow> min t (w_now w))\<rparr>"

definition write_source ::
  "world \<Rightarrow> string \<Rightarrow> manifest_object \<Rightarrow> new_chunk list \<Rightarrow> nat \<Rightarrow> db \<Rightarrow> gen_error + db \<times> nat" where
  "write_source w gid entry chunks embeddings d =
     (if length chunks \<noteq> embeddings then Inl (GenerationError ''chunk and embedding counts do not match'')
      else and_then (insert_chunks gid (map (written_chunk w gid entry d) chunks) d)
             (\<lambda>d1. Inr (d1, length chunks)))"

section \<open>The transactions of one source\<close>

datatype source_outcome = Tombstoned | Stored nat | NotReused

text \<open>The first transaction: under the source's lock, a tombstone stops the source, and reuse is tried.\<close>

definition reuse_transaction ::
  "world \<Rightarrow> string \<Rightarrow> reuse_request \<Rightarrow> db \<Rightarrow> gen_error + db \<times> source_outcome" where
  "reuse_transaction w gid rq d =
     (if is_tombstoned (rq_uri rq) d then Inr (d, Tombstoned)
      else and_then (reuse_source w gid rq d) (\<lambda>(d1, reused).
             Inr (d1, if reused = 0 then NotReused else Stored reused)))"

text \<open>The second transaction: the embedded chunks are stored unless the source was forgotten meanwhile.\<close>

definition write_transaction ::
  "world \<Rightarrow> string \<Rightarrow> manifest_object \<Rightarrow> new_chunk list \<Rightarrow> nat \<Rightarrow> db \<Rightarrow> gen_error + db \<times> source_outcome" where
  "write_transaction w gid entry chunks embeddings d =
     (if is_tombstoned (mo_uri entry) d then Inr (d, Tombstoned)
      else and_then (write_source w gid entry chunks embeddings d) (\<lambda>(d1, n). Inr (d1, Stored n)))"

text \<open>The transaction that takes copied members of a context group back out of the build.\<close>

definition take_back_transaction :: "string \<Rightarrow> string list \<Rightarrow> db \<Rightarrow> db" where
  "take_back_transaction gid uris d =
     fold (\<lambda>uri. delete_chunks (\<lambda>c. c_generation c = gid \<and> c_source_uri c = uri)) uris d"

section \<open>The graph step and the move to validating\<close>

definition build_graphs :: "world \<Rightarrow> string \<Rightarrow> string \<Rightarrow> db \<Rightarrow> gen_error + db \<times> semantic_graph \<times> pyval" where
  "build_graphs w gid pipeline_fingerprint d = and_then (require_generation gid d) (\<lambda>current.
     let chunks = generation_chunks gid d in
     and_then (build_semantic_graph w chunks gid pipeline_fingerprint (g_corpus_fingerprint current)) (\<lambda>graph.
     and_then (write_semantic_graph gid graph d) (\<lambda>d1.
     and_then (persist_dependency_projection w d1 chunks gid (g_corpus_fingerprint current)) (\<lambda>marker.
     Inr (d1, graph, marker)))))"

definition mark_validating ::
  "world \<Rightarrow> string \<Rightarrow> build_summary \<Rightarrow> string option \<Rightarrow> db \<Rightarrow> gen_error + db" where
  "mark_validating w gid summary expected d = and_then (require_generation gid d) (\<lambda>current.
     if g_state current \<noteq> BUILDING
     then Inl (InvalidGenerationTransition ''generation changed during build'')
     else if (case expected of None \<Rightarrow> False | Some fp \<Rightarrow> g_corpus_fingerprint current \<noteq> fp)
     then Inl (GenerationError ''corpus changed during grouped build; retry the generation'')
     else Inr (audit w ''generation_built'' (Some gid) None (SummaryPayload summary)
       (update_generation gid (\<lambda>_. True)
         (\<lambda>g. g\<lparr>g_state := VALIDATING, g_validating_at := Some (w_now w), g_summary := Some summary\<rparr>) d)))"

section \<open>Failing a build or a validation\<close>

fun error_text :: "gen_error \<Rightarrow> string" where
  "error_text (GenerationError s) = ''GenerationError: '' @ s"
| "error_text (GenerationNotFound s) = ''GenerationNotFound: '' @ s"
| "error_text (InvalidGenerationTransition s) = ''InvalidGenerationTransition: '' @ s"
| "error_text (StepPrecondition s) = ''_StepPrecondition: '' @ s"
| "error_text (UnsafePromotion s) = ''UnsafePromotion: '' @ s"
| "error_text NoActiveGeneration = ''NoActiveGeneration: ''"
| "error_text UnverifiedPipelineError = ''UnverifiedPipelineError: ''"
| "error_text (GenValueError s) = ''ValueError: '' @ s"
| "error_text (CalibrationBindingError s) = ''CalibrationBindingError: '' @ s"
| "error_text (CalibrationNotFound s) = ''CalibrationNotFound: '' @ s"
| "error_text (CalibrationUncertifiedError s) = ''CalibrationUncertified: '' @ s"
| "error_text (DatabaseError s) = ''Error: '' @ s"
| "error_text (OtherError s) = ''Exception: '' @ s"

text \<open>
  The handler \<open>build\<close> and \<open>validate\<close> share: a wrong-state call is only raised; any other error fails the
  generation first, unless the generation is in a state that cannot fail.
\<close>

definition fail_and_raise :: "world \<Rightarrow> string \<Rightarrow> gen_error \<Rightarrow> db \<Rightarrow> db \<times> gen_error" where
  "fail_and_raise w gid e d = (case e of
     StepPrecondition _ \<Rightarrow> (d, e)
   | _ \<Rightarrow> (case fail w gid (take 2000 (error_text e)) d of
       Inr d1 \<Rightarrow> (d1, e)
     | Inl (InvalidGenerationTransition _) \<Rightarrow> (d, e)
     | Inl e1 \<Rightarrow> (d, e1)))"

section \<open>The build of a manifest\<close>

text \<open>
  What the build reads from outside the tables: the reuse request of an object (its bytes fetched, its
  policy decided, its rules read), the chunks of an object (None when it has no text), and the number of
  vectors the embedder returns. Each may raise.
\<close>

record source_reader =
  rd_request :: "manifest_object \<Rightarrow> gen_error + reuse_request"
  rd_chunks :: "manifest_object \<Rightarrow> gen_error + new_chunk list option"
  rd_embed :: "new_chunk list \<Rightarrow> gen_error + nat"

record build_counters =
  bc_chunks_written :: nat
  bc_reused_objects :: nat
  bc_reused_chunks :: nat
  bc_tombstoned :: nat
  bc_empty :: nat
  bc_indexed_sources :: "string list"

definition count_tombstoned :: "build_counters \<Rightarrow> build_counters" where
  "count_tombstoned b = b\<lparr>bc_tombstoned := bc_tombstoned b + 1\<rparr>"

definition count_reused :: "string \<Rightarrow> nat \<Rightarrow> build_counters \<Rightarrow> build_counters" where
  "count_reused uri n b = b\<lparr>bc_chunks_written := bc_chunks_written b + n,
     bc_reused_objects := bc_reused_objects b + 1, bc_reused_chunks := bc_reused_chunks b + n,
     bc_indexed_sources := bc_indexed_sources b @ [uri]\<rparr>"

definition count_written :: "string \<Rightarrow> nat \<Rightarrow> build_counters \<Rightarrow> build_counters" where
  "count_written uri n b = b\<lparr>bc_chunks_written := bc_chunks_written b + n,
     bc_indexed_sources := bc_indexed_sources b @ [uri]\<rparr>"

definition embed_and_write ::
  "world \<Rightarrow> string \<Rightarrow> source_reader \<Rightarrow> manifest_object \<Rightarrow> build_counters \<Rightarrow> db \<Rightarrow> db \<times> (gen_error + build_counters)" where
  "embed_and_write w gid rd entry b d = (case rd_chunks rd entry of
     Inl e \<Rightarrow> (d, Inl e)
   | Inr None \<Rightarrow> (d, Inr (b\<lparr>bc_empty := bc_empty b + 1\<rparr>))
   | Inr (Some chunks) \<Rightarrow> (case rd_embed rd chunks of
       Inl e \<Rightarrow> (d, Inl e)
     | Inr embeddings \<Rightarrow> (case write_transaction w gid entry chunks embeddings d of
         Inl e \<Rightarrow> (d, Inl e)
       | Inr (d1, Stored n) \<Rightarrow> (d1, Inr (count_written (mo_uri entry) n b))
       | Inr (d1, _) \<Rightarrow> (d1, Inr (count_tombstoned b)))))"

definition build_source ::
  "world \<Rightarrow> string \<Rightarrow> source_reader \<Rightarrow> manifest_object \<Rightarrow> build_counters \<Rightarrow> db \<Rightarrow> db \<times> (gen_error + build_counters)" where
  "build_source w gid rd entry b d = (case rd_request rd entry of
     Inl e \<Rightarrow> (d, Inl e)
   | Inr rq \<Rightarrow> (case reuse_transaction w gid rq d of
       Inl e \<Rightarrow> (d, Inl e)
     | Inr (d1, Tombstoned) \<Rightarrow> (d1, Inr (count_tombstoned b))
     | Inr (d1, Stored n) \<Rightarrow> (d1, Inr (count_reused (mo_uri entry) n b))
     | Inr (d1, NotReused) \<Rightarrow> embed_and_write w gid rd entry b d1))"

fun build_loop ::
  "world \<Rightarrow> string \<Rightarrow> source_reader \<Rightarrow> manifest_object list \<Rightarrow> build_counters \<Rightarrow> db
     \<Rightarrow> db \<times> (gen_error + build_counters)" where
  "build_loop w gid rd [] b d = (d, Inr b)"
| "build_loop w gid rd (entry # entries) b d = (case build_source w gid rd entry b d of
     (d1, Inl e) \<Rightarrow> (d1, Inl e)
   | (d1, Inr b1) \<Rightarrow> build_loop w gid rd entries b1 d1)"

definition no_counters :: build_counters where
  "no_counters = \<lparr>bc_chunks_written = 0, bc_reused_objects = 0, bc_reused_chunks = 0, bc_tombstoned = 0,
     bc_empty = 0, bc_indexed_sources = []\<rparr>"

definition build_summary_of :: "nat \<Rightarrow> build_counters \<Rightarrow> semantic_graph \<Rightarrow> pyval \<Rightarrow> build_summary" where
  "build_summary_of objects b graph dependency =
     \<lparr>bs_objects = objects, bs_chunks = bc_chunks_written b, bs_reused_objects = bc_reused_objects b,
      bs_reused_chunks = bc_reused_chunks b, bs_tombstoned_objects = bc_tombstoned b, bs_empty_objects = bc_empty b,
      bs_indexed_sources = sort (bc_indexed_sources b), bs_semantic_graph = Some (semantic_graph_marker graph),
      bs_dependency_projection = dependency, bs_validated = None\<rparr>"

text \<open>After the loop: the graph step, and the move to validating with the summary of the build.\<close>

definition finish_build ::
  "world \<Rightarrow> string \<Rightarrow> string \<Rightarrow> nat \<Rightarrow> build_counters \<Rightarrow> db \<Rightarrow> db \<times> (gen_error + build_summary)" where
  "finish_build w gid pipeline_fingerprint objects b d = (case build_graphs w gid pipeline_fingerprint d of
     Inl e \<Rightarrow> (d, Inl e)
   | Inr (d1, graph, dependency) \<Rightarrow>
       (let summary = build_summary_of objects b graph dependency
        in case mark_validating w gid summary None d1 of Inl e \<Rightarrow> (d1, Inl e) | Inr d2 \<Rightarrow> (d2, Inr summary)))"

definition build_body ::
  "world \<Rightarrow> string \<Rightarrow> (generation_row \<Rightarrow> gen_error + unit) \<Rightarrow> source_reader \<Rightarrow> db \<Rightarrow> db \<times> (gen_error + build_summary)" where
  "build_body w gid check_build_identity rd d = (case require_generation gid d of
     Inl e \<Rightarrow> (d, Inl e)
   | Inr g \<Rightarrow>
       if g_state g \<noteq> BUILDING then (d, Inl (StepPrecondition ''build requires building state''))
       else (case (g_manifest g, check_build_identity g) of
         (None, _) \<Rightarrow> (d, Inl (GenerationError ''stored generation identity is malformed''))
       | (_, Inl e) \<Rightarrow> (d, Inl e)
       | (Some m, Inr _) \<Rightarrow> (case build_loop w gid rd (im_objects m) no_counters d of
           (d1, Inl e) \<Rightarrow> (d1, Inl e)
         | (d1, Inr b) \<Rightarrow> finish_build w gid (g_pipeline_fingerprint g) (length (im_objects m)) b d1)))"

definition build ::
  "world \<Rightarrow> string \<Rightarrow> (generation_row \<Rightarrow> gen_error + unit) \<Rightarrow> source_reader \<Rightarrow> db \<Rightarrow> db \<times> (gen_error + build_summary)" where
  "build w gid check_build_identity rd d = (case build_body w gid check_build_identity rd d of
     (d1, Inr summary) \<Rightarrow> (d1, Inr summary)
   | (d1, Inl e) \<Rightarrow> (let (d2, e1) = fail_and_raise w gid e d1 in (d2, Inl e1)))"

section \<open>Validation\<close>

definition source_groups :: "string \<Rightarrow> db \<Rightarrow> (string \<times> string \<times> string \<times> nat) list" where
  "source_groups gid d = map (\<lambda>uri.
     let rows = filter (\<lambda>c. c_generation c = gid \<and> c_source_uri c = uri) (db_chunks d)
     in (uri, Min (set (map c_sha256 rows)), Min (set (map c_object_version_id rows)), length rows)) (sources_of gid d)"

definition check_sources :: "string list \<Rightarrow> string \<Rightarrow> db \<Rightarrow> gen_error + unit" where
  "check_sources expected gid d =
     (let actual = set (sources_of gid d) in
      if actual = set expected then Inr ()
      else (let forgotten = filter (\<lambda>u. u \<notin> actual \<and> is_tombstoned u d) expected
        in if forgotten \<noteq> [] \<and> actual \<subseteq> set expected \<and> set forgotten = set expected - actual
           then Inl (GenerationError ''source(s) were forgotten while this generation was being built'')
           else Inl (GenerationError ''generation source mismatch'')))"

definition check_lineage :: "index_manifest \<Rightarrow> string \<Rightarrow> db \<Rightarrow> gen_error + unit" where
  "check_lineage m gid d =
     (if list_all (\<lambda>(uri, sha, version, n). case find (\<lambda>e. mo_uri e = uri) (im_objects m) of
           None \<Rightarrow> False
         | Some entry \<Rightarrow> sha = mo_sha256 entry \<and> version = mo_version_id entry) (source_groups gid d)
      then Inr () else Inl (GenerationError ''generation lineage mismatch''))"

text \<open>The graph of a validating generation: replaced when an older builder wrote it, else compared.\<close>

definition validate_graph ::
  "world \<Rightarrow> string \<Rightarrow> graph_marker \<Rightarrow> semantic_graph \<Rightarrow> build_summary \<Rightarrow> db \<Rightarrow> gen_error + db \<times> build_summary" where
  "validate_graph w gid marker graph summary d =
     (let built = marker_schema_version marker in
      if built > sg_schema_version graph
      then Inl (GenerationError ''generation semantic graph was built by a newer builder'')
      else if built < sg_schema_version graph
      then and_then (write_semantic_graph gid graph d) (\<lambda>d1.
        Inr (audit w ''generation_graph_upgraded'' (Some gid) None (UpgradePayload built (sg_schema_version graph)) d1,
             summary\<lparr>bs_semantic_graph := Some (semantic_graph_marker graph)\<rparr>))
      else if gm_graph_id marker \<noteq> sg_graph_id graph \<or> gm_fingerprint marker \<noteq> sg_fingerprint graph
      then Inl (GenerationError ''generation semantic graph fingerprint mismatch'')
      else Inr (d, summary))"

definition ready_marker :: "build_summary \<Rightarrow> gen_error + graph_marker" where
  "ready_marker summary = (case bs_semantic_graph summary of
     Some marker \<Rightarrow> if gm_ready marker then Inr marker
       else Inl (GenerationError ''generation semantic graph is not ready'')
   | None \<Rightarrow> Inl (GenerationError ''generation semantic graph is not ready''))"

definition make_ready :: "world \<Rightarrow> string \<Rightarrow> build_summary \<Rightarrow> nat \<times> nat \<Rightarrow> db \<Rightarrow> db" where
  "make_ready w gid summary counts d =
     audit w ''generation_validated'' (Some gid) None (CountPayload (fst counts) (snd counts))
       (update_generation gid (\<lambda>_. True) (\<lambda>g. g\<lparr>g_state := READY, g_ready_at := Some (w_now w),
          g_summary := Some (summary\<lparr>bs_validated := Some counts\<rparr>)\<rparr>) d)"

definition validate_body :: "world \<Rightarrow> string \<Rightarrow> db \<Rightarrow> gen_error + db \<times> nat \<times> nat" where
  "validate_body w gid d = and_then (require_generation gid d) (\<lambda>current.
     if g_state current \<noteq> VALIDATING then Inl (StepPrecondition ''validate requires validating state'')
     else (case (g_manifest current, g_summary current) of
       (Some m, Some summary) \<Rightarrow>
         and_then (check_sources (bs_indexed_sources summary) gid d) (\<lambda>_.
         and_then (check_lineage m gid d) (\<lambda>_.
         and_then (ready_marker summary) (\<lambda>marker.
         let chunks = generation_chunks gid d;
             counts = (length (sources_of gid d), sum_list (map (\<lambda>(u, s, v, n). n) (source_groups gid d))) in
         and_then (build_semantic_graph w chunks gid (g_pipeline_fingerprint current) (g_corpus_fingerprint current)) (\<lambda>graph.
         and_then (validate_graph w gid marker graph summary d) (\<lambda>(d1, summary1).
         and_then (persist_dependency_projection w d1 chunks gid (g_corpus_fingerprint current)) (\<lambda>dependency.
         Inr (make_ready w gid (summary1\<lparr>bs_dependency_projection := dependency\<rparr>) counts d1, counts)))))))
     | _ \<Rightarrow> Inl (GenerationError ''generation has no build summary'')))"

definition validate :: "world \<Rightarrow> string \<Rightarrow> db \<Rightarrow> db \<times> (gen_error + nat \<times> nat)" where
  "validate w gid d = (case validate_body w gid d of
     Inr (d1, counts) \<Rightarrow> (d1, Inr counts)
   | Inl e \<Rightarrow> (let (d1, e1) = fail_and_raise w gid e d in (d1, Inl e1)))"

definition rebuild_graph :: "world \<Rightarrow> string \<Rightarrow> db \<Rightarrow> gen_error + db" where
  "rebuild_graph w gid d = and_then (require_generation gid d) (\<lambda>current.
     if g_state current = LEGACY_UNVERIFIED
     then Inl (GenerationError ''legacy_unverified generations have no v1 chunk projection'')
     else if g_state current \<in> {BUILDING, VALIDATING}
     then Inl (InvalidGenerationTransition ''graph rebuild requires a stable generation'')
     else (let chunks = generation_chunks gid d in
       and_then (build_semantic_graph w chunks gid (g_pipeline_fingerprint current) (g_corpus_fingerprint current)) (\<lambda>graph.
       and_then (write_semantic_graph gid graph d) (\<lambda>d1.
       and_then (persist_dependency_projection w d1 chunks gid (g_corpus_fingerprint current)) (\<lambda>dependency.
       let marker = semantic_graph_marker graph;
           old = (case g_summary current of Some s \<Rightarrow> s | None \<Rightarrow>
             \<lparr>bs_objects = 0, bs_chunks = 0, bs_reused_objects = 0, bs_reused_chunks = 0, bs_tombstoned_objects = 0,
              bs_empty_objects = 0, bs_indexed_sources = [], bs_semantic_graph = None,
              bs_dependency_projection = PNone, bs_validated = None\<rparr>);
           summary = old\<lparr>bs_semantic_graph := Some marker, bs_dependency_projection := dependency\<rparr>
       in Inr (audit w ''generation_graph_rebuilt'' (Some gid) None (MarkerPayload marker)
            (update_generation gid (\<lambda>_. True) (\<lambda>g. g\<lparr>g_summary := Some summary\<rparr>) d1)))))))"

end
