(* ===== verification/GenerationInvariants.thy ===== *)
theory GenerationInvariants
  imports GenerationErasure GenerationBuild
begin

text \<open>
  What is true of a tenant's tables in every state the code can bring them to: the pointers name the one
  active generation and a generation that can be rolled back to; every chunk belongs to a generation and to
  a source that was not forgotten; every generation's corpus fingerprint is that of its manifest without
  the forgotten sources; and every published calibration is bound to the fingerprints of its generation.
  The transactions are the steps of a transition system in which processes may interleave in any order.
\<close>

section \<open>Preserved predicates\<close>

locale preserved =
  fixes init :: "'s \<Rightarrow> bool" and step :: "'s \<Rightarrow> 's \<Rightarrow> bool" and inv :: "'s \<Rightarrow> bool"
  assumes init_inv: "init s \<Longrightarrow> inv s"
    and step_inv: "inv s \<Longrightarrow> step s t \<Longrightarrow> inv t"
begin

lemma run_inv: "step\<^sup>*\<^sup>* s t \<Longrightarrow> inv s \<Longrightarrow> inv t"
  by (induction rule: rtranclp_induct) (auto intro: step_inv)

lemma reached_inv: "init s \<Longrightarrow> step\<^sup>*\<^sup>* s t \<Longrightarrow> inv t"
  using init_inv run_inv by blast

end

section \<open>The invariant\<close>

definition ids_ok :: "db \<Rightarrow> bool" where
  "ids_ok d \<longleftrightarrow> distinct (map g_id (db_generations d)) \<and> [] \<notin> set (map g_id (db_generations d))"

definition pointers_ok :: "db \<Rightarrow> bool" where
  "pointers_ok d \<longleftrightarrow>
     (\<forall>g\<in>set (db_generations d). g_state g = ACTIVE \<longleftrightarrow> tenant_active d = Some (g_id g))
     \<and> (\<forall>a. tenant_active d = Some a \<longrightarrow> (\<exists>g\<in>set (db_generations d). g_id g = a))
     \<and> (\<forall>p. tenant_previous d = Some p \<longrightarrow> (\<exists>g\<in>set (db_generations d). g_id g = p \<and> g_state g \<in> {READY, RETIRED}))"

definition chunks_ok :: "db \<Rightarrow> bool" where
  "chunks_ok d \<longleftrightarrow> (\<forall>c\<in>set (db_chunks d). \<exists>g\<in>set (db_generations d).
     g_id g = c_generation c \<and> g_state g \<noteq> LEGACY_UNVERIFIED)"

definition erasure_ok :: "db \<Rightarrow> bool" where
  "erasure_ok d \<longleftrightarrow> (\<forall>c\<in>set (db_chunks d). \<not> is_tombstoned (c_source_uri c) d)"

definition tombstone_set :: "db \<Rightarrow> string set" where
  "tombstone_set d = set (dict_keys (db_tombstones d))"

definition fingerprints_ok :: "(pyval \<Rightarrow> string) \<Rightarrow> db \<Rightarrow> bool" where
  "fingerprints_ok sha d \<longleftrightarrow> (\<forall>g\<in>set (db_generations d). g_state g \<noteq> LEGACY_UNVERIFIED \<longrightarrow>
     (\<exists>m. g_manifest g = Some m \<and> g_corpus_fingerprint g = effective_corpus_fingerprint sha m (tombstone_set d)))"

definition bound_to :: "calibration_row \<Rightarrow> generation_row \<Rightarrow> bool" where
  "bound_to c g \<longleftrightarrow> cal_generation c = Some (g_id g) \<and> g_state g \<noteq> LEGACY_UNVERIFIED
     \<and> cal_pipeline_fingerprint c = g_pipeline_fingerprint g \<and> cal_corpus_fingerprint c = g_corpus_fingerprint g"

definition calibrations_ok :: "db \<Rightarrow> bool" where
  "calibrations_ok d \<longleftrightarrow> distinct (map cal_id (db_calibrations d))
     \<and> (\<forall>c\<in>set (db_calibrations d). cal_lifecycle c = PUBLISHED \<longrightarrow>
          cal_certified c \<and> (\<exists>g\<in>set (db_generations d). bound_to c g))"

definition graph_rows_ok :: "db \<Rightarrow> bool" where
  "graph_rows_ok d \<longleftrightarrow>
     (\<forall>(g, e, c)\<in>set (db_mentions d). \<exists>k\<in>set (db_chunks d). c_generation k = g \<and> c_chunk_id k = c)
     \<and> (\<forall>(g, r, c)\<in>set (db_evidence d). \<exists>k\<in>set (db_chunks d). c_generation k = g \<and> c_chunk_id k = c)"

definition keys_ok :: "db \<Rightarrow> bool" where
  "keys_ok d \<longleftrightarrow> distinct (map (\<lambda>c. (c_generation c, c_chunk_id c)) (db_chunks d))"

definition db_ok :: "(pyval \<Rightarrow> string) \<Rightarrow> db \<Rightarrow> bool" where
  "db_ok sha d \<longleftrightarrow> ids_ok d \<and> pointers_ok d \<and> chunks_ok d \<and> erasure_ok d \<and> fingerprints_ok sha d
     \<and> calibrations_ok d \<and> graph_rows_ok d \<and> keys_ok d"

definition builders_ok :: "string set \<Rightarrow> db \<Rightarrow> bool" where
  "builders_ok B d \<longleftrightarrow> (\<forall>g\<in>set (db_generations d). g_id g \<in> B \<longrightarrow> g_state g \<noteq> LEGACY_UNVERIFIED)"

lemmas db_ok_parts = ids_ok_def pointers_ok_def chunks_ok_def erasure_ok_def fingerprints_ok_def
  calibrations_ok_def graph_rows_ok_def keys_ok_def

section \<open>What the statements leave alone\<close>

lemma audit_fields [simp]:
  "db_generations (audit w ty gid uri p d) = db_generations d"
  "db_tenant (audit w ty gid uri p d) = db_tenant d"
  "db_chunks (audit w ty gid uri p d) = db_chunks d"
  "db_tombstones (audit w ty gid uri p d) = db_tombstones d"
  "db_calibrations (audit w ty gid uri p d) = db_calibrations d"
  "db_query_sets (audit w ty gid uri p d) = db_query_sets d"
  "db_sparse (audit w ty gid uri p d) = db_sparse d"
  "db_legacy (audit w ty gid uri p d) = db_legacy d"
  "db_entities (audit w ty gid uri p d) = db_entities d"
  "db_mentions (audit w ty gid uri p d) = db_mentions d"
  "db_relations (audit w ty gid uri p d) = db_relations d"
  "db_evidence (audit w ty gid uri p d) = db_evidence d"
  by (simp_all add: audit_def)

text \<open>Two databases that differ at most in the audit trail, the query sets and the derived tables without keys.\<close>

definition same_state :: "db \<Rightarrow> db \<Rightarrow> bool" where
  "same_state d d' \<longleftrightarrow> db_generations d' = db_generations d \<and> db_tenant d' = db_tenant d
     \<and> db_chunks d' = db_chunks d \<and> db_tombstones d' = db_tombstones d \<and> db_calibrations d' = db_calibrations d
     \<and> db_mentions d' = db_mentions d \<and> db_evidence d' = db_evidence d"

lemma same_state_refl [simp, intro]: "same_state d d"
  by (simp add: same_state_def)

lemma same_state_trans: "same_state d e \<Longrightarrow> same_state e f \<Longrightarrow> same_state d f"
  by (simp add: same_state_def)

lemma same_state_audit [simp, intro]: "same_state d (audit w ty gid uri p d)"
  by (simp add: same_state_def)

lemma same_state_fold_audit: "same_state d (fold (\<lambda>x. audit w (ty x) (gid x) (uri x) (p x)) xs d)"
proof (induction xs arbitrary: d)
  case (Cons x xs)
  show ?case using same_state_trans [OF same_state_audit Cons.IH] by simp
qed simp

lemma same_state_removals [simp, intro]: "same_state d (fst (pg_record_removals w scope rows sources wd d))"
  by (simp add: pg_record_removals_def Let_def same_state_fold_audit)

lemma tenant_cong: "db_tenant d' = db_tenant d \<Longrightarrow> tenant_active d' = tenant_active d \<and> tenant_previous d' = tenant_previous d"
  by (simp add: tenant_active_def tenant_previous_def lock_tenant_state_def)

lemma tombstone_cong: "db_tombstones d' = db_tombstones d \<Longrightarrow>
    is_tombstoned u d' = is_tombstoned u d \<and> tombstone_set d' = tombstone_set d"
  by (simp add: is_tombstoned_def tombstone_set_def)

lemma is_tombstoned_iff: "is_tombstoned u d \<longleftrightarrow> u \<in> tombstone_set d"
  using map_of_eq_None_iff [of "db_tombstones d" u] by (simp add: is_tombstoned_def tombstone_set_def)

lemma db_ok_same: "same_state d d' \<Longrightarrow> db_ok sha d' = db_ok sha d"
  using tenant_cong [of d' d] tombstone_cong [of d' d]
  by (simp add: same_state_def db_ok_def db_ok_parts)

lemma builders_ok_same: "db_generations d' = db_generations d \<Longrightarrow> builders_ok B d' = builders_ok B d"
  by (simp add: builders_ok_def)

lemma db_ok_audit [simp]: "db_ok sha (audit w ty gid uri p d) = db_ok sha d"
  by (rule db_ok_same) simp

lemma builders_ok_audit [simp]: "builders_ok B (audit w ty gid uri p d) = builders_ok B d"
  by (rule builders_ok_same) simp

lemma find_generation_audit [simp]: "find_generation g (audit w ty gid uri p d) = find_generation g d"
  by (simp add: find_generation_def)

section \<open>Rows by id\<close>

lemma find_generation_some: "find_generation gid d = Some g \<Longrightarrow> g \<in> set (db_generations d) \<and> g_id g = gid"
  by (auto simp: find_generation_def find_Some_iff in_set_conv_nth)

lemma require_generation_Inr [simp]: "require_generation gid d = Inr g \<longleftrightarrow> find_generation gid d = Some g"
  by (simp add: require_generation_def split: option.splits)

lemma find_generation_iff: "ids_ok d \<Longrightarrow> find_generation gid d = Some g \<longleftrightarrow> g \<in> set (db_generations d) \<and> g_id g = gid"
proof
  assume "ids_ok d" and g: "g \<in> set (db_generations d) \<and> g_id g = gid"
  then have unique: "\<And>h. h \<in> set (db_generations d) \<Longrightarrow> g_id h = gid \<Longrightarrow> h = g"
    by (auto simp: ids_ok_def distinct_map inj_on_def)
  from g have "find_generation gid d \<noteq> None" by (auto simp: find_generation_def find_None_iff)
  then obtain h where "find_generation gid d = Some h" by auto
  with unique find_generation_some show "find_generation gid d = Some g" by metis
qed (simp add: find_generation_some)

lemma generation_unique:
  "ids_ok d \<Longrightarrow> g \<in> set (db_generations d) \<Longrightarrow> h \<in> set (db_generations d) \<Longrightarrow> g_id g = g_id h \<Longrightarrow> g = h"
  by (auto simp: ids_ok_def distinct_map inj_on_def)

lemma update_generation_fields [simp]:
  "db_tenant (update_generation gid P f d) = db_tenant d"
  "db_chunks (update_generation gid P f d) = db_chunks d"
  "db_tombstones (update_generation gid P f d) = db_tombstones d"
  "db_calibrations (update_generation gid P f d) = db_calibrations d"
  "db_audit (update_generation gid P f d) = db_audit d"
  "db_query_sets (update_generation gid P f d) = db_query_sets d"
  "db_sparse (update_generation gid P f d) = db_sparse d"
  "db_legacy (update_generation gid P f d) = db_legacy d"
  "db_mentions (update_generation gid P f d) = db_mentions d"
  "db_evidence (update_generation gid P f d) = db_evidence d"
  "db_entities (update_generation gid P f d) = db_entities d"
  "db_relations (update_generation gid P f d) = db_relations d"
  by (simp_all add: update_generation_def)

lemma tenant_update [simp]:
  "tenant_active (update_generation gid P f d) = tenant_active d"
  "tenant_previous (update_generation gid P f d) = tenant_previous d"
  by (simp_all add: tenant_active_def tenant_previous_def lock_tenant_state_def)

lemma set_update_generation:
  "set (db_generations (update_generation gid P f d)) =
     (\<lambda>g. if g_id g = gid \<and> P g then f g else g) ` set (db_generations d)"
  by (simp add: update_generation_def)

text \<open>A change of one generation's row that keeps its identity and leaves its serving role alone.\<close>

definition role_kept :: "db \<Rightarrow> (generation_row \<Rightarrow> generation_row) \<Rightarrow> generation_row \<Rightarrow> bool" where
  "role_kept d f g \<longleftrightarrow> g_id (f g) = g_id g \<and> g_manifest (f g) = g_manifest g
     \<and> g_pipeline_fingerprint (f g) = g_pipeline_fingerprint g \<and> g_corpus_fingerprint (f g) = g_corpus_fingerprint g
     \<and> (g_state (f g) = LEGACY_UNVERIFIED \<longleftrightarrow> g_state g = LEGACY_UNVERIFIED)
     \<and> (g_state (f g) = ACTIVE \<longleftrightarrow> g_state g = ACTIVE)
     \<and> (tenant_previous d = Some (g_id g) \<longrightarrow> g_state (f g) \<in> {READY, RETIRED})"

lemma bound_to_kept: "role_kept d f g \<Longrightarrow> bound_to c (f g) = bound_to c g"
  by (simp add: role_kept_def bound_to_def)

lemma map_id_update: "(\<And>g. g_id g = gid \<Longrightarrow> P g \<Longrightarrow> g \<in> set gs \<Longrightarrow> g_id (f g) = gid) \<Longrightarrow>
    map g_id (map (\<lambda>g. if g_id g = gid \<and> P g then f g else g) gs) = map g_id gs"
  by (induction gs) auto

lemma previous_state:
  assumes "db_ok sha d" "g \<in> set (db_generations d)" "tenant_previous d = Some (g_id g)"
  shows "g_state g \<in> {READY, RETIRED}"
proof -
  from assms obtain h where "h \<in> set (db_generations d)" "g_id h = g_id g" "g_state h \<in> {READY, RETIRED}"
    by (auto simp: db_ok_def pointers_ok_def)
  with assms generation_unique [of d g h] show ?thesis by (simp add: db_ok_def)
qed

lemma db_ok_update:
  assumes ok: "db_ok sha d"
    and kept: "\<And>g. g \<in> set (db_generations d) \<Longrightarrow> g_id g = gid \<Longrightarrow> P g \<Longrightarrow> role_kept d f g"
  shows "db_ok sha (update_generation gid P f d)"
proof -
  let ?d = "update_generation gid P f d"
  define u where "u = (\<lambda>g. if g_id g = gid \<and> P g then f g else g)"
  have img: "set (db_generations ?d) = u ` set (db_generations d)"
    by (simp add: set_update_generation u_def)
  have u: "\<And>g. g \<in> set (db_generations d) \<Longrightarrow> role_kept d u g"
    using kept previous_state [OF ok] by (auto simp: role_kept_def u_def)
  have ids: "map g_id (db_generations ?d) = map g_id (db_generations d)"
    using kept by (auto simp: update_generation_def role_kept_def)
  have 1: "ids_ok ?d" using ok unfolding db_ok_def ids_ok_def ids by simp
  have a: "\<forall>g\<in>set (db_generations ?d). g_state g = ACTIVE \<longleftrightarrow> tenant_active ?d = Some (g_id g)"
    using ok u by (simp add: db_ok_def pointers_ok_def img role_kept_def)
  have b: "\<forall>a. tenant_active ?d = Some a \<longrightarrow> (\<exists>g\<in>set (db_generations ?d). g_id g = a)"
    using ok u by (fastforce simp: db_ok_def pointers_ok_def img role_kept_def)
  have c: "\<forall>p. tenant_previous ?d = Some p \<longrightarrow> (\<exists>g\<in>set (db_generations ?d). g_id g = p \<and> g_state g \<in> {READY, RETIRED})"
    using ok u by (fastforce simp: db_ok_def pointers_ok_def img role_kept_def)
  from a b c have 2: "pointers_ok ?d" by (simp add: pointers_ok_def)
  have 3: "chunks_ok ?d" using ok u
    unfolding db_ok_def chunks_ok_def img update_generation_fields role_kept_def by (metis imageI)
  have 4: "fingerprints_ok sha ?d" using ok u
    by (simp add: db_ok_def fingerprints_ok_def img role_kept_def tombstone_set_def)
  have 5: "calibrations_ok ?d" using ok u
    unfolding db_ok_def calibrations_ok_def img update_generation_fields
    by (metis bound_to_kept imageI)
  have 6: "erasure_ok ?d" "graph_rows_ok ?d" "keys_ok ?d"
    using ok by (simp_all add: db_ok_def erasure_ok_def graph_rows_ok_def is_tombstoned_def keys_ok_def)
  from 1 2 3 4 5 6 show ?thesis by (simp add: db_ok_def)
qed

lemma builders_ok_update:
  assumes "builders_ok B d" and "\<And>g. g \<in> set (db_generations d) \<Longrightarrow> g_id g = gid \<Longrightarrow> P g \<Longrightarrow> role_kept d f g"
  shows "builders_ok B (update_generation gid P f d)"
  using assms by (auto simp: builders_ok_def set_update_generation role_kept_def)

end
