(* ===== verification/GenerationSteps.thy ===== *)
theory GenerationSteps
  imports GenerationInvariants
begin

text \<open>
  Every transaction of \<open>Generations\<close>, \<open>GenerationErasure\<close> and \<open>GenerationBuild\<close> preserves the invariant of
  \<open>GenerationInvariants\<close>; the step relation that interleaves them, and its reachable states.
\<close>

section \<open>Steps that keep the invariant\<close>

definition step_ok :: "(pyval \<Rightarrow> string) \<Rightarrow> db \<Rightarrow> db \<Rightarrow> bool" where
  "step_ok sha d d' \<longleftrightarrow> (db_ok sha d \<longrightarrow> db_ok sha d' \<and> (\<forall>B. builders_ok B d \<longrightarrow> builders_ok B d'))"

lemma step_okI:
  "\<lbrakk>db_ok sha d \<Longrightarrow> db_ok sha d'; \<And>B. db_ok sha d \<Longrightarrow> builders_ok B d \<Longrightarrow> builders_ok B d'\<rbrakk> \<Longrightarrow> step_ok sha d d'"
  unfolding step_ok_def by blast

lemma step_ok_trans: "step_ok sha d e \<Longrightarrow> step_ok sha e f \<Longrightarrow> step_ok sha d f"
  unfolding step_ok_def by blast

lemma step_ok_same: "same_state d d' \<Longrightarrow> step_ok sha d d'"
  unfolding step_ok_def using db_ok_same builders_ok_same same_state_def by blast

lemma step_ok_refl [simp, intro]: "step_ok sha d d"
  by (rule step_ok_same) simp

section \<open>Creating, failing, abandoning\<close>

lemma ensure_tenant_fields [simp]:
  "db_generations (ensure_tenant_row d) = db_generations d"
  "db_chunks (ensure_tenant_row d) = db_chunks d"
  "db_tombstones (ensure_tenant_row d) = db_tombstones d"
  "db_calibrations (ensure_tenant_row d) = db_calibrations d"
  "db_mentions (ensure_tenant_row d) = db_mentions d"
  "db_evidence (ensure_tenant_row d) = db_evidence d"
  "db_query_sets (ensure_tenant_row d) = db_query_sets d"
  "db_audit (ensure_tenant_row d) = db_audit d"
  "tenant_active (ensure_tenant_row d) = tenant_active d"
  "tenant_previous (ensure_tenant_row d) = tenant_previous d"
  by (auto simp: ensure_tenant_row_def tenant_active_def tenant_previous_def lock_tenant_state_def nonempty_def
      split: option.splits)

lemma db_ok_ensure [simp]: "db_ok sha (ensure_tenant_row d) = db_ok sha d"
  by (simp add: db_ok_def db_ok_parts is_tombstoned_def tombstone_set_def)

lemma find_generation_ensure [simp]: "find_generation gid (ensure_tenant_row d) = find_generation gid d"
  by (simp add: find_generation_def)

lemma fingerprint_of_own_tombstones:
  "effective_corpus_fingerprint sha m (set (filter (\<lambda>u. u \<in> T) (manifest_uris m))) = effective_corpus_fingerprint sha m T"
proof -
  have "filter (\<lambda>u. u \<in> set (filter (\<lambda>u. u \<in> T) us)) us = filter (\<lambda>u. u \<in> T) us" for us :: "string list"
    by (rule filter_cong) auto
  then show ?thesis by (simp add: effective_corpus_fingerprint_def)
qed

lemma chosen_id_nonempty: "chosen_id given digits \<noteq> []"
  by (auto simp: chosen_id_def nonempty_def split: option.splits if_splits)

lemma db_ok_new_row:
  assumes ok: "db_ok (w_sha w) d" and new: "find_generation gid d = None" and gid: "gid \<noteq> []"
  shows "db_ok (w_sha w) (d\<lparr>db_generations := db_generations d @ [new_generation_row w gid m p d]\<rparr>)"
proof -
  let ?g = "new_generation_row w gid m p d"
  let ?d = "d\<lparr>db_generations := db_generations d @ [?g]\<rparr>"
  have row: "g_id ?g = gid" "g_state ?g = BUILDING" "g_manifest ?g = Some m"
    "g_corpus_fingerprint ?g = effective_corpus_fingerprint (w_sha w) m (tombstone_set d)"
    using fingerprint_of_own_tombstones [of "w_sha w" m "tombstone_set d"]
    by (simp_all add: new_generation_row_def is_tombstoned_iff)
  have fresh: "\<forall>g\<in>set (db_generations d). g_id g \<noteq> gid"
    using new by (auto simp: find_generation_def find_None_iff)
  have tenant: "tenant_active ?d = tenant_active d" "tenant_previous ?d = tenant_previous d"
    by (simp_all add: tenant_active_def tenant_previous_def lock_tenant_state_def)
  have 1: "ids_ok ?d" using ok fresh gid row by (auto simp: db_ok_def ids_ok_def)
  have "tenant_active d \<noteq> Some gid" using ok fresh by (auto simp: db_ok_def pointers_ok_def)
  then have 2: "pointers_ok ?d" using ok row unfolding db_ok_def pointers_ok_def tenant by auto
  have 3: "chunks_ok ?d" using ok by (auto simp: db_ok_def chunks_ok_def)
  have 4: "fingerprints_ok (w_sha w) ?d" using ok row by (auto simp: db_ok_def fingerprints_ok_def tombstone_set_def)
  have 5: "calibrations_ok ?d" using ok by (auto simp: db_ok_def calibrations_ok_def)
  have 6: "erasure_ok ?d" "graph_rows_ok ?d" "keys_ok ?d"
    using ok by (simp_all add: db_ok_def erasure_ok_def graph_rows_ok_def is_tombstoned_def keys_ok_def)
  from 1 2 3 4 5 6 show ?thesis by (simp add: db_ok_def)
qed

lemma create_effect:
  "create w mgr m p au given digits d = Inr d' \<Longrightarrow>
     find_generation (chosen_id given digits) d = None
     \<and> same_state (ensure_tenant_row (d\<lparr>db_generations := db_generations d @
          [new_generation_row w (chosen_id given digits) m p d]\<rparr>)) d'"
  by (auto simp: create_def Let_def split: if_splits)

lemma create_ok: assumes "create w mgr m p au given digits d = Inr d'" shows "step_ok (w_sha w) d d'"
proof (rule step_okI)
  note effect = create_effect [OF assms]
  then have same: "same_state (ensure_tenant_row (d\<lparr>db_generations := db_generations d @
      [new_generation_row w (chosen_id given digits) m p d]\<rparr>)) d'" by blast
  show "db_ok (w_sha w) d \<Longrightarrow> db_ok (w_sha w) d'"
    using db_ok_same [OF same] db_ok_new_row [OF _ conjunct1 [OF effect] chosen_id_nonempty] by simp
  show "\<And>B. builders_ok B d \<Longrightarrow> builders_ok B d'"
    using same by (auto simp: same_state_def builders_ok_def new_generation_row_def)
qed

text \<open>The generation that an operation names, by its row.\<close>

lemma named_row:
  "db_ok sha d \<Longrightarrow> find_generation gid d = Some g \<Longrightarrow> h \<in> set (db_generations d) \<Longrightarrow> g_id h = gid \<Longrightarrow> h = g"
  using generation_unique [of d h g] find_generation_some [of gid d g] by (simp add: db_ok_def)

lemma fail_effect: "fail w gid reason d = Inr d' \<Longrightarrow>
    \<exists>g. find_generation gid d = Some g \<and> g_state g \<in> {BUILDING, VALIDATING, FAILED}
      \<and> same_state (update_generation gid (\<lambda>_. True)
          (\<lambda>g. g\<lparr>g_state := FAILED, g_failure_reason := Some (take 2000 reason)\<rparr>) d) d'"
  unfolding fail_def by (auto split: if_splits) (metis generation_state.exhaust)+

lemma abandon_effect: "abandon w gid reason d = Inr d' \<Longrightarrow>
    \<exists>g. find_generation gid d = Some g \<and> g_state g = READY \<and> gid \<notin> protected_generations d
      \<and> same_state (update_generation gid (\<lambda>_. True)
          (\<lambda>g. g\<lparr>g_state := FAILED, g_failure_reason := Some (take 2000 reason)\<rparr>) d) d'"
  unfolding abandon_def by (auto split: if_splits)

lemma mark_validating_effect: "mark_validating w gid summary expected d = Inr d' \<Longrightarrow>
    \<exists>g. find_generation gid d = Some g \<and> g_state g = BUILDING
      \<and> same_state (update_generation gid (\<lambda>_. True)
          (\<lambda>g. g\<lparr>g_state := VALIDATING, g_validating_at := Some (w_now w), g_summary := Some summary\<rparr>) d) d'"
  unfolding mark_validating_def by (auto split: if_splits)

text \<open>A move of the named generation between states that neither serve nor can be rolled back to.\<close>

lemma move_kept:
  assumes ok: "db_ok sha d" and g: "find_generation gid d = Some g"
    and origin: "g_state g \<in> {BUILDING, VALIDATING, FAILED} \<or> (g_state g = READY \<and> tenant_previous d \<noteq> Some gid)"
    and f: "\<And>h. g_id (f h) = g_id h \<and> g_manifest (f h) = g_manifest h \<and> g_pipeline_fingerprint (f h) = g_pipeline_fingerprint h
        \<and> g_corpus_fingerprint (f h) = g_corpus_fingerprint h \<and> g_state (f h) \<in> {VALIDATING, FAILED, READY}"
    and h: "h \<in> set (db_generations d)" "g_id h = gid"
  shows "role_kept d f h"
proof -
  from named_row [OF ok g h] have hg: "h = g" .
  have "tenant_previous d \<noteq> Some gid"
    using origin previous_state [OF ok, of g] find_generation_some [OF g] by auto
  with hg origin f [of h] h(2) show ?thesis by (auto simp: role_kept_def)
qed

lemma move_ok:
  assumes g: "find_generation gid d = Some g"
    and origin: "g_state g \<in> {BUILDING, VALIDATING, FAILED} \<or> (g_state g = READY \<and> tenant_previous d \<noteq> Some gid)"
    and f: "\<And>h. g_id (f h) = g_id h \<and> g_manifest (f h) = g_manifest h \<and> g_pipeline_fingerprint (f h) = g_pipeline_fingerprint h
        \<and> g_corpus_fingerprint (f h) = g_corpus_fingerprint h \<and> g_state (f h) \<in> {VALIDATING, FAILED, READY}"
    and d': "same_state (update_generation gid (\<lambda>_. True) f d) d'"
  shows "step_ok sha d d'"
proof (rule step_okI)
  assume ok: "db_ok sha d"
  have kept: "\<And>h. h \<in> set (db_generations d) \<Longrightarrow> g_id h = gid \<Longrightarrow> True \<Longrightarrow> role_kept d f h"
    using move_kept [OF ok g origin f] by blast
  show "db_ok sha d'" using db_ok_update [OF ok kept] db_ok_same [OF d'] by blast
  fix B assume "builders_ok B d"
  then show "builders_ok B d'"
    using builders_ok_update [OF _ kept] builders_ok_same d' by (metis same_state_def)
qed

lemma fail_ok: assumes "fail w gid reason d = Inr d'" shows "step_ok sha d d'"
proof -
  from fail_effect [OF assms] obtain g where "find_generation gid d = Some g"
    "g_state g \<in> {BUILDING, VALIDATING, FAILED}"
    "same_state (update_generation gid (\<lambda>_. True)
       (\<lambda>g. g\<lparr>g_state := FAILED, g_failure_reason := Some (take 2000 reason)\<rparr>) d) d'" by blast
  from move_ok [OF this(1) disjI1 [OF this(2)] _ this(3)] show ?thesis by simp
qed

lemma abandon_ok: assumes "abandon w gid reason d = Inr d'" shows "step_ok sha d d'"
proof -
  from abandon_effect [OF assms] obtain g where g: "find_generation gid d = Some g"
    "g_state g = READY \<and> tenant_previous d \<noteq> Some gid"
    "same_state (update_generation gid (\<lambda>_. True)
       (\<lambda>g. g\<lparr>g_state := FAILED, g_failure_reason := Some (take 2000 reason)\<rparr>) d) d'"
    by (auto simp: protected_generations_iff)
  from move_ok [OF g(1) disjI2 [OF g(2)] _ g(3)] show ?thesis by simp
qed

lemma mark_validating_ok: assumes "mark_validating w gid summary expected d = Inr d'" shows "step_ok sha d d'"
proof -
  from mark_validating_effect [OF assms] obtain g where g: "find_generation gid d = Some g"
    "g_state g \<in> {BUILDING, VALIDATING, FAILED}"
    "same_state (update_generation gid (\<lambda>_. True)
       (\<lambda>g. g\<lparr>g_state := VALIDATING, g_validating_at := Some (w_now w), g_summary := Some summary\<rparr>) d) d'" by blast
  from move_ok [OF g(1) disjI1 [OF g(2)] _ g(3)] show ?thesis by simp
qed

section \<open>Writing and deleting chunks\<close>

lemma db_ok_more_chunks:
  assumes ok: "db_ok sha d"
    and rows: "\<And>c. c \<in> set rows \<Longrightarrow> c_generation c = gid \<and> \<not> is_tombstoned (c_source_uri c) d"
    and g: "find_generation gid d = Some g" "g_state g \<noteq> LEGACY_UNVERIFIED"
    and keys: "distinct (map c_chunk_id rows)"
      "\<forall>c\<in>set (db_chunks d). \<not> (c_generation c = gid \<and> c_chunk_id c \<in> set (map c_chunk_id rows))"
  shows "db_ok sha (d\<lparr>db_chunks := db_chunks d @ rows\<rparr>)"
proof -
  let ?d = "d\<lparr>db_chunks := db_chunks d @ rows\<rparr>"
  have tenant: "tenant_active ?d = tenant_active d" "tenant_previous ?d = tenant_previous d"
    using tenant_cong [of ?d d] by simp_all
  have 1: "ids_ok ?d" "pointers_ok ?d" "fingerprints_ok sha ?d" "calibrations_ok ?d"
    using ok tenant by (simp_all add: db_ok_def db_ok_parts tombstone_set_def)
  have 2: "chunks_ok ?d" using ok rows find_generation_some [OF g(1)] g(2)
    by (auto simp: db_ok_def chunks_ok_def)
  have 3: "erasure_ok ?d" using ok rows by (auto simp: db_ok_def erasure_ok_def is_tombstoned_def)
  have 4: "graph_rows_ok ?d" using ok unfolding db_ok_def graph_rows_ok_def by fastforce
  have "distinct (map (\<lambda>c. (c_generation c, c_chunk_id c)) rows)"
    using keys(1) rows by (auto simp: distinct_map inj_on_def)
  then have 5: "keys_ok ?d" using ok keys(2) rows by (auto simp: db_ok_def keys_ok_def)
  from 1 2 3 4 5 show ?thesis by (simp add: db_ok_def)
qed

lemma insert_chunks_ok:
  assumes ins: "insert_chunks gid rows d = Inr d'"
    and rows: "\<And>c. c \<in> set rows \<Longrightarrow> c_generation c = gid \<and> \<not> is_tombstoned (c_source_uri c) d"
    and B: "gid \<in> B" "builders_ok B d" and ok: "db_ok sha d"
  shows "db_ok sha d' \<and> db_generations d' = db_generations d"
proof (cases "rows = []")
  case False
  with ins obtain g where g: "find_generation gid d = Some g"
    and d': "d' = d\<lparr>db_chunks := db_chunks d @ rows\<rparr>"
    and keys: "distinct (map c_chunk_id rows)"
      "\<forall>c\<in>set (db_chunks d). \<not> (c_generation c = gid \<and> c_chunk_id c \<in> set (map c_chunk_id rows))"
    by (auto simp: insert_chunks_def split: if_splits)
  have "g_state g \<noteq> LEGACY_UNVERIFIED" using find_generation_some [OF g] B by (auto simp: builders_ok_def)
  with db_ok_more_chunks [OF ok rows g _ keys] d' show ?thesis by simp
qed (use ins ok in \<open>simp add: insert_chunks_def\<close>)

lemma reuse_transaction_ok:
  assumes "reuse_transaction w gid rq d = Inr (d', out)" "gid \<in> B" "builders_ok B d" "db_ok sha d"
  shows "db_ok sha d' \<and> builders_ok B d'"
proof (cases "is_tombstoned (rq_uri rq) d \<or> reuse_generation w rq d = None")
  case True
  then have "d' = d" using assms(1) by (cases "is_tombstoned (rq_uri rq) d") (auto simp: reuse_transaction_def reuse_source_def)
  then show ?thesis using assms by simp
next
  case False
  then obtain origin where "reuse_generation w rq d = Some origin" by auto
  with False assms(1) have "insert_chunks gid (map (copied_chunk w gid rq origin)
      (filter (\<lambda>c. c_generation c = origin \<and> c_source_uri c = rq_uri rq) (db_chunks d))) d = Inr d'"
    by (auto simp: reuse_transaction_def reuse_source_def Let_def)
  moreover have "\<And>c. c \<in> set (map (copied_chunk w gid rq origin)
      (filter (\<lambda>c. c_generation c = origin \<and> c_source_uri c = rq_uri rq) (db_chunks d))) \<Longrightarrow>
      c_generation c = gid \<and> \<not> is_tombstoned (c_source_uri c) d"
    using False by (auto simp: copied_chunk_def)
  ultimately have "db_ok sha d' \<and> db_generations d' = db_generations d"
    using insert_chunks_ok assms(2,3,4) by blast
  then show ?thesis using assms(3) builders_ok_same by blast
qed

lemma write_transaction_ok:
  assumes "write_transaction w gid entry chunks n d = Inr (d', out)" "gid \<in> B" "builders_ok B d" "db_ok sha d"
  shows "db_ok sha d' \<and> builders_ok B d'"
proof (cases "is_tombstoned (mo_uri entry) d")
  case True
  then show ?thesis using assms by (simp add: write_transaction_def)
next
  case False
  with assms(1) have "insert_chunks gid (map (written_chunk w gid entry d) chunks) d = Inr d'"
    by (auto simp: write_transaction_def write_source_def split: if_splits)
  moreover have "\<And>c. c \<in> set (map (written_chunk w gid entry d) chunks) \<Longrightarrow>
      c_generation c = gid \<and> \<not> is_tombstoned (c_source_uri c) d"
    using False by (auto simp: written_chunk_def)
  ultimately have "db_ok sha d' \<and> db_generations d' = db_generations d"
    using insert_chunks_ok assms(2,3,4) by blast
  then show ?thesis using assms(3) builders_ok_same by blast
qed

lemma delete_chunks_fields [simp]:
  "db_generations (delete_chunks P d) = db_generations d"
  "db_tenant (delete_chunks P d) = db_tenant d"
  "db_tombstones (delete_chunks P d) = db_tombstones d"
  "db_calibrations (delete_chunks P d) = db_calibrations d"
  "db_chunks (delete_chunks P d) = filter (\<lambda>c. \<not> P c) (db_chunks d)"
  by (simp_all add: delete_chunks_def Let_def)

lemma graph_ok_delete: "graph_rows_ok d \<Longrightarrow> graph_rows_ok (delete_chunks P d)"
  unfolding graph_rows_ok_def delete_chunks_def Let_def by fastforce

lemma delete_chunks_ok: "step_ok sha d (delete_chunks P d)"
proof (rule step_okI)
  assume ok: "db_ok sha d"
  let ?d = "delete_chunks P d"
  have tenant: "tenant_active ?d = tenant_active d" "tenant_previous ?d = tenant_previous d"
    using tenant_cong [of ?d d] by simp_all
  have "ids_ok ?d" "pointers_ok ?d" "fingerprints_ok sha ?d" "calibrations_ok ?d"
    using ok tenant by (simp_all add: db_ok_def db_ok_parts tombstone_set_def)
  moreover have "chunks_ok ?d" "erasure_ok ?d" "keys_ok ?d"
    using ok by (auto simp: db_ok_def chunks_ok_def erasure_ok_def is_tombstoned_def keys_ok_def distinct_map inj_on_def)
  moreover have "graph_rows_ok ?d" using ok graph_ok_delete by (simp add: db_ok_def)
  ultimately show "db_ok sha ?d" by (simp add: db_ok_def)
qed (simp add: builders_ok_def)

lemma take_back_ok: "step_ok sha d (take_back_transaction gid uris d)"
  unfolding take_back_transaction_def
proof (induction uris arbitrary: d)
  case (Cons u uris)
  show ?case using step_ok_trans [OF delete_chunks_ok Cons.IH] by simp
qed simp

section \<open>The graph tables\<close>

lemma write_semantic_graph_fields:
  "write_semantic_graph gid g d = Inr d' \<Longrightarrow> db_generations d' = db_generations d \<and> db_tenant d' = db_tenant d
     \<and> db_chunks d' = db_chunks d \<and> db_tombstones d' = db_tombstones d \<and> db_calibrations d' = db_calibrations d"
  by (auto simp: write_semantic_graph_def split: if_splits)

lemma graph_ok_write:
  assumes "graph_rows_ok d" "write_semantic_graph gid g d = Inr d'"
  shows "graph_rows_ok d'"
proof -
  from assms(2) have fit: "graph_rows_fit gid g d"
    and d': "db_chunks d' = db_chunks d"
      "db_mentions d' = filter (\<lambda>(x, _). x \<noteq> gid) (db_mentions d) @ map (\<lambda>(e, c). (gid, e, c)) (sg_mentions g)"
      "db_evidence d' = filter (\<lambda>(x, _). x \<noteq> gid) (db_evidence d) @ map (\<lambda>(r, c). (gid, r, c)) (sg_evidence g)"
    by (auto simp: write_semantic_graph_def split: if_splits)
  have m: "\<forall>(e, c)\<in>set (sg_mentions g). \<exists>k\<in>set (db_chunks d). c_generation k = gid \<and> c_chunk_id k = c"
    and e: "\<forall>(r, c)\<in>set (sg_evidence g). \<exists>k\<in>set (db_chunks d). c_generation k = gid \<and> c_chunk_id k = c"
    using fit by (fastforce simp: graph_rows_fit_def Let_def list_all_iff)+
  show ?thesis using assms(1) m e unfolding graph_rows_ok_def d' by fastforce
qed

lemma write_semantic_graph_ok: assumes "write_semantic_graph gid g d = Inr d'" shows "step_ok sha d d'"
proof (rule step_okI)
  note same = write_semantic_graph_fields [OF assms]
  assume ok: "db_ok sha d"
  have "tenant_active d' = tenant_active d" "tenant_previous d' = tenant_previous d"
    using tenant_cong [of d' d] same by simp_all
  with ok same graph_ok_write [OF _ assms] show "db_ok sha d'"
    by (simp add: db_ok_def ids_ok_def pointers_ok_def chunks_ok_def erasure_ok_def fingerprints_ok_def
        calibrations_ok_def keys_ok_def is_tombstoned_def tombstone_set_def)
qed (use write_semantic_graph_fields [OF assms] in \<open>simp add: builders_ok_def\<close>)

lemma build_graphs_ok: "build_graphs w gid fp d = Inr (d', graph, dep) \<Longrightarrow> step_ok sha d d'"
  by (auto simp: build_graphs_def Let_def intro: write_semantic_graph_ok)

lemma validate_graph_ok: "validate_graph w gid marker graph summary d = Inr (d', s) \<Longrightarrow> step_ok sha d d'"
  unfolding validate_graph_def Let_def
  by (auto split: if_splits intro: step_ok_trans [OF write_semantic_graph_ok step_ok_same])

lemma validate_graph_rows: "validate_graph w gid marker graph summary d = Inr (d', s) \<Longrightarrow>
    db_generations d' = db_generations d \<and> db_tenant d' = db_tenant d \<and> db_chunks d' = db_chunks d
     \<and> db_tombstones d' = db_tombstones d \<and> db_calibrations d' = db_calibrations d"
  unfolding validate_graph_def Let_def
  by (auto split: if_splits dest: write_semantic_graph_fields)

lemma find_generation_cong: "db_generations d' = db_generations d \<Longrightarrow> find_generation gid d' = find_generation gid d"
  by (simp add: find_generation_def)

lemma make_ready_ok:
  assumes "find_generation gid d = Some g" "g_state g = VALIDATING"
  shows "step_ok sha d (make_ready w gid summary counts d)"
proof -
  have "same_state (update_generation gid (\<lambda>_. True) (\<lambda>g. g\<lparr>g_state := READY, g_ready_at := Some (w_now w),
      g_summary := Some (summary\<lparr>bs_validated := Some counts\<rparr>)\<rparr>) d) (make_ready w gid summary counts d)"
    by (simp add: make_ready_def)
  from move_ok [OF assms(1) _ _ this] assms(2) show ?thesis by simp
qed

lemma validate_body_effect:
  assumes "validate_body w gid d = Inr (d', counts)"
  shows "\<exists>g m s marker graph d1 s1 dep. find_generation gid d = Some g \<and> g_state g = VALIDATING
     \<and> g_manifest g = Some m \<and> g_summary g = Some s \<and> check_sources (bs_indexed_sources s) gid d = Inr ()
     \<and> check_lineage m gid d = Inr () \<and> ready_marker s = Inr marker
     \<and> build_semantic_graph w (generation_chunks gid d) gid (g_pipeline_fingerprint g) (g_corpus_fingerprint g) = Inr graph
     \<and> validate_graph w gid marker graph s d = Inr (d1, s1)
     \<and> counts = (length (sources_of gid d), sum_list (map (\<lambda>(u, s, v, n). n) (source_groups gid d)))
     \<and> d' = make_ready w gid (s1\<lparr>bs_dependency_projection := dep\<rparr>) counts d1"
  using assms unfolding validate_body_def Let_def by (fastforce split: if_splits option.splits)

lemma validate_body_ok: assumes "validate_body w gid d = Inr (d', counts)" shows "step_ok sha d d'"
proof -
  from validate_body_effect [OF assms] obtain g s marker graph d1 s1 s2 where
    g: "find_generation gid d = Some g" "g_state g = VALIDATING"
    and v: "validate_graph w gid marker graph s d = Inr (d1, s1)"
    and d': "d' = make_ready w gid s2 counts d1" by blast
  have "find_generation gid d1 = Some g" using find_generation_cong validate_graph_rows [OF v] g(1) by metis
  from make_ready_ok [OF this g(2)] d' step_ok_trans [OF validate_graph_ok [OF v]] show ?thesis by blast
qed

lemma fail_and_raise_ok: "step_ok sha d (fst (fail_and_raise w gid e d))"
proof (cases "fail w gid (take 2000 (error_text e)) d")
  case (Inl e1)
  then have "fst (fail_and_raise w gid e d) = d" by (cases e; cases e1; simp add: fail_and_raise_def)
  then show ?thesis by simp
next
  case (Inr d1)
  then have "fst (fail_and_raise w gid e d) = d \<or> fst (fail_and_raise w gid e d) = d1"
    by (cases e; simp add: fail_and_raise_def)
  then show ?thesis using fail_ok [OF Inr] by auto
qed

lemma validate_ok: "step_ok sha d (fst (validate w gid d))"
proof (cases "validate_body w gid d")
  case (Inl e)
  then have "fst (validate w gid d) = fst (fail_and_raise w gid e d)"
    by (simp add: validate_def case_prod_beta Let_def)
  then show ?thesis by (simp add: fail_and_raise_ok)
next
  case (Inr p)
  obtain d1 counts where "p = (d1, counts)" by (cases p)
  with Inr validate_body_ok show ?thesis by (simp add: validate_def)
qed

lemma rebuild_graph_effect:
  assumes "rebuild_graph w gid d = Inr d'"
  shows "\<exists>graph d1 summary. write_semantic_graph gid graph d = Inr d1
     \<and> same_state (update_generation gid (\<lambda>_. True) (\<lambda>g. g\<lparr>g_summary := Some summary\<rparr>) d1) d'"
  using assms unfolding rebuild_graph_def Let_def by (fastforce split: if_splits)

lemma rebuild_graph_ok: assumes "rebuild_graph w gid d = Inr d'" shows "step_ok sha d d'"
proof -
  from rebuild_graph_effect [OF assms] obtain graph d1 summary where
    wr: "write_semantic_graph gid graph d = Inr d1"
    and d': "same_state (update_generation gid (\<lambda>_. True) (\<lambda>g. g\<lparr>g_summary := Some summary\<rparr>) d1) d'" by blast
  have kept: "\<And>sha h. db_ok sha d1 \<Longrightarrow> h \<in> set (db_generations d1) \<Longrightarrow> role_kept d1 (\<lambda>g. g\<lparr>g_summary := Some summary\<rparr>) h"
    using previous_state [of _ d1] by (fastforce simp: role_kept_def)
  have "step_ok sha d1 (update_generation gid (\<lambda>_. True) (\<lambda>g. g\<lparr>g_summary := Some summary\<rparr>) d1)"
    by (rule step_okI) (auto intro!: db_ok_update builders_ok_update kept)
  from step_ok_trans [OF write_semantic_graph_ok [OF wr] step_ok_trans [OF this step_ok_same [OF d']]] show ?thesis .
qed

end
