(* ===== verification/GenerationReach.thy ===== *)
theory GenerationReach
  imports GenerationSteps
begin

text \<open>
  The remaining transactions preserve the invariant: the calibrations, the two operations that switch the
  active generation, and the two that delete rows. Then the step relation and its reachable states.
\<close>

section \<open>Calibrations\<close>

lemma db_ok_calibrations:
  assumes "db_ok sha d" and "distinct (map cal_id cs)"
    and "\<And>c. c \<in> set cs \<Longrightarrow> cal_lifecycle c = PUBLISHED \<Longrightarrow> cal_certified c \<and> (\<exists>g\<in>set (db_generations d). bound_to c g)"
    and d': "same_state (d\<lparr>db_calibrations := cs\<rparr>) d'"
  shows "db_ok sha d'"
proof -
  let ?d = "d\<lparr>db_calibrations := cs\<rparr>"
  have "tenant_active ?d = tenant_active d" "tenant_previous ?d = tenant_previous d"
    using tenant_cong [of ?d d] by simp_all
  moreover have "calibrations_ok ?d" using assms(2,3) by (simp add: calibrations_ok_def)
  ultimately have "db_ok sha ?d" using assms(1)
    by (simp add: db_ok_def ids_ok_def pointers_ok_def chunks_ok_def erasure_ok_def fingerprints_ok_def
        graph_rows_ok_def keys_ok_def is_tombstoned_def tombstone_set_def)
  then show ?thesis using db_ok_same [OF d'] by simp
qed

lemma store_calibration_effect:
  assumes "store_calibration w queries c d = Inr d'"
  shows "\<exists>row. cal_lifecycle row \<noteq> PUBLISHED \<and> cal_id row \<notin> set (map cal_id (db_calibrations d))
     \<and> same_state (d\<lparr>db_calibrations := db_calibrations d @ [row]\<rparr>) d'"
proof -
  let ?row = "c\<lparr>cal_lifecycle := if cal_certified c then DRAFT else REJECTED\<rparr>"
  have "same_state (d\<lparr>db_calibrations := db_calibrations d @ [?row]\<rparr>) d'" "cal_id c \<notin> set (map cal_id (db_calibrations d))"
    using assms by (auto simp: store_calibration_def same_state_def Let_def split: if_splits option.splits)
  then show ?thesis by (intro exI [of _ ?row]) simp
qed

lemma store_calibration_ok: assumes "store_calibration w queries c d = Inr d'" shows "step_ok sha d d'"
proof -
  from store_calibration_effect [OF assms] obtain row where row: "cal_lifecycle row \<noteq> PUBLISHED"
    "cal_id row \<notin> set (map cal_id (db_calibrations d))"
    and d': "same_state (d\<lparr>db_calibrations := db_calibrations d @ [row]\<rparr>) d'" by blast
  show ?thesis
  proof (rule step_okI)
    assume ok: "db_ok sha d"
    then have "distinct (map cal_id (db_calibrations d @ [row]))" using row(2) by (simp add: db_ok_def calibrations_ok_def)
    from db_ok_calibrations [OF ok this _ d'] show "db_ok sha d'"
      using ok row(1) by (auto simp: db_ok_def calibrations_ok_def)
  qed (use d' in \<open>simp add: builders_ok_def same_state_def\<close>)
qed

definition superseded_rows :: "string \<Rightarrow> string list \<Rightarrow> calibration_row list \<Rightarrow> calibration_row list" where
  "superseded_rows new_id olds cs =
     map (\<lambda>c. if cal_id c \<in> set olds \<and> cal_id c \<noteq> new_id then c\<lparr>cal_lifecycle := SUPERSEDED\<rparr> else c) cs"

lemma fold_supersede:
  "same_state (d\<lparr>db_calibrations := superseded_rows new_id olds (db_calibrations d)\<rparr>)
     (fold (supersede_calibration w new_id gid) olds d)"
proof (induction olds arbitrary: d)
  case Nil
  show ?case by (simp add: superseded_rows_def same_state_def)
next
  case (Cons x olds)
  let ?e = "supersede_calibration w new_id gid x d"
  have e: "same_state (d\<lparr>db_calibrations := superseded_rows new_id [x] (db_calibrations d)\<rparr>) ?e"
    by (auto simp: supersede_calibration_def superseded_rows_def same_state_def)
  have "superseded_rows new_id olds (superseded_rows new_id [x] cs) = superseded_rows new_id (x # olds) cs" for cs
    by (auto simp: superseded_rows_def)
  then show ?case using e Cons.IH [of ?e] by (simp add: same_state_def)
qed

definition published_rows :: "string \<Rightarrow> calibration_row list \<Rightarrow> calibration_row list" where
  "published_rows cid cs = map (\<lambda>c. if cal_id c = cid \<and> cal_lifecycle c \<in> {DRAFT, PUBLISHED, SUPERSEDED}
     then c\<lparr>cal_lifecycle := PUBLISHED\<rparr> else c) cs"

lemma publish_effect:
  assumes "publish w cid d = Inr d'"
  shows "\<exists>a g. find_calibration cid d = Some a \<and> cal_certified a \<and> cal_generation a = Some (g_id g)
     \<and> find_generation (g_id g) d = Some g \<and> g_state g \<in> readable_generation_states \<and> bound_to a g
     \<and> same_state (d\<lparr>db_calibrations := published_rows cid
          (superseded_rows cid (map cal_id (published_of (g_id g) d)) (db_calibrations d))\<rparr>) d'"
proof -
  from assms obtain a gid g where a: "find_calibration cid d = Some a" "cal_certified a" "cal_generation a = Some gid"
    and g: "find_generation gid d = Some g" "g_state g \<in> readable_generation_states"
      "(g_pipeline_fingerprint g, g_corpus_fingerprint g) = (cal_pipeline_fingerprint a, cal_corpus_fingerprint a)"
    and d': "same_state ((fold (supersede_calibration w cid gid) (map cal_id (published_of gid d)) d)
        \<lparr>db_calibrations := published_rows cid
          (db_calibrations (fold (supersede_calibration w cid gid) (map cal_id (published_of gid d)) d))\<rparr>) d'"
    by (auto simp: publish_def calibration_lineage_def published_rows_def Let_def split: option.splits if_splits)
  have id: "g_id g = gid" using find_generation_some [OF g(1)] by simp
  have "bound_to a g" using a(3) g(2,3) id by (auto simp: bound_to_def readable_generation_states_def)
  moreover have "same_state (d\<lparr>db_calibrations := published_rows cid
          (superseded_rows cid (map cal_id (published_of gid d)) (db_calibrations d))\<rparr>) d'"
    using d' fold_supersede [where olds = "map cal_id (published_of gid d)" and d = d and new_id = cid and w = w and gid = gid]
    by (simp add: same_state_def)
  ultimately show ?thesis using a g id by auto
qed

lemma map_cal_id_rows [simp]:
  "map cal_id (superseded_rows cid olds cs) = map cal_id cs" "map cal_id (published_rows cid cs) = map cal_id cs"
  by (auto simp: superseded_rows_def published_rows_def)

lemma publish_ok: assumes "publish w cid d = Inr d'" shows "step_ok sha d d'"
proof -
  from publish_effect [OF assms] obtain a g where a: "find_calibration cid d = Some a" "cal_certified a"
    and g: "find_generation (g_id g) d = Some g" "bound_to a g"
    and d': "same_state (d\<lparr>db_calibrations := published_rows cid
          (superseded_rows cid (map cal_id (published_of (g_id g) d)) (db_calibrations d))\<rparr>) d'" by blast
  let ?cs = "published_rows cid (superseded_rows cid (map cal_id (published_of (g_id g) d)) (db_calibrations d))"
  have a_in: "a \<in> set (db_calibrations d)" "cal_id a = cid"
    using a(1) by (auto simp: find_calibration_def find_Some_iff in_set_conv_nth)
  show ?thesis
  proof (rule step_okI)
    assume ok: "db_ok sha d"
    then have "distinct (map cal_id ?cs)" by (simp add: db_ok_def calibrations_ok_def)
    moreover have "cal_certified c \<and> (\<exists>g\<in>set (db_generations d). bound_to c g)"
      if c: "c \<in> set ?cs" "cal_lifecycle c = PUBLISHED" for c
    proof -
      from c obtain c0 where c0: "c0 \<in> set (db_calibrations d)" "cal_id c = cal_id c0" "cal_certified c = cal_certified c0"
        "\<forall>g. bound_to c g = bound_to c0 g" "cal_id c0 = cid \<or> cal_lifecycle c0 = PUBLISHED"
        by (auto simp: published_rows_def superseded_rows_def bound_to_def split: if_splits)
      show ?thesis
      proof (cases "cal_id c0 = cid")
        case True
        then have "c0 = a" using ok c0(1) a_in by (auto simp: db_ok_def calibrations_ok_def distinct_map inj_on_def)
        then show ?thesis using c0 a(2) g find_generation_some [OF g(1)] by auto
      next
        case False
        then show ?thesis using ok c0 by (auto simp: db_ok_def calibrations_ok_def)
      qed
    qed
    ultimately show "db_ok sha d'" using db_ok_calibrations [OF ok _ _ d'] by blast
  qed (use d' in \<open>simp add: builders_ok_def same_state_def\<close>)
qed

section \<open>Rows mapped one by one\<close>

text \<open>
  A change of all generation rows that keeps what identifies them. The pointers of the result are judged by
  themselves, and so are its calibrations and fingerprints.
\<close>

definition row_kept :: "(generation_row \<Rightarrow> generation_row) \<Rightarrow> generation_row \<Rightarrow> bool" where
  "row_kept u g \<longleftrightarrow> g_id (u g) = g_id g \<and> g_manifest (u g) = g_manifest g
     \<and> g_pipeline_fingerprint (u g) = g_pipeline_fingerprint g
     \<and> (g_state (u g) = LEGACY_UNVERIFIED \<longleftrightarrow> g_state g = LEGACY_UNVERIFIED)"

lemma mapped_rows:
  assumes "db_ok sha d" "db_generations d' = map u (db_generations d)"
    "\<And>g. g \<in> set (db_generations d) \<Longrightarrow> row_kept u g" "set (db_chunks d') \<subseteq> set (db_chunks d)"
  shows "ids_ok d'" "chunks_ok d'" "builders_ok B d \<Longrightarrow> builders_ok B d'"
proof -
  have "map g_id (db_generations d') = map g_id (db_generations d)"
    using assms(2,3) by (auto simp: row_kept_def)
  then show "ids_ok d'" using assms(1) unfolding db_ok_def ids_ok_def by metis
  have "\<forall>g\<in>set (db_generations d). u g \<in> set (db_generations d')" using assms(2) by simp
  then show "chunks_ok d'" using assms(1,3,4) unfolding db_ok_def chunks_ok_def row_kept_def by (metis subsetD)
  show "builders_ok B d \<Longrightarrow> builders_ok B d'"
    using assms(2,3) unfolding builders_ok_def row_kept_def by auto
qed

section \<open>Switching the active generation\<close>

definition switched :: "world \<Rightarrow> string \<Rightarrow> string option \<Rightarrow> generation_state \<Rightarrow> instant option \<Rightarrow> generation_row \<Rightarrow> generation_row" where
  "switched w gid active s retired g =
     (if g_id g = gid then g\<lparr>g_state := ACTIVE, g_activated_at := Some (w_now w), g_retired_at := None\<rparr>
      else if active = Some (g_id g) then g\<lparr>g_state := s, g_retired_at := retired\<rparr>
      else g)"

lemma deactivate_rows:
  assumes "db_ok sha d" "tenant_active d = active"
  shows "db_generations (deactivate active s r d) =
     map (\<lambda>g. if active = Some (g_id g) then g\<lparr>g_state := s, g_retired_at := r\<rparr> else g) (db_generations d)"
  using assms by (auto simp: deactivate_def update_generation_def db_ok_def pointers_ok_def split: option.splits)

lemma deactivate_same [simp]:
  "db_tenant (deactivate a s r d) = db_tenant d" "db_chunks (deactivate a s r d) = db_chunks d"
  "db_tombstones (deactivate a s r d) = db_tombstones d" "db_calibrations (deactivate a s r d) = db_calibrations d"
  "db_mentions (deactivate a s r d) = db_mentions d" "db_evidence (deactivate a s r d) = db_evidence d"
  by (simp_all add: deactivate_def split: option.splits)

lemma activate_effect:
  assumes ok: "db_ok sha d" and active: "tenant_active d = active" and s: "s \<noteq> ACTIVE"
    and gid: "active \<noteq> Some gid"
  shows "\<exists>d3. activate_generation w gid (deactivate active s r d) = Inr d3
     \<and> db_generations d3 = map (switched w gid active s r) (db_generations d)
     \<and> db_tenant d3 = db_tenant d \<and> db_chunks d3 = db_chunks d \<and> db_tombstones d3 = db_tombstones d
     \<and> db_calibrations d3 = db_calibrations d \<and> db_mentions d3 = db_mentions d \<and> db_evidence d3 = db_evidence d"
proof -
  have "\<forall>g\<in>set (db_generations (deactivate active s r d)). g_state g \<noteq> ACTIVE \<or> g_id g = gid"
    using ok active s unfolding deactivate_rows [OF ok active] db_ok_def pointers_ok_def by auto
  then have go: "activate_generation w gid (deactivate active s r d) = Inr (update_generation gid (\<lambda>_. True)
      (\<lambda>g. g\<lparr>g_state := ACTIVE, g_activated_at := Some (w_now w), g_retired_at := None\<rparr>) (deactivate active s r d))"
    unfolding activate_generation_def by (simp add: Bex_def)
  have "db_generations (update_generation gid (\<lambda>_. True)
      (\<lambda>g. g\<lparr>g_state := ACTIVE, g_activated_at := Some (w_now w), g_retired_at := None\<rparr>) (deactivate active s r d))
      = map (switched w gid active s r) (db_generations d)"
    using gid by (auto simp: update_generation_def deactivate_rows [OF ok active] switched_def)
  with go show ?thesis by simp
qed

lemma switch_ok:
  assumes ok: "db_ok sha d" and active: "tenant_active d = active"
    and g: "find_generation gid d = Some g" "g_state g \<in> {READY, RETIRED}" and s: "s \<in> {READY, RETIRED}"
    and act: "activate_generation w gid (deactivate active s r d) = Inr d3"
    and d': "same_state (d3\<lparr>db_tenant := Some (Some gid, active)\<rparr>) d'"
  shows "db_ok sha d'" "builders_ok B d \<Longrightarrow> builders_ok B d'" "tenant_active d' = Some gid" "tenant_previous d' = active"
    "db_generations d' = map (switched w gid active s r) (db_generations d)"
proof -
  let ?u = "switched w gid active s r"
  note g_in = find_generation_some [OF g(1)]
  have ne: "active \<noteq> Some gid" using ok active g(2) g_in by (auto simp: db_ok_def pointers_ok_def)
  have rows: "db_generations d' = map ?u (db_generations d)"
    and rest: "db_tenant d' = Some (Some gid, active)" "db_chunks d' = db_chunks d" "db_tombstones d' = db_tombstones d"
      "db_calibrations d' = db_calibrations d" "db_mentions d' = db_mentions d" "db_evidence d' = db_evidence d"
    using activate_effect [OF ok active _ ne, of s w r] s act d' by (auto simp: same_state_def)
  have kept: "\<And>h. h \<in> set (db_generations d) \<Longrightarrow> row_kept ?u h \<and> g_corpus_fingerprint (?u h) = g_corpus_fingerprint h"
    using named_row [OF ok g(1)] g(2) s ok active by (auto simp: row_kept_def switched_def db_ok_def pointers_ok_def)
  have kept': "\<And>h. h \<in> set (db_generations d) \<Longrightarrow> row_kept ?u h" using kept by blast
  have sub: "set (db_chunks d') \<subseteq> set (db_chunks d)" using rest(2) by simp
  show "builders_ok B d \<Longrightarrow> builders_ok B d'" by (rule mapped_rows(3) [OF ok rows kept' sub])
  have "gid \<noteq> []" using ok g_in unfolding db_ok_def ids_ok_def by (metis image_eqI list.set_map)
  then show ta: "tenant_active d' = Some gid" and tp: "tenant_previous d' = active"
    using rest(1) active by (auto simp: tenant_active_def tenant_previous_def lock_tenant_state_def nonempty_def
        split: option.splits if_splits)
  show "db_generations d' = map ?u (db_generations d)" by (rule rows)
  have st: "\<And>h. h \<in> set (db_generations d) \<Longrightarrow> g_state (?u h) = ACTIVE \<longleftrightarrow> g_id h = gid"
    using ok active s by (auto simp: switched_def db_ok_def pointers_ok_def)
  have a: "\<forall>h\<in>set (db_generations d'). g_state h = ACTIVE \<longleftrightarrow> tenant_active d' = Some (g_id h)"
    using st kept unfolding rows ta row_kept_def by auto
  have b: "\<exists>h\<in>set (db_generations d'). g_id h = gid"
    using g_in kept [of g] unfolding rows row_kept_def by auto
  have c: "\<exists>h\<in>set (db_generations d'). g_id h = p \<and> g_state h \<in> {READY, RETIRED}" if "active = Some p" for p
  proof -
    from that active ok obtain h where "h \<in> set (db_generations d)" "g_id h = p" by (auto simp: db_ok_def pointers_ok_def)
    moreover from this that ne s have "g_id (?u h) = p \<and> g_state (?u h) \<in> {READY, RETIRED}" by (auto simp: switched_def)
    ultimately show ?thesis unfolding rows by (metis image_eqI list.set_map)
  qed
  have "pointers_ok d'" using a b c unfolding pointers_ok_def ta tp by auto
  moreover have "fingerprints_ok sha d'" using ok kept rest(3)
    unfolding db_ok_def fingerprints_ok_def rows row_kept_def by (auto simp: tombstone_set_def)
  moreover have "calibrations_ok d'" using ok kept
    unfolding db_ok_def calibrations_ok_def rows rest(4) row_kept_def bound_to_def by (metis image_eqI list.set_map)
  moreover have "erasure_ok d'" "graph_rows_ok d'" "keys_ok d'"
    using ok rest by (simp_all add: db_ok_def erasure_ok_def graph_rows_ok_def keys_ok_def is_tombstoned_def)
  ultimately show "db_ok sha d'" using mapped_rows(1,2) [OF ok rows kept' sub] by (simp add: db_ok_def)
qed

lemma record_omitted_same: "same_state d (fst (record_omitted_supersession w outgoing incoming d))"
  by (auto simp: record_omitted_supersession_def Let_def split: option.splits)

lemma promote_effect:
  assumes "promote_generation w mgr gid unsafe d = Inr (d', n)"
  shows "\<exists>g d1 d3. promotion_mode mgr unsafe = Inr () \<and> find_generation gid d = Some g \<and> g_state g = READY
     \<and> (certification_required mgr \<longrightarrow> require_certified_for_production w gid (ensure_tenant_row d) = Inr ())
     \<and> same_state (ensure_tenant_row d) d1
     \<and> activate_generation w gid (deactivate (tenant_active d) RETIRED (Some (w_now w)) d1) = Inr d3
     \<and> same_state (d3\<lparr>db_tenant := Some (Some gid, tenant_active d)\<rparr>) d'"
proof -
  obtain d1 k where r: "record_omitted_supersession w (tenant_active d) gid (ensure_tenant_row d) = (d1, k)"
    by (cases "record_omitted_supersession w (tenant_active d) gid (ensure_tenant_row d)")
  have same: "same_state (ensure_tenant_row d) d1" using record_omitted_same [of "ensure_tenant_row d" w] r by (metis fst_conv)
  from assms r obtain g d3 where "promotion_mode mgr unsafe = Inr ()" "find_generation gid d = Some g" "g_state g = READY"
    "certification_required mgr \<longrightarrow> require_certified_for_production w gid (ensure_tenant_row d) = Inr ()"
    "activate_generation w gid (deactivate (tenant_active d) RETIRED (Some (w_now w)) d1) = Inr d3"
    "same_state (d3\<lparr>db_tenant := Some (Some gid, tenant_active d)\<rparr>) d'"
    unfolding promote_generation_def Let_def by (auto split: if_splits prod.splits)
  with same show ?thesis by blast
qed

lemma promote_switches:
  assumes ok: "db_ok sha d" and p: "promote_generation w mgr gid unsafe d = Inr (d', n)"
  shows "db_ok sha d'" "builders_ok B d \<Longrightarrow> builders_ok B d'" "tenant_active d' = Some gid"
    "tenant_previous d' = tenant_active d"
    "db_generations d' = map (switched w gid (tenant_active d) RETIRED (Some (w_now w))) (db_generations d)"
proof -
  from promote_effect [OF p] obtain g d1 d3 where g: "find_generation gid d = Some g" "g_state g = READY"
    and d1: "same_state (ensure_tenant_row d) d1"
    and d3: "activate_generation w gid (deactivate (tenant_active d) RETIRED (Some (w_now w)) d1) = Inr d3"
    and d': "same_state (d3\<lparr>db_tenant := Some (Some gid, tenant_active d)\<rparr>) d'" by blast
  have gens: "db_generations d1 = db_generations d" using d1 by (simp add: same_state_def)
  have ok1: "db_ok sha d1" using ok db_ok_same [OF d1] by simp
  have ta: "tenant_active d1 = tenant_active d" using d1 tenant_cong [of d1 "ensure_tenant_row d"] by (simp add: same_state_def)
  have g1: "find_generation gid d1 = Some g" using find_generation_cong [OF gens] g(1) by simp
  have st: "g_state g \<in> {READY, RETIRED}" "RETIRED \<in> {READY, RETIRED}" using g(2) by simp_all
  note sw = switch_ok [OF ok1 ta g1 st d3 d']
  show "db_ok sha d'" "tenant_active d' = Some gid" "tenant_previous d' = tenant_active d"
    "db_generations d' = map (switched w gid (tenant_active d) RETIRED (Some (w_now w))) (db_generations d)"
    using sw(1,3,4,5) gens by simp_all
  show "builders_ok B d \<Longrightarrow> builders_ok B d'" using sw(2) builders_ok_same [OF gens] by simp
qed

lemma rollback_effect:
  assumes "rollback w reason d = Inr (d', p)"
  shows "\<exists>g d2. tenant_previous d = Some p \<and> find_generation p d = Some g \<and> g_state g \<in> {READY, RETIRED}
     \<and> activate_generation w p (deactivate (tenant_active d) READY None d) = Inr d2
     \<and> same_state (d2\<lparr>db_tenant := Some (Some p, tenant_active d)\<rparr>) d'"
  using assms unfolding rollback_def Let_def by (auto split: option.splits if_splits)

lemma rollback_switches:
  assumes ok: "db_ok sha d" and r: "rollback w reason d = Inr (d', p)"
  shows "db_ok sha d'" "builders_ok B d \<Longrightarrow> builders_ok B d'" "tenant_active d' = Some p"
    "tenant_previous d' = tenant_active d"
    "db_generations d' = map (switched w p (tenant_active d) READY None) (db_generations d)"
proof -
  from rollback_effect [OF r] obtain g d2 where g: "find_generation p d = Some g" "g_state g \<in> {READY, RETIRED}"
    and d2: "activate_generation w p (deactivate (tenant_active d) READY None d) = Inr d2"
    and d': "same_state (d2\<lparr>db_tenant := Some (Some p, tenant_active d)\<rparr>) d'" by blast
  have s: "READY \<in> {READY, RETIRED}" by simp
  note sw = switch_ok [OF ok refl g s d2 d']
  show "db_ok sha d'" "tenant_active d' = Some p" "tenant_previous d' = tenant_active d"
    "db_generations d' = map (switched w p (tenant_active d) READY None) (db_generations d)"
    using sw(1,3,4,5) by simp_all
  show "builders_ok B d \<Longrightarrow> builders_ok B d'" by (rule sw(2))
qed

lemma promote_ok: "promote_generation w mgr gid unsafe d = Inr (d', n) \<Longrightarrow> step_ok sha d d'"
  by (rule step_okI) (auto dest: promote_switches)

lemma rollback_ok: "rollback w reason d = Inr (d', p) \<Longrightarrow> step_ok sha d d'"
  by (rule step_okI) (auto dest: rollback_switches)

section \<open>Collecting generations\<close>

lemma gc_select_spared:
  "gid \<in> set (gc_select protected retain cutoff kept gs) \<Longrightarrow>
     gid \<notin> protected \<and> (\<exists>g\<in>set gs. g_id g = gid \<and> generation_age g < cutoff)"
  by (induction protected retain cutoff kept gs rule: gc_select.induct) (auto split: if_splits)

lemma scrub_same [simp, intro]: "same_state d (scrub_sparse_rows ids d)"
  by (simp add: scrub_sparse_rows_def same_state_def split: option.splits)

lemma delete_generations_ok:
  assumes "gids \<inter> protected_generations d = {}"
  shows "step_ok sha d (delete_generations gids d)"
proof (rule step_okI)
  let ?d = "delete_generations gids d"
  assume ok: "db_ok sha d"
  have tenant: "tenant_active ?d = tenant_active d" "tenant_previous ?d = tenant_previous d"
    using tenant_cong [of ?d d] by (simp_all add: delete_generations_def)
  have spared: "\<And>x. tenant_active d = Some x \<or> tenant_previous d = Some x \<Longrightarrow> x \<notin> gids"
    using assms protected_generations_iff by blast
  have rows: "set (db_generations ?d) = {g \<in> set (db_generations d). g_id g \<notin> gids}"
    by (auto simp: delete_generations_def)
  have 1: "ids_ok ?d" using ok unfolding db_ok_def ids_ok_def delete_generations_def
    by (auto simp: distinct_map inj_on_def)
  have 2: "pointers_ok ?d" using ok spared unfolding db_ok_def pointers_ok_def tenant rows by fastforce
  have 3: "chunks_ok ?d" using ok rows unfolding db_ok_def chunks_ok_def by (fastforce simp: delete_generations_def)
  have 4: "erasure_ok ?d" "keys_ok ?d" "fingerprints_ok sha ?d"
    using ok rows by (auto simp: db_ok_def erasure_ok_def keys_ok_def fingerprints_ok_def delete_generations_def
        is_tombstoned_def tombstone_set_def distinct_map inj_on_def)
  have "\<exists>g\<in>set (db_generations ?d). bound_to c g" if "bound_to c g" "g \<in> set (db_generations d)"
    "case cal_generation c of None \<Rightarrow> True | Some g \<Rightarrow> g \<notin> gids" for c g
    using that rows by (auto simp: bound_to_def)
  then have 5: "calibrations_ok ?d" using ok unfolding db_ok_def calibrations_ok_def
    by (auto simp: delete_generations_def distinct_map inj_on_def)
  have 6: "graph_rows_ok ?d" using ok unfolding db_ok_def graph_rows_ok_def by (fastforce simp: delete_generations_def)
  from 1 2 3 4 5 6 show "db_ok sha ?d" by (simp add: db_ok_def)
qed (auto simp: builders_ok_def delete_generations_def)

lemma gc_effect:
  assumes "gc w now days retain d = Inr (d', doomed)"
  shows "doomed = gc_select (protected_generations d) retain
       ((case now of None \<Rightarrow> w_now w | Some t \<Rightarrow> t) - days * day_length)
       (if tenant_previous d = None then 0 else 1) (collectable_rows d)"
    "doomed = [] \<and> d' = d \<or> same_state (delete_generations (set doomed) d) d'"
proof -
  show doomed: "doomed = gc_select (protected_generations d) retain
       ((case now of None \<Rightarrow> w_now w | Some t \<Rightarrow> t) - days * day_length)
       (if tenant_previous d = None then 0 else 1) (collectable_rows d)"
    using assms by (auto simp: gc_def Let_def split: if_splits)
  show "doomed = [] \<and> d' = d \<or> same_state (delete_generations (set doomed) d) d'"
    using assms same_state_trans [OF scrub_same same_state_audit]
    unfolding gc_def Let_def doomed [symmetric] by (auto split: if_splits)
qed

lemma gc_ok: assumes "gc w now days retain d = Inr (d', doomed)" shows "step_ok sha d d'"
proof -
  have "set doomed \<inter> protected_generations d = {}" using gc_effect(1) [OF assms] gc_select_spared by blast
  then show ?thesis using gc_effect(2) [OF assms] step_ok_trans [OF delete_generations_ok step_ok_same] by blast
qed


section \<open>Forgetting a source\<close>

text \<open>The row of a generation after the loop over the manifests, and a calibration after it.\<close>

definition refreshed :: "world \<Rightarrow> string set \<Rightarrow> (string \<times> index_manifest \<times> string) list \<Rightarrow> generation_row \<Rightarrow> generation_row" where
  "refreshed w T items g = (case map_of items (g_id g) of
     None \<Rightarrow> g | Some (m, previous) \<Rightarrow> g\<lparr>g_corpus_fingerprint := effective_corpus_fingerprint (w_sha w) m T\<rparr>)"

definition outdated :: "world \<Rightarrow> string set \<Rightarrow> (string \<times> index_manifest \<times> string) list \<Rightarrow> calibration_row \<Rightarrow> bool" where
  "outdated w T items c \<longleftrightarrow> cal_lifecycle c = PUBLISHED \<and> (\<exists>(gid, m, previous)\<in>set items.
     cal_generation c = Some gid \<and> effective_corpus_fingerprint (w_sha w) m T \<noteq> previous)"

definition invalidated :: "world \<Rightarrow> string set \<Rightarrow> (string \<times> index_manifest \<times> string) list \<Rightarrow> calibration_row \<Rightarrow> calibration_row" where
  "invalidated w T items c = (if outdated w T items c then c\<lparr>cal_lifecycle := SUPERSEDED\<rparr> else c)"

lemma refingerprint_effect:
  "same_state (d\<lparr>db_generations := map (refreshed w T [item]) (db_generations d),
                 db_calibrations := map (invalidated w T [item]) (db_calibrations d)\<rparr>) (refingerprint w T item d)"
proof -
  obtain gid m previous where item: "item = (gid, m, previous)" by (cases item)
  let ?fp = "effective_corpus_fingerprint (w_sha w) m T"
  have rows: "map (refreshed w T [item]) (db_generations d)
      = map (\<lambda>g. if g_id g = gid \<and> True then g\<lparr>g_corpus_fingerprint := ?fp\<rparr> else g) (db_generations d)"
    by (auto simp: refreshed_def item)
  have cals: "map (invalidated w T [item]) (db_calibrations d) = (if ?fp = previous then db_calibrations d
      else map (\<lambda>c. if cal_generation c = Some gid \<and> cal_lifecycle c = PUBLISHED
        then c\<lparr>cal_lifecycle := SUPERSEDED\<rparr> else c) (db_calibrations d))"
    by (auto simp: invalidated_def outdated_def item map_idI)
  show ?thesis
  proof (cases "?fp = previous")
    case True
    then show ?thesis unfolding rows cals by (simp add: refingerprint_def item Let_def same_state_def update_generation_def)
  next
    case False
    then show ?thesis unfolding rows cals unfolding refingerprint_def item Let_def
      by (simp add: update_generation_def) (rule same_state_trans [OF _ same_state_fold_audit], simp add: same_state_def)
  qed
qed

lemma fold_refingerprint:
  "distinct (map fst items) \<Longrightarrow>
   same_state (d\<lparr>db_generations := map (refreshed w T items) (db_generations d),
                 db_calibrations := map (invalidated w T items) (db_calibrations d)\<rparr>)
     (fold (refingerprint w T) items d)"
proof (induction items arbitrary: d)
  case Nil
  have "refreshed w T [] = (\<lambda>g. g)" "invalidated w T [] = (\<lambda>c. c)"
    by (auto simp: fun_eq_iff refreshed_def invalidated_def outdated_def)
  then show ?case by (simp add: same_state_def)
next
  case (Cons item items)
  obtain gid m previous where item: "item = (gid, m, previous)" by (cases item)
  have notin: "map_of items gid = None" using Cons.prems by (simp add: item map_of_eq_None_iff)
  have r: "refreshed w T items (refreshed w T [item] g) = refreshed w T (item # items) g" for g
    using notin by (auto simp: refreshed_def item split: option.splits)
  have i: "invalidated w T items (invalidated w T [item] c) = invalidated w T (item # items) c" for c
    by (auto simp: invalidated_def outdated_def item)
  let ?e = "refingerprint w T item d"
  note e = refingerprint_effect [where d = d and w = w and T = T and item = item]
  have "same_state (?e\<lparr>db_generations := map (refreshed w T items) (db_generations ?e),
      db_calibrations := map (invalidated w T items) (db_calibrations ?e)\<rparr>) (fold (refingerprint w T) items ?e)"
    using Cons by simp
  then show ?case using e by (simp add: same_state_def r i comp_def)
qed


lemma same_state_delete: "same_state d e \<Longrightarrow> same_state (delete_chunks P d) (delete_chunks P e)"
  by (simp add: same_state_def delete_chunks_def Let_def)

lemma erase_chunks_same: "same_state (delete_chunks (erased uri selected) d) (fst (erase_chunks uri selected d))"
proof (cases "selected = []")
  case True
  then have "erased uri selected = (\<lambda>c. False)" by (simp add: erased_def fun_eq_iff)
  then show ?thesis using True by (simp add: erase_chunks_def delete_chunks_def same_state_def)
next
  case False
  then show ?thesis
    by (simp add: erase_chunks_def Let_def delete_orphan_entities_def delete_orphan_relations_def
        scrub_sparse_rows_def same_state_def split: option.splits)
qed

lemma forget_legacy_same: "forget_legacy w uri table wd d = Inr (d', n) \<Longrightarrow> same_state d d'"
proof -
  have "same_state (d\<lparr>db_legacy := x\<rparr>) e \<Longrightarrow> same_state d e" for x e by (simp add: same_state_def)
  then show "forget_legacy w uri table wd d = Inr (d', n) \<Longrightarrow> same_state d d'"
    by (auto simp: forget_legacy_def Let_def split: option.splits if_splits)
qed

text \<open>The tables between the loop over the manifests and the deletion of the chunks.\<close>

definition forgotten_rows :: "world \<Rightarrow> string \<Rightarrow> db \<Rightarrow> db" where
  "forgotten_rows w uri d = (let T = insert uri (tombstone_set d) in
     d\<lparr>db_tombstones := dict_setdefault uri (w_new_id w (length (db_audit d)), w_now w) (db_tombstones d),
       db_generations := map (refreshed w T (manifests_of d)) (db_generations d),
       db_calibrations := map (invalidated w T (manifests_of d)) (db_calibrations d)\<rparr>)"

lemma set_manifests_of:
  "(gid, m, fp) \<in> set (manifests_of d) \<longleftrightarrow> (\<exists>g\<in>set (db_generations d). g_state g \<noteq> LEGACY_UNVERIFIED
     \<and> g_id g = gid \<and> g_manifest g = Some m \<and> g_corpus_fingerprint g = fp)"
  by (auto simp: manifests_of_def mutable_generations_def set_map_filter)

lemma distinct_manifests_of: "ids_ok d \<Longrightarrow> distinct (map fst (manifests_of d))"
  unfolding manifests_of_def mutable_generations_def ids_ok_def List.map_filter_def
  by (auto simp: distinct_map inj_on_def comp_def)

lemma map_of_manifests:
  "ids_ok d \<Longrightarrow> g \<in> set (db_generations d) \<Longrightarrow> g_state g \<noteq> LEGACY_UNVERIFIED \<Longrightarrow> g_manifest g = Some m \<Longrightarrow>
     map_of (manifests_of d) (g_id g) = Some (m, g_corpus_fingerprint g)"
  using distinct_manifests_of set_manifests_of by (intro map_of_is_SomeI) auto

lemma map_of_manifests_legacy:
  assumes "ids_ok d" "g \<in> set (db_generations d)" "g_state g = LEGACY_UNVERIFIED"
  shows "map_of (manifests_of d) (g_id g) = None"
proof (rule ccontr)
  assume "map_of (manifests_of d) (g_id g) \<noteq> None"
  then obtain m fp where "(g_id g, m, fp) \<in> set (manifests_of d)" by (auto dest: map_of_SomeD)
  then obtain h where "h \<in> set (db_generations d)" "g_id h = g_id g" "g_state h \<noteq> LEGACY_UNVERIFIED"
    by (auto simp: set_manifests_of)
  with generation_unique [OF assms(1), of h g] assms show False by auto
qed

lemma tombstones_added: "tombstone_set (add_tombstone w uri e d) = insert uri (tombstone_set d)"
proof -
  have "fst ` set (dict_setdefault uri v t) = insert uri (fst ` set t)" for v and t :: "(string, string \<times> instant) dict"
    using map_of_eq_None_iff [of t uri] by (auto simp: dict_setdefault_def)
  then show ?thesis by (simp add: tombstone_set_def add_tombstone_def)
qed

lemma forget_effect:
  assumes "forget w uri legacy wd d = Inr (d', res)" "ids_ok d"
  shows "uri \<noteq> [] \<and> same_state (delete_chunks (erased uri (selected_generations d)) (forgotten_rows w uri d)) d'"
proof -
  let ?sel = "selected_generations d" and ?e = "w_new_id w (length (db_audit d))"
  let ?d2 = "add_tombstone w uri ?e (audit w ''source_forgotten'' None (Some uri) (GenerationsPayload ?sel) d)"
  let ?T = "set (dict_keys (db_tombstones ?d2))"
  let ?d3 = "fold (refingerprint w ?T) (manifests_of d) ?d2"
  let ?rows = "case holder_generation uri ?sel ?d3 of None \<Rightarrow> [] | Some h \<Rightarrow> scoped_rows h [uri] ?d3"
  let ?d4 = "fst (pg_record_removals w chunk_scope ?rows [uri] wd ?d3)"
  from assms(1) obtain n where uri: "uri \<noteq> []"
    and l: "forget_legacy w uri legacy wd (fst (erase_chunks uri ?sel ?d4)) = Inr (d', n)"
    unfolding forget_def Let_def by (auto split: if_splits prod.splits)
  have "?T = insert uri (tombstone_set d)"
    using tombstones_added [of w uri ?e "audit w ''source_forgotten'' None (Some uri) (GenerationsPayload ?sel) d"]
    by (simp add: tombstone_set_def)
  then have 3: "same_state (forgotten_rows w uri d) ?d3"
    using fold_refingerprint [OF distinct_manifests_of [OF assms(2)], where w = w and T = ?T and d = ?d2]
    by (simp add: forgotten_rows_def Let_def same_state_def add_tombstone_def)
  have "same_state (forgotten_rows w uri d) ?d4" using same_state_trans [OF 3 same_state_removals] .
  then show ?thesis
    using uri same_state_trans [OF same_state_trans [OF same_state_delete erase_chunks_same] forget_legacy_same [OF l]] by blast
qed


lemma selected_nonlegacy:
  "g \<in> set (db_generations d) \<Longrightarrow> g_state g \<noteq> LEGACY_UNVERIFIED \<Longrightarrow> g_id g \<in> set (selected_generations d)"
  by (auto simp: selected_generations_def mutable_generations_def)

lemma forgotten_ok:
  assumes ok: "db_ok (w_sha w) d"
  shows "db_ok (w_sha w) (delete_chunks (erased uri (selected_generations d)) (forgotten_rows w uri d))"
    (is "db_ok _ ?d")
proof -
  let ?T = "insert uri (tombstone_set d)" and ?u = "refreshed w (insert uri (tombstone_set d)) (manifests_of d)"
  have ids: "ids_ok d" using ok by (simp add: db_ok_def)
  have rows: "db_generations ?d = map ?u (db_generations d)"
    and cals: "db_calibrations ?d = map (invalidated w ?T (manifests_of d)) (db_calibrations d)"
    and chunks: "db_chunks ?d = filter (\<lambda>c. \<not> erased uri (selected_generations d) c) (db_chunks d)"
    and tenant: "tenant_active ?d = tenant_active d" "tenant_previous ?d = tenant_previous d"
    and T: "tombstone_set ?d = ?T"
    using tenant_cong [of ?d d] tombstones_added [of w uri "w_new_id w (length (db_audit d))" d]
    by (simp_all add: forgotten_rows_def Let_def add_tombstone_def tombstone_set_def)
  have u: "g_id (?u g) = g_id g" "g_state (?u g) = g_state g" "g_manifest (?u g) = g_manifest g"
    "g_pipeline_fingerprint (?u g) = g_pipeline_fingerprint g" for g
    by (simp_all add: refreshed_def split: option.splits)
  have fp: "g_corpus_fingerprint (?u g) = effective_corpus_fingerprint (w_sha w) m ?T"
    if "g \<in> set (db_generations d)" "g_state g \<noteq> LEGACY_UNVERIFIED" "g_manifest g = Some m" for g m
    using map_of_manifests [OF ids that] by (simp add: refreshed_def)
  have kept: "\<And>g. g \<in> set (db_generations d) \<Longrightarrow> row_kept ?u g" by (simp add: row_kept_def u)
  have sub: "set (db_chunks ?d) \<subseteq> set (db_chunks d)" unfolding chunks by auto
  note mapped = mapped_rows(1,2) [OF ok rows kept sub]
  have "pointers_ok ?d" using ok unfolding db_ok_def pointers_ok_def rows tenant by (auto simp: u)
  moreover have "fingerprints_ok (w_sha w) ?d"
    using ok fp unfolding db_ok_def fingerprints_ok_def rows T by (auto simp: u)
  moreover have "calibrations_ok ?d"
  proof -
    have "distinct (map cal_id (db_calibrations ?d))"
      using ok unfolding cals db_ok_def calibrations_ok_def by (simp add: invalidated_def comp_def if_distrib cong: if_cong)
    moreover have "cal_certified c \<and> (\<exists>g\<in>set (db_generations ?d). bound_to c g)"
      if c: "c \<in> set (db_calibrations ?d)" "cal_lifecycle c = PUBLISHED" for c
    proof -
      from c have c: "c \<in> set (db_calibrations d)" "cal_lifecycle c = PUBLISHED" "\<not> outdated w ?T (manifests_of d) c"
        unfolding cals by (auto simp: invalidated_def split: if_splits)
      with ok obtain g where g: "g \<in> set (db_generations d)" "bound_to c g" and cert: "cal_certified c"
        by (auto simp: db_ok_def calibrations_ok_def)
      with ok obtain m where m: "g_manifest g = Some m" by (auto simp: db_ok_def fingerprints_ok_def bound_to_def)
      have "(g_id g, m, g_corpus_fingerprint g) \<in> set (manifests_of d)"
        using g m set_manifests_of by (auto simp: bound_to_def)
      with c(2,3) g(2) have "effective_corpus_fingerprint (w_sha w) m ?T = g_corpus_fingerprint g"
        by (auto simp: outdated_def bound_to_def)
      then have "bound_to c (?u g)" using g fp [OF g(1) _ m] u by (simp add: bound_to_def)
      then show ?thesis using cert g(1) unfolding rows by auto
    qed
    ultimately show ?thesis by (simp add: calibrations_ok_def)
  qed
  moreover have "erasure_ok ?d"
  proof -
    have "c_generation c \<in> set (selected_generations d)" if "c \<in> set (db_chunks d)" for c
      using ok that selected_nonlegacy by (fastforce simp: db_ok_def chunks_ok_def)
    then show ?thesis using ok unfolding erasure_ok_def is_tombstoned_iff T chunks
      by (auto simp: erased_def db_ok_def erasure_ok_def is_tombstoned_iff)
  qed
  moreover have "keys_ok ?d" using ok unfolding keys_ok_def chunks by (auto simp: db_ok_def keys_ok_def distinct_map inj_on_def)
  moreover have "graph_rows_ok ?d" using ok graph_ok_delete [of "forgotten_rows w uri d"]
    by (simp add: db_ok_def graph_rows_ok_def forgotten_rows_def Let_def)
  ultimately show ?thesis using mapped by (simp add: db_ok_def)
qed

lemma forget_ok: assumes "forget w uri legacy wd d = Inr (d', res)" shows "step_ok (w_sha w) d d'"
proof (rule step_okI)
  assume ok: "db_ok (w_sha w) d"
  then have same: "same_state (delete_chunks (erased uri (selected_generations d)) (forgotten_rows w uri d)) d'"
    using forget_effect [OF assms] by (simp add: db_ok_def)
  show "db_ok (w_sha w) d'" using forgotten_ok [OF ok] db_ok_same [OF same] by blast
  fix B assume "builders_ok B d"
  moreover have "db_generations d' = map (refreshed w (insert uri (tombstone_set d)) (manifests_of d)) (db_generations d)"
    using same by (simp add: same_state_def forgotten_rows_def Let_def)
  ultimately show "builders_ok B d'"
    by (auto simp: builders_ok_def refreshed_def split: option.splits)
qed

section \<open>The transition system\<close>

text \<open>
  A state is the tables and the generations whose build is running. A build starts on a building generation;
  its transactions may then be delayed past any step of another process. Every step has its own clock and
  ids; the digest function is one.
\<close>

inductive gen_step :: "manager \<Rightarrow> (pyval \<Rightarrow> string) \<Rightarrow> db \<times> string set \<Rightarrow> db \<times> string set \<Rightarrow> bool"
  for mgr :: manager and sha :: "pyval \<Rightarrow> string" where
  create_step: "create w mgr m p au given digits d = Inr d' \<Longrightarrow> w_sha w = sha \<Longrightarrow> gen_step mgr sha (d, B) (d', B)"
| build_starts: "find_generation gid d = Some g \<Longrightarrow> g_state g = BUILDING \<Longrightarrow> gen_step mgr sha (d, B) (d, insert gid B)"
| reuse_step: "gid \<in> B \<Longrightarrow> reuse_transaction w gid rq d = Inr (d', out) \<Longrightarrow> gen_step mgr sha (d, B) (d', B)"
| write_step: "gid \<in> B \<Longrightarrow> write_transaction w gid entry chunks n d = Inr (d', out) \<Longrightarrow> gen_step mgr sha (d, B) (d', B)"
| take_back_step: "gid \<in> B \<Longrightarrow> gen_step mgr sha (d, B) (take_back_transaction gid uris d, B)"
| graph_step: "gid \<in> B \<Longrightarrow> build_graphs w gid fp d = Inr (d', graph, dep) \<Longrightarrow> gen_step mgr sha (d, B) (d', B)"
| built_step: "gid \<in> B \<Longrightarrow> mark_validating w gid summary expected d = Inr d' \<Longrightarrow> gen_step mgr sha (d, B) (d', B)"
| validate_step: "validate w gid d = (d', res) \<Longrightarrow> gen_step mgr sha (d, B) (d', B)"
| fail_step: "fail w gid reason d = Inr d' \<Longrightarrow> gen_step mgr sha (d, B) (d', B)"
| abandon_step: "abandon w gid reason d = Inr d' \<Longrightarrow> gen_step mgr sha (d, B) (d', B)"
| rebuild_step: "rebuild_graph w gid d = Inr d' \<Longrightarrow> gen_step mgr sha (d, B) (d', B)"
| calibrate_step: "store_calibration w queries c d = Inr d' \<Longrightarrow> gen_step mgr sha (d, B) (d', B)"
| publish_step: "publish w cid d = Inr d' \<Longrightarrow> gen_step mgr sha (d, B) (d', B)"
| promote_step: "promote_generation w mgr gid unsafe d = Inr (d', n) \<Longrightarrow> gen_step mgr sha (d, B) (d', B)"
| rollback_step: "rollback w reason d = Inr (d', p) \<Longrightarrow> gen_step mgr sha (d, B) (d', B)"
| forget_step: "forget w uri legacy wd d = Inr (d', res) \<Longrightarrow> w_sha w = sha \<Longrightarrow> gen_step mgr sha (d, B) (d', B)"
| gc_step: "gc w now days retain d = Inr (d', doomed) \<Longrightarrow> gen_step mgr sha (d, B) (d', B)"

text \<open>What migration 0008 leaves: at most legacy generations, which own no chunks, and no pointer.\<close>

definition initial_db :: "db \<Rightarrow> bool" where
  "initial_db d \<longleftrightarrow> distinct (map g_id (db_generations d)) \<and> [] \<notin> set (map g_id (db_generations d))
     \<and> (\<forall>g\<in>set (db_generations d). g_state g = LEGACY_UNVERIFIED)
     \<and> db_tenant d \<in> {None, Some (None, None)} \<and> db_chunks d = [] \<and> db_tombstones d = []
     \<and> db_calibrations d = [] \<and> db_mentions d = [] \<and> db_evidence d = []"

definition initial_state :: "db \<times> string set \<Rightarrow> bool" where
  "initial_state s \<longleftrightarrow> initial_db (fst s) \<and> snd s = {}"

definition reachable :: "manager \<Rightarrow> (pyval \<Rightarrow> string) \<Rightarrow> db \<Rightarrow> bool" where
  "reachable mgr sha d \<longleftrightarrow> (\<exists>s B. initial_state s \<and> (gen_step mgr sha)\<^sup>*\<^sup>* s (d, B))"

definition state_ok :: "(pyval \<Rightarrow> string) \<Rightarrow> db \<times> string set \<Rightarrow> bool" where
  "state_ok sha s \<longleftrightarrow> db_ok sha (fst s) \<and> builders_ok (snd s) (fst s)"

lemma step_ok_state: "step_ok sha d d' \<Longrightarrow> state_ok sha (d, B) \<Longrightarrow> state_ok sha (d', B)"
  unfolding step_ok_def state_ok_def by simp

lemma initial_state_ok: "initial_state s \<Longrightarrow> state_ok sha s"
  by (auto simp: initial_state_def initial_db_def state_ok_def builders_ok_def db_ok_def db_ok_parts
      tenant_active_def tenant_previous_def lock_tenant_state_def nonempty_def)

lemma gen_step_ok: assumes "state_ok sha s" "gen_step mgr sha s t" shows "state_ok sha t"
  using assms(2,1)
proof (induction rule: gen_step.induct)
  case (build_starts gid d g B)
  then show ?case using named_row [of sha d gid g] by (auto simp: state_ok_def builders_ok_def)
next
  case (reuse_step gid B w rq d d' out)
  then show ?case using reuse_transaction_ok by (fastforce simp: state_ok_def)
next
  case (write_step gid B w entry chunks n d d' out)
  then show ?case using write_transaction_ok by (fastforce simp: state_ok_def)
next
  case (create_step w m p au given digits d d' B)
  then show ?case using create_ok step_ok_state by blast
next
  case (forget_step w uri legacy wd d d' res B)
  then show ?case using forget_ok step_ok_state by blast
next
  case (validate_step w gid d d' res B)
  then show ?case using validate_ok [of sha d w gid] step_ok_state by (metis fst_conv)
qed (blast intro: step_ok_state take_back_ok build_graphs_ok mark_validating_ok fail_ok abandon_ok rebuild_graph_ok
    store_calibration_ok publish_ok promote_ok rollback_ok gc_ok)+

interpretation life: preserved initial_state "gen_step mgr sha" "state_ok sha" for mgr sha
  by unfold_locales (rule initial_state_ok, assumption, rule gen_step_ok)

lemma reachable_ok: "reachable mgr sha d \<Longrightarrow> db_ok sha d"
  using life.reached_inv unfolding reachable_def state_ok_def by fastforce

end
