(* ===== verification/GenerationExample.thy ===== *)
theory GenerationExample
  imports GenerationReach
begin

text \<open>
  One tenant's history, run step by step through the transactions: a generation that holds a memo
  superseding another, a second generation that leaves the memo out, and a third that reuses the memo's
  chunk. It gives the properties of the lifecycle concrete reachable states.
\<close>

definition demo_sha :: "pyval \<Rightarrow> string" where
  "demo_sha v = (case v of PDict ((k, _) # _) \<Rightarrow> k | _ \<Rightarrow> ''digest'')"

definition demo_world :: world where
  "demo_world = \<lparr>w_now = 100, w_new_id = (\<lambda>n. ''event''), w_sha = demo_sha, w_json_text = (\<lambda>v. ''json''),
     w_graph = (\<lambda>chunks gid pf cf. Inr \<lparr>sg_schema_version = 2, sg_graph_id = gid, sg_fingerprint = cf,
       sg_entities = [], sg_mentions = [], sg_relations = [], sg_evidence = [], sg_diagnostics = 0\<rparr>),
     w_dependency = (\<lambda>d chunks gid cf. Inr PNone), w_query_digest = (\<lambda>q. Inr ''queries''),
     w_dimension = Some 3, w_regconfig = (\<lambda>l. True)\<rparr>"

definition demo_manager :: manager where
  "demo_manager = \<lparr>mgr_tenant_id = ''t'', mgr_environment = ''development'', mgr_serving_environment = ''development''\<rparr>"

definition production_manager :: manager where
  "production_manager = demo_manager\<lparr>mgr_serving_environment := ''production''\<rparr>"

definition demo_object :: manifest_object where
  "demo_object = \<lparr>mo_uri = ''file:///a.md'', mo_version_id = ''aa'', mo_media_type = ''text/markdown'', mo_size = 4,
     mo_sha256 = ''aa'', mo_context_group_id = None\<rparr>"

definition demo_manifest :: "manifest_object list \<Rightarrow> index_manifest" where
  "demo_manifest objects = \<lparr>im_tenant_id = ''t'', im_corpus_version = ''v'', im_objects = objects\<rparr>"

definition demo_pipeline :: pipeline_identity where
  "demo_pipeline = \<lparr>pi_fingerprint = ''pipe'', pi_verified = True, pi_production_admissible = True, pi_hosted = False,
     pi_dimension = 3, pi_fts_language = PStr ''english'', pi_fts_schema_version = PInt 1\<rparr>"

definition demo_chunk :: new_chunk where
  "demo_chunk = \<lparr>nc_id = ''k'', nc_ordinal = 0, nc_text = ''memo'',
     nc_metadata = [(''file'', PStr ''a.md''), (''supersedes'', PStr ''b.md''),
       (''metadata_rule_version'', PStr metadata_rule_version)]\<rparr>"

definition demo_summary :: "string \<Rightarrow> string list \<Rightarrow> build_summary" where
  "demo_summary gid sources = \<lparr>bs_objects = 1, bs_chunks = 1, bs_reused_objects = 0, bs_reused_chunks = 0,
     bs_tombstoned_objects = 0, bs_empty_objects = 0, bs_indexed_sources = sources,
     bs_semantic_graph = Some \<lparr>gm_schema_version = PInt 2, gm_graph_id = gid, gm_fingerprint = ''schema_version'',
       gm_counts = (0, 0, 0, 0), gm_ready = True\<rparr>,
     bs_dependency_projection = PNone, bs_validated = None\<rparr>"

definition demo_request :: reuse_request where
  "demo_request = \<lparr>rq_pipeline_fingerprint = ''pipe'', rq_uri = ''file:///a.md'', rq_sha256 = ''aa'', rq_version_id = ''aa'',
     rq_expected_file = ''a.md'', rq_body_rule = None, rq_metadata_rules = [metadata_rule_version],
     rq_policy_digest = None, rq_group_fingerprint = None, rq_require_anchor_repo = False, rq_anchor_repo = None,
     rq_provenance = []\<rparr>"

definition demo_empty :: db where
  "demo_empty = \<lparr>db_generations = [], db_tenant = None, db_chunks = [], db_tombstones = [], db_audit = [],
     db_calibrations = [], db_query_sets = [], db_sparse = Some [''k''], db_legacy = [], db_entities = [],
     db_mentions = [], db_relations = [], db_evidence = []\<rparr>"

text \<open>The first generation: created, one chunk written, built, validated.\<close>

definition demo_created :: db where
  "demo_created = projr (create demo_world demo_manager (demo_manifest [demo_object]) demo_pipeline True (Some ''g1'') [] demo_empty)"

definition demo_written :: db where
  "demo_written = fst (projr (write_transaction demo_world ''g1'' demo_object [demo_chunk] 1 demo_created))"

definition demo_built :: db where
  "demo_built = projr (mark_validating demo_world ''g1'' (demo_summary ''g1'' [''file:///a.md'']) None demo_written)"

definition demo_ready :: db where
  "demo_ready = fst (validate demo_world ''g1'' demo_built)"

definition demo_serving :: db where
  "demo_serving = fst (projr (promote_generation demo_world demo_manager ''g1'' True demo_ready))"

text \<open>The second generation, of an empty manifest, ready beside the serving one and then promoted.\<close>

definition demo_created2 :: db where
  "demo_created2 = projr (create demo_world demo_manager (demo_manifest []) demo_pipeline True (Some ''g2'') [] demo_serving)"

definition demo_built2 :: db where
  "demo_built2 = projr (mark_validating demo_world ''g2'' (demo_summary ''g2'' []) None demo_created2)"

definition demo_ready2 :: db where
  "demo_ready2 = fst (validate demo_world ''g2'' demo_built2)"

definition demo_serving2 :: db where
  "demo_serving2 = fst (projr (promote_generation demo_world demo_manager ''g2'' True demo_ready2))"

text \<open>The third generation reuses the memo's chunk of the first, which is retired by then.\<close>

definition demo_created3 :: db where
  "demo_created3 = projr (create demo_world demo_manager (demo_manifest [demo_object]) demo_pipeline True (Some ''g3'') [] demo_serving2)"

definition demo_reused3 :: db where
  "demo_reused3 = fst (projr (reuse_transaction demo_world ''g3'' demo_request demo_created3))"

definition demo_built3 :: db where
  "demo_built3 = projr (mark_validating demo_world ''g3'' (demo_summary ''g3'' [''file:///a.md'']) None demo_reused3)"

definition demo_ready3 :: db where
  "demo_ready3 = fst (validate demo_world ''g3'' demo_built3)"

definition demo_serving3 :: db where
  "demo_serving3 = fst (projr (promote_generation demo_world demo_manager ''g3'' True demo_ready3))"

lemma demo_sha_of [simp]: "w_sha demo_world = demo_sha"
  by (simp add: demo_world_def)

lemma demo_steps:
  "create demo_world demo_manager (demo_manifest [demo_object]) demo_pipeline True (Some ''g1'') [] demo_empty = Inr demo_created"
  "write_transaction demo_world ''g1'' demo_object [demo_chunk] 1 demo_created = Inr (demo_written, Stored 1)"
  "mark_validating demo_world ''g1'' (demo_summary ''g1'' [''file:///a.md'']) None demo_written = Inr demo_built"
  "validate demo_world ''g1'' demo_built = (demo_ready, Inr (1, 1))"
  "promote_generation demo_world demo_manager ''g1'' True demo_ready = Inr (demo_serving, 0)"
  by code_simp+

lemma demo_steps2:
  "create demo_world demo_manager (demo_manifest []) demo_pipeline True (Some ''g2'') [] demo_serving = Inr demo_created2"
  "mark_validating demo_world ''g2'' (demo_summary ''g2'' []) None demo_created2 = Inr demo_built2"
  "validate demo_world ''g2'' demo_built2 = (demo_ready2, Inr (0, 0))"
  "promote_generation demo_world demo_manager ''g2'' True demo_ready2 = Inr (demo_serving2, 1)"
  by code_simp+

lemma demo_steps3:
  "create demo_world demo_manager (demo_manifest [demo_object]) demo_pipeline True (Some ''g3'') [] demo_serving2 = Inr demo_created3"
  "reuse_transaction demo_world ''g3'' demo_request demo_created3 = Inr (demo_reused3, Stored 1)"
  "mark_validating demo_world ''g3'' (demo_summary ''g3'' [''file:///a.md'']) None demo_reused3 = Inr demo_built3"
  "validate demo_world ''g3'' demo_built3 = (demo_ready3, Inr (1, 1))"
  "promote_generation demo_world demo_manager ''g3'' True demo_ready3 = Inr (demo_serving3, 0)"
  by code_simp+

lemma demo_buildable:
  "map_option g_state (find_generation ''g1'' demo_created) = Some BUILDING"
  "map_option g_state (find_generation ''g2'' demo_created2) = Some BUILDING"
  "map_option g_state (find_generation ''g3'' demo_created3) = Some BUILDING"
  by code_simp+

lemma build_may_start:
  "map_option g_state (find_generation gid d) = Some BUILDING \<Longrightarrow> gen_step mgr sha (d, B) (d, insert gid B)"
  by (auto intro: gen_step.build_starts)

lemma demo_initial: "initial_state (demo_empty, {})"
  by (simp add: initial_state_def initial_db_def demo_empty_def)

abbreviation demo_run :: "db \<times> string set \<Rightarrow> bool" where
  "demo_run \<equiv> (gen_step demo_manager demo_sha)\<^sup>*\<^sup>* (demo_empty, {})"

lemma demo_run_steps:
  "demo_run (demo_created, {})" "demo_run (demo_created, {''g1''})" "demo_run (demo_written, {''g1''})"
  "demo_run (demo_built, {''g1''})" "demo_run (demo_ready, {''g1''})" "demo_run (demo_serving, {''g1''})"
proof -
  show 1: "demo_run (demo_created, {})" using gen_step.create_step [OF demo_steps(1)] by (simp add: r_into_rtranclp)
  show 2: "demo_run (demo_created, {''g1''})" using rtranclp.rtrancl_into_rtrancl [OF 1 build_may_start [OF demo_buildable(1)]] .
  show 3: "demo_run (demo_written, {''g1''})" using rtranclp.rtrancl_into_rtrancl [OF 2 gen_step.write_step [OF _ demo_steps(2)]] by simp
  show 4: "demo_run (demo_built, {''g1''})" using rtranclp.rtrancl_into_rtrancl [OF 3 gen_step.built_step [OF _ demo_steps(3)]] by simp
  show 5: "demo_run (demo_ready, {''g1''})" using rtranclp.rtrancl_into_rtrancl [OF 4 gen_step.validate_step [OF demo_steps(4)]] .
  show "demo_run (demo_serving, {''g1''})" using rtranclp.rtrancl_into_rtrancl [OF 5 gen_step.promote_step [OF demo_steps(5)]] .
qed

lemma demo_run_steps2:
  "demo_run (demo_ready2, {''g2'', ''g1''})" "demo_run (demo_serving2, {''g2'', ''g1''})"
proof -
  have 1: "demo_run (demo_created2, {''g1''})"
    using rtranclp.rtrancl_into_rtrancl [OF demo_run_steps(6) gen_step.create_step [OF demo_steps2(1)]] by simp
  have 2: "demo_run (demo_created2, {''g2'', ''g1''})" using rtranclp.rtrancl_into_rtrancl [OF 1 build_may_start [OF demo_buildable(2)]] .
  have 3: "demo_run (demo_built2, {''g2'', ''g1''})" using rtranclp.rtrancl_into_rtrancl [OF 2 gen_step.built_step [OF _ demo_steps2(2)]] by simp
  show 4: "demo_run (demo_ready2, {''g2'', ''g1''})" using rtranclp.rtrancl_into_rtrancl [OF 3 gen_step.validate_step [OF demo_steps2(3)]] .
  show "demo_run (demo_serving2, {''g2'', ''g1''})" using rtranclp.rtrancl_into_rtrancl [OF 4 gen_step.promote_step [OF demo_steps2(4)]] .
qed

lemma demo_run_steps3: "demo_run (demo_serving3, {''g3'', ''g2'', ''g1''})"
proof -
  have 1: "demo_run (demo_created3, {''g2'', ''g1''})"
    using rtranclp.rtrancl_into_rtrancl [OF demo_run_steps2(2) gen_step.create_step [OF demo_steps3(1)]] by simp
  have 2: "demo_run (demo_created3, {''g3'', ''g2'', ''g1''})"
    using rtranclp.rtrancl_into_rtrancl [OF 1 build_may_start [OF demo_buildable(3)]] .
  have 3: "demo_run (demo_reused3, {''g3'', ''g2'', ''g1''})"
    using rtranclp.rtrancl_into_rtrancl [OF 2 gen_step.reuse_step [OF _ demo_steps3(2)]] by simp
  have 4: "demo_run (demo_built3, {''g3'', ''g2'', ''g1''})"
    using rtranclp.rtrancl_into_rtrancl [OF 3 gen_step.built_step [OF _ demo_steps3(3)]] by simp
  have 5: "demo_run (demo_ready3, {''g3'', ''g2'', ''g1''})"
    using rtranclp.rtrancl_into_rtrancl [OF 4 gen_step.validate_step [OF demo_steps3(4)]] .
  show ?thesis using rtranclp.rtrancl_into_rtrancl [OF 5 gen_step.promote_step [OF demo_steps3(5)]] .
qed

lemma demo_reachable:
  "reachable demo_manager demo_sha demo_ready2" "reachable demo_manager demo_sha demo_serving2"
  "reachable demo_manager demo_sha demo_serving3"
  using demo_initial demo_run_steps2 demo_run_steps3 unfolding reachable_def by blast+

section \<open>A tenant served under production\<close>

definition demo_calibration :: calibration_row where
  "demo_calibration = \<lparr>cal_id = ''cal'', cal_generation = Some ''g1'', cal_lifecycle = DRAFT, cal_certified = True,
     cal_reason = [], cal_pipeline_fingerprint = ''pipe'', cal_corpus_fingerprint = ''schema_version'',
     cal_query_set_digest = ''queries'', cal_created_at = 90, cal_checksum_ok = True\<rparr>"

definition demo_calibrated :: db where
  "demo_calibrated = projr (store_calibration demo_world (PList []) demo_calibration demo_ready)"

definition demo_published :: db where
  "demo_published = projr (publish demo_world ''cal'' demo_calibrated)"

definition demo_production :: db where
  "demo_production = fst (projr (promote_generation demo_world production_manager ''g1'' False demo_published))"

lemma production_steps:
  "create demo_world production_manager (demo_manifest [demo_object]) demo_pipeline True (Some ''g1'') [] demo_empty = Inr demo_created"
  "store_calibration demo_world (PList []) demo_calibration demo_ready = Inr demo_calibrated"
  "publish demo_world ''cal'' demo_calibrated = Inr demo_published"
  "promote_generation demo_world production_manager ''g1'' False demo_published = Inr (demo_production, 0)"
  by code_simp+

lemma production_reachable: "reachable production_manager demo_sha demo_published"
proof -
  let ?run = "(gen_step production_manager demo_sha)\<^sup>*\<^sup>* (demo_empty, {})"
  have 1: "?run (demo_created, {})" using gen_step.create_step [OF production_steps(1)] by (simp add: r_into_rtranclp)
  have 2: "?run (demo_created, {''g1''})" using rtranclp.rtrancl_into_rtrancl [OF 1 build_may_start [OF demo_buildable(1)]] .
  have 3: "?run (demo_written, {''g1''})" using rtranclp.rtrancl_into_rtrancl [OF 2 gen_step.write_step [OF _ demo_steps(2)]] by simp
  have 4: "?run (demo_built, {''g1''})" using rtranclp.rtrancl_into_rtrancl [OF 3 gen_step.built_step [OF _ demo_steps(3)]] by simp
  have 5: "?run (demo_ready, {''g1''})" using rtranclp.rtrancl_into_rtrancl [OF 4 gen_step.validate_step [OF demo_steps(4)]] .
  have 6: "?run (demo_calibrated, {''g1''})" using rtranclp.rtrancl_into_rtrancl [OF 5 gen_step.calibrate_step [OF production_steps(2)]] .
  have "?run (demo_published, {''g1''})" using rtranclp.rtrancl_into_rtrancl [OF 6 gen_step.publish_step [OF production_steps(3)]] .
  then show ?thesis using demo_initial unfolding reachable_def by blast
qed

end
