(* ===== verification/GenerationCorrect.thy ===== *)
theory GenerationCorrect
  imports GenerationExample
begin

text \<open>
  What the generation lifecycle promises: one serving generation, a rollback that is always possible and
  undoes a promotion, erasure that no interleaving reverses, certification of what production serves,
  retention of what garbage collection must keep, and the records a promotion owes the memos it leaves out.
\<close>

section \<open>Serving\<close>

lemma active_unique:
  assumes "ids_ok d" "pointers_ok d"
  shows "length (filter (\<lambda>g. g_state g = ACTIVE) (db_generations d)) \<le> 1"
proof -
  let ?xs = "filter (\<lambda>g. g_state g = ACTIVE) (db_generations d)"
  have "distinct (map g_id ?xs)" using assms(1) by (auto simp: ids_ok_def distinct_map inj_on_def)
  moreover have "set (map g_id ?xs) \<subseteq> set_option (tenant_active d)" using assms(2) by (auto simp: pointers_ok_def)
  moreover have "finite (set_option (tenant_active d)) \<and> card (set_option (tenant_active d)) \<le> 1"
    by (cases "tenant_active d") auto
  ultimately show ?thesis by (metis card_mono distinct_card le_trans length_map)
qed

text \<open>
  C10. In every state the transactions of any number of processes can reach, at most one generation is
  active, and the generation a reader is told to serve is that one: the pointer names a generation exactly
  when that generation's row is active. A generation that could be rolled back to is ready or retired.
\<close>

theorem serving_state_is_consistent:
  assumes "reachable mgr sha d"
  shows "length (filter (\<lambda>g. g_state g = ACTIVE) (db_generations d)) \<le> 1
     \<and> (active_generation_id d = Inr a \<longleftrightarrow> (\<exists>g\<in>set (db_generations d). g_id g = a \<and> g_state g = ACTIVE))
     \<and> (tenant_previous d = Some p \<longrightarrow> (\<exists>g\<in>set (db_generations d). g_id g = p \<and> g_state g \<in> {READY, RETIRED}))"
proof (intro conjI)
  have ok: "db_ok sha d" using reachable_ok [OF assms] .
  then show "length (filter (\<lambda>g. g_state g = ACTIVE) (db_generations d)) \<le> 1"
    using active_unique by (simp add: db_ok_def)
  show "active_generation_id d = Inr a \<longleftrightarrow> (\<exists>g\<in>set (db_generations d). g_id g = a \<and> g_state g = ACTIVE)"
    using ok by (auto simp: active_generation_id_def db_ok_def pointers_ok_def split: option.splits)
  show "tenant_previous d = Some p \<longrightarrow> (\<exists>g\<in>set (db_generations d). g_id g = p \<and> g_state g \<in> {READY, RETIRED})"
    using ok by (simp add: db_ok_def pointers_ok_def)
qed

lemma demo_pointers:
  "active_generation_id demo_serving2 = Inr ''g2''" "tenant_previous demo_serving2 = Some ''g1''"
  "active_generation_id demo_ready2 = Inr ''g1''"
  by code_simp+

theorem serving_state_is_consistent_witness:
  "length (filter (\<lambda>g. g_state g = ACTIVE) (db_generations demo_serving2)) \<le> 1
   \<and> (\<exists>g\<in>set (db_generations demo_serving2). g_id g = ''g2'' \<and> g_state g = ACTIVE)
   \<and> (\<exists>g\<in>set (db_generations demo_serving2). g_id g = ''g1'' \<and> g_state g \<in> {READY, RETIRED})"
  using serving_state_is_consistent [OF demo_reachable(2), of "''g2''" "''g1''"] demo_pointers by blast

lemma rollback_possible:
  assumes ok: "db_ok sha d" and p: "tenant_previous d = Some p"
  shows "\<exists>d'. rollback w reason d = Inr (d', p)"
proof -
  obtain g where g: "g \<in> set (db_generations d)" "g_id g = p" "g_state g \<in> {READY, RETIRED}"
    using ok p by (auto simp: db_ok_def pointers_ok_def)
  then have found: "find_generation p d = Some g" using find_generation_iff ok by (auto simp: db_ok_def)
  have "tenant_active d \<noteq> Some p" using ok g by (auto simp: db_ok_def pointers_ok_def)
  then obtain d3 where "activate_generation w p (deactivate (tenant_active d) READY None d) = Inr d3"
    using activate_effect [OF ok refl, of READY p w None] by auto
  then show ?thesis using p found g(3) by (auto simp: rollback_def require_generation_def Let_def)
qed

text \<open>
  C11. Recovery is never stuck. In every reachable state whose tenant has a previous generation, a rollback
  succeeds, whatever its clock and reason, and leaves that generation serving.
\<close>

theorem rollback_never_stuck:
  assumes "reachable mgr sha d" and "tenant_previous d = Some p"
  shows "\<exists>d'. rollback w reason d = Inr (d', p) \<and> active_generation_id d' = Inr p \<and> tenant_previous d' = tenant_active d"
proof -
  have ok: "db_ok sha d" using reachable_ok [OF assms(1)] .
  from rollback_possible [OF ok assms(2)] obtain d' where d': "rollback w reason d = Inr (d', p)" by blast
  show ?thesis using d' rollback_switches(3,4) [OF ok d'] by (auto simp: active_generation_id_def)
qed

theorem rollback_never_stuck_witness:
  "\<exists>d'. rollback demo_world None demo_serving2 = Inr (d', ''g1'') \<and> active_generation_id d' = Inr ''g1''
     \<and> tenant_previous d' = tenant_active demo_serving2"
  using rollback_never_stuck [OF demo_reachable(2) demo_pointers(2)] by blast

text \<open>
  C22. A rollback undoes a promotion. After a promotion over a serving generation, a rollback succeeds,
  serves that generation again, and every generation of the tenant is in the state it was in before the
  promotion.
\<close>

theorem rollback_undoes_promotion:
  assumes "reachable mgr sha d" and "active_generation_id d = Inr a" and p: "promote_generation w mgr gid unsafe d = Inr (d1, n)"
  shows "\<exists>d2. rollback w' reason d1 = Inr (d2, a) \<and> active_generation_id d2 = Inr a
     \<and> map (\<lambda>g. (g_id g, g_state g)) (db_generations d2) = map (\<lambda>g. (g_id g, g_state g)) (db_generations d)"
proof -
  have ok: "db_ok sha d" using reachable_ok [OF assms(1)] .
  have act: "tenant_active d = Some a" using assms(2) by (simp add: active_generation_id_def split: option.splits)
  note sw = promote_switches [OF ok p]
  from rollback_possible [OF sw(1)] sw(4) act obtain d2 where d2: "rollback w' reason d1 = Inr (d2, a)" by metis
  note undo = rollback_switches [OF sw(1) d2]
  from promote_effect [OF p] obtain g where g: "find_generation gid d = Some g" "g_state g = READY" by blast
  have "\<forall>h\<in>set (db_generations d). g_id h = gid \<longrightarrow> g_state h = READY"
    using named_row [OF ok g(1)] g(2) by blast
  moreover have "\<forall>h\<in>set (db_generations d). g_id h = a \<longrightarrow> g_state h = ACTIVE"
    using ok act by (simp add: db_ok_def pointers_ok_def)
  ultimately have "map (\<lambda>g. (g_id g, g_state g)) (db_generations d2) = map (\<lambda>g. (g_id g, g_state g)) (db_generations d)"
    unfolding undo(5) sw(5) sw(3) act by (auto simp: switched_def)
  then show ?thesis using d2 undo(3) by (auto simp: active_generation_id_def)
qed

theorem rollback_undoes_promotion_witness:
  "\<exists>d2. rollback demo_world None demo_serving2 = Inr (d2, ''g1'') \<and> active_generation_id d2 = Inr ''g1''
     \<and> map (\<lambda>g. (g_id g, g_state g)) (db_generations d2) = map (\<lambda>g. (g_id g, g_state g)) (db_generations demo_ready2)"
  using rollback_undoes_promotion [OF demo_reachable(1) demo_pointers(3) demo_steps2(4)] by blast

section \<open>Erasure\<close>

text \<open>Only \<open>forget\<close> writes tombstones, and it adds one.\<close>

lemma insert_chunks_tombstones: "insert_chunks gid rows d = Inr d' \<Longrightarrow> db_tombstones d' = db_tombstones d"
  by (auto simp: insert_chunks_def split: if_splits)

lemma same_state_tombstones: "same_state d d' \<Longrightarrow> db_tombstones d' = db_tombstones d"
  by (simp add: same_state_def)

lemma take_back_tombstones: "db_tombstones (take_back_transaction gid uris d) = db_tombstones d"
  unfolding take_back_transaction_def by (induction uris arbitrary: d) simp_all

lemma fail_tombstones: "fail w gid reason d = Inr d' \<Longrightarrow> db_tombstones d' = db_tombstones d"
  using fail_effect by (fastforce dest: same_state_tombstones)

lemma fail_and_raise_tombstones: "db_tombstones (fst (fail_and_raise w gid e d)) = db_tombstones d"
proof (cases "fail w gid (take 2000 (error_text e)) d")
  case (Inl e1)
  then show ?thesis by (cases e; cases e1; simp add: fail_and_raise_def)
next
  case (Inr d1)
  then show ?thesis using fail_tombstones [OF Inr] by (cases e; simp add: fail_and_raise_def)
qed

lemma validate_tombstones: assumes "validate w gid d = (d', res)" shows "db_tombstones d' = db_tombstones d"
proof (cases "validate_body w gid d")
  case (Inl e)
  with assms have "d' = fst (fail_and_raise w gid e d)" by (simp add: validate_def Let_def case_prod_beta)
  then show ?thesis by (simp add: fail_and_raise_tombstones)
next
  case (Inr p)
  obtain d1 counts where "p = (d1, counts)" by (cases p)
  with Inr assms have "validate_body w gid d = Inr (d', counts)" by (simp add: validate_def)
  from validate_body_effect [OF this] show ?thesis by (auto simp: make_ready_def dest: validate_graph_rows)
qed

lemma transaction_tombstones:
  "reuse_transaction w gid rq d = Inr (d', out) \<Longrightarrow> db_tombstones d' = db_tombstones d"
  "write_transaction w gid entry chunks n d = Inr (d', out) \<Longrightarrow> db_tombstones d' = db_tombstones d"
  "build_graphs w gid fp d = Inr (d', graph, dep) \<Longrightarrow> db_tombstones d' = db_tombstones d"
  by (auto simp: reuse_transaction_def reuse_source_def write_transaction_def write_source_def build_graphs_def Let_def
      split: if_splits option.splits dest: insert_chunks_tombstones write_semantic_graph_fields)

lemma lifecycle_tombstones:
  "create w mgr m p au given digits d = Inr d' \<Longrightarrow> db_tombstones d' = db_tombstones d"
  "mark_validating w gid summary expected d = Inr d' \<Longrightarrow> db_tombstones d' = db_tombstones d"
  "abandon w gid reason d = Inr d' \<Longrightarrow> db_tombstones d' = db_tombstones d"
  "store_calibration w queries c d = Inr d' \<Longrightarrow> db_tombstones d' = db_tombstones d"
  "publish w cid d = Inr d' \<Longrightarrow> db_tombstones d' = db_tombstones d"
  by (fastforce dest!: create_effect mark_validating_effect abandon_effect store_calibration_effect publish_effect
      same_state_tombstones)+

lemma rebuild_tombstones: "rebuild_graph w gid d = Inr d' \<Longrightarrow> db_tombstones d' = db_tombstones d"
  by (fastforce dest!: rebuild_graph_effect same_state_tombstones write_semantic_graph_fields)

lemma activate_tombstones: "activate_generation w gid d = Inr d' \<Longrightarrow> db_tombstones d' = db_tombstones d"
  by (auto simp: activate_generation_def split: if_splits)

lemma switch_tombstones:
  "promote_generation w mgr gid unsafe d = Inr (d', n) \<Longrightarrow> db_tombstones d' = db_tombstones d"
  "rollback w reason d = Inr (d', p) \<Longrightarrow> db_tombstones d' = db_tombstones d"
  by (fastforce dest!: promote_effect rollback_effect same_state_tombstones activate_tombstones)+

lemma gc_tombstones: "gc w now days retain d = Inr (d', doomed) \<Longrightarrow> db_tombstones d' = db_tombstones d"
  using gc_effect(2) by (fastforce simp: delete_generations_def dest: same_state_tombstones)

lemma forget_tombstones:
  assumes "db_ok (w_sha w) d" "forget w uri legacy wd d = Inr (d', res)"
  shows "tombstone_set d' = insert uri (tombstone_set d)"
proof -
  have "same_state (delete_chunks (erased uri (selected_generations d)) (forgotten_rows w uri d)) d'"
    using forget_effect [OF assms(2)] assms(1) by (simp add: db_ok_def)
  then show ?thesis using tombstones_added [of w uri "w_new_id w (length (db_audit d))" d]
    by (simp add: same_state_def tombstone_set_def forgotten_rows_def add_tombstone_def Let_def)
qed

lemmas tombstones_same = transaction_tombstones lifecycle_tombstones take_back_tombstones fail_tombstones
  validate_tombstones rebuild_tombstones switch_tombstones gc_tombstones

lemma tombstones_kept:
  assumes "gen_step mgr sha s t" "state_ok sha s"
  shows "tombstone_set (fst s) \<subseteq> tombstone_set (fst t)"
  using assms
proof (induction rule: gen_step.induct)
  case (forget_step w uri legacy wd d d' res B)
  then have "db_ok (w_sha w) d" by (simp add: state_ok_def)
  from forget_tombstones [OF this forget_step(1)] show ?case by auto
qed (simp_all add: tombstone_set_def tombstones_same)

interpretation forgotten: preserved "\<lambda>s. state_ok sha s \<and> uri \<in> tombstone_set (fst s)" "gen_step mgr sha"
  "\<lambda>s. state_ok sha s \<and> uri \<in> tombstone_set (fst s)" for mgr sha uri
proof unfold_locales
  fix s t assume "state_ok sha s \<and> uri \<in> tombstone_set (fst s)" "gen_step mgr sha s t"
  then show "state_ok sha t \<and> uri \<in> tombstone_set (fst t)" using gen_step_ok tombstones_kept by blast
qed

text \<open>
  C8. Erasure is permanent. Once a reachable tenant has forgotten a source, no state that any later
  interleaving of builds, reuses, promotions, rollbacks and the rest reaches holds a chunk of that source in
  any generation, and no graph row rests on such a chunk.
\<close>

theorem erasure_is_permanent:
  assumes "initial_state s" and "(gen_step mgr sha)\<^sup>*\<^sup>* s (d, B)" and "w_sha w = sha"
    and "forget w uri legacy wd d = Inr (d0, res)" and "(gen_step mgr sha)\<^sup>*\<^sup>* (d0, B) (d1, B1)"
  shows "(\<forall>c\<in>set (db_chunks d1). c_source_uri c \<noteq> uri)
     \<and> (\<forall>(g, e, c)\<in>set (db_mentions d1). \<exists>k\<in>set (db_chunks d1). c_generation k = g \<and> c_chunk_id k = c \<and> c_source_uri k \<noteq> uri)
     \<and> (\<forall>(g, r, c)\<in>set (db_evidence d1). \<exists>k\<in>set (db_chunks d1). c_generation k = g \<and> c_chunk_id k = c \<and> c_source_uri k \<noteq> uri)"
proof -
  have ok: "state_ok sha (d, B)" using life.reached_inv [OF assms(1,2)] .
  then have "uri \<in> tombstone_set d0" using forget_tombstones [OF _ assms(4)] assms(3) by (simp add: state_ok_def)
  moreover have "state_ok sha (d0, B)" using step_ok_state [OF _ ok] forget_ok [OF assms(4)] assms(3) by simp
  ultimately have "state_ok sha (d1, B1) \<and> uri \<in> tombstone_set d1"
    using forgotten.run_inv [OF assms(5), of uri] by simp
  then have 1: "\<forall>c\<in>set (db_chunks d1). c_source_uri c \<noteq> uri" and g: "graph_rows_ok d1"
    by (auto simp: state_ok_def db_ok_def erasure_ok_def is_tombstoned_iff)
  then show ?thesis unfolding graph_rows_ok_def by fastforce
qed

definition demo_forgotten :: db where
  "demo_forgotten = fst (projr (forget demo_world ''file:///a.md'' None False demo_serving3))"

definition demo_result :: erasure_result where
  "demo_result = snd (projr (forget demo_world ''file:///a.md'' None False demo_serving3))"

definition demo_later :: db where
  "demo_later = fst (projr (rollback demo_world None demo_forgotten))"

lemma not_in_image: "\<forall>c\<in>A. f c \<noteq> x \<Longrightarrow> x \<notin> f ` A"
  by auto

lemma demo_forget:
  "forget demo_world ''file:///a.md'' None False demo_serving3 = Inr (demo_forgotten, demo_result)"
  "rollback demo_world None demo_forgotten = Inr (demo_later, ''g2'')"
  by code_simp+

theorem erasure_is_permanent_witness:
  "''file:///a.md'' \<in> c_source_uri ` set (db_chunks demo_serving3)
   \<and> ''file:///a.md'' \<notin> c_source_uri ` set (db_chunks demo_later)"
proof
  show "''file:///a.md'' \<in> c_source_uri ` set (db_chunks demo_serving3)" by code_simp
  have "(gen_step demo_manager demo_sha)\<^sup>*\<^sup>* (demo_forgotten, {''g3'', ''g2'', ''g1''}) (demo_later, {''g3'', ''g2'', ''g1''})"
    using gen_step.rollback_step [OF demo_forget(2)] by (rule r_into_rtranclp)
  from erasure_is_permanent [OF demo_initial demo_run_steps3 demo_sha_of demo_forget(1) this]
  have "\<forall>c\<in>set (db_chunks demo_later). c_source_uri c \<noteq> ''file:///a.md''" by (rule conjunct1)
  then show "''file:///a.md'' \<notin> c_source_uri ` set (db_chunks demo_later)" by (rule not_in_image)
qed

section \<open>Certification\<close>

lemma unpublished_not_certified: "unpublished_status gid d \<noteq> StatusCertified"
  by (simp add: unpublished_status_def Let_def split: option.split)

lemma resolve_certified:
  assumes "resolve_within w gid d = Inr StatusCertified"
  shows "\<exists>g c cs. find_generation gid d = Some g \<and> published_of gid d = c # cs
     \<and> published_status w (g_pipeline_fingerprint g, g_corpus_fingerprint g) c d = Inr StatusCertified"
proof -
  from assms obtain g where g: "find_generation gid d = Some g"
    and r: "(case published_of gid d of [] \<Rightarrow> Inr (unpublished_status gid d)
      | c # _ \<Rightarrow> published_status w (g_pipeline_fingerprint g, g_corpus_fingerprint g) c d) = Inr StatusCertified"
    by (auto simp: resolve_within_def calibration_lineage_def split: option.splits if_splits)
  show ?thesis using g r unpublished_not_certified by (cases "published_of gid d") auto
qed

text \<open>
  C9. Production serves only what is certified for exactly the corpus it serves. When a tenant served under
  production promotes a generation from a reachable state, that generation was ready and has a published,
  certified calibration with an intact checksum, bound to the generation's pipeline and to the fingerprint of
  its manifest without the sources forgotten so far.
\<close>

theorem production_promotion_is_certified:
  assumes "reachable mgr sha d" and "certification_required mgr" and "promote_generation w mgr gid unsafe d = Inr (d', n)"
  shows "\<not> unsafe \<and> active_generation_id d' = Inr gid
     \<and> (\<exists>g m c. g \<in> set (db_generations d) \<and> g_id g = gid \<and> g_state g = READY \<and> g_manifest g = Some m
          \<and> c \<in> set (db_calibrations d) \<and> cal_generation c = Some gid \<and> cal_lifecycle c = PUBLISHED
          \<and> cal_certified c \<and> cal_checksum_ok c \<and> cal_pipeline_fingerprint c = g_pipeline_fingerprint g
          \<and> cal_corpus_fingerprint c = effective_corpus_fingerprint sha m (set (dict_keys (db_tombstones d))))"
proof -
  have ok: "db_ok sha d" using reachable_ok [OF assms(1)] .
  from promote_effect [OF assms(3)] assms(2) obtain g where g: "find_generation gid d = Some g" "g_state g = READY"
    and mode: "promotion_mode mgr unsafe = Inr ()"
    and cert: "require_certified_for_production w gid (ensure_tenant_row d) = Inr ()" by blast
  have unsafe: "\<not> unsafe" using mode assms(2) by (simp add: promotion_mode_def split: if_splits)
  have "resolve_within w gid (ensure_tenant_row d) = Inr StatusCertified"
    using cert by (auto simp: require_certified_for_production_def split: sum.splits gen_error.splits calibration_status.splits)
  from resolve_certified [OF this] g obtain c cs where pub: "published_of gid (ensure_tenant_row d) = c # cs"
    and status: "published_status w (g_pipeline_fingerprint g, g_corpus_fingerprint g) c (ensure_tenant_row d) = Inr StatusCertified"
    by auto
  have c: "c \<in> set (db_calibrations d)" "cal_generation c = Some gid" "cal_lifecycle c = PUBLISHED"
    using pub by (auto simp: published_of_def filter_eq_Cons_iff)
  have bound: "cal_checksum_ok c" "cal_certified c" "cal_pipeline_fingerprint c = g_pipeline_fingerprint g"
    "cal_corpus_fingerprint c = g_corpus_fingerprint g"
    using status by (auto simp: published_status_def split: if_splits option.splits)
  obtain m where m: "g_manifest g = Some m" "g_corpus_fingerprint g = effective_corpus_fingerprint sha m (tombstone_set d)"
    using ok g find_generation_some [OF g(1)] by (auto simp: db_ok_def fingerprints_ok_def)
  have "active_generation_id d' = Inr gid" using promote_switches(3) [OF ok assms(3)] by (simp add: active_generation_id_def)
  with unsafe c bound m g(2) find_generation_some [OF g(1)] show ?thesis unfolding tombstone_set_def by auto
qed

theorem production_promotion_is_certified_witness:
  "active_generation_id demo_production = Inr ''g1''
   \<and> (\<exists>g m c. g \<in> set (db_generations demo_published) \<and> g_id g = ''g1'' \<and> g_state g = READY \<and> g_manifest g = Some m
        \<and> c \<in> set (db_calibrations demo_published) \<and> cal_generation c = Some ''g1'' \<and> cal_lifecycle c = PUBLISHED
        \<and> cal_certified c \<and> cal_checksum_ok c \<and> cal_pipeline_fingerprint c = g_pipeline_fingerprint g
        \<and> cal_corpus_fingerprint c = effective_corpus_fingerprint demo_sha m (set (dict_keys (db_tombstones demo_published))))"
proof -
  have "certification_required production_manager" by code_simp
  from production_promotion_is_certified [OF production_reachable this production_steps(4)] show ?thesis by blast
qed

end
