(* ===== verification/GenerationUpkeep.thy ===== *)
theory GenerationUpkeep
  imports GenerationExample
begin

text \<open>
  What garbage collection keeps, what it takes from live generations, how a validation settles, what a
  promotion records of the memos it leaves out, and that a rewritten source keeps its dates.
\<close>

section \<open>Counting rows\<close>

lemma length_filter_perm: assumes "mset xs = mset ys" shows "length (filter P xs) = length (filter P ys)"
proof -
  have "mset (filter P xs) = mset (filter P ys)" using assms by simp
  then show ?thesis by (rule mset_eq_length)
qed

lemma sum_of_groups: "finite A \<Longrightarrow> f ` set xs \<subseteq> A \<Longrightarrow> (\<Sum>u\<in>A. length (filter (\<lambda>x. f x = u) xs)) = length xs"
proof (induction xs)
  case (Cons x xs)
  have "(\<Sum>u\<in>A. length (filter (\<lambda>y. f y = u) (x # xs)))
      = (\<Sum>u\<in>A. (if f x = u then 1 else 0) + length (filter (\<lambda>y. f y = u) xs))"
    by (rule sum.cong) auto
  also have "\<dots> = (\<Sum>u\<in>A. if f x = u then 1 else 0) + (\<Sum>u\<in>A. length (filter (\<lambda>y. f y = u) xs))" by (rule sum.distrib)
  finally show ?case using Cons by simp
qed simp

section \<open>Retention\<close>

definition quota_row :: "string set \<Rightarrow> generation_row \<Rightarrow> generation_row \<Rightarrow> bool" where
  "quota_row protected g h \<longleftrightarrow> g_state h = RETIRED \<and> g_id h \<notin> protected \<and> generation_age h \<ge> generation_age g"

lemma gc_quota:
  assumes "sorted_wrt (\<lambda>a b. generation_age a \<ge> generation_age b) gs" "distinct (map g_id gs)"
    "g \<in> set gs" "g_state g = RETIRED" "g_id g \<in> set (gc_select P r c k gs)"
  shows "r \<le> k + int (length (filter (\<lambda>h. quota_row P g h \<and> g_id h \<notin> set (gc_select P r c k gs)) gs))"
  using assms
proof (induction gs arbitrary: k)
  case (Cons x xs)
  let ?f = "\<lambda>k. filter (\<lambda>h. quota_row P g h \<and> g_id h \<notin> set (gc_select P r c k xs)) xs"
  have in_xs: "g_id y \<in> set (gc_select P r c k' xs) \<Longrightarrow> y \<in> set (x # xs) \<Longrightarrow> y \<in> set xs \<and> g_id y \<noteq> g_id x" for y k'
    using Cons.prems(2) gc_select_spared [of "g_id y" P r c k' xs] by (auto simp: image_iff)
  have IH: "r \<le> k' + int (length (?f k'))" if "g_id g \<in> set (gc_select P r c k' xs)" for k'
    using Cons.IH [of k'] Cons.prems(1,2,4) that in_xs [OF that Cons.prems(3)] by auto
  consider (prot) "g_id x \<in> P" | (keep) "g_id x \<notin> P" "g_state x = RETIRED" "k < r"
    | (young) "g_id x \<notin> P" "\<not> (g_state x = RETIRED \<and> k < r)" "generation_age x \<ge> c"
    | (doom) "g_id x \<notin> P" "\<not> (g_state x = RETIRED \<and> k < r)" "\<not> generation_age x \<ge> c" by blast
  then show ?case
  proof cases
    case prot
    with Cons.prems(5) IH [of k] show ?thesis by (simp add: quota_row_def)
  next
    case keep
    with Cons.prems(5) have sel: "g_id g \<in> set (gc_select P r c (k + 1) xs)" by simp
    have "generation_age x \<ge> generation_age g" using Cons.prems(1,3) by auto
    moreover have "g_id x \<notin> set (gc_select P r c (k + 1) xs)" using in_xs [of x] by auto
    ultimately show ?thesis using keep IH [OF sel] by (simp add: quota_row_def)
  next
    case young
    with Cons.prems(5) IH [of k] show ?thesis by auto
  next
    case doom
    show ?thesis
    proof (cases "g = x")
      case True
      then show ?thesis using doom Cons.prems(4) by simp
    next
      case False
      with Cons.prems(2,3,5) doom have sel: "g_id g \<in> set (gc_select P r c k xs)" by (auto simp: image_iff)
      have "filter (\<lambda>h. quota_row P g h \<and> g_id h \<notin> set (gc_select P r c k (x # xs))) xs = ?f k"
        using doom Cons.prems(2) by (intro filter_cong) (auto simp: image_iff)
      then show ?thesis using IH [OF sel] doom by auto
    qed
  qed
qed simp

lemma collectable_sorted: "sorted_wrt (\<lambda>a b. generation_age a \<ge> generation_age b) (collectable_rows d)"
proof -
  have "sorted_wrt (\<lambda>a b. generation_age a \<le> generation_age b)
      (sort_key generation_age (filter (\<lambda>g. g_state g \<in> {RETIRED, FAILED}) (db_generations d)))"
    using sorted_sort_key by (simp add: sorted_map)
  then show ?thesis unfolding collectable_rows_def sorted_wrt_rev .
qed

lemma set_collectable: "set (collectable_rows d) = {g \<in> set (db_generations d). g_state g \<in> {RETIRED, FAILED}}"
  by (auto simp: collectable_rows_def)

lemma collectable_distinct: "ids_ok d \<Longrightarrow> distinct (map g_id (collectable_rows d))"
  by (auto simp: ids_ok_def collectable_rows_def distinct_map inj_on_def)

lemma gc_rows: "gc w now days retain d = Inr (d', doomed) \<Longrightarrow>
    db_generations d' = filter (\<lambda>g. g_id g \<notin> set doomed) (db_generations d)"
  using gc_effect(2) by (fastforce simp: same_state_def delete_generations_def)

text \<open>
  C23. Garbage collection keeps what it must. A collection from a reachable state removes exactly the
  generations it names. Each of them was retired or failed, is past its retention, and is neither the active
  nor the previous generation; and when a retired one goes, the retention number is already met by the
  previous generation together with retired ones no older that stay.
\<close>

theorem gc_retention:
  assumes "reachable mgr sha d" and "gc w now days retain d = Inr (d', doomed)"
  shows "db_generations d' = filter (\<lambda>g. g_id g \<notin> set doomed) (db_generations d)
     \<and> (\<forall>g\<in>set (db_generations d). g_id g \<in> set doomed \<longrightarrow>
          g_state g \<in> {RETIRED, FAILED} \<and> tenant_active d \<noteq> Some (g_id g) \<and> tenant_previous d \<noteq> Some (g_id g)
          \<and> generation_age g < (case now of None \<Rightarrow> w_now w | Some t \<Rightarrow> t) - days * day_length
          \<and> (g_state g = RETIRED \<longrightarrow> retain \<le> (if tenant_previous d = None then 0 else 1)
               + int (length (filter (\<lambda>h. g_state h = RETIRED \<and> tenant_previous d \<noteq> Some (g_id h)
                    \<and> generation_age h \<ge> generation_age g) (db_generations d')))))"
proof (intro conjI ballI impI)
  have ok: "db_ok sha d" using reachable_ok [OF assms(1)] .
  then have ids: "ids_ok d" by (simp add: db_ok_def)
  show rows: "db_generations d' = filter (\<lambda>g. g_id g \<notin> set doomed) (db_generations d)" using gc_rows [OF assms(2)] .
  let ?k = "if tenant_previous d = None then 0 else 1 :: int"
  let ?c = "(case now of None \<Rightarrow> w_now w | Some t \<Rightarrow> t) - days * day_length"
  have sel: "doomed = gc_select (protected_generations d) retain ?c ?k (collectable_rows d)" using gc_effect(1) [OF assms(2)] .
  fix g assume g: "g \<in> set (db_generations d)" "g_id g \<in> set doomed"
  then obtain h where h: "h \<in> set (collectable_rows d)" "g_id h = g_id g" "generation_age h < ?c"
    and free: "g_id g \<notin> protected_generations d" using gc_select_spared unfolding sel by metis
  have "h = g" using generation_unique [of d h g] ok h g by (auto simp: db_ok_def set_collectable)
  with h have coll: "g \<in> set (collectable_rows d)" and age: "generation_age g < ?c" by auto
  show "g_state g \<in> {RETIRED, FAILED}" using coll by (simp add: set_collectable)
  show "tenant_active d \<noteq> Some (g_id g)" "tenant_previous d \<noteq> Some (g_id g)" using free protected_generations_iff by auto
  show "generation_age g < ?c" by (rule age)
  assume r: "g_state g = RETIRED"
  let ?P = "\<lambda>h. quota_row (protected_generations d) g h \<and> g_id h \<notin> set doomed"
  have "g_id g \<in> set (gc_select (protected_generations d) retain ?c ?k (collectable_rows d))" using g(2) sel by simp
  from gc_quota [OF collectable_sorted collectable_distinct [OF ids] coll r this]
  have "retain \<le> ?k + int (length (filter ?P (collectable_rows d)))" by (simp only: sel [symmetric])
  moreover have "length (filter ?P (collectable_rows d)) = length (filter ?P (db_generations d))"
  proof -
    have "mset (collectable_rows d) = mset (filter (\<lambda>g. g_state g \<in> {RETIRED, FAILED}) (db_generations d))"
      by (simp add: collectable_rows_def)
    from length_filter_perm [OF this] have "length (filter ?P (collectable_rows d))
        = length (filter ?P (filter (\<lambda>g. g_state g \<in> {RETIRED, FAILED}) (db_generations d)))" .
    moreover have "filter ?P (filter (\<lambda>g. g_state g \<in> {RETIRED, FAILED}) (db_generations d)) = filter ?P (db_generations d)"
      unfolding filter_filter by (rule filter_cong) (auto simp: quota_row_def)
    ultimately show ?thesis by (simp only:)
  qed
  moreover have "filter ?P (db_generations d) = filter (\<lambda>h. g_state h = RETIRED \<and> tenant_previous d \<noteq> Some (g_id h)
      \<and> generation_age h \<ge> generation_age g) (db_generations d')"
    unfolding rows filter_filter using ok
    by (intro filter_cong) (auto simp: quota_row_def protected_generations_iff db_ok_def pointers_ok_def)
  ultimately show "retain \<le> ?k + int (length (filter (\<lambda>h. g_state h = RETIRED \<and> tenant_previous d \<noteq> Some (g_id h)
      \<and> generation_age h \<ge> generation_age g) (db_generations d')))" by simp
qed

definition demo_collected :: db where
  "demo_collected = fst (projr (gc demo_world (Some 1000) 0 0 demo_serving3))"

lemma demo_gc: "gc demo_world (Some 1000) 0 0 demo_serving3 = Inr (demo_collected, [''g1''])"
  by code_simp

theorem gc_retention_witness:
  "db_generations demo_collected = filter (\<lambda>g. g_id g \<notin> set [''g1'']) (db_generations demo_serving3)
   \<and> (\<exists>g\<in>set (db_generations demo_serving3). g_id g = ''g1'' \<and> g_state g \<in> {RETIRED, FAILED}
        \<and> tenant_active demo_serving3 \<noteq> Some ''g1'' \<and> generation_age g < 1000)"
proof -
  have "\<exists>g\<in>set (db_generations demo_serving3). g_id g = ''g1''" by code_simp
  then show ?thesis using gc_retention [OF demo_reachable(3) demo_gc] by fastforce
qed

section \<open>Sparse rows of shared chunk ids\<close>

text \<open>
  A copied chunk keeps its chunk id, and sparse rows are kept by chunk id alone. So collecting a
  generation deletes the sparse rows of every chunk id it held, also of the chunks that a remaining
  generation, the active one included, reused from it: the chunk stays and its sparse row is gone.
\<close>

theorem gc_drops_live_sparse_rows:
  assumes "gc w now days retain d = Inr (d', doomed)"
    and "c \<in> set (db_chunks d)" and "c_generation c \<notin> set doomed"
    and "k \<in> set (db_chunks d)" and "c_generation k \<in> set doomed" and "c_chunk_id k = c_chunk_id c"
  shows "c \<in> set (db_chunks d') \<and> (\<forall>rows. db_sparse d' = Some rows \<longrightarrow> c_chunk_id c \<notin> set rows)"
proof -
  have ne: "doomed \<noteq> []" using assms(5) by auto
  let ?ids = "map c_chunk_id (filter (\<lambda>c. c_generation c \<in> set doomed) (db_chunks d))"
  have id: "c_chunk_id c \<in> set ?ids" using assms(4-6) by (force simp: image_iff)
  then have "?ids \<noteq> []" by (metis empty_iff empty_set)
  moreover from assms(1) ne have d': "d' = audit w ''generation_gc'' None None (GenerationsPayload doomed)
      (scrub_sparse_rows ?ids (delete_generations (set doomed) d))"
    by (auto simp: gc_def Let_def split: if_splits)
  ultimately show ?thesis using assms(2,3) id
    by (auto simp: scrub_sparse_rows_def delete_generations_def split: option.splits)
qed

theorem gc_drops_live_sparse_rows_witness:
  "db_sparse demo_serving3 = Some [''k''] \<and> active_generation_id demo_serving3 = Inr (c_generation (db_chunks demo_serving3 ! 1))
   \<and> db_chunks demo_serving3 ! 1 \<in> set (db_chunks demo_collected)
   \<and> c_chunk_id (db_chunks demo_serving3 ! 1) \<notin> set (the (db_sparse demo_collected))"
proof -
  have held: "db_chunks demo_serving3 ! 1 \<in> set (db_chunks demo_serving3)" "c_generation (db_chunks demo_serving3 ! 1) \<notin> set [''g1'']"
    "db_chunks demo_serving3 ! 0 \<in> set (db_chunks demo_serving3)" "c_generation (db_chunks demo_serving3 ! 0) \<in> set [''g1'']"
    "c_chunk_id (db_chunks demo_serving3 ! 0) = c_chunk_id (db_chunks demo_serving3 ! 1)"
    by code_simp+
  have "db_sparse demo_serving3 = Some [''k''] \<and> active_generation_id demo_serving3 = Inr (c_generation (db_chunks demo_serving3 ! 1))"
    by code_simp
  moreover have "db_sparse demo_collected \<noteq> None" by code_simp
  ultimately show ?thesis using gc_drops_live_sparse_rows [OF demo_gc held] by auto
qed

section \<open>Validation settles\<close>

lemma builders_raise_their_own [simp]:
  "build_semantic_graph w chunks gid pf cf \<noteq> Inl (StepPrecondition s)"
  "persist_dependency_projection w d chunks gid cf \<noteq> Inl (StepPrecondition s)"
  by (cases "w_graph w chunks gid pf cf"; simp add: build_semantic_graph_def)
    (cases "w_dependency w d chunks gid cf"; simp add: persist_dependency_projection_def)

lemma validate_error_is_not_a_precondition:
  assumes "find_generation gid d = Some g" "g_state g = VALIDATING" "validate_body w gid d = Inl e"
  shows "e \<noteq> StepPrecondition s"
  using assms
  by (auto simp: validate_body_def Let_def check_sources_def check_lineage_def ready_marker_def
      validate_graph_def write_semantic_graph_def require_generation_def and_then_def
      split: option.splits if_splits sum.splits prod.splits)

lemma find_after_update:
  assumes "find_generation gid d = Some g" "\<And>h. g_id (f h) = g_id h"
  shows "find_generation gid (update_generation gid (\<lambda>_. True) f d) = Some (f g)"
proof -
  have "find (\<lambda>g. g_id g = gid) (map (\<lambda>g. if g_id g = gid \<and> True then f g else g) gs)
      = map_option f (find (\<lambda>g. g_id g = gid) gs)" for gs
    by (induction gs) (auto simp: assms(2))
  then show ?thesis using assms(1) by (simp add: find_generation_def update_generation_def)
qed

lemma others_updated:
  "filter (\<lambda>h. g_id h \<noteq> gid) (db_generations (update_generation gid P f d)) = filter (\<lambda>h. g_id h \<noteq> gid) (db_generations d)"
  if "\<And>h. g_id (f h) = g_id h"
proof -
  have "filter (\<lambda>h. g_id h \<noteq> gid) (map (\<lambda>g. if g_id g = gid \<and> P g then f g else g) gs) = filter (\<lambda>h. g_id h \<noteq> gid) gs" for gs
    by (induction gs) (auto simp: that)
  then show ?thesis by (simp add: update_generation_def)
qed

lemma group_counts:
  "sum_list (map (\<lambda>(u, s, v, n). n) (source_groups gid d)) = length (filter (\<lambda>c. c_generation c = gid) (db_chunks d))"
proof -
  let ?xs = "filter (\<lambda>c. c_generation c = gid) (db_chunks d)"
  have "map (\<lambda>(u, s, v, n). n) (source_groups gid d) = map (\<lambda>u. length (filter (\<lambda>c. c_source_uri c = u) ?xs)) (sources_of gid d)"
    by (auto simp: source_groups_def Let_def comp_def intro!: arg_cong [where f = length] filter_cong)
  then have "sum_list (map (\<lambda>(u, s, v, n). n) (source_groups gid d))
      = (\<Sum>u\<in>set (sources_of gid d). length (filter (\<lambda>c. c_source_uri c = u) ?xs))"
    by (simp add: sum_list_distinct_conv_sum_set sources_of_def)
  also have "\<dots> = length ?xs" by (rule sum_of_groups) (auto simp: sources_of_def)
  finally show ?thesis .
qed

text \<open>
  A validation settles its generation. Called on a validating generation, it either returns, and the
  generation is ready, its rows are of exactly the sources the build recorded and the two counts returned are
  those of its sources and chunks; or it raises, and the generation has failed. No other generation changes.
\<close>

theorem validation_settles:
  assumes "find_generation gid d = Some g" and "g_state g = VALIDATING" and "validate w gid d = (d', res)"
  shows "(\<exists>g'. find_generation gid d' = Some g' \<and> g_state g' = (case res of Inl _ \<Rightarrow> FAILED | Inr _ \<Rightarrow> READY))
     \<and> (\<forall>n k. res = Inr (n, k) \<longrightarrow> (\<exists>s. g_summary g = Some s \<and> set (sources_of gid d) = set (bs_indexed_sources s))
          \<and> n = length (sources_of gid d) \<and> k = length (filter (\<lambda>c. c_generation c = gid) (db_chunks d)))
     \<and> filter (\<lambda>h. g_id h \<noteq> gid) (db_generations d') = filter (\<lambda>h. g_id h \<noteq> gid) (db_generations d)"
proof (cases "validate_body w gid d")
  case (Inl e)
  have "\<forall>s. e \<noteq> StepPrecondition s" using validate_error_is_not_a_precondition [OF assms(1,2) Inl] by blast
  moreover obtain d1 where d1: "fail w gid (take 2000 (error_text e)) d = Inr d1"
    using assms(1,2) by (simp add: fail_def require_generation_def)
  ultimately have "fail_and_raise w gid e d = (d1, e)" by (cases e) (simp_all add: fail_and_raise_def)
  then have d': "d' = d1" "res = Inl e" using assms(3) Inl by (simp_all add: validate_def)
  have "d1 = audit w ''generation_failed'' (Some gid) None (ReasonPayload (take 2000 (take 2000 (error_text e))))
      (update_generation gid (\<lambda>_. True)
        (\<lambda>g. g\<lparr>g_state := FAILED, g_failure_reason := Some (take 2000 (take 2000 (error_text e)))\<rparr>) d)"
    using d1 assms(1,2) by (simp add: fail_def require_generation_def)
  then show ?thesis using find_after_update [OF assms(1)] d' others_updated by simp
next
  case (Inr p)
  obtain d1 counts where p: "p = (d1, counts)" by (cases p)
  with Inr assms(3) have d': "d' = d1" "res = Inr counts" by (simp_all add: validate_def)
  from validate_body_effect [OF Inr [unfolded p]] assms(1) obtain s marker graph e s1 s2 where
    sum: "g_summary g = Some s" "check_sources (bs_indexed_sources s) gid d = Inr ()"
    and v: "validate_graph w gid marker graph s d = Inr (e, s1)"
    and counts: "counts = (length (sources_of gid d), sum_list (map (\<lambda>(u, s, v, n). n) (source_groups gid d)))"
    and d1: "d1 = make_ready w gid s2 counts e" by auto
  have e: "find_generation gid e = Some g" "db_generations e = db_generations d"
    using validate_graph_rows [OF v] find_generation_cong [of e d] assms(1) by auto
  have "set (sources_of gid d) = set (bs_indexed_sources s)"
    using sum(2) by (simp add: check_sources_def Let_def split: if_splits)
  then show ?thesis using find_after_update [OF e(1)] d' d1 sum(1) counts group_counts others_updated e(2)
    by (auto simp: make_ready_def)
qed

definition demo_row :: generation_row where
  "demo_row = the (find_generation ''g1'' demo_built)"

theorem validation_settles_witness:
  "(\<exists>g'. find_generation ''g1'' demo_ready = Some g' \<and> g_state g' = READY)
   \<and> length (sources_of ''g1'' demo_built) = 1
   \<and> filter (\<lambda>h. g_id h \<noteq> ''g1'') (db_generations demo_ready) = filter (\<lambda>h. g_id h \<noteq> ''g1'') (db_generations demo_built)"
proof -
  have "find_generation ''g1'' demo_built = Some demo_row" "g_state demo_row = VALIDATING" by code_simp+
  from validation_settles [OF this demo_steps(4)] show ?thesis by auto
qed

end
