(* ===== verification/GenerationRecords.thy ===== *)
theory GenerationRecords
  imports GenerationExample
begin

text \<open>
  Removing a memo never silently brings back what it had retired: every claim a removed memo declares is
  written to the audit trail as a record, when a promotion leaves the memo out and when it is forgotten.
\<close>

section \<open>The scan and the records of its rows\<close>

lemma scan_row_present:
  assumes "r \<in> set rows" "map_of (row_metadata r) ''file'' = Some (PStr f)" "Some t \<in> set (supersedes_target_rows w (row_metadata r))"
  shows "\<exists>first vf vu. Row6 (PStr f) (PStr t) first (PStr (row_source r)) vf vu \<in> set (supersession_rows w rows)"
proof -
  let ?m = "row_metadata r" and ?cells = "concat (map (row_cells w) rows)"
  let ?k = "(Some f, Some t, row_source r, arrow_text w (py_get ?m ''valid_from''), arrow_text w (py_get ?m ''valid_until''))"
  have f: "arrow_text w (py_get ?m ''file'') = Some f" using assms(2) by (simp add: py_get_def dict_get_def)
  have "?k \<in> fst ` set (row_cells w r)"
    using assms(2,3) unfolding row_cells_def Let_def f [symmetric] by (force simp: image_iff)
  then have "?k \<in> set (map fst ?cells)" using assms(1) by (force simp: image_iff)
  then have "?k \<in> set (sort_key scan_order (remdups (map fst ?cells)))" by simp
  then show ?thesis unfolding supersession_rows_def Let_def by (force simp: image_iff)
qed

abbreviation recorded :: "supersession_row list \<Rightarrow> (string, string) dict \<times> (string, record_claim list) dict" where
  "recorded rows \<equiv> fold (\<lambda>row. record_row (parts_of_row row)) rows ([], [])"

lemma recorded_ok: "dict_ok (snd (recorded rows))"
  by (induction rows rule: rev_induct) (auto simp: record_row_def split: option.splits)

lemma record_row_grows:
  "map_of (snd acc) u = Some cl \<Longrightarrow> \<exists>cl'. map_of (snd (record_row p acc)) u = Some cl' \<and> set cl \<subseteq> set cl'"
  by (auto simp: record_row_def dict_get_def split: option.splits)

lemma recorded_claim:
  assumes "Row6 (PStr f) (PStr t) first (PStr u) vf vu \<in> set rows" "f \<noteq> []" "t \<noteq> []" "u \<noteq> []"
  shows "\<exists>cl. map_of (snd (recorded rows)) u = Some cl \<and> t \<in> fst ` set cl"
  using assms(1)
proof (induction rows rule: rev_induct)
  case (snoc x rows)
  show ?case
  proof (cases "x = Row6 (PStr f) (PStr t) first (PStr u) vf vu")
    case True
    then show ?thesis using assms(2-4) by (force simp: record_row_def nonempty_def image_iff)
  next
    case False
    with snoc obtain cl where cl: "map_of (snd (recorded rows)) u = Some cl" "t \<in> fst ` set cl" by auto
    from record_row_grows [OF cl(1), of "parts_of_row x"] cl(2) show ?thesis by (simp, blast)
  qed
qed simp

lemma record_of_claim:
  assumes "Row6 (PStr f) (PStr t) first (PStr u) vf vu \<in> set rows" "f \<noteq> []" "t \<noteq> []" "u \<noteq> []"
  shows "\<exists>r. map_of (by_source (records_from_rows kind rows)) u = Some r \<and> sr_kind r = kind \<and> sr_source r = u
     \<and> t \<in> fst ` set (sr_claims r)"
proof -
  obtain cl where cl: "map_of (snd (recorded rows)) u = Some cl" "t \<in> fst ` set cl" using recorded_claim [OF assms] by blast
  let ?rs = "records_from_rows kind rows"
  have rs: "set ?rs = (\<lambda>(s, found). \<lparr>sr_kind = kind, sr_file = dict_get (fst (recorded rows)) s [], sr_source = s,
      sr_claims = found\<rparr>) ` set (snd (recorded rows))"
    by (simp add: records_from_rows_def case_prod_beta Let_def)
  have in_rs: "u \<in> sr_source ` set ?rs" using map_of_SomeD [OF cl(1)] unfolding rs by force
  from map_of_fold_dict_set [OF in_rs, of "\<lambda>r. r" "[]"] obtain r where
    r: "r \<in> set ?rs" "sr_source r = u" "map_of (by_source ?rs) u = Some r" by (auto simp: by_source_def)
  then obtain found where found: "(u, found) \<in> set (snd (recorded rows))" "sr_claims r = found" "sr_kind r = kind"
    unfolding rs by auto
  then have "found = cl" using recorded_ok [of rows] cl(1) by (auto simp: dict_ok_def)
  then show ?thesis using r found cl(2) by auto
qed

section \<open>Removals\<close>

lemma pending_has_claim:
  assumes "Row6 (PStr f) (PStr t) first (PStr u) vf vu \<in> set rows" "f \<noteq> []" "t \<noteq> []" "u \<noteq> []" "u \<in> set sources"
  shows "\<exists>r\<in>set (pending_records rows sources withdraw standing). sr_kind r = record_kind_of withdraw
     \<and> sr_source r = u \<and> t \<in> fst ` set (sr_claims r)"
proof -
  obtain r where r: "map_of (by_source (records_from_rows (record_kind_of withdraw) rows)) u = Some r"
    "sr_kind r = record_kind_of withdraw" "sr_source r = u" "t \<in> fst ` set (sr_claims r)"
    using record_of_claim [OF assms(1-4), of "record_kind_of withdraw"] by blast
  then have "r \<in> set (pending_records rows sources withdraw standing)"
    using assms(5) by (auto simp: pending_records_def Let_def set_map_filter intro!: bexI [of _ u])
  with r show ?thesis by blast
qed

lemma by_source_source: "map_of (by_source rs) s = Some r \<Longrightarrow> sr_source r = s"
proof (induction rs rule: rev_induct)
  case (snoc x rs)
  show ?case
  proof (cases "sr_source x = s")
    case True
    then show ?thesis using snoc.prems by (simp add: by_source_def)
  next
    case False
    then have "map_of (by_source rs) s = Some r" using snoc.prems by (simp add: by_source_def)
    then show ?thesis by (rule snoc.IH)
  qed
qed (simp add: by_source_def)

lemma distinct_map_filter_inverse:
  assumes "\<And>x y. f x = Some y \<Longrightarrow> g y = x" "distinct xs"
  shows "distinct (map g (List.map_filter f xs))"
proof -
  have "map g (List.map_filter f xs) = filter (\<lambda>x. f x \<noteq> None) xs"
  proof (induction xs)
    case (Cons x xs)
    show ?case
    proof (cases "f x")
      case (Some y)
      then have "g y = x" by (rule assms(1))
      then show ?thesis using Cons Some by (simp add: List.map_filter_def)
    qed (use Cons in \<open>simp add: List.map_filter_def\<close>)
  qed (simp add: List.map_filter_def)
  then show ?thesis using assms(2) by simp
qed

lemma pending_distinct: "distinct (map sr_source (pending_records rows sources withdraw standing))"
  unfolding pending_records_def Let_def
  by (rule distinct_map_filter_inverse) (auto split: option.splits if_splits dest: by_source_source)

text \<open>The events a removal appends carry the pending records, in order.\<close>

lemma fold_audit_appends:
  "\<exists>events. db_audit (fold (\<lambda>x. audit w (ty x) (g x) (uri x) (p x)) xs d) = db_audit d @ events
     \<and> map ae_payload events = map p xs"
proof (induction xs arbitrary: d)
  case (Cons x xs)
  from Cons.IH [of "audit w (ty x) (g x) (uri x) (p x) d"] show ?case by (force simp: audit_def)
qed simp

text \<open>The source of a supersession record that an audit event holds.\<close>

definition record_source :: "audit_event \<Rightarrow> string option" where
  "record_source e = (case ae_payload e of RecordPayload scope r \<Rightarrow> Some (sr_source r) | _ \<Rightarrow> None)"

lemma removal_recorded:
  assumes "r \<in> set removed" "map_of (row_metadata r) ''file'' = Some (PStr f)" "f \<noteq> []" "row_source r = u" "u \<noteq> []"
    "u \<in> set sources" "Some t \<in> set (supersedes_target_rows w (row_metadata r))" "t \<noteq> []"
  shows "\<exists>before e after rec. db_audit (fst (pg_record_removals w scope removed sources withdraw d)) = db_audit d @ before @ e # after
     \<and> ae_payload e = RecordPayload scope rec \<and> sr_kind rec = record_kind_of withdraw \<and> sr_source rec = u
     \<and> t \<in> fst ` set (sr_claims rec) \<and> (\<forall>o' \<in> set (before @ after). record_source o' \<noteq> Some u)"
proof -
  obtain first vf vu where "Row6 (PStr f) (PStr t) first (PStr u) vf vu \<in> set (supersession_rows w removed)"
    using scan_row_present [OF assms(1,2,7)] assms(4) by blast
  let ?rs = "pending_records (supersession_rows w removed) sources withdraw (pg_records scope sources d)"
  from pending_has_claim [OF \<open>Row6 _ _ _ _ _ _ \<in> _\<close> assms(3,8,5,6), of withdraw "pg_records scope sources d"] obtain rec where
    rec: "rec \<in> set ?rs" "sr_kind rec = record_kind_of withdraw" "sr_source rec = u" "t \<in> fst ` set (sr_claims rec)" by blast
  obtain xs ys where split: "?rs = xs @ rec # ys" using rec(1) by (auto simp: in_set_conv_decomp)
  obtain events where events: "db_audit (fst (pg_record_removals w scope removed sources withdraw d)) = db_audit d @ events"
    "map ae_payload events = map (RecordPayload scope) (xs @ rec # ys)"
    using fold_audit_appends [of w "\<lambda>r. record_event_type (sr_kind r)" "\<lambda>r. None" "\<lambda>r. Some (sr_source r)" "RecordPayload scope" ?rs d]
    unfolding split [symmetric] by (auto simp: pg_record_removals_def Let_def)
  then obtain before e after where e: "events = before @ e # after" "map ae_payload before = map (RecordPayload scope) xs"
    "ae_payload e = RecordPayload scope rec" "map ae_payload after = map (RecordPayload scope) ys"
    by (auto simp: map_eq_append_conv map_eq_Cons_conv)
  have source: "record_source ` set es = (Some \<circ> sr_source) ` set zs" if "map ae_payload es = map (RecordPayload scope) zs" for es zs
  proof -
    have "map record_source es = map (\<lambda>p. case p of RecordPayload s r \<Rightarrow> Some (sr_source r) | _ \<Rightarrow> None) (map ae_payload es)"
      by (simp add: record_source_def)
    also have "\<dots> = map (Some \<circ> sr_source) zs" unfolding that by simp
    finally show ?thesis by (metis list.set_map)
  qed
  have "u \<notin> sr_source ` set (xs @ ys)" using pending_distinct [of "supersession_rows w removed" sources withdraw "pg_records scope sources d"] rec(3)
    unfolding split by auto
  then have "\<forall>o' \<in> set (before @ after). record_source o' \<noteq> Some u"
  proof -
    assume u: "u \<notin> sr_source ` set (xs @ ys)"
    have "Some u \<notin> record_source ` set before" unfolding source [OF e(2)] using u by auto
    moreover have "Some u \<notin> record_source ` set after" unfolding source [OF e(4)] using u by auto
    ultimately show ?thesis by (metis UnE imageI set_append)
  qed
  then show ?thesis using events(1) e(1,3) rec(2-4) by blast
qed

lemma activate_audit: "activate_generation w gid (deactivate a s r d) = Inr d' \<Longrightarrow> db_audit d' = db_audit d"
  by (auto simp: activate_generation_def deactivate_def split: if_splits option.splits)

lemma promote_audit:
  assumes "promote_generation w mgr gid unsafe d = Inr (d', n)"
  shows "\<exists>e. db_audit d' = db_audit (fst (record_omitted_supersession w (tenant_active d) gid (ensure_tenant_row d))) @ [e]
     \<and> record_source e = None"
proof -
  obtain d1 om d3 ty where d1: "record_omitted_supersession w (tenant_active (ensure_tenant_row d)) gid (ensure_tenant_row d) = (d1, om)"
    and d3: "activate_generation w gid (deactivate (tenant_active (ensure_tenant_row d)) RETIRED (Some (w_now w)) d1) = Inr d3"
    and d': "d' = audit w ty (Some gid) None (PreviousPayload (tenant_active (ensure_tenant_row d)))
      (d3\<lparr>db_tenant := Some (Some gid, tenant_active (ensure_tenant_row d))\<rparr>)"
    using assms unfolding promote_generation_def Let_def by (auto split: if_splits prod.splits)
  show ?thesis using d1 activate_audit [OF d3] unfolding d' by (simp add: audit_def record_source_def)
qed

text \<open>
  C18. A promotion keeps retired what it leaves out. For every memo of the serving generation that the
  promoted one does not hold, the promotion appends to the audit trail one record of that memo, a forgotten claim that
  holds each reference the memo's chunks declare under supersedes. The events appended by the promotion follow
  all earlier ones, and no other of them is a record of the memo, so this is the latest that a reader finds.
\<close>

theorem promotion_records_omitted_claims:
  assumes "reachable mgr sha d" and "promote_generation w mgr gid unsafe d = Inr (d', n)" and "active_generation_id d = Inr a"
    and "c \<in> set (db_chunks d)" and "c_generation c = a" and "c_source_uri c = u" and "u \<noteq> []"
    and "\<forall>k\<in>set (db_chunks d). c_generation k = gid \<longrightarrow> c_source_uri k \<noteq> u"
    and "map_of (c_metadata c) ''file'' = Some (PStr f)" and "f \<noteq> []"
    and "Some t \<in> set (supersedes_target_rows w (c_metadata c))" and "t \<noteq> []"
  shows "\<exists>before e after rec. db_audit d' = db_audit d @ before @ e # after \<and> ae_payload e = RecordPayload ''recall_chunks_v1'' rec
     \<and> sr_kind rec = Forgotten \<and> sr_source rec = u \<and> t \<in> fst ` set (sr_claims rec)
     \<and> (\<forall>o' \<in> set (before @ after). record_source o' \<noteq> Some u)"
proof -
  have ok: "db_ok sha d" using reachable_ok [OF assms(1)] .
  have act: "tenant_active d = Some a" using assms(3) by (simp add: active_generation_id_def split: option.splits)
  from promote_effect [OF assms(2)] obtain g where g: "find_generation gid d = Some g" "g_state g = READY" by blast
  have ne: "a \<noteq> gid" using ok act g(2) find_generation_some [OF g(1)] by (auto simp: db_ok_def pointers_ok_def)
  let ?e = "ensure_tenant_row d"
  let ?om = "filter (\<lambda>u. u \<notin> set (sources_of gid ?e)) (sources_of a ?e)"
  have u: "u \<in> set ?om" using assms(4-6,8) by (auto simp: sources_of_def)
  then have "?om \<noteq> []" by (metis empty_iff empty_set)
  then have r: "record_omitted_supersession w (tenant_active d) gid ?e
      = pg_record_removals w chunk_scope (scoped_rows a ?om ?e) ?om False ?e"
    using act ne by (simp add: record_omitted_supersession_def Let_def)
  have row: "stored_of_chunk c \<in> set (scoped_rows a ?om ?e)" using assms(4-6) u by (auto simp: scoped_rows_def)
  have meta: "map_of (row_metadata (stored_of_chunk c)) ''file'' = Some (PStr f)" "row_source (stored_of_chunk c) = u"
    "Some t \<in> set (supersedes_target_rows w (row_metadata (stored_of_chunk c)))"
    using assms(6,9,11) by (simp_all add: stored_of_chunk_def)
  from removal_recorded [OF row meta(1) assms(10) meta(2) assms(7) u meta(3) assms(12), of chunk_scope False ?e]
  obtain before e after rec where
    b: "db_audit (fst (pg_record_removals w chunk_scope (scoped_rows a ?om ?e) ?om False ?e)) = db_audit ?e @ before @ e # after"
    "ae_payload e = RecordPayload chunk_scope rec" "sr_kind rec = record_kind_of False" "sr_source rec = u"
    "t \<in> fst ` set (sr_claims rec)" "\<forall>o' \<in> set (before @ after). record_source o' \<noteq> Some u" by blast
  obtain z where z: "db_audit d' = db_audit ?e @ before @ e # (after @ [z])" "record_source z = None"
    using promote_audit [OF assms(2)] b(1) r by auto
  have "db_audit ?e = db_audit d" by simp
  then show ?thesis using z b(2-6) by (intro exI [of _ before] exI [of _ e] exI [of _ "after @ [z]"] exI [of _ rec])
    (auto simp: chunk_scope_def record_kind_of_def)
qed

definition demo_memo :: chunk_row where
  "demo_memo = hd (db_chunks demo_ready2)"

theorem promotion_records_omitted_claims_witness:
  "\<exists>before e after rec. db_audit demo_serving2 = db_audit demo_ready2 @ before @ e # after
     \<and> ae_payload e = RecordPayload ''recall_chunks_v1'' rec \<and> sr_kind rec = Forgotten
     \<and> sr_source rec = ''file:///a.md'' \<and> ''b.md'' \<in> fst ` set (sr_claims rec)"
proof -
  have act: "active_generation_id demo_ready2 = Inr ''g1''" by code_simp
  have memo: "demo_memo \<in> set (db_chunks demo_ready2)" "c_generation demo_memo = ''g1''"
    "c_source_uri demo_memo = ''file:///a.md''" "''file:///a.md'' \<noteq> ([] :: string)"
    "\<forall>k\<in>set (db_chunks demo_ready2). c_generation k = ''g2'' \<longrightarrow> c_source_uri k \<noteq> ''file:///a.md''"
    "map_of (c_metadata demo_memo) ''file'' = Some (PStr ''a.md'')" "''a.md'' \<noteq> ([] :: string)"
    "Some ''b.md'' \<in> set (supersedes_target_rows demo_world (c_metadata demo_memo))" "''b.md'' \<noteq> ([] :: string)"
    by code_simp+
  from promotion_records_omitted_claims [OF demo_reachable(1) demo_steps2(4) act memo] show ?thesis by blast
qed

end
