(* ===== verification/RateLimit.thy ===== *)
theory RateLimit
  imports PyString
begin

text \<open>
  The budgets of a tenant, from \<open>src/recall_mcp/limits.py\<close>: token buckets, the limiter of one process, the
  throttle of failed authentications, and the limits as an operator's environment sets them. Every bucket is
  read and written under a lock, so a history of the limiter is a sequence of checks, each with the clock
  reading it took inside the lock. Tokens, costs and seconds are exact reals.
\<close>

section \<open>Refusals\<close>

text \<open>Why a budget refuses: the three messages of \<open>RateLimited\<close>, which carries the seconds to wait.\<close>

datatype refusal = Oversized | Exhausted | KeyReused

datatype limit_error =
    RateLimited refusal real
  | RateLimiterUnavailable real
  | IdempotencyReplay string
  | IdempotencyResultMissing string
  | IdempotencyConflict

section \<open>Buckets\<close>

record rate =
  capacity :: real
  per_second :: real

definition make_rate :: "real \<Rightarrow> real \<Rightarrow> rate result" where
  "make_rate c p = (if c \<le> 0 \<or> p \<le> 0 then Inl (ValueError ''capacity and per_second must both be > 0'')
     else Inr \<lparr>capacity = c, per_second = p\<rparr>)"

definition rate_ok :: "rate \<Rightarrow> bool" where
  "rate_ok r \<longleftrightarrow> 0 < capacity r \<and> 0 < per_second r"

definition reject_oversized_cost :: "real \<Rightarrow> rate \<Rightarrow> limit_error + unit" where
  "reject_oversized_cost cost r = (if cost > capacity r then Inl (RateLimited Oversized 0) else Inr ())"

record bucket =
  bk_rate :: rate
  bk_tokens :: real
  bk_updated :: real

text \<open>A fresh bucket is full.\<close>

definition new_bucket :: "rate \<Rightarrow> real \<Rightarrow> bucket" where
  "new_bucket r now = \<lparr>bk_rate = r, bk_tokens = capacity r, bk_updated = now\<rparr>"

definition refill :: "bucket \<Rightarrow> real \<Rightarrow> bucket" where
  "refill b now = b\<lparr>bk_updated := max (bk_updated b) now,
     bk_tokens := min (capacity (bk_rate b)) (bk_tokens b + max 0 (now - bk_updated b) * per_second (bk_rate b))\<rparr>"

text \<open>
  \<open>take\<close>: refill, refuse a cost that no refill admits, debit, or say how long to wait. The refilled bucket is kept
  whatever the outcome.
\<close>

definition bucket_take :: "bucket \<Rightarrow> real \<Rightarrow> real \<Rightarrow> (limit_error + real) \<times> bucket" where
  "bucket_take b0 cost now = (let b = refill b0 now in
     (case reject_oversized_cost cost (bk_rate b) of
        Inl e \<Rightarrow> (Inl e, b)
      | Inr _ \<Rightarrow> if bk_tokens b \<ge> cost then (Inr 0, b\<lparr>bk_tokens := bk_tokens b - cost\<rparr>)
          else (Inr ((cost - bk_tokens b) / per_second (bk_rate b)), b)))"

definition bucket_level :: "bucket \<Rightarrow> real \<Rightarrow> real \<times> bucket" where
  "bucket_level b now = (let b = refill b now in (bk_tokens b, b))"

definition bucket_drain :: "bucket \<Rightarrow> real \<Rightarrow> real \<Rightarrow> bucket" where
  "bucket_drain b0 cost now = (let b = refill b0 now in b\<lparr>bk_tokens := max 0 (bk_tokens b - cost)\<rparr>)"

definition bucket_refund :: "bucket \<Rightarrow> real \<Rightarrow> real \<Rightarrow> bucket" where
  "bucket_refund b0 cost now =
     (let b = refill b0 now in b\<lparr>bk_tokens := min (capacity (bk_rate b)) (bk_tokens b + cost)\<rparr>)"

section \<open>The limiter of one process\<close>

record limiter =
  rl_rates :: "(string, rate) dict"
  rl_buckets :: "(string \<times> string, bucket) dict"

definition make_limiter :: "(string, rate) dict \<Rightarrow> limiter" where
  "make_limiter rates = \<lparr>rl_rates = rates, rl_buckets = []\<rparr>"

definition bucket_for :: "limiter \<Rightarrow> string \<times> string \<Rightarrow> rate \<Rightarrow> real \<Rightarrow> bucket" where
  "bucket_for l tk r now = (case map_of (rl_buckets l) tk of Some b \<Rightarrow> b | None \<Rightarrow> new_bucket r now)"

text \<open>
  \<open>check\<close>: a key without a rate is unlimited, and nothing is metered for a cost that is not positive. The cost
  that can never fit is refused before a bucket is touched.
\<close>

definition check :: "limiter \<Rightarrow> string \<Rightarrow> string \<Rightarrow> real \<Rightarrow> real \<Rightarrow> (limit_error + unit) \<times> limiter" where
  "check l tenant key cost now = (case map_of (rl_rates l) key of
     None \<Rightarrow> (Inr (), l)
   | Some r \<Rightarrow> if cost \<le> 0 then (Inr (), l)
       else (case reject_oversized_cost cost r of
         Inl e \<Rightarrow> (Inl e, l)
       | Inr _ \<Rightarrow> (let (waited, b) = bucket_take (bucket_for l (tenant, key) r now) cost now;
             l' = l\<lparr>rl_buckets := dict_set (tenant, key) b (rl_buckets l)\<rparr> in
           (case waited of
              Inl e \<Rightarrow> (Inl e, l')
            | Inr w \<Rightarrow> if w > 0 then (Inl (RateLimited Exhausted w), l') else (Inr (), l')))))"

section \<open>The throttle of failed authentications\<close>

record throttle =
  ft_rate :: "rate option"
  ft_bucket :: "bucket option"

definition make_throttle :: "rate option \<Rightarrow> throttle" where
  "make_throttle r = \<lparr>ft_rate = r, ft_bucket = None\<rparr>"

definition throttle_bucket :: "throttle \<Rightarrow> rate \<Rightarrow> real \<Rightarrow> bucket" where
  "throttle_bucket t r now = (case ft_bucket t of Some b \<Rightarrow> b | None \<Rightarrow> new_bucket r now)"

definition throttle_allow :: "throttle \<Rightarrow> real \<Rightarrow> bool \<times> throttle" where
  "throttle_allow t now = (case ft_rate t of
     None \<Rightarrow> (True, t)
   | Some r \<Rightarrow> (let (level, b) = bucket_level (throttle_bucket t r now) now in (level \<ge> 1, t\<lparr>ft_bucket := Some b\<rparr>)))"

definition record_failure :: "throttle \<Rightarrow> real \<Rightarrow> throttle" where
  "record_failure t now = (case ft_rate t of
     None \<Rightarrow> t
   | Some r \<Rightarrow> t\<lparr>ft_bucket := Some (bucket_drain (throttle_bucket t r now) 1 now)\<rparr>)"

definition reserve :: "throttle \<Rightarrow> real \<Rightarrow> bool \<times> throttle" where
  "reserve t now = (case ft_rate t of
     None \<Rightarrow> (True, t)
   | Some r \<Rightarrow> (let (level, b) = bucket_level (throttle_bucket t r now) now in
       if level < 1 then (False, t\<lparr>ft_bucket := Some b\<rparr>)
       else (True, t\<lparr>ft_bucket := Some (bucket_drain b 1 now)\<rparr>)))"

definition throttle_refund :: "throttle \<Rightarrow> real \<Rightarrow> throttle" where
  "throttle_refund t now = (case ft_rate t of
     None \<Rightarrow> t
   | Some r \<Rightarrow> (case ft_bucket t of
       None \<Rightarrow> t
     | Some b \<Rightarrow> t\<lparr>ft_bucket := Some (bucket_refund b 1 now)\<rparr>))"

section \<open>Numbers in the environment\<close>

text \<open>
  \<open>float(s)\<close>: white space around it, underscores only between digits, a sign, then \<open>inf\<close>, \<open>infinity\<close>, \<open>nan\<close> or a
  decimal with an optional exponent. A magnitude that rounds past the largest double is an infinity and one
  that rounds below the least is zero; in between the exact value is kept. None is \<open>ValueError\<close>.
\<close>

definition float_space :: "char \<Rightarrow> bool" where
  "float_space c \<longleftrightarrow> code c \<in> {9, 10, 11, 12, 13, 32, 133, 160}"

abbreviation is_digit :: "char \<Rightarrow> bool" where
  "is_digit c \<equiv> digit_val c \<noteq> None"

fun drop_underscores :: "char \<Rightarrow> string \<Rightarrow> string option" where
  "drop_underscores prev [] = (if prev = CHR ''_'' then None else Some [])"
| "drop_underscores prev (c # cs) =
     (if c = CHR ''_'' then (if is_digit prev then drop_underscores c cs else None)
      else if prev = CHR ''_'' \<and> \<not> is_digit c then None
      else map_option (Cons c) (drop_underscores c cs))"

definition digits_value :: "string \<Rightarrow> int" where
  "digits_value ds = foldl (\<lambda>n d. 10 * n + (case digit_val d of Some v \<Rightarrow> v | None \<Rightarrow> 0)) 0 ds"

definition signed_digits :: "string \<Rightarrow> int option" where
  "signed_digits s = (let (neg, ds) = (case s of
       c # cs \<Rightarrow> if c = CHR ''-'' then (True, cs) else if c = CHR ''+'' then (False, cs) else (False, s)
     | [] \<Rightarrow> (False, [])) in
     if ds = [] \<or> list_ex (\<lambda>c. \<not> is_digit c) ds then None
     else Some (if neg then - digits_value ds else digits_value ds))"

definition scale10 :: "int \<Rightarrow> int \<Rightarrow> real" where
  "scale10 n e = (if e \<ge> 0 then of_int n * 10 ^ nat e else of_int n / 10 ^ nat (- e))"

definition decimal_value :: "string \<Rightarrow> real option" where
  "decimal_value s =
     (let ip = takeWhile is_digit s; r = dropWhile is_digit s;
          dot = (case r of c # _ \<Rightarrow> c = CHR ''.'' | [] \<Rightarrow> False);
          fp = (if dot then takeWhile is_digit (tl r) else []);
          rest = (if dot then dropWhile is_digit (tl r) else r) in
      if ip @ fp = [] then None
      else (case rest of
        [] \<Rightarrow> Some (scale10 (digits_value (ip @ fp)) (- int (length fp)))
      | c # cs \<Rightarrow> if lower_char c \<noteq> CHR ''e'' then None
          else map_option (\<lambda>e. scale10 (digits_value (ip @ fp)) (e - int (length fp))) (signed_digits cs)))"

definition round_magnitude :: "real \<Rightarrow> pyfloat" where
  "round_magnitude v = (if v \<ge> 2 ^ 1024 - 2 ^ 970 then PInf else if v \<le> 1 / 2 ^ 1075 then Fin 0 else Fin v)"

fun flt_neg :: "pyfloat \<Rightarrow> pyfloat" where
  "flt_neg (Fin r) = Fin (- r)"
| "flt_neg PInf = NInf"
| "flt_neg NInf = PInf"
| "flt_neg NaN = NaN"

definition unsigned_float :: "string \<Rightarrow> pyfloat option" where
  "unsigned_float s =
     (if py_lower s \<in> {''inf'', ''infinity''} then Some PInf
      else if py_lower s = ''nan'' then Some NaN
      else map_option round_magnitude (decimal_value s))"

definition py_float :: "string \<Rightarrow> pyfloat option" where
  "py_float raw = (case drop_underscores (CHR '' '') (strip_by float_space raw) of
     None \<Rightarrow> None
   | Some [] \<Rightarrow> None
   | Some (c # cs) \<Rightarrow> if c = CHR ''-'' then map_option flt_neg (unsigned_float cs)
       else if c = CHR ''+'' then unsigned_float cs else unsigned_float (c # cs))"

section \<open>Limits from the environment\<close>

text \<open>
  \<open>_rate_from_env\<close>: only the word \<open>off\<close> disables a limit; what is malformed, not finite, not positive or too
  small to give a rate falls back to the default. A quotient below half the least double is zero.
\<close>

definition quotient :: "real \<Rightarrow> real \<Rightarrow> real" where
  "quotient v w = (if \<bar>v / w\<bar> \<le> 1 / 2 ^ 1075 then 0 else v / w)"

definition usable_limit :: "real \<Rightarrow> pyfloat \<Rightarrow> real option" where
  "usable_limit window v = (case v of Fin x \<Rightarrow> if x \<le> 0 \<or> quotient x window \<le> 0 then None else Some x | _ \<Rightarrow> None)"

definition is_off :: "string \<Rightarrow> bool" where
  "is_off raw \<longleftrightarrow> py_lower (py_strip raw) = ''off''"

definition limit_value :: "string option \<Rightarrow> real \<Rightarrow> real \<Rightarrow> real" where
  "limit_value raw dflt window = (case raw of
     None \<Rightarrow> dflt
   | Some s \<Rightarrow> (case py_float s of
       None \<Rightarrow> dflt
     | Some v \<Rightarrow> (case usable_limit window v of None \<Rightarrow> dflt | Some x \<Rightarrow> x)))"

definition rate_from_env :: "(string \<rightharpoonup> string) \<Rightarrow> string \<Rightarrow> real \<Rightarrow> real \<Rightarrow> rate option result" where
  "rate_from_env env name dflt window =
     (case env name of
        Some raw \<Rightarrow> if is_off raw then Inr None
          else (let v = limit_value (Some raw) dflt window in and_then (make_rate v (quotient v window)) (\<lambda>r. Inr (Some r)))
      | None \<Rightarrow> and_then (make_rate dflt (quotient dflt window)) (\<lambda>r. Inr (Some r)))"

definition default_calls_per_min :: "(string, real) dict" where
  "default_calls_per_min = [(''read'', 120), (''write'', 20), (''forget'', 10), (''admin'', 10)]"

definition default_index_bytes_per_hour :: real where
  "default_index_bytes_per_hour = 200 * 1024 * 1024"

definition index_bytes_budget :: string where
  "index_bytes_budget = ''index_bytes''"

definition upper_char :: "char \<Rightarrow> char" where
  "upper_char c = (if 97 \<le> code c \<and> code c \<le> 122 then char_of (code c - 32) else c)"

definition scope_variable :: "string \<Rightarrow> string" where
  "scope_variable scope = ''RECALL_RATE_'' @ map upper_char scope @ ''_PER_MIN''"

definition add_rate :: "string \<Rightarrow> rate option \<Rightarrow> (string, rate) dict \<Rightarrow> (string, rate) dict" where
  "add_rate key r rates = (case r of None \<Rightarrow> rates | Some x \<Rightarrow> dict_set key x rates)"

fun scope_rates :: "(string \<rightharpoonup> string) \<Rightarrow> (string, real) dict \<Rightarrow> (string, rate) dict \<Rightarrow> (string, rate) dict result" where
  "scope_rates env [] rates = Inr rates"
| "scope_rates env ((scope, dflt) # rest) rates =
     and_then (rate_from_env env (scope_variable scope) dflt 60) (\<lambda>r. scope_rates env rest (add_rate scope r rates))"

definition limiter_rates_from_env :: "(string \<rightharpoonup> string) \<Rightarrow> (string, rate) dict result" where
  "limiter_rates_from_env env =
     and_then (scope_rates env default_calls_per_min []) (\<lambda>rates.
     and_then (rate_from_env env ''RECALL_INDEX_BYTES_PER_HOUR'' default_index_bytes_per_hour 3600) (\<lambda>r.
     Inr (add_rate index_bytes_budget r rates)))"

definition limiter_from_env :: "(string \<rightharpoonup> string) \<Rightarrow> limiter result" where
  "limiter_from_env env = and_then (limiter_rates_from_env env) (\<lambda>rates. Inr (make_limiter rates))"

definition failed_auth_throttle_from_env :: "(string \<rightharpoonup> string) \<Rightarrow> throttle result" where
  "failed_auth_throttle_from_env env =
     and_then (rate_from_env env ''RECALL_RATE_AUTH_FAILURES_PER_MIN'' 60 60) (\<lambda>r. Inr (make_throttle r))"

end
