(* ===== verification/RedisLimit.thy ===== *)
theory RedisLimit
  imports RateLimit
begin

text \<open>
  The limiter a fleet shares, from \<open>src/recall_mcp/limits.py\<close>: the Lua reservation that Redis runs atomically, the
  check around it with its answers to replays, conflicts and outages, the cached results and the release of a
  reservation, and the choice of the backend from the environment.

  Redis holds a key space: every key that the script writes has a value and a deadline in the server's
  milliseconds, after which it reads as absent. SHA-256 and the two JSON functions are fields of \<^emph>\<open>codec\<close>. What the
  network does to one call is an argument: the script ran and answered, never ran, or ran and its answer
  was lost.
\<close>

section \<open>The key space\<close>

datatype redis_value = Hash real int | Str string

type_synonym redis = "(string, redis_value \<times> int) dict"

definition redis_get :: "int \<Rightarrow> string \<Rightarrow> redis \<Rightarrow> redis_value option" where
  "redis_get now k s = (case map_of s k of Some (v, deadline) \<Rightarrow> if now < deadline then Some v else None | None \<Rightarrow> None)"

definition redis_set :: "int \<Rightarrow> int \<Rightarrow> string \<Rightarrow> redis_value \<Rightarrow> redis \<Rightarrow> redis" where
  "redis_set now ttl k v s = dict_set k (v, now + ttl) s"

section \<open>The reservation script\<close>

record script_args =
  sa_capacity :: real
  sa_refill :: real
  sa_cost :: real
  sa_ttl :: int
  sa_read_only :: bool
  sa_reservation :: string
  sa_reservation_ttl :: int

text \<open>The tokens at the server's instant: a bucket that is absent is full.\<close>

definition script_tokens :: "int \<Rightarrow> string \<Rightarrow> script_args \<Rightarrow> redis \<Rightarrow> real" where
  "script_tokens now bucket a s = (case redis_get now bucket s of
     Some (Hash tokens updated) \<Rightarrow> min (sa_capacity a) (tokens + of_int (max 0 (now - updated)) * sa_refill a / 1000)
   | _ \<Rightarrow> sa_capacity a)"

definition wait_ms :: "real \<Rightarrow> real \<Rightarrow> real \<Rightarrow> int" where
  "wait_ms cost tokens per_sec = \<lceil>(cost - tokens) / per_sec * 1000\<rceil>"

text \<open>
  The answer is allowed, milliseconds to wait, and whether the request key is a duplicate. A bucket key that holds
  a string makes \<open>HGET\<close> fail, and nothing is written.
\<close>

definition token_bucket_script ::
  "int \<Rightarrow> string \<Rightarrow> string \<Rightarrow> script_args \<Rightarrow> redis \<Rightarrow> (int \<times> int \<times> int) option \<times> redis" where
  "token_bucket_script now bucket idem a s =
     (case redis_get now bucket s of
        Some (Str _) \<Rightarrow> (None, s)
      | _ \<Rightarrow>
        (let tokens = script_tokens now bucket a s in
         if idem \<noteq> [] \<and> redis_get now idem s \<noteq> None then
           (let replay_cost = min 1 (sa_cost a) in
            if tokens < replay_cost then (Some (0, wait_ms replay_cost tokens (sa_refill a), 0), s)
            else (let s' = redis_set now (sa_ttl a) bucket (Hash (tokens - replay_cost) now) s in
              if sa_read_only a then (Some (1, 0, 1), s') else (Some (0, 0, 2), s')))
         else if sa_cost a > sa_capacity a then (Some (0, -1, 0), s)
         else if tokens < sa_cost a then (Some (0, wait_ms (sa_cost a) tokens (sa_refill a), 0), s)
         else (let s' = redis_set now (sa_ttl a) bucket (Hash (tokens - sa_cost a) now) s in
           (Some (1, 0, 0), if idem \<noteq> [] then redis_set now (sa_reservation_ttl a) idem (Str (sa_reservation a)) s' else s'))))"

section \<open>The limiter around it\<close>

record codec =
  cd_sha256 :: "string \<Rightarrow> string"
  cd_dumps :: "pyval \<Rightarrow> string"
  cd_loads :: "string \<Rightarrow> pyval option"

record redis_limiter =
  rz_rates :: "(string, rate) dict"
  rz_deployment :: string
  rz_prefix :: string
  rz_fallback_budget :: real
  rz_fallback :: limiter

definition safe_part :: "string \<Rightarrow> string result" where
  "safe_part v = (if v = [] \<or> length v > 128
     then Inl (ValueError ''rate limiter key components must be nonempty and at most 128 characters'') else Inr v)"

definition make_redis_limiter ::
  "(string, rate) dict \<Rightarrow> string \<Rightarrow> string \<Rightarrow> pyfloat \<Rightarrow> pyfloat \<Rightarrow> int \<Rightarrow> redis_limiter result" where
  "make_redis_limiter rates deployment key_prefix timeout budget connections =
     (case timeout of
        Fin t \<Rightarrow> if t \<le> 0 then Inl (ValueError ''timeout_seconds must be > 0'')
        else (case budget of
          Fin f \<Rightarrow> if f < 0 then Inl (ValueError ''fallback_read_budget must be >= 0'')
            else if connections \<le> 0 then Inl (ValueError ''max_connections must be > 0'')
            else and_then (safe_part deployment) (\<lambda>d. and_then (safe_part key_prefix) (\<lambda>p.
              and_then (if f \<noteq> 0 then and_then (make_rate f 1) (\<lambda>r. Inr [(''read'', r)]) else Inr []) (\<lambda>fallback.
              Inr \<lparr>rz_rates = rates, rz_deployment = d, rz_prefix = p, rz_fallback_budget = f,
                rz_fallback = make_limiter fallback\<rparr>)))
        | _ \<Rightarrow> Inl (ValueError ''fallback_read_budget must be >= 0''))
      | _ \<Rightarrow> Inl (ValueError ''timeout_seconds must be > 0''))"

definition tenant_base :: "codec \<Rightarrow> redis_limiter \<Rightarrow> string \<Rightarrow> string" where
  "tenant_base cd z tenant = rz_prefix z @ '':'' @ rz_deployment z @ '':'' @ cd_sha256 cd tenant @ '':''"

definition request_hash :: "codec \<Rightarrow> string \<Rightarrow> string" where
  "request_hash cd rid = cd_sha256 cd (cd_dumps cd (PStr rid))"

definition bucket_key :: "codec \<Rightarrow> redis_limiter \<Rightarrow> string \<Rightarrow> string \<Rightarrow> string" where
  "bucket_key cd z tenant budget = tenant_base cd z tenant @ budget"

definition idem_key :: "codec \<Rightarrow> redis_limiter \<Rightarrow> string \<Rightarrow> string \<Rightarrow> string" where
  "idem_key cd z tenant rid = tenant_base cd z tenant @ ''idempotency:'' @ request_hash cd rid"

text \<open>\<open>_keys\<close>: an absent or empty request id has no reservation key.\<close>

definition redis_keys :: "codec \<Rightarrow> redis_limiter \<Rightarrow> string \<Rightarrow> string \<Rightarrow> string option \<Rightarrow> (string \<times> string) result" where
  "redis_keys cd z tenant budget rid = and_then (safe_part budget) (\<lambda>b.
     Inr (bucket_key cd z tenant b, case rid of Some r \<Rightarrow> if r \<noteq> [] then idem_key cd z tenant r else [] | None \<Rightarrow> []))"

definition result_key :: "codec \<Rightarrow> redis_limiter \<Rightarrow> string \<Rightarrow> string \<Rightarrow> string" where
  "result_key cd z tenant rid = tenant_base cd z tenant @ ''idempotency-result:'' @ request_hash cd rid"

definition receipt_retention_seconds :: int where
  "receipt_retention_seconds = 48 * 60 * 60"

definition bucket_ttl :: "rate \<Rightarrow> int" where
  "bucket_ttl r = max 1000 \<lfloor>capacity r / per_second r * 2 * 1000\<rfloor>"

fun opt_str :: "string option \<Rightarrow> pyval" where
  "opt_str None = PNone"
| "opt_str (Some s) = PStr s"

definition reservation_text :: "codec \<Rightarrow> string option \<Rightarrow> string option \<Rightarrow> string option \<Rightarrow> string" where
  "reservation_text cd rid op fp = (case rid of
     Some r \<Rightarrow> if r \<noteq> [] then cd_dumps cd (PDict [(''operation'', opt_str op), (''request_fingerprint'', opt_str fp)]) else []
   | None \<Rightarrow> [])"

definition decode_idempotency_result :: "codec \<Rightarrow> string option \<Rightarrow> string option \<Rightarrow> limit_error + string option" where
  "decode_idempotency_result cd raw fp = (case raw of
     None \<Rightarrow> Inr None
   | Some s \<Rightarrow> (case fp of
       None \<Rightarrow> Inr (Some s)
     | Some f \<Rightarrow> (case cd_loads cd s of
         Some (PDict d) \<Rightarrow>
           if as_int (py_get d ''_recall_idempotency_result'') \<noteq> Some 1 then Inr None
           else if py_get d ''request_fingerprint'' \<noteq> PStr f then Inl IdempotencyConflict
           else Inr (as_str (py_get d ''result''))
       | _ \<Rightarrow> Inr None)))"

text \<open>What the check says to a mutation whose request key is already reserved.\<close>

definition stored_conflict :: "codec \<Rightarrow> string option \<Rightarrow> string option \<Rightarrow> string option \<Rightarrow> bool" where
  "stored_conflict cd stored op fp = (case stored of
     None \<Rightarrow> False
   | Some s \<Rightarrow> (case cd_loads cd s of
       Some (PDict d) \<Rightarrow> py_get d ''operation'' \<noteq> opt_str op \<or> py_get d ''request_fingerprint'' \<noteq> opt_str fp
     | _ \<Rightarrow> False))"

fun as_text :: "redis_value option \<Rightarrow> string option" where
  "as_text (Some (Str s)) = Some s"
| "as_text _ = None"

definition duplicate_answer ::
  "codec \<Rightarrow> redis_limiter \<Rightarrow> int \<Rightarrow> string \<Rightarrow> string option \<Rightarrow> string option \<Rightarrow> string option \<Rightarrow> redis \<Rightarrow> limit_error" where
  "duplicate_answer cd z now tenant rid op fp s = (case rid of
     None \<Rightarrow> RateLimited KeyReused 0
   | Some r \<Rightarrow> if r = [] then RateLimited KeyReused 0
       else if stored_conflict cd (as_text (redis_get now (idem_key cd z tenant r) s)) op fp then IdempotencyConflict
       else (case decode_idempotency_result cd (as_text (redis_get now (result_key cd z tenant r) s)) fp of
         Inl e \<Rightarrow> e
       | Inr (Some text) \<Rightarrow> IdempotencyReplay text
       | Inr None \<Rightarrow> IdempotencyResultMissing r))"

datatype link = Answered | Unreachable | ReplyLost

text \<open>One call: what became of the script, whether the later read answered, the server's instants, the process clock.\<close>

record redis_call =
  rc_link :: link
  rc_read_ok :: bool
  rc_now_ms :: int
  rc_read_ms :: int
  rc_now :: real

text \<open>When the shared limiter cannot be asked: a mutation is refused, a read draws on a small local budget.\<close>

definition read_fallback :: "redis_limiter \<Rightarrow> bool \<Rightarrow> string \<Rightarrow> real \<Rightarrow> (limit_error + unit) \<times> redis_limiter" where
  "read_fallback z read_only tenant now =
     (if read_only then
        if rz_fallback_budget z \<le> 0 then (Inl (RateLimiterUnavailable 1), z)
        else (let (out, l) = check (rz_fallback z) tenant ''read'' 1 now; z' = z\<lparr>rz_fallback := l\<rparr> in
          (case out of Inl _ \<Rightarrow> (Inl (RateLimiterUnavailable 1), z') | Inr _ \<Rightarrow> (Inr (), z')))
      else (Inl (RateLimiterUnavailable 1), z))"

definition script_answer :: "int \<times> int \<times> int \<Rightarrow> limit_error + unit" where
  "script_answer out = (case out of (allowed, wait, dup) \<Rightarrow>
     if allowed \<noteq> 1 then
       if wait < 0 then Inl (RateLimited Oversized 0)
       else Inl (RateLimited Exhausted (max (1 / 1000) (of_int wait / 1000)))
     else Inr ())"

record redis_request =
  rx_tenant :: string
  rx_budget :: string
  rx_cost :: real
  rx_key :: "string option"
  rx_operation :: "string option"
  rx_fingerprint :: "string option"
  rx_read_only :: bool

definition args_for :: "codec \<Rightarrow> rate \<Rightarrow> redis_request \<Rightarrow> script_args" where
  "args_for cd r q = \<lparr>sa_capacity = capacity r, sa_refill = per_second r, sa_cost = rx_cost q, sa_ttl = bucket_ttl r,
     sa_read_only = rx_read_only q, sa_reservation = reservation_text cd (rx_key q) (rx_operation q) (rx_fingerprint q),
     sa_reservation_ttl = (if rx_read_only q then bucket_ttl r else receipt_retention_seconds * 1000)\<rparr>"

text \<open>\<open>check\<close> of the shared limiter. A failure after the script ran leaves what the script wrote.\<close>

definition redis_check ::
  "codec \<Rightarrow> redis_call \<Rightarrow> redis_request \<Rightarrow> redis_limiter \<times> redis \<Rightarrow> (limit_error + unit) \<times> (redis_limiter \<times> redis)" where
  "redis_check cd c q st = (case st of (z, s) \<Rightarrow>
     (case map_of (rz_rates z) (rx_budget q) of
        None \<Rightarrow> (Inr (), (z, s))
      | Some r \<Rightarrow>
        if rx_cost q \<le> 0 then (Inr (), (z, s))
        else (case reject_oversized_cost (rx_cost q) r of
          Inl e \<Rightarrow> (Inl e, (z, s))
        | Inr _ \<Rightarrow>
          (let failed = (\<lambda>s'. let (out, z') = read_fallback z (rx_read_only q) (rx_tenant q) (rc_now c) in (out, (z', s'))) in
           (case redis_keys cd z (rx_tenant q) (rx_budget q) (rx_key q) of
              Inl _ \<Rightarrow> failed s
            | Inr (bucket, idem) \<Rightarrow>
              if rc_link c = Unreachable then failed s
              else (case token_bucket_script (rc_now_ms c) bucket idem (args_for cd r q) s of
                (None, s') \<Rightarrow> failed s'
              | (Some out, s') \<Rightarrow>
                if rc_link c = ReplyLost then failed s'
                else if snd (snd out) = 2 then
                  if idem \<noteq> [] \<and> \<not> rc_read_ok c then failed s'
                  else (Inl (duplicate_answer cd z (rc_read_ms c) (rx_tenant q) (rx_key q) (rx_operation q) (rx_fingerprint q) s'), (z, s'))
                else (script_answer out, (z, s'))))))))"

section \<open>Results and reservations\<close>

definition max_idempotency_result_bytes :: int where
  "max_idempotency_result_bytes = 512 * 1024"

definition utf8_length :: "string \<Rightarrow> int" where
  "utf8_length s = int (length s) + int (length (filter (\<lambda>c. code c \<ge> 128) s))"

definition check_result_size :: "string \<Rightarrow> unit result" where
  "check_result_size s = (if utf8_length s > max_idempotency_result_bytes
     then Inl (ValueError ''idempotent mutation result exceeds the 512 KiB replay limit'') else Inr ())"

definition result_ttl :: "redis_limiter \<Rightarrow> int" where
  "result_ttl z = (let window = (case map_of (rz_rates z) ''write'' of Some r \<Rightarrow> capacity r / per_second r
      | None \<Rightarrow> (case map_of (rz_rates z) ''admin'' of Some r \<Rightarrow> capacity r / per_second r
      | None \<Rightarrow> (case map_of (rz_rates z) ''forget'' of Some r \<Rightarrow> capacity r / per_second r | None \<Rightarrow> 3600))) in
     max 60000 \<lfloor>window * 2 * 1000\<rfloor>)"

definition result_text :: "codec \<Rightarrow> string option \<Rightarrow> string \<Rightarrow> string" where
  "result_text cd fp result = (case fp of
     None \<Rightarrow> result
   | Some f \<Rightarrow> cd_dumps cd (PDict [(''_recall_idempotency_result'', PInt 1), (''request_fingerprint'', PStr f), (''result'', PStr result)]))"

definition store_idempotency_result ::
  "codec \<Rightarrow> redis_limiter \<Rightarrow> int \<Rightarrow> string \<Rightarrow> string \<Rightarrow> string \<Rightarrow> string option \<Rightarrow> redis \<Rightarrow> redis result" where
  "store_idempotency_result cd z now tenant rid result fp s =
     (if rid = [] then Inr s
      else and_then (check_result_size result) (\<lambda>_.
        Inr (redis_set now (result_ttl z) (result_key cd z tenant rid) (Str (result_text cd fp result)) s)))"

definition get_idempotency_result ::
  "codec \<Rightarrow> redis_limiter \<Rightarrow> int \<Rightarrow> string \<Rightarrow> string \<Rightarrow> string option \<Rightarrow> redis \<Rightarrow> limit_error + string option" where
  "get_idempotency_result cd z now tenant rid fp s =
     (if rid = [] then Inr None
      else decode_idempotency_result cd (as_text (redis_get now (result_key cd z tenant rid) s)) fp)"

definition release_idempotency_reservation ::
  "codec \<Rightarrow> redis_limiter \<Rightarrow> string \<Rightarrow> string \<Rightarrow> redis \<Rightarrow> redis" where
  "release_idempotency_reservation cd z tenant rid s =
     (if rid = [] then s else dict_pop (idem_key cd z tenant rid) s)"

section \<open>The backend of a deployment\<close>

datatype backend = NoBackend | LocalBackend limiter | RedisBackend redis_limiter

definition env_text :: "(string \<rightharpoonup> string) \<Rightarrow> string \<Rightarrow> string \<Rightarrow> string" where
  "env_text env name dflt = (case env name of Some v \<Rightarrow> v | None \<Rightarrow> dflt)"

definition env_is_production :: "(string \<rightharpoonup> string) \<Rightarrow> bool" where
  "env_is_production env \<longleftrightarrow> py_lower (py_strip (env_text env ''RECALL_ENV'' ''development'')) = ''production''"

definition env_float :: "(string \<rightharpoonup> string) \<Rightarrow> string \<Rightarrow> pyfloat \<Rightarrow> pyfloat result" where
  "env_float env name dflt = (case env name of None \<Rightarrow> Inr dflt
   | Some raw \<Rightarrow> (case py_float raw of None \<Rightarrow> Inl (ValueError ''could not convert string to float'') | Some v \<Rightarrow> Inr v))"

definition env_int :: "(string \<rightharpoonup> string) \<Rightarrow> string \<Rightarrow> int \<Rightarrow> int result" where
  "env_int env name dflt = (case env name of None \<Rightarrow> Inr dflt
   | Some raw \<Rightarrow> (case py_int raw of None \<Rightarrow> Inl (ValueError ''invalid literal for int'') | Some v \<Rightarrow> Inr v))"

definition async_limiter_from_env :: "(string \<rightharpoonup> string) \<Rightarrow> backend result" where
  "async_limiter_from_env env =
     (let backend = py_lower (py_strip (env_text env ''RECALL_RATE_LIMIT_BACKEND'' ''local'')) in
      if env_is_production env \<and> backend \<noteq> ''redis''
      then Inl (ValueError ''production deployments require RECALL_RATE_LIMIT_BACKEND=redis'')
      else if backend \<in> {''off'', ''none''} then Inr NoBackend
      else if backend \<in> {''local'', ''memory'', ''in-memory''} then and_then (limiter_from_env env) (\<lambda>l. Inr (LocalBackend l))
      else if backend \<noteq> ''redis'' then Inl (ValueError ''RECALL_RATE_LIMIT_BACKEND must be local, redis, or off'')
      else if py_strip (env_text env ''RECALL_REDIS_URL'' '''') = []
      then Inl (ValueError ''RECALL_REDIS_URL is required when RECALL_RATE_LIMIT_BACKEND=redis'')
      else and_then (env_float env ''RECALL_REDIS_TIMEOUT_SECONDS'' (Fin (1 / 4))) (\<lambda>timeout.
        and_then (env_float env ''RECALL_RATE_READ_FALLBACK_BUDGET'' (Fin 3)) (\<lambda>fallback.
        and_then (env_int env ''RECALL_REDIS_MAX_CONNECTIONS'' 32) (\<lambda>connections.
        and_then (limiter_rates_from_env env) (\<lambda>rates.
        and_then (make_redis_limiter rates (env_text env ''RECALL_DEPLOYMENT'' ''default'')
          (env_text env ''RECALL_RATE_LIMIT_KEY_PREFIX'' ''recall:rate'') timeout fallback connections) (\<lambda>z.
        Inr (RedisBackend z)))))))"

end
