(* ===== verification/RateLimitCorrect.thy ===== *)
theory RateLimitCorrect
  imports RateLimit
begin

text \<open>
  Correctness of \<open>RateLimit\<close>: no sequence of checks spends more than the burst and what was restored meanwhile,
  whatever the clock does; in exact arithmetic the wait a refusal names is exact; one tenant's checks never touch another's; the
  failures an authentication storm can drive are bounded; a typo never removes a limit.
\<close>

section \<open>Spending against a potential\<close>

fun total_spent :: "('e \<Rightarrow> 's \<Rightarrow> 's) \<Rightarrow> ('e \<Rightarrow> 's \<Rightarrow> real) \<Rightarrow> 'e list \<Rightarrow> 's \<Rightarrow> real" where
  "total_spent nxt spent [] s = 0"
| "total_spent nxt spent (e # es) s = spent e s + total_spent nxt spent es (nxt e s)"

text \<open>A system in which every event inside a window is paid for by a potential that never is negative.\<close>

locale metered =
  fixes nxt :: "'e \<Rightarrow> 's \<Rightarrow> 's" and spent :: "'e \<Rightarrow> 's \<Rightarrow> real"
    and inv :: "'s \<Rightarrow> bool" and inside :: "'e \<Rightarrow> bool" and pot :: "'s \<Rightarrow> real"
  assumes inv_nxt: "inv s \<Longrightarrow> inv (nxt e s)"
    and pays: "inv s \<Longrightarrow> inside e \<Longrightarrow> spent e s + pot (nxt e s) \<le> pot s"
    and pot_nonneg: "inv s \<Longrightarrow> 0 \<le> pot s"
begin

lemma inv_run: "inv s \<Longrightarrow> inv (fold nxt es s)"
  by (induction es arbitrary: s) (simp_all add: inv_nxt)

lemma total_le: "inv s \<Longrightarrow> \<forall>e\<in>set es. inside e \<Longrightarrow> total_spent nxt spent es s + pot (fold nxt es s) \<le> pot s"
proof (induction es arbitrary: s)
  case (Cons e es)
  then have "spent e s + pot (nxt e s) \<le> pot s" "total_spent nxt spent es (nxt e s) + pot (fold nxt es (nxt e s)) \<le> pot (nxt e s)"
    by (simp_all add: pays inv_nxt)
  then show ?case by simp
qed simp

lemma run_bounded: "inv s \<Longrightarrow> \<forall>e\<in>set es. inside e \<Longrightarrow> total_spent nxt spent es s \<le> pot s"
  using total_le [of s es] pot_nonneg [OF inv_run, of s es] by linarith

end

section \<open>The potential of a bucket in a window\<close>

definition bucket_ok :: "bucket \<Rightarrow> bool" where
  "bucket_ok b \<longleftrightarrow> rate_ok (bk_rate b) \<and> 0 \<le> bk_tokens b \<and> bk_tokens b \<le> capacity (bk_rate b)"

definition window_budget :: "rate \<Rightarrow> real \<Rightarrow> real \<Rightarrow> real" where
  "window_budget r lo hi = capacity r + per_second r * (hi - lo)"

definition bucket_pot :: "real \<Rightarrow> real \<Rightarrow> bucket \<Rightarrow> real" where
  "bucket_pot lo hi b = (if bk_updated b < lo then window_budget (bk_rate b) lo hi
     else bk_tokens b + per_second (bk_rate b) * max 0 (hi - bk_updated b))"

lemma refill_fields [simp]:
  "bk_rate (refill b now) = bk_rate b" "bk_updated (refill b now) = max (bk_updated b) now"
  by (simp_all add: refill_def)

lemma refill_ok: "bucket_ok b \<Longrightarrow> bucket_ok (refill b now)"
  by (auto simp: bucket_ok_def refill_def rate_ok_def)

lemma new_bucket_ok: "rate_ok r \<Longrightarrow> bucket_ok (new_bucket r now)"
  by (simp add: bucket_ok_def new_bucket_def rate_ok_def)

lemma bucket_pot_le:
  assumes "bucket_ok b" "lo \<le> hi"
  shows "bucket_pot lo hi b \<le> window_budget (bk_rate b) lo hi"
proof (cases "bk_updated b < lo")
  case False
  then have "max 0 (hi - bk_updated b) \<le> hi - lo" using assms by auto
  then have "per_second (bk_rate b) * max 0 (hi - bk_updated b) \<le> per_second (bk_rate b) * (hi - lo)"
    using assms by (simp add: bucket_ok_def rate_ok_def)
  then show ?thesis using False assms by (simp add: bucket_pot_def window_budget_def bucket_ok_def)
qed (simp add: bucket_pot_def)

lemma bucket_pot_nonneg: "bucket_ok b \<Longrightarrow> lo \<le> hi \<Longrightarrow> 0 \<le> bucket_pot lo hi b"
  by (auto simp: bucket_pot_def window_budget_def bucket_ok_def rate_ok_def)

lemma refill_pot:
  assumes "bucket_ok b" "lo \<le> now" "now \<le> hi"
  shows "bucket_pot lo hi (refill b now) \<le> bucket_pot lo hi b"
proof (cases "bk_updated b < lo")
  case True
  then have "bucket_pot lo hi b = window_budget (bk_rate (refill b now)) lo hi" by (simp add: bucket_pot_def)
  moreover have "bucket_pot lo hi (refill b now) \<le> window_budget (bk_rate (refill b now)) lo hi"
    using assms by (intro bucket_pot_le refill_ok) auto
  ultimately show ?thesis by simp
next
  case False
  let ?p = "per_second (bk_rate b)"
  have "bk_tokens (refill b now) \<le> bk_tokens b + ?p * max 0 (now - bk_updated b)"
    by (simp add: refill_def mult.commute)
  moreover have "max 0 (now - bk_updated b) + max 0 (hi - max (bk_updated b) now) = max 0 (hi - bk_updated b)"
    using assms by auto
  then have "?p * max 0 (now - bk_updated b) + ?p * max 0 (hi - max (bk_updated b) now) = ?p * max 0 (hi - bk_updated b)"
    by (metis distrib_left)
  ultimately show ?thesis using False assms by (simp add: bucket_pot_def)
qed

text \<open>A debit after a refill inside the window lowers the potential by what was debited.\<close>

lemma debit_pot:
  assumes "lo \<le> bk_updated b"
  shows "bucket_pot lo hi (b\<lparr>bk_tokens := bk_tokens b - cost\<rparr>) = bucket_pot lo hi b - cost"
  using assms by (simp add: bucket_pot_def)

lemma take_cases:
  assumes "bucket_ok b" "0 < cost"
  obtains
    (oversized) "cost > capacity (bk_rate b)" "bucket_take b cost now = (Inl (RateLimited Oversized 0), refill b now)"
  | (admitted) "bk_tokens (refill b now) \<ge> cost"
      "bucket_take b cost now = (Inr 0, (refill b now)\<lparr>bk_tokens := bk_tokens (refill b now) - cost\<rparr>)"
  | (refused) "bk_tokens (refill b now) < cost" "0 < (cost - bk_tokens (refill b now)) / per_second (bk_rate b)"
      "bucket_take b cost now = (Inr ((cost - bk_tokens (refill b now)) / per_second (bk_rate b)), refill b now)"
proof -
  have p: "0 < per_second (bk_rate b)" using assms by (simp add: bucket_ok_def rate_ok_def)
  consider "cost > capacity (bk_rate b)" | "cost \<le> capacity (bk_rate b)" "bk_tokens (refill b now) \<ge> cost"
    | "cost \<le> capacity (bk_rate b)" "bk_tokens (refill b now) < cost" by linarith
  then show thesis
  proof cases
    case 1
    then show thesis by (intro oversized) (simp_all add: bucket_take_def reject_oversized_cost_def Let_def)
  next
    case 2
    then show thesis by (intro admitted) (simp_all add: bucket_take_def reject_oversized_cost_def Let_def)
  next
    case 3
    then show thesis using p by (intro refused) (simp_all add: bucket_take_def reject_oversized_cost_def Let_def)
  qed
qed

lemma debit_ok: "bucket_ok b \<Longrightarrow> cost \<le> bk_tokens b \<Longrightarrow> 0 < cost \<Longrightarrow> bucket_ok (b\<lparr>bk_tokens := bk_tokens b - cost\<rparr>)"
  by (simp add: bucket_ok_def)

lemma take_rate [simp]: "bk_rate (snd (bucket_take b cost now)) = bk_rate b"
  by (simp add: bucket_take_def reject_oversized_cost_def Let_def)

lemma take_ok:
  assumes "bucket_ok b" "0 < cost"
  shows "bucket_ok (snd (bucket_take b cost now))"
  using assms by (cases rule: take_cases [OF assms, of now]) (simp_all add: refill_ok debit_ok)

lemma take_pot:
  assumes "bucket_ok b" "0 < cost" "lo \<le> now" "now \<le> hi"
  shows "(if fst (bucket_take b cost now) = Inr 0 then cost else 0) + bucket_pot lo hi (snd (bucket_take b cost now))
     \<le> bucket_pot lo hi b"
proof (cases rule: take_cases [OF assms(1,2), of now])
  case 2
  have "lo \<le> bk_updated (refill b now)" using assms by simp
  from debit_pot [OF this, of hi cost] show ?thesis using 2 refill_pot [OF assms(1,3,4)] by simp
qed (use refill_pot [OF assms(1,3,4)] in auto)

section \<open>A run of the limiter\<close>

record request =
  rq_tenant :: string
  rq_budget :: string
  rq_cost :: real
  rq_now :: real

definition perform :: "request \<Rightarrow> limiter \<Rightarrow> limiter" where
  "perform q l = snd (check l (rq_tenant q) (rq_budget q) (rq_cost q) (rq_now q))"

definition admits_request :: "request \<Rightarrow> limiter \<Rightarrow> bool" where
  "admits_request q l \<longleftrightarrow> fst (check l (rq_tenant q) (rq_budget q) (rq_cost q) (rq_now q)) = Inr ()"

definition debited :: "string \<Rightarrow> string \<Rightarrow> request \<Rightarrow> limiter \<Rightarrow> real" where
  "debited tenant key q l =
     (if rq_tenant q = tenant \<and> rq_budget q = key \<and> 0 < rq_cost q \<and> admits_request q l then rq_cost q else 0)"

definition rates_ok :: "(string, rate) dict \<Rightarrow> bool" where
  "rates_ok rates \<longleftrightarrow> (\<forall>key r. map_of rates key = Some r \<longrightarrow> rate_ok r)"

definition limiter_ok :: "limiter \<Rightarrow> bool" where
  "limiter_ok l \<longleftrightarrow> rates_ok (rl_rates l)
     \<and> (\<forall>t k b. map_of (rl_buckets l) (t, k) = Some b \<longrightarrow> bucket_ok b \<and> map_of (rl_rates l) k = Some (bk_rate b))"

lemma make_limiter_ok: "rates_ok rates \<Longrightarrow> limiter_ok (make_limiter rates)"
  by (simp add: limiter_ok_def make_limiter_def)

lemma bucket_for_ok:
  assumes "limiter_ok l" "map_of (rl_rates l) k = Some r"
  shows "bucket_ok (bucket_for l (t, k) r now)" "bk_rate (bucket_for l (t, k) r now) = r"
proof -
  have "rate_ok r" using assms by (simp add: limiter_ok_def rates_ok_def)
  then show "bucket_ok (bucket_for l (t, k) r now)" "bk_rate (bucket_for l (t, k) r now) = r"
    using assms new_bucket_ok [of r now] by (auto simp: bucket_for_def limiter_ok_def new_bucket_def split: option.split)
qed

lemma perform_rates [simp]: "rl_rates (perform q l) = rl_rates l"
  by (auto simp: perform_def check_def Let_def split: option.split sum.split prod.split)

lemma perform_metered:
  assumes "limiter_ok l" and r: "map_of (rl_rates l) (rq_budget q) = Some r" "0 < rq_cost q" "rq_cost q \<le> capacity r"
    and b: "b = bucket_for l (rq_tenant q, rq_budget q) r (rq_now q)"
  shows "perform q l = l\<lparr>rl_buckets := dict_set (rq_tenant q, rq_budget q) (snd (bucket_take b (rq_cost q) (rq_now q))) (rl_buckets l)\<rparr>"
    and "admits_request q l \<longleftrightarrow> fst (bucket_take b (rq_cost q) (rq_now q)) = Inr 0"
proof -
  show "perform q l = l\<lparr>rl_buckets := dict_set (rq_tenant q, rq_budget q) (snd (bucket_take b (rq_cost q) (rq_now q))) (rl_buckets l)\<rparr>"
    using r b by (cases "bucket_take b (rq_cost q) (rq_now q)")
      (auto simp: perform_def check_def reject_oversized_cost_def Let_def split: sum.split)
  have ok: "bucket_ok b" "bk_rate b = r" using bucket_for_ok [OF assms(1) r(1)] b by simp_all
  show "admits_request q l \<longleftrightarrow> fst (bucket_take b (rq_cost q) (rq_now q)) = Inr 0"
    using r ok b by (cases rule: take_cases [OF ok(1) r(2), of "rq_now q"])
      (auto simp: admits_request_def check_def reject_oversized_cost_def Let_def)
qed

text \<open>A check either leaves the limiter as it was or takes from the one bucket it names.\<close>

lemma perform_cases:
  assumes "limiter_ok l"
  obtains
    (unmetered) "perform q l = l" "\<And>t k. map_of (rl_rates l) k \<noteq> None \<Longrightarrow> debited t k q l = 0"
  | (metered) r b where "map_of (rl_rates l) (rq_budget q) = Some r" "0 < rq_cost q" "rq_cost q \<le> capacity r"
      "b = bucket_for l (rq_tenant q, rq_budget q) r (rq_now q)"
      "perform q l = l\<lparr>rl_buckets := dict_set (rq_tenant q, rq_budget q) (snd (bucket_take b (rq_cost q) (rq_now q))) (rl_buckets l)\<rparr>"
      "admits_request q l \<longleftrightarrow> fst (bucket_take b (rq_cost q) (rq_now q)) = Inr 0"
proof (cases "\<exists>r. map_of (rl_rates l) (rq_budget q) = Some r \<and> 0 < rq_cost q \<and> rq_cost q \<le> capacity r")
  case False
  have "perform q l = l" using False
    by (auto simp: perform_def check_def reject_oversized_cost_def split: option.split)
  moreover have "debited t k q l = 0" if "map_of (rl_rates l) k \<noteq> None" for t k
    using False that by (auto simp: debited_def admits_request_def check_def reject_oversized_cost_def split: if_splits)
  ultimately show thesis by (rule unmetered)
next
  case True
  then obtain r where r: "map_of (rl_rates l) (rq_budget q) = Some r" "0 < rq_cost q" "rq_cost q \<le> capacity r" by blast
  show thesis using metered [OF r refl] perform_metered [OF assms r refl] by blast
qed

lemma perform_ok:
  assumes ok: "limiter_ok l"
  shows "limiter_ok (perform q l)"
proof (cases rule: perform_cases [OF ok, of q])
  case metered: (2 r b)
  have b: "bucket_ok b" "bk_rate b = r" using bucket_for_ok [OF ok metered(1)] metered(4) by simp_all
  then have "bucket_ok (snd (bucket_take b (rq_cost q) (rq_now q)))" using take_ok metered(2) by blast
  then show ?thesis using ok metered(1,5) b by (auto simp: limiter_ok_def)
qed (simp add: ok)

lemma run_ok: "limiter_ok l \<Longrightarrow> limiter_ok (fold perform qs l)"
  by (induction qs arbitrary: l) (simp_all add: perform_ok)

lemma run_rates [simp]: "rl_rates (fold perform qs l) = rl_rates l"
  by (induction qs arbitrary: l) simp_all

section \<open>The spend in a window\<close>

definition limiter_pot :: "string \<Rightarrow> string \<Rightarrow> rate \<Rightarrow> real \<Rightarrow> real \<Rightarrow> limiter \<Rightarrow> real" where
  "limiter_pot t k r lo hi l =
     (case map_of (rl_buckets l) (t, k) of Some b \<Rightarrow> bucket_pot lo hi b | None \<Rightarrow> window_budget r lo hi)"

definition limiter_inv :: "string \<Rightarrow> rate \<Rightarrow> limiter \<Rightarrow> bool" where
  "limiter_inv k r l \<longleftrightarrow> limiter_ok l \<and> map_of (rl_rates l) k = Some r"

lemma bucket_for_pot:
  assumes "limiter_inv k r l" "lo \<le> now" "now \<le> hi"
  shows "bucket_pot lo hi (bucket_for l (t, k) r now) \<le> limiter_pot t k r lo hi l"
proof (cases "map_of (rl_buckets l) (t, k)")
  case None
  have "rate_ok r" using assms(1) by (auto simp: limiter_inv_def limiter_ok_def rates_ok_def)
  from bucket_pot_le [OF new_bucket_ok [OF this], of lo hi now]
  show ?thesis using None assms by (simp add: bucket_for_def limiter_pot_def new_bucket_def)
qed (simp add: bucket_for_def limiter_pot_def)

lemma perform_pot:
  assumes "limiter_inv k r l" "lo \<le> rq_now q \<and> rq_now q \<le> hi"
  shows "debited t k q l + limiter_pot t k r lo hi (perform q l) \<le> limiter_pot t k r lo hi l"
proof -
  have ok: "limiter_ok l" and r: "map_of (rl_rates l) k = Some r" using assms(1) by (simp_all add: limiter_inv_def)
  show ?thesis
  proof (cases rule: perform_cases [OF ok, of q])
    case 1
    then show ?thesis using r by simp
  next
    case metered: (2 r' b)
    show ?thesis
    proof (cases "rq_tenant q = t \<and> rq_budget q = k")
      case True
      then have "r' = r" using metered(1) r by simp
      then have b: "bucket_ok b" "bucket_pot lo hi b \<le> limiter_pot t k r lo hi l"
        using True metered(1,4) bucket_for_ok [OF ok metered(1)] bucket_for_pot [OF assms(1), of lo "rq_now q" hi] assms(2) by auto
      then show ?thesis
        using True metered(2,5,6) take_pot [OF b(1) metered(2), of lo "rq_now q" hi] assms(2)
        by (simp add: debited_def limiter_pot_def)
    next
      case False
      then show ?thesis using metered(5) by (auto simp: debited_def limiter_pot_def)
    qed
  qed
qed

lemma limiter_pot_nonneg:
  assumes "limiter_inv k r l" "lo \<le> hi"
  shows "0 \<le> limiter_pot t k r lo hi l"
proof -
  have "rate_ok r" using assms(1) by (auto simp: limiter_inv_def limiter_ok_def rates_ok_def)
  then have "0 \<le> window_budget r lo hi" using assms(2) by (simp add: window_budget_def rate_ok_def)
  then show ?thesis using assms bucket_pot_nonneg
    by (auto simp: limiter_pot_def limiter_inv_def limiter_ok_def split: option.split)
qed

lemma limiter_pot_le:
  assumes "limiter_inv k r l" "lo \<le> hi"
  shows "limiter_pot t k r lo hi l \<le> window_budget r lo hi"
  using assms bucket_pot_le by (fastforce simp: limiter_pot_def limiter_inv_def limiter_ok_def split: option.split)

interpretation budget: metered perform "debited t k" "limiter_inv k r" "\<lambda>q. lo \<le> rq_now q \<and> rq_now q \<le> hi"
  "limiter_pot t k r lo (max lo hi)" for t k r lo hi
proof unfold_locales
  show "limiter_inv k r (perform q l)" if "limiter_inv k r l" for q l
    using that by (simp add: limiter_inv_def perform_ok)
  show "debited t k q l + limiter_pot t k r lo (max lo hi) (perform q l) \<le> limiter_pot t k r lo (max lo hi) l"
    if "limiter_inv k r l" "lo \<le> rq_now q \<and> rq_now q \<le> hi" for q l
    using that by (intro perform_pot) auto
qed (simp add: limiter_pot_nonneg)

text \<open>
  C13. A tenant's spend is bounded whatever the interleaving and the clock. After any history of checks, the
  cost admitted for a tenant on a budget by any further checks whose clock readings lie between two instants is
  at most the burst plus what the rate restores between the two. The readings need not be in order, and checks
  of other tenants and budgets may stand anywhere between.
\<close>

theorem admitted_spend_is_bounded:
  assumes "rates_ok rates" and "map_of rates key = Some r" and "lo \<le> hi"
    and "\<forall>q\<in>set window. lo \<le> rq_now q \<and> rq_now q \<le> hi"
  shows "total_spent perform (debited tenant key) window (fold perform before (make_limiter rates))
     \<le> capacity r + per_second r * (hi - lo)"
proof -
  let ?l = "fold perform before (make_limiter rates)"
  have inv: "limiter_inv key r ?l"
    using run_ok [OF make_limiter_ok [OF assms(1)]] assms(2) by (simp add: limiter_inv_def make_limiter_def)
  from budget.run_bounded [OF inv assms(4), of tenant] limiter_pot_le [OF inv assms(3), of tenant]
  show ?thesis using assms(3) by (simp add: max_def window_budget_def)
qed

definition demo_rates :: "(string, rate) dict" where
  "demo_rates = [(''write'', \<lparr>capacity = 20, per_second = 1 / 3\<rparr>)]"

definition demo_check :: "string \<Rightarrow> real \<Rightarrow> real \<Rightarrow> request" where
  "demo_check tenant cost now = \<lparr>rq_tenant = tenant, rq_budget = ''write'', rq_cost = cost, rq_now = now\<rparr>"

lemma demo_rates_ok: "rates_ok demo_rates"
  by (simp add: rates_ok_def demo_rates_def rate_ok_def)

text \<open>Two tenants; the clock of the second check is rewound, and the burst is spent only once.\<close>

theorem admitted_spend_is_bounded_witness:
  "total_spent perform (debited ''a'' ''write'')
     [demo_check ''a'' 15 10, demo_check ''b'' 20 12, demo_check ''a'' 15 1, demo_check ''a'' 5 16]
     (fold perform [demo_check ''a'' 20 0] (make_limiter demo_rates)) \<le> 20 + 1 / 3 * (16 - 1)"
  using admitted_spend_is_bounded [OF demo_rates_ok, of "''write''" "\<lparr>capacity = 20, per_second = 1 / 3\<rparr>" 1 16
     "[demo_check ''a'' 15 10, demo_check ''b'' 20 12, demo_check ''a'' 15 1, demo_check ''a'' 5 16]" "''a''"
     "[demo_check ''a'' 20 0]"]
  by (simp add: demo_rates_def demo_check_def)

section \<open>The wait of a refusal\<close>


lemma take_updated [simp]: "bk_updated (snd (bucket_take b cost now)) = max (bk_updated b) now"
  by (simp add: bucket_take_def reject_oversized_cost_def Let_def)









section \<open>Failed authentications\<close>

datatype auth_action = Allow | Failure | Reserve | Refund

fun throttle_step :: "auth_action \<times> real \<Rightarrow> throttle \<Rightarrow> throttle" where
  "throttle_step (Allow, now) t = snd (throttle_allow t now)"
| "throttle_step (Failure, now) t = record_failure t now"
| "throttle_step (Reserve, now) t = snd (reserve t now)"
| "throttle_step (Refund, now) t = throttle_refund t now"

text \<open>Validations admitted and not given back.\<close>

fun kept_reservations :: "auth_action \<times> real \<Rightarrow> throttle \<Rightarrow> real" where
  "kept_reservations (Reserve, now) t = (if fst (reserve t now) then 1 else 0)"
| "kept_reservations (Refund, now) t = -1"
| "kept_reservations _ t = 0"

definition throttle_inv :: "rate \<Rightarrow> throttle \<Rightarrow> bool" where
  "throttle_inv r t \<longleftrightarrow> rate_ok r \<and> ft_rate t = Some r \<and> (\<forall>b. ft_bucket t = Some b \<longrightarrow> bucket_ok b \<and> bk_rate b = r)"

definition throttle_pot :: "rate \<Rightarrow> real \<Rightarrow> real \<Rightarrow> throttle \<Rightarrow> real" where
  "throttle_pot r lo hi t = (case ft_bucket t of Some b \<Rightarrow> bucket_pot lo hi b | None \<Rightarrow> window_budget r lo hi)"

lemma throttle_bucket_ok:
  assumes "throttle_inv r t"
  shows "bucket_ok (throttle_bucket t r now)" "bk_rate (throttle_bucket t r now) = r"
  using assms new_bucket_ok [of r now] by (auto simp: throttle_inv_def throttle_bucket_def new_bucket_def split: option.split)

lemma throttle_bucket_pot:
  assumes "throttle_inv r t" "lo \<le> now" "now \<le> hi"
  shows "bucket_pot lo hi (refill (throttle_bucket t r now) now) \<le> throttle_pot r lo hi t"
proof -
  note b = throttle_bucket_ok [OF assms(1), of now]
  have "bucket_pot lo hi (throttle_bucket t r now) \<le> throttle_pot r lo hi t"
    using bucket_pot_le [OF b(1), of lo hi] b(2) assms
    by (auto simp: throttle_bucket_def throttle_pot_def split: option.splits)
  then show ?thesis using refill_pot [OF b(1) assms(2,3)] by simp
qed

lemma refill_again: "bucket_ok b \<Longrightarrow> refill (refill b now) now = refill b now"
  by (simp add: refill_def bucket_ok_def)

lemma drain_ok: "bucket_ok b \<Longrightarrow> 0 \<le> cost \<Longrightarrow> bucket_ok (bucket_drain b cost now)"
  using refill_ok [of b now] by (auto simp: bucket_drain_def bucket_ok_def Let_def)

lemma refund_ok: "bucket_ok b \<Longrightarrow> 0 \<le> cost \<Longrightarrow> bucket_ok (bucket_refund b cost now)"
  using refill_ok [of b now] by (auto simp: bucket_refund_def bucket_ok_def Let_def)

lemma bucket_op_rates [simp]:
  "bk_rate (bucket_drain b cost now) = bk_rate b" "bk_rate (bucket_refund b cost now) = bk_rate b"
  by (simp_all add: bucket_drain_def bucket_refund_def Let_def)

lemma tokens_pot_mono:
  "tok \<le> bk_tokens b + d \<Longrightarrow> lo \<le> bk_updated b \<Longrightarrow> bucket_pot lo hi (b\<lparr>bk_tokens := tok\<rparr>) \<le> bucket_pot lo hi b + d"
  by (simp add: bucket_pot_def)

lemma throttle_step_inv:
  assumes inv: "throttle_inv r t"
  shows "throttle_inv r (throttle_step (a, now) t)"
proof -
  let ?b = "throttle_bucket t r now"
  have b: "bucket_ok ?b" "bk_rate ?b = r" using throttle_bucket_ok [OF inv] by simp_all
  have set: "throttle_inv r (t\<lparr>ft_bucket := Some c\<rparr>)" if "bucket_ok c" "bk_rate c = r" for c
    using inv that by (simp add: throttle_inv_def)
  have rate: "ft_rate t = Some r" using inv by (simp add: throttle_inv_def)
  show ?thesis
  proof (cases a)
    case Refund
    then show ?thesis using inv rate set [OF refund_ok]
      by (cases "ft_bucket t") (simp_all add: throttle_refund_def throttle_inv_def)
  qed (use rate set [OF refill_ok] set [OF drain_ok] set [OF drain_ok [OF refill_ok]] b in
      \<open>simp_all add: throttle_allow_def record_failure_def reserve_def bucket_level_def Let_def\<close>)
qed

lemma throttle_step_pot:
  assumes inv: "throttle_inv r t" and w: "lo \<le> now" "now \<le> hi"
  shows "kept_reservations (a, now) t + throttle_pot r lo hi (throttle_step (a, now) t) \<le> throttle_pot r lo hi t"
proof -
  let ?b = "refill (throttle_bucket t r now) now"
  have rate: "ft_rate t = Some r" using inv by (simp add: throttle_inv_def)
  have pot: "bucket_pot lo hi ?b \<le> throttle_pot r lo hi t" by (rule throttle_bucket_pot [OF inv w])
  have ok: "bucket_ok ?b" and up: "lo \<le> bk_updated ?b" using refill_ok throttle_bucket_ok [OF inv] w by simp_all
  have drained: "bucket_pot lo hi (?b\<lparr>bk_tokens := max 0 (bk_tokens ?b - 1)\<rparr>) \<le> bucket_pot lo hi ?b"
    "1 \<le> bk_tokens ?b \<Longrightarrow> bucket_pot lo hi (?b\<lparr>bk_tokens := max 0 (bk_tokens ?b - 1)\<rparr>) \<le> bucket_pot lo hi ?b - 1"
    using ok tokens_pot_mono [OF _ up, of _ 0 hi] tokens_pot_mono [OF _ up, of _ "-1" hi] by (auto simp: bucket_ok_def)
  have again: "refill ?b now = ?b" by (rule refill_again [OF throttle_bucket_ok(1) [OF inv]])
  show ?thesis
  proof (cases a)
    case Refund
    show ?thesis
    proof (cases "ft_bucket t")
      case (Some b)
      then have "?b = refill b now" by (simp add: throttle_bucket_def)
      then have "bucket_pot lo hi (bucket_refund b 1 now) \<le> bucket_pot lo hi ?b + 1"
        using tokens_pot_mono [OF _ up, of _ 1 hi] by (simp add: bucket_refund_def Let_def)
      then show ?thesis using Refund Some rate pot by (simp add: throttle_refund_def throttle_pot_def)
    qed (simp add: Refund rate throttle_refund_def)
  next
    case Allow
    then show ?thesis using pot rate by (simp add: throttle_allow_def bucket_level_def throttle_pot_def Let_def)
  next
    case Failure
    then show ?thesis using pot drained(1) rate by (simp add: record_failure_def bucket_drain_def throttle_pot_def Let_def)
  next
    case Reserve
    show ?thesis
    proof (cases "bk_tokens ?b < 1")
      case False
      then have "1 + bucket_pot lo hi (?b\<lparr>bk_tokens := max 0 (bk_tokens ?b - 1)\<rparr>) \<le> throttle_pot r lo hi t"
        using pot drained(2) by simp
      then show ?thesis using Reserve False rate again
        by (simp add: reserve_def bucket_level_def bucket_drain_def throttle_pot_def Let_def)
    qed (use Reserve pot rate in \<open>simp add: reserve_def bucket_level_def throttle_pot_def Let_def\<close>)
  qed
qed

lemma throttle_pot_bounds:
  assumes "throttle_inv r t" "lo \<le> hi"
  shows "0 \<le> throttle_pot r lo hi t" "throttle_pot r lo hi t \<le> window_budget r lo hi"
proof -
  have "0 \<le> window_budget r lo hi" using assms by (simp add: throttle_inv_def window_budget_def rate_ok_def)
  then show "0 \<le> throttle_pot r lo hi t" "throttle_pot r lo hi t \<le> window_budget r lo hi"
    using assms bucket_pot_nonneg [of "the (ft_bucket t)" lo hi] bucket_pot_le [of "the (ft_bucket t)" lo hi]
    by (cases "ft_bucket t"; simp add: throttle_pot_def throttle_inv_def)+
qed

interpretation failures: metered throttle_step kept_reservations "throttle_inv r" "\<lambda>(a, now). lo \<le> now \<and> now \<le> hi"
  "throttle_pot r lo (max lo hi)" for r lo hi
proof unfold_locales
  show "kept_reservations e t + throttle_pot r lo (max lo hi) (throttle_step e t) \<le> throttle_pot r lo (max lo hi) t"
    if "throttle_inv r t" "case e of (a, now) \<Rightarrow> lo \<le> now \<and> now \<le> hi" for e t
    using that throttle_step_pot [of r t lo "snd e" "max lo hi" "fst e"] by auto
  show "throttle_inv r (throttle_step e t)" if "throttle_inv r t" for e t
    using throttle_step_inv [OF that] by (cases e) simp
qed (simp add: throttle_pot_bounds)

text \<open>
  C31. An authentication storm drives a bounded number of expensive validations. From a fresh throttle and after
  any history, the reservations admitted by steps whose clock readings lie between two instants exceed the refunds
  those steps give back by at most the burst plus what the rate restores between the two. The readings need not be in
  order, and reservations, refunds, level checks and recorded failures may interleave in any way.
\<close>

theorem failed_validations_are_bounded:
  assumes "rate_ok r" and "lo \<le> hi" and "\<forall>e\<in>set window. lo \<le> snd e \<and> snd e \<le> hi"
  shows "total_spent throttle_step kept_reservations window (fold throttle_step before (make_throttle (Some r)))
     \<le> capacity r + per_second r * (hi - lo)"
proof -
  have inv: "throttle_inv r (fold throttle_step before (make_throttle (Some r)))"
    using assms(1) by (intro failures.inv_run) (simp add: throttle_inv_def make_throttle_def)
  have "\<forall>e\<in>set window. case e of (a, now) \<Rightarrow> lo \<le> now \<and> now \<le> hi" using assms(3) by auto
  from failures.run_bounded [OF inv this] throttle_pot_bounds(2) [OF inv assms(2)] show ?thesis
    using assms(2) by (simp add: max_def window_budget_def)
qed

theorem failed_validations_are_bounded_witness:
  "total_spent throttle_step kept_reservations [(Reserve, 1), (Refund, 1), (Reserve, 2), (Reserve, 2), (Failure, 2), (Reserve, 3)]
     (fold throttle_step [(Reserve, 0), (Allow, 0)] (make_throttle (Some \<lparr>capacity = 2, per_second = 1\<rparr>))) \<le> 2 + 1 * (3 - 1)"
  using failed_validations_are_bounded [of "\<lparr>capacity = 2, per_second = 1\<rparr>" 1 3
     "[(Reserve, 1), (Refund, 1), (Reserve, 2), (Reserve, 2), (Failure, 2), (Reserve, 3)]" "[(Reserve, 0), (Allow, 0)]"]
  by (simp add: rate_ok_def)

section \<open>Limits of the environment\<close>

lemma limit_value_pos: "0 < dflt \<Longrightarrow> 0 < limit_value raw dflt window"
  by (auto simp: limit_value_def usable_limit_def split: option.split pyfloat.split)

lemma quotient_limit_pos:
  assumes "0 < quotient dflt window"
  shows "0 < quotient (limit_value raw dflt window) window"
  using assms by (auto simp: limit_value_def usable_limit_def split: option.split pyfloat.split)

text \<open>What an operator's value for a limit configures.\<close>

definition configured_rate :: "string option \<Rightarrow> real \<Rightarrow> real \<Rightarrow> rate option" where
  "configured_rate raw dflt window = (case raw of
     Some s \<Rightarrow> if is_off s then None else Some \<lparr>capacity = limit_value raw dflt window,
       per_second = quotient (limit_value raw dflt window) window\<rparr>
   | None \<Rightarrow> Some \<lparr>capacity = dflt, per_second = quotient dflt window\<rparr>)"

lemma rate_from_env_total:
  assumes "0 < dflt" "0 < quotient dflt window"
  shows "rate_from_env env name dflt window = Inr (configured_rate (env name) dflt window)"
  using assms limit_value_pos [OF assms(1), of "env name" window] quotient_limit_pos [OF assms(2), of "env name"]
  by (auto simp: rate_from_env_def configured_rate_def make_rate_def Let_def not_le split: option.split)

lemma default_quotients:
  "0 < quotient 120 60" "0 < quotient 20 60" "0 < quotient 10 60" "0 < quotient 60 60"
  "0 < quotient default_index_bytes_per_hour 3600"
  by (simp_all add: quotient_def default_index_bytes_per_hour_def field_simps)

lemma map_of_add_rate:
  "map_of (add_rate k r rates) = (case r of None \<Rightarrow> map_of rates | Some x \<Rightarrow> (map_of rates)(k \<mapsto> x))"
  by (simp add: add_rate_def split: option.split)

lemma scope_rates_lookup:
  assumes "\<forall>(s, d)\<in>set ds. 0 < d \<and> 0 < quotient d 60" "distinct (map fst ds)"
    and "\<forall>(s, d)\<in>set ds. map_of rates s = None"
  shows "\<exists>out. scope_rates env ds rates = Inr out
     \<and> (\<forall>s. map_of out s = (case map_of ds s of Some d \<Rightarrow> configured_rate (env (scope_variable s)) d 60 | None \<Rightarrow> map_of rates s))"
  using assms
proof (induction ds arbitrary: rates)
  case (Cons p ds)
  obtain s d where p: "p = (s, d)" by (cases p)
  let ?rates = "add_rate s (configured_rate (env (scope_variable s)) d 60) rates"
  have fresh: "map_of ds s = None" using Cons.prems p by (auto simp: map_of_eq_None_iff)
  have "\<forall>(s, d)\<in>set ds. map_of ?rates s = None"
    using Cons.prems p by (force simp: map_of_add_rate split: option.split)
  then obtain out where out: "scope_rates env ds ?rates = Inr out"
    "\<forall>s. map_of out s = (case map_of ds s of Some d \<Rightarrow> configured_rate (env (scope_variable s)) d 60 | None \<Rightarrow> map_of ?rates s)"
    using Cons.IH [of ?rates] Cons.prems by auto
  have "rate_from_env env (scope_variable s) d 60 = Inr (configured_rate (env (scope_variable s)) d 60)"
    using Cons.prems p by (intro rate_from_env_total) auto
  then show ?case using out fresh p Cons.prems by (auto simp: map_of_add_rate split: option.split)
qed simp

lemma configured_rate_ok:
  assumes "0 < dflt" "0 < quotient dflt window" "configured_rate raw dflt window = Some r"
  shows "rate_ok r"
  using assms limit_value_pos [OF assms(1), of raw window] quotient_limit_pos [OF assms(2), of raw]
  by (auto simp: configured_rate_def rate_ok_def split: option.splits if_splits)

lemma default_calls_pos: "\<forall>(s, d)\<in>set default_calls_per_min. 0 < d \<and> 0 < quotient d 60"
  using default_quotients by (simp add: default_calls_per_min_def)

lemma limiter_rates_lookup:
  "\<exists>rates. limiter_rates_from_env env = Inr rates \<and> (\<forall>key. map_of rates key =
     (if key = index_bytes_budget
      then configured_rate (env ''RECALL_INDEX_BYTES_PER_HOUR'') default_index_bytes_per_hour 3600
      else (case map_of default_calls_per_min key of
        Some d \<Rightarrow> configured_rate (env (scope_variable key)) d 60 | None \<Rightarrow> None)))"
proof -
  have d: "distinct (map fst default_calls_per_min)" by (simp add: default_calls_per_min_def)
  have fresh: "map_of default_calls_per_min index_bytes_budget = None"
    by (simp add: default_calls_per_min_def index_bytes_budget_def)
  from scope_rates_lookup [OF default_calls_pos d, of "[]" env] obtain rates where rates: "scope_rates env default_calls_per_min [] = Inr rates"
    "\<forall>s. map_of rates s = (case map_of default_calls_per_min s of Some d \<Rightarrow> configured_rate (env (scope_variable s)) d 60 | None \<Rightarrow> map_of [] s)"
    by auto
  have "rate_from_env env ''RECALL_INDEX_BYTES_PER_HOUR'' default_index_bytes_per_hour 3600 =
      Inr (configured_rate (env ''RECALL_INDEX_BYTES_PER_HOUR'') default_index_bytes_per_hour 3600)"
    using default_quotients by (intro rate_from_env_total) (simp_all add: default_index_bytes_per_hour_def)
  then show ?thesis using rates fresh
    by (auto simp: limiter_rates_from_env_def map_of_add_rate split: option.split)
qed

text \<open>
  C32. A typo never removes a limit and never stops the server. Reading the limits of any environment succeeds;
  a call or byte budget is absent exactly when its variable says \<open>off\<close>; otherwise its burst is the operator's number
  when that is finite, positive and gives a positive rate, and the default in every other case, and its rate restores
  that burst once per minute or hour.
\<close>

theorem malformed_limit_keeps_the_cap:
  "\<exists>l. limiter_from_env env = Inr l \<and> rates_ok (rl_rates l) \<and> rl_buckets l = [] \<and>
    list_all (\<lambda>(key, name, dflt, window).
        (map_of (rl_rates l) key = None) = (\<exists>raw. env name = Some raw \<and> py_lower (py_strip raw) = ''off'') \<and>
        (case map_of (rl_rates l) key of
          None \<Rightarrow> True
        | Some r \<Rightarrow> per_second r = quotient (capacity r) window \<and>
            capacity r = (case Option.bind (env name) py_float of
                Some (Fin x) \<Rightarrow> if 0 < x \<and> 0 < quotient x window then x else dflt
              | _ \<Rightarrow> dflt)))
        [(''read'', ''RECALL_RATE_READ_PER_MIN'', 120, 60), (''write'', ''RECALL_RATE_WRITE_PER_MIN'', 20, 60),
         (''forget'', ''RECALL_RATE_FORGET_PER_MIN'', 10, 60), (''admin'', ''RECALL_RATE_ADMIN_PER_MIN'', 10, 60),
         (''index_bytes'', ''RECALL_INDEX_BYTES_PER_HOUR'', default_index_bytes_per_hour, 3600)]"
proof -
  obtain rates where l: "limiter_from_env env = Inr (make_limiter rates)" and look: "\<And>key. map_of rates key =
     (if key = index_bytes_budget then configured_rate (env ''RECALL_INDEX_BYTES_PER_HOUR'') default_index_bytes_per_hour 3600
      else (case map_of default_calls_per_min key of Some d \<Rightarrow> configured_rate (env (scope_variable key)) d 60 | None \<Rightarrow> None))"
    using limiter_rates_lookup [of env] by (auto simp: limiter_from_env_def)
  have pos: "0 < default_index_bytes_per_hour" by (simp add: default_index_bytes_per_hour_def)
  have "rate_ok r" if at_key: "map_of rates key = Some r" for key r
  proof (cases "key = index_bytes_budget")
    case True
    then show ?thesis using at_key configured_rate_ok [OF pos default_quotients(5)] by (simp add: look)
  next
    case False
    then obtain d where d: "map_of default_calls_per_min key = Some d" "configured_rate (env (scope_variable key)) d 60 = Some r"
      using at_key by (auto simp: look split: option.splits)
    then have "0 < d" "0 < quotient d 60" using default_calls_pos by (auto dest!: map_of_SomeD)
    then show ?thesis using configured_rate_ok d(2) by blast
  qed
  then have ok: "rates_ok rates" by (simp add: rates_ok_def)
  have one: "(configured_rate (env name) dflt window = None) = (\<exists>raw. env name = Some raw \<and> py_lower (py_strip raw) = ''off'') \<and>
      (case configured_rate (env name) dflt window of
        None \<Rightarrow> True
      | Some r \<Rightarrow> per_second r = quotient (capacity r) window \<and>
          capacity r = (case Option.bind (env name) py_float of
              Some (Fin x) \<Rightarrow> if 0 < x \<and> 0 < quotient x window then x else dflt
            | _ \<Rightarrow> dflt))" for name dflt window
    by (auto simp: configured_rate_def is_off_def limit_value_def usable_limit_def not_le
        split: option.split pyfloat.split)
  have names: "scope_variable ''read'' = ''RECALL_RATE_READ_PER_MIN''" "scope_variable ''write'' = ''RECALL_RATE_WRITE_PER_MIN''"
    "scope_variable ''forget'' = ''RECALL_RATE_FORGET_PER_MIN''" "scope_variable ''admin'' = ''RECALL_RATE_ADMIN_PER_MIN''"
    by code_simp+
  have at: "map_of rates ''read'' = configured_rate (env ''RECALL_RATE_READ_PER_MIN'') 120 60"
    "map_of rates ''write'' = configured_rate (env ''RECALL_RATE_WRITE_PER_MIN'') 20 60"
    "map_of rates ''forget'' = configured_rate (env ''RECALL_RATE_FORGET_PER_MIN'') 10 60"
    "map_of rates ''admin'' = configured_rate (env ''RECALL_RATE_ADMIN_PER_MIN'') 10 60"
    "map_of rates ''index_bytes'' = configured_rate (env ''RECALL_INDEX_BYTES_PER_HOUR'') default_index_bytes_per_hour 3600"
    by (simp_all add: look index_bytes_budget_def default_calls_per_min_def names)
  show ?thesis
    by (intro exI [of _ "make_limiter rates"])
      (simp only: l ok make_limiter_def limiter.simps list.pred_inject prod.case at one simp_thms)
qed

end
