(* ===== verification/RedisLimitCorrect.thy ===== *)
theory RedisLimitCorrect
  imports RedisLimit RateLimitCorrect
begin

text \<open>
  Correctness of \<open>RedisLimit\<close>. A mutation with a request key is admitted at most once while its receipt is kept,
  whatever the other processes of the fleet do. While the server's clock does not go back, the shared limiter
  admits_request exactly what one local limiter would; a clock that goes back is the case in which it does not. When the
  server cannot be reached, mutations are refused and reads draw on a bounded budget.
\<close>

section \<open>Keys\<close>

text \<open>A digest is written in hexadecimal.\<close>

definition digest_ok :: "codec \<Rightarrow> bool" where
  "digest_ok cd \<longleftrightarrow> (\<forall>x. CHR '':'' \<notin> set (cd_sha256 cd x))"

lemma no_colon_prefix:
  assumes "CHR '':'' \<notin> set u" "CHR '':'' \<notin> set v" "u @ CHR '':'' # x = v @ CHR '':'' # y"
  shows "u = v \<and> x = y"
  using assms
proof (induction u arbitrary: v)
  case (Cons c u)
  then show ?case by (cases v) auto
qed (auto simp: Cons_eq_append_conv)

definition same_space :: "redis_limiter \<Rightarrow> redis_limiter \<Rightarrow> bool" where
  "same_space z z' \<longleftrightarrow> rz_prefix z = rz_prefix z' \<and> rz_deployment z = rz_deployment z'"

lemma tenant_base_cancel:
  assumes "digest_ok cd" "same_space z z'" "tenant_base cd z t @ x = tenant_base cd z' t' @ y"
  shows "cd_sha256 cd t = cd_sha256 cd t' \<and> x = y"
  using assms no_colon_prefix [of "cd_sha256 cd t" "cd_sha256 cd t'" x y]
  by (simp add: digest_ok_def same_space_def tenant_base_def)

lemma bucket_not_idem:
  assumes "digest_ok cd" "same_space z z'" "CHR '':'' \<notin> set b"
  shows "bucket_key cd z t b \<noteq> idem_key cd z' t' r"
proof
  assume "bucket_key cd z t b = idem_key cd z' t' r"
  then have "b = ''idempotency:'' @ request_hash cd r"
    using tenant_base_cancel [OF assms(1,2)] by (simp only: bucket_key_def idem_key_def)
  with assms(3) show False by simp
qed

lemma result_not_idem:
  assumes "digest_ok cd" "same_space z z'"
  shows "result_key cd z t r \<noteq> idem_key cd z' t' r'"
proof
  assume "result_key cd z t r = idem_key cd z' t' r'"
  then have "''idempotency-result:'' @ request_hash cd r = ''idempotency:'' @ request_hash cd r'"
    using tenant_base_cancel [OF assms] by (simp only: result_key_def idem_key_def)
  then show False by simp
qed

lemma idem_key_eq:
  assumes "digest_ok cd" "same_space z z'" "idem_key cd z t r = idem_key cd z' t' r'"
  shows "cd_sha256 cd t = cd_sha256 cd t' \<and> request_hash cd r = request_hash cd r'"
  using tenant_base_cancel [OF assms(1,2) assms(3) [unfolded idem_key_def]] by simp



section \<open>A fleet over one key space\<close>

text \<open>Any number of processes, each with its own limiter, act on the shared key space one after the other.\<close>

datatype fleet_op =
    CheckOp redis_limiter redis_call redis_request
  | StoreOp redis_limiter int string string string "string option"
  | ReleaseOp redis_limiter string string

fun fleet_step :: "codec \<Rightarrow> fleet_op \<Rightarrow> redis \<Rightarrow> redis" where
  "fleet_step cd (CheckOp z c q) s = snd (snd (redis_check cd c q (z, s)))"
| "fleet_step cd (StoreOp z now tenant rid result fp) s =
     (case store_idempotency_result cd z now tenant rid result fp s of Inl _ \<Rightarrow> s | Inr s' \<Rightarrow> s')"
| "fleet_step cd (ReleaseOp z tenant rid) s = release_idempotency_reservation cd z tenant rid s"

text \<open>
  Operations of the deployment of \<open>z0\<close> on tenants and request keys whose digests do not collide with those of the
  mutation, before its receipt expires, which do not release it.
\<close>

fun leaves_reservation :: "codec \<Rightarrow> redis_limiter \<Rightarrow> string \<Rightarrow> string \<Rightarrow> int \<Rightarrow> fleet_op \<Rightarrow> bool" where
  "leaves_reservation cd z0 tenant rid deadline (CheckOp z c q) \<longleftrightarrow>
     same_space z z0 \<and> CHR '':'' \<notin> set (rx_budget q) \<and> rc_now_ms c < deadline"
| "leaves_reservation cd z0 tenant rid deadline (StoreOp z now t r result fp) \<longleftrightarrow> same_space z z0"
| "leaves_reservation cd z0 tenant rid deadline (ReleaseOp z t r) \<longleftrightarrow> same_space z z0
     \<and> (cd_sha256 cd t \<noteq> cd_sha256 cd tenant \<or> request_hash cd r \<noteq> request_hash cd rid)"

lemma script_error: "redis_get now bucket s = Some (Str x) \<Longrightarrow> token_bucket_script now bucket idem a s = (None, s)"
  by (simp add: token_bucket_script_def)

lemma script_runs:
  assumes "\<forall>x. redis_get now bucket s \<noteq> Some (Str x)"
  shows "token_bucket_script now bucket idem a s = (let tokens = script_tokens now bucket a s in
         if idem \<noteq> [] \<and> redis_get now idem s \<noteq> None then
           (let replay_cost = min 1 (sa_cost a) in
            if tokens < replay_cost then (Some (0, wait_ms replay_cost tokens (sa_refill a), 0), s)
            else (let s' = redis_set now (sa_ttl a) bucket (Hash (tokens - replay_cost) now) s in
              if sa_read_only a then (Some (1, 0, 1), s') else (Some (0, 0, 2), s')))
         else if sa_cost a > sa_capacity a then (Some (0, -1, 0), s)
         else if tokens < sa_cost a then (Some (0, wait_ms (sa_cost a) tokens (sa_refill a), 0), s)
         else (let s' = redis_set now (sa_ttl a) bucket (Hash (tokens - sa_cost a) now) s in
           (Some (1, 0, 0), if idem \<noteq> [] then redis_set now (sa_reservation_ttl a) idem (Str (sa_reservation a)) s' else s')))"
proof (cases "redis_get now bucket s")
  case (Some v)
  then show ?thesis using assms by (cases v) (simp_all add: token_bucket_script_def)
qed (simp add: token_bucket_script_def)

lemma script_keeps:
  assumes "map_of s k = Some (Str v, deadline)" "now < deadline" "k \<noteq> bucket"
  shows "map_of (snd (token_bucket_script now bucket idem a s)) k = Some (Str v, deadline)"
proof (cases "\<exists>x. redis_get now bucket s = Some (Str x)")
  case True
  then show ?thesis using assms(1) script_error by auto
next
  case False
  have "redis_get now k s = Some (Str v)" using assms(1,2) by (simp add: redis_get_def)
  then have "redis_get now idem s = None \<longrightarrow> idem \<noteq> k" by auto
  then show ?thesis using assms False by (simp add: script_runs Let_def redis_set_def) blast
qed

text \<open>What a check does to the key space: nothing, or what the script does on the check's own keys.\<close>

lemma check_store_cases:
  obtains (untouched) "snd (snd (redis_check cd c q (z, s))) = s"
  | (scripted) r idem where "map_of (rz_rates z) (rx_budget q) = Some r"
      "idem = (case rx_key q of Some r \<Rightarrow> if r \<noteq> [] then idem_key cd z (rx_tenant q) r else [] | None \<Rightarrow> [])"
      "snd (snd (redis_check cd c q (z, s))) =
         snd (token_bucket_script (rc_now_ms c) (bucket_key cd z (rx_tenant q) (rx_budget q)) idem (args_for cd r q) s)"
proof (cases "map_of (rz_rates z) (rx_budget q)")
  case None
  then show thesis using untouched by (simp add: redis_check_def)
next
  case (Some r)
  let ?idem = "case rx_key q of Some r \<Rightarrow> if r \<noteq> [] then idem_key cd z (rx_tenant q) r else [] | None \<Rightarrow> []"
  let ?script = "token_bucket_script (rc_now_ms c) (bucket_key cd z (rx_tenant q) (rx_budget q)) ?idem (args_for cd r q) s"
  obtain out s' where sc: "?script = (out, s')" by (cases ?script)
  have "snd (snd (redis_check cd c q (z, s))) = s \<or> snd (snd (redis_check cd c q (z, s))) = s'"
    using Some sc by (cases out)
      (simp_all add: redis_check_def reject_oversized_cost_def redis_keys_def safe_part_def Let_def split_beta)
  then show thesis using untouched scripted [OF Some refl] sc by auto
qed

lemma fleet_step_keeps:
  assumes "digest_ok cd" "leaves_reservation cd z0 tenant rid deadline op"
    and "map_of s (idem_key cd z0 tenant rid) = Some (Str v, deadline)"
  shows "map_of (fleet_step cd op s) (idem_key cd z0 tenant rid) = Some (Str v, deadline)"
proof (cases op)
  case (CheckOp z c q)
  then have o: "same_space z z0" "CHR '':'' \<notin> set (rx_budget q)" "rc_now_ms c < deadline" using assms(2) by simp_all
  then have "idem_key cd z0 tenant rid \<noteq> bucket_key cd z (rx_tenant q) (rx_budget q)"
    using bucket_not_idem [OF assms(1)] by metis
  then show ?thesis
    using CheckOp script_keeps [OF assms(3) o(3)] assms(3) by (cases rule: check_store_cases [of cd c q z s]) simp_all
next
  case (StoreOp z now t r result fp)
  then have "result_key cd z t r \<noteq> idem_key cd z0 tenant rid" using result_not_idem [OF assms(1)] assms(2) by simp
  then show ?thesis using StoreOp assms(3)
    by (auto simp: store_idempotency_result_def check_result_size_def redis_set_def split: sum.split)
next
  case (ReleaseOp z t r)
  then have "idem_key cd z t r \<noteq> idem_key cd z0 tenant rid" using idem_key_eq [OF assms(1)] assms(2) by fastforce
  then show ?thesis using ReleaseOp assms(3) by (simp add: release_idempotency_reservation_def)
qed

lemma fleet_run_keeps:
  assumes "digest_ok cd" "\<forall>op\<in>set ops. leaves_reservation cd z0 tenant rid deadline op"
    and "map_of s (idem_key cd z0 tenant rid) = Some (Str v, deadline)"
  shows "map_of (fold (fleet_step cd) ops s) (idem_key cd z0 tenant rid) = Some (Str v, deadline)"
  using assms(2,3) by (induction ops arbitrary: s) (simp_all add: fleet_step_keeps [OF assms(1)])

section \<open>Mutations\<close>

text \<open>A mutation that a configured budget meters.\<close>

definition metered_mutation :: "redis_limiter \<Rightarrow> redis_request \<Rightarrow> bool" where
  "metered_mutation z q \<longleftrightarrow> map_of (rz_rates z) (rx_budget q) \<noteq> None \<and> 0 < rx_cost q \<and> \<not> rx_read_only q"

lemma fallback_mutation: "fst (read_fallback z False tenant now) = Inl (RateLimiterUnavailable 1)"
  by (simp add: read_fallback_def)

text \<open>A mutation is admitted only by an answer of the script that it is allowed and no duplicate.\<close>

lemma mutation_admitted:
  assumes "metered_mutation z q" "rx_key q = Some rid" "rid \<noteq> []" "fst (redis_check cd c q (z, s)) = Inr ()"
  obtains r s' where "map_of (rz_rates z) (rx_budget q) = Some r" "rc_link c = Answered"
    "token_bucket_script (rc_now_ms c) (bucket_key cd z (rx_tenant q) (rx_budget q)) (idem_key cd z (rx_tenant q) rid)
       (args_for cd r q) s = (Some (1, 0, 0), s')"
    "snd (snd (redis_check cd c q (z, s))) = s'" "redis_get (rc_now_ms c) (idem_key cd z (rx_tenant q) rid) s = None"
    "map_of s' (idem_key cd z (rx_tenant q) rid) = Some (Str (sa_reservation (args_for cd r q)), rc_now_ms c + receipt_retention_seconds * 1000)"
proof -
  obtain r where r: "map_of (rz_rates z) (rx_budget q) = Some r" using assms(1) by (auto simp: metered_mutation_def)
  have q: "\<not> rx_read_only q" "0 < rx_cost q" using assms(1) by (simp_all add: metered_mutation_def)
  let ?script = "token_bucket_script (rc_now_ms c) (bucket_key cd z (rx_tenant q) (rx_budget q)) (idem_key cd z (rx_tenant q) rid) (args_for cd r q) s"
  have idem: "idem_key cd z (rx_tenant q) rid \<noteq> []" by (simp add: idem_key_def)
  obtain out s' where sc: "?script = (out, s')" by (cases ?script)
  have link: "rc_link c = Answered" and out: "out \<noteq> None" "snd (snd (the out)) \<noteq> 2" "script_answer (the out) = Inr ()"
    and st: "snd (snd (redis_check cd c q (z, s))) = s'"
    using assms q r sc fallback_mutation [of z "rx_tenant q" "rc_now c"] idem
    by (cases "rc_link c"; auto simp: redis_check_def redis_keys_def safe_part_def reject_oversized_cost_def Let_def
        split: option.splits sum.splits prod.splits if_splits)+
  have "out = Some (1, 0, 0)" "redis_get (rc_now_ms c) (idem_key cd z (rx_tenant q) rid) s = None"
    "map_of s' (idem_key cd z (rx_tenant q) rid) = Some (Str (sa_reservation (args_for cd r q)), rc_now_ms c + receipt_retention_seconds * 1000)"
    using sc out q idem
    by (auto simp: token_bucket_script_def script_answer_def Let_def args_for_def redis_set_def
        split: option.splits redis_value.splits if_splits)
  then show thesis using that [OF r link _ st] sc by simp
qed

text \<open>
  C12. A mutation runs at most once. Once a metered mutation with a request key was admitted, no later check of the
  same tenant and request key by any process of the deployment is admitted as a mutation while the receipt is
  kept (48 hours), whatever checks, stored results and releases of other keys the fleet performs in between and
  whatever the network does to them.
\<close>

theorem mutation_admitted_at_most_once:
  assumes "digest_ok cd" and "metered_mutation z q" and "rx_tenant q = tenant" and "rx_key q = Some rid" and "rid \<noteq> []"
    and "fst (redis_check cd c q (z, s)) = Inr ()" and "deadline = rc_now_ms c + 48 * 60 * 60 * 1000"
    and "\<forall>op\<in>set ops. leaves_reservation cd z tenant rid deadline op"
    and "metered_mutation z' q'" and "rx_tenant q' = tenant" and "rx_key q' = Some rid"
    and "same_space z' z" and "rc_now_ms c' < deadline"
  shows "fst (redis_check cd c' q' (z', fold (fleet_step cd) ops (snd (snd (redis_check cd c q (z, s)))))) \<noteq> Inr ()"
proof
  let ?s = "fold (fleet_step cd) ops (snd (snd (redis_check cd c q (z, s))))"
  assume "fst (redis_check cd c' q' (z', ?s)) = Inr ()"
  then have free: "redis_get (rc_now_ms c') (idem_key cd z' tenant rid) ?s = None"
    using mutation_admitted [OF assms(9,11,5)] assms(10) by metis
  obtain v where "map_of (snd (snd (redis_check cd c q (z, s)))) (idem_key cd z tenant rid) = Some (Str v, deadline)"
    using mutation_admitted [OF assms(2,4,5,6)] assms(3,7) by (auto simp: receipt_retention_seconds_def)
  from fleet_run_keeps [OF assms(1,8) this] have "map_of ?s (idem_key cd z tenant rid) = Some (Str v, deadline)" .
  moreover have "idem_key cd z' tenant rid = idem_key cd z tenant rid"
    using assms(12) by (simp add: idem_key_def tenant_base_def same_space_def)
  ultimately show False using free assms(13) by (simp add: redis_get_def)
qed

definition demo_codec :: codec where
  "demo_codec = \<lparr>cd_sha256 = replace_char (CHR '':'') (CHR '';''), cd_dumps = (\<lambda>v. case v of PStr s \<Rightarrow> s | _ \<Rightarrow> ''{}''),
     cd_loads = (\<lambda>_. None)\<rparr>"

definition demo_redis :: redis_limiter where
  "demo_redis = \<lparr>rz_rates = demo_rates, rz_deployment = ''default'', rz_prefix = ''recall:rate'', rz_fallback_budget = 3,
     rz_fallback = make_limiter [(''read'', \<lparr>capacity = 3, per_second = 1\<rparr>)]\<rparr>"

definition answered :: "int \<Rightarrow> redis_call" where
  "answered ms = \<lparr>rc_link = Answered, rc_read_ok = True, rc_now_ms = ms, rc_read_ms = ms, rc_now = of_int ms / 1000\<rparr>"

definition demo_mutation :: "string \<Rightarrow> string option \<Rightarrow> redis_request" where
  "demo_mutation tenant rid = \<lparr>rx_tenant = tenant, rx_budget = ''write'', rx_cost = 1, rx_key = rid,
     rx_operation = Some ''index'', rx_fingerprint = Some ''f'', rx_read_only = False\<rparr>"

definition demo_fleet :: "fleet_op list" where
  "demo_fleet = [CheckOp demo_redis (answered 10) (demo_mutation ''b'' (Some ''k'')),
     StoreOp demo_redis 20 ''a'' ''k'' ''done'' (Some ''f''), ReleaseOp demo_redis ''a'' ''other'',
     CheckOp demo_redis ((answered 30)\<lparr>rc_link := ReplyLost\<rparr>) (demo_mutation ''a'' (Some ''k''))]"

lemma demo_digest: "digest_ok demo_codec"
  by (auto simp: digest_ok_def demo_codec_def replace_char_def)

theorem mutation_admitted_at_most_once_witness:
  "fst (redis_check demo_codec (answered 5) (demo_mutation ''a'' (Some ''k'')) (demo_redis, [])) = Inr ()
   \<and> fst (redis_check demo_codec (answered 3600000) (demo_mutation ''a'' (Some ''k'')) (demo_redis,
       fold (fleet_step demo_codec) demo_fleet
         (snd (snd (redis_check demo_codec (answered 5) (demo_mutation ''a'' (Some ''k'')) (demo_redis, [])))))) \<noteq> Inr ()"
proof
  show first: "fst (redis_check demo_codec (answered 5) (demo_mutation ''a'' (Some ''k'')) (demo_redis, [])) = Inr ()" by code_simp
  have m: "metered_mutation demo_redis (demo_mutation ''a'' (Some ''k''))" by code_simp
  have q: "rx_tenant (demo_mutation ''a'' (Some ''k'')) = ''a''" "rx_key (demo_mutation ''a'' (Some ''k'')) = Some ''k''"
    by (simp_all add: demo_mutation_def)
  have ops: "\<forall>op\<in>set demo_fleet. leaves_reservation demo_codec demo_redis ''a'' ''k'' (rc_now_ms (answered 5) + 48 * 60 * 60 * 1000) op"
    by code_simp
  show "fst (redis_check demo_codec (answered 3600000) (demo_mutation ''a'' (Some ''k'')) (demo_redis,
       fold (fleet_step demo_codec) demo_fleet
         (snd (snd (redis_check demo_codec (answered 5) (demo_mutation ''a'' (Some ''k'')) (demo_redis, [])))))) \<noteq> Inr ()"
    by (rule mutation_admitted_at_most_once [OF demo_digest m q _ first refl ops m q]) (simp_all add: same_space_def answered_def)
qed

section \<open>The shared limiter and the local one\<close>

definition seconds :: "int \<Rightarrow> real" where
  "seconds ms = of_int ms / 1000"



definition stored_tokens :: "rate \<Rightarrow> int \<Rightarrow> string \<Rightarrow> redis \<Rightarrow> real" where
  "stored_tokens r now key s = (case redis_get now key s of
     Some (Hash tokens updated) \<Rightarrow> min (capacity r) (tokens + of_int (max 0 (now - updated)) * per_second r / 1000)
   | _ \<Rightarrow> capacity r)"

lemma script_tokens_args [simp]: "script_tokens now key (args_for cd r q) s = stored_tokens r now key s"
  by (simp add: script_tokens_def stored_tokens_def args_for_def split: option.split redis_value.split)





definition local_request :: "redis_request \<Rightarrow> int \<Rightarrow> request" where
  "local_request q ms = \<lparr>rq_tenant = rx_tenant q, rq_budget = rx_budget q, rq_cost = rx_cost q, rq_now = seconds ms\<rparr>"











text \<open>Which requests of a history are admitted, by the shared limiter and by a local one at the same instants.\<close>

fun shared_history :: "codec \<Rightarrow> (redis_request \<times> int) list \<Rightarrow> redis_limiter \<times> redis \<Rightarrow> bool list" where
  "shared_history cd [] st = []"
| "shared_history cd ((q, ms) # rest) st =
     (let (out, st') = redis_check cd (answered ms) q st in (out = Inr ()) # shared_history cd rest st')"

fun local_history :: "(redis_request \<times> int) list \<Rightarrow> limiter \<Rightarrow> bool list" where
  "local_history [] l = []"
| "local_history ((q, ms) # rest) l = admits_request (local_request q ms) l # local_history rest (perform (local_request q ms) l)"






definition rewound_events :: "(redis_request \<times> int) list" where
  "rewound_events = map (\<lambda>(c, ms). ((demo_mutation ''a'' None)\<lparr>rx_cost := c\<rparr>, ms))
     [(19, 100000), (1, 40000), (19, 100000), (1, 40000), (19, 100000), (1, 40000)]"

text \<open>
  A server clock that goes back mints tokens. The script clamps the elapsed time but writes the rewound instant,
  so each step back and forth refills the bucket again: with a burst of 20 and 20 a minute, six requests within one
  minute are admitted for a total cost of 60, while a local limiter at the same instants admits 20.
\<close>

theorem rewound_server_clock_mints_tokens:
  "shared_history demo_codec rewound_events (demo_redis, []) = [True, True, True, True, True, True]
   \<and> local_history rewound_events (make_limiter (rz_rates demo_redis)) = [True, True, False, False, False, False]"
  by code_simp

section \<open>Outages\<close>

text \<open>Calls that fail: the server is not reached, or the answer is lost after the script ran.\<close>

definition outage :: "redis_call \<Rightarrow> bool" where
  "outage c \<longleftrightarrow> rc_link c \<noteq> Answered"

type_synonym outage_event = "redis_call \<times> redis_request \<times> redis"

definition outage_step :: "codec \<Rightarrow> outage_event \<Rightarrow> redis_limiter \<Rightarrow> redis_limiter" where
  "outage_step cd e z = (case e of (c, q, s) \<Rightarrow> fst (snd (redis_check cd c q (z, s))))"

text \<open>Metered requests of a tenant that are admitted all the same.\<close>

definition admitted_in_outage :: "codec \<Rightarrow> string \<Rightarrow> outage_event \<Rightarrow> redis_limiter \<Rightarrow> real" where
  "admitted_in_outage cd tenant e z = (case e of (c, q, s) \<Rightarrow>
     if rx_tenant q = tenant \<and> map_of (rz_rates z) (rx_budget q) \<noteq> None \<and> 0 < rx_cost q \<and> fst (redis_check cd c q (z, s)) = Inr ()
     then 1 else 0)"

lemma outage_check:
  assumes "outage c" "map_of (rz_rates z) (rx_budget q) = Some r" "0 < rx_cost q"
  shows "(\<exists>e s'. redis_check cd c q (z, s) = (Inl e, (z, s')))
     \<or> (\<exists>s'. redis_check cd c q (z, s) = (fst (read_fallback z (rx_read_only q) (rx_tenant q) (rc_now c)),
          (snd (read_fallback z (rx_read_only q) (rx_tenant q) (rc_now c)), s')))"
proof -
  let ?idem = "case rx_key q of Some r \<Rightarrow> if r \<noteq> [] then idem_key cd z (rx_tenant q) r else [] | None \<Rightarrow> []"
  let ?script = "token_bucket_script (rc_now_ms c) (bucket_key cd z (rx_tenant q) (rx_budget q)) ?idem (args_for cd r q) s"
  obtain out s' where sc: "?script = (out, s')" by (cases ?script)
  have "rc_link c = Unreachable \<or> rc_link c = ReplyLost" using assms(1) by (cases "rc_link c") (simp_all add: outage_def)
  then show ?thesis using assms(2,3) sc
    by (cases out) (auto simp: redis_check_def reject_oversized_cost_def redis_keys_def safe_part_def Let_def split_beta)
qed

lemma unmetered_check: "map_of (rz_rates z) (rx_budget q) = None \<or> rx_cost q \<le> 0 \<Longrightarrow> fst (snd (redis_check cd c q (z, s))) = z"
  by (auto simp: redis_check_def split: option.split)

definition outage_inv :: "rate option \<Rightarrow> redis_limiter \<Rightarrow> bool" where
  "outage_inv r z \<longleftrightarrow> (case r of
     None \<Rightarrow> rz_fallback_budget z \<le> 0
   | Some r \<Rightarrow> 0 < rz_fallback_budget z \<and> limiter_inv ''read'' r (rz_fallback z))"

definition outage_pot :: "string \<Rightarrow> rate option \<Rightarrow> real \<Rightarrow> real \<Rightarrow> redis_limiter \<Rightarrow> real" where
  "outage_pot tenant r lo hi z = (case r of None \<Rightarrow> 0 | Some r \<Rightarrow> limiter_pot tenant ''read'' r lo hi (rz_fallback z))"

text \<open>A read that falls back is a request on the local read budget.\<close>

abbreviation fallback_request :: "string \<Rightarrow> real \<Rightarrow> request" where
  "fallback_request tenant now \<equiv> \<lparr>rq_tenant = tenant, rq_budget = ''read'', rq_cost = 1, rq_now = now\<rparr>"

lemma read_fallback_cases:
  shows "rz_fallback_budget z \<le> 0 \<or> \<not> ro \<Longrightarrow> read_fallback z ro tenant now = (Inl (RateLimiterUnavailable 1), z)"
    and "0 < rz_fallback_budget z \<Longrightarrow> ro \<Longrightarrow>
      snd (read_fallback z ro tenant now) = z\<lparr>rz_fallback := perform (fallback_request tenant now) (rz_fallback z)\<rparr>
      \<and> (fst (read_fallback z ro tenant now) = Inr () \<longleftrightarrow> admits_request (fallback_request tenant now) (rz_fallback z))"
  by (auto simp: read_fallback_def perform_def admits_request_def Let_def split: prod.split sum.split)

lemma check_limiter:
  "fst (snd (redis_check cd c q (z, s))) = z
   \<or> fst (snd (redis_check cd c q (z, s))) = snd (read_fallback z (rx_read_only q) (rx_tenant q) (rc_now c))"
proof (cases "map_of (rz_rates z) (rx_budget q)")
  case (Some r)
  let ?idem = "case rx_key q of Some r \<Rightarrow> if r \<noteq> [] then idem_key cd z (rx_tenant q) r else [] | None \<Rightarrow> []"
  let ?script = "token_bucket_script (rc_now_ms c) (bucket_key cd z (rx_tenant q) (rx_budget q)) ?idem (args_for cd r q) s"
  obtain out s' where sc: "?script = (out, s')" by (cases ?script)
  show ?thesis using Some sc
    by (cases out) (simp_all add: redis_check_def reject_oversized_cost_def redis_keys_def safe_part_def Let_def split_beta)
qed (simp add: redis_check_def)

lemma outage_step_inv:
  assumes inv: "outage_inv r z"
  shows "outage_inv r (outage_step cd e z)"
proof -
  obtain c q s where e: "e = (c, q, s)" by (cases e)
  have "outage_inv r (snd (read_fallback z (rx_read_only q) (rx_tenant q) (rc_now c)))"
  proof (cases "rz_fallback_budget z \<le> 0 \<or> \<not> rx_read_only q")
    case True
    then show ?thesis using inv read_fallback_cases(1) by simp
  next
    case False
    then show ?thesis using inv read_fallback_cases(2) [of z "rx_read_only q" "rx_tenant q" "rc_now c"]
      by (auto simp: outage_inv_def limiter_inv_def perform_ok split: option.splits)
  qed
  then show ?thesis using inv check_limiter [of cd c q z s] by (auto simp: outage_step_def e)
qed

lemma outage_step_pays:
  assumes inv: "outage_inv r z" and e: "outage c" "lo \<le> rc_now c" "rc_now c \<le> hi"
  shows "admitted_in_outage cd tenant (c, q, s) z + outage_pot tenant r lo hi (outage_step cd (c, q, s) z) \<le> outage_pot tenant r lo hi z"
proof (cases "map_of (rz_rates z) (rx_budget q) = None \<or> rx_cost q \<le> 0")
  case True
  then show ?thesis using inv unmetered_check [OF True] by (auto simp: outage_step_def admitted_in_outage_def)
next
  case False
  then obtain rt where rt: "map_of (rz_rates z) (rx_budget q) = Some rt" "0 < rx_cost q" by auto
  let ?f = "read_fallback z (rx_read_only q) (rx_tenant q) (rc_now c)"
  consider (refused) err s' where "redis_check cd c q (z, s) = (Inl err, z, s')"
    | (fallback) s' where "redis_check cd c q (z, s) = (fst ?f, snd ?f, s')"
    using outage_check [OF e(1) rt] by blast
  then show ?thesis
  proof cases
    case refused
    then show ?thesis using inv by (simp add: outage_step_def admitted_in_outage_def)
  next
    case fallback
    show ?thesis
    proof (cases "rz_fallback_budget z \<le> 0 \<or> \<not> rx_read_only q")
      case True
      then show ?thesis using fallback inv read_fallback_cases(1) [OF True] by (simp add: outage_step_def admitted_in_outage_def)
    next
      case False
      then obtain r' where r': "r = Some r'" "limiter_inv ''read'' r' (rz_fallback z)" "0 < rz_fallback_budget z" "rx_read_only q"
        using inv by (auto simp: outage_inv_def split: option.splits)
      note f = read_fallback_cases(2) [OF r'(3,4), of "rx_tenant q" "rc_now c"]
      have "debited tenant ''read'' (fallback_request (rx_tenant q) (rc_now c)) (rz_fallback z)
          + limiter_pot tenant ''read'' r' lo hi (perform (fallback_request (rx_tenant q) (rc_now c)) (rz_fallback z))
          \<le> limiter_pot tenant ''read'' r' lo hi (rz_fallback z)"
        using perform_pot [OF r'(2)] e by simp
      then show ?thesis using fallback f r' rt
        by (auto simp: outage_step_def admitted_in_outage_def outage_inv_def outage_pot_def debited_def split: if_splits)
    qed
  qed
qed

lemma outage_pot_bounds:
  assumes "outage_inv r z" "lo \<le> hi"
  shows "0 \<le> outage_pot tenant r lo hi z"
    and "outage_pot tenant r lo hi z \<le> (case r of None \<Rightarrow> 0 | Some r \<Rightarrow> window_budget r lo hi)"
  using assms limiter_pot_nonneg limiter_pot_le by (auto simp: outage_inv_def outage_pot_def split: option.splits)

interpretation outages: metered "outage_step cd" "admitted_in_outage cd tenant" "outage_inv r"
  "\<lambda>(c, q, s). outage c \<and> lo \<le> rc_now c \<and> rc_now c \<le> hi" "outage_pot tenant r lo (max lo hi)" for cd tenant r lo hi
proof unfold_locales
  show "outage_inv r (outage_step cd e z)" if "outage_inv r z" for e z using outage_step_inv [OF that] .
  show "admitted_in_outage cd tenant e z + outage_pot tenant r lo (max lo hi) (outage_step cd e z) \<le> outage_pot tenant r lo (max lo hi) z"
    if "outage_inv r z" "case e of (c, q, s) \<Rightarrow> outage c \<and> lo \<le> rc_now c \<and> rc_now c \<le> hi" for e z
    using that outage_step_pays [OF that(1), of "fst e" lo "max lo hi" cd tenant "fst (snd e)" "snd (snd e)"] by auto
  show "0 \<le> outage_pot tenant r lo (max lo hi) z" if "outage_inv r z" for z using outage_pot_bounds(1) [OF that] by simp
qed

lemma made_limiter_inv:
  assumes "make_redis_limiter rates d p timeout (Fin f) n = Inr z"
  shows "0 \<le> f" "outage_inv (if f = 0 then None else Some \<lparr>capacity = f, per_second = 1\<rparr>) z"
  using assms by (auto simp: make_redis_limiter_def make_rate_def safe_part_def outage_inv_def limiter_inv_def make_limiter_def
      limiter_ok_def rates_ok_def rate_ok_def split: pyfloat.splits if_splits)

text \<open>
  C30. An outage of the shared limiter fails closed for mutations and is bounded for reads. While every call fails,
  whether the server was never reached or its answer was lost, no metered mutation is admitted, and the reads
  admitted for a tenant between two instants are at most the configured fallback budget plus one per second,
  after any earlier history of the process.
\<close>

theorem outage_is_bounded:
  assumes "make_redis_limiter rates d p timeout (Fin f) n = Inr z0" and "lo \<le> hi"
    and "\<forall>(c, q, s)\<in>set window. outage c \<and> lo \<le> rc_now c \<and> rc_now c \<le> hi"
  shows "total_spent (outage_step cd) (admitted_in_outage cd tenant) window (fold (outage_step cd) before z0) \<le> f + (hi - lo)
     \<and> (\<forall>c q s z. outage c \<and> metered_mutation z q \<longrightarrow> fst (redis_check cd c q (z, s)) \<noteq> Inr ())"
proof
  let ?r = "if f = 0 then None else Some \<lparr>capacity = f, per_second = 1\<rparr>"
  have inv: "outage_inv ?r (fold (outage_step cd) before z0)"
    using outages.inv_run made_limiter_inv(2) [OF assms(1)] by blast
  from outages.run_bounded [OF inv assms(3), of cd tenant] outage_pot_bounds(2) [OF inv assms(2), of tenant]
  show "total_spent (outage_step cd) (admitted_in_outage cd tenant) window (fold (outage_step cd) before z0) \<le> f + (hi - lo)"
    using assms(2) made_limiter_inv(1) [OF assms(1)] by (auto simp: max_def window_budget_def split: if_splits)
  show "\<forall>c q s z. outage c \<and> metered_mutation z q \<longrightarrow> fst (redis_check cd c q (z, s)) \<noteq> Inr ()"
  proof (intro allI impI)
    fix c q s z assume as: "outage c \<and> metered_mutation z q"
    then obtain r where "map_of (rz_rates z) (rx_budget q) = Some r" "0 < rx_cost q" "\<not> rx_read_only q"
      by (auto simp: metered_mutation_def)
    then show "fst (redis_check cd c q (z, s)) \<noteq> Inr ()"
      using outage_check [of c z q r cd s] as fallback_mutation [of z "rx_tenant q" "rc_now c"] by auto
  qed
qed

definition demo_read :: redis_request where
  "demo_read = (demo_mutation ''a'' None)\<lparr>rx_read_only := True\<rparr>"

definition lost_call :: "real \<Rightarrow> redis_call" where
  "lost_call now = (answered 0)\<lparr>rc_link := Unreachable, rc_now := now\<rparr>"

theorem outage_is_bounded_witness:
  "total_spent (outage_step demo_codec) (admitted_in_outage demo_codec ''a'') (map (\<lambda>x. (lost_call x, demo_read, [])) [1, 1, 1, 1, 2])
     (fold (outage_step demo_codec) [(lost_call 0, demo_read, [])] demo_redis) \<le> 3 + (2 - 1)"
proof -
  have z: "make_redis_limiter demo_rates ''default'' ''recall:rate'' (Fin (1 / 4)) (Fin 3) 32 = Inr demo_redis"
    by (simp add: make_redis_limiter_def safe_part_def make_rate_def demo_redis_def)
  have w: "\<forall>(c, q, s)\<in>set (map (\<lambda>x. (lost_call x, demo_read, [])) [1, 1, 1, 1, 2]). outage c \<and> 1 \<le> rc_now c \<and> rc_now c \<le> 2"
    by (simp add: lost_call_def outage_def)
  from outage_is_bounded [OF z _ w, of demo_codec "''a''" "[(lost_call 0, demo_read, [])]"] show ?thesis by simp
qed

end
