(* ===== verification/ScopePrior.thy ===== *)
theory ScopePrior
  imports TrustTypes SecurityPolicy
begin

text \<open>
  The structural dimension of retrieval, from \<open>src/recall/scope.py\<close> and \<open>src/recall/scope_prior.py\<close>: which scope a
  caller names, and the prior that reorders a ranked list by the affinity of the query to folders or facets.
\<close>

section \<open>Scopes\<close>

definition empty_scope :: scope where
  "empty_scope = \<lparr>sc_source = None, sc_folder = None, sc_facet = None, sc_prefixes = None, sc_digest = None\<rparr>"

definition scope_is_empty :: "scope \<Rightarrow> bool" where
  "scope_is_empty s \<longleftrightarrow> sc_source s = None \<and> sc_folder s = None \<and> sc_facet s = None \<and> sc_prefixes s = None \<and> sc_digest s = None"

fun blank :: "string option \<Rightarrow> bool" where
  "blank None = False"
| "blank (Some s) = (py_strip s = [])"

text \<open>\<open>Scope.__post_init__\<close>: an empty name is refused, for read as no filter it would widen the search.\<close>

definition make_scope :: "scope \<Rightarrow> scope result" where
  "make_scope s =
     (if blank (sc_source s) \<or> blank (sc_folder s) \<or> blank (sc_facet s)
      then Inl (ValueError ''was empty or whitespace; pass None for no filter'')
      else if list_ex (\<lambda>p. py_strip p = []) (case sc_prefixes s of None \<Rightarrow> [] | Some ps \<Rightarrow> ps)
      then Inl (ValueError ''source_prefixes must contain non empty strings'')
      else if blank (sc_digest s) then Inl (ValueError ''security_policy_digest must be a non empty string or None'')
      else Inr s)"

definition coerce_scope :: "scope option \<Rightarrow> string option \<Rightarrow> scope result" where
  "coerce_scope scope source = (case scope of
     None \<Rightarrow> (case source of Some s \<Rightarrow> make_scope (empty_scope\<lparr>sc_source := Some s\<rparr>) | None \<Rightarrow> Inr empty_scope)
   | Some s \<Rightarrow> (case source of Some _ \<Rightarrow> Inl (ValueError ''pass either scope= or source=, not both'') | None \<Rightarrow> Inr s))"

definition strip_slashes :: "string \<Rightarrow> string" where
  "strip_slashes s = strip_by (\<lambda>c. c = CHR ''/'') (replace_char (CHR 0x5C) (CHR ''/'') s)"

text \<open>\<open>posixpath.dirname\<close>: the head before the last slash, without its trailing slashes unless it has nothing else.\<close>

definition dirname :: "string \<Rightarrow> string" where
  "dirname p = (let head = rev (dropWhile (\<lambda>c. c \<noteq> CHR ''/'') (rev p)) in
     if list_ex (\<lambda>c. c \<noteq> CHR ''/'') head then rev (dropWhile (\<lambda>c. c = CHR ''/'') (rev head)) else head)"

definition folder_of :: "string \<Rightarrow> string" where
  "folder_of file = dirname (strip_slashes file)"

section \<open>The prior\<close>

record scope_prior =
  pr_dimension :: string
  pr_weight :: real
  pr_min_chunks :: int

definition default_prior :: scope_prior where
  "default_prior = \<lparr>pr_dimension = ''folder'', pr_weight = 0, pr_min_chunks = 5\<rparr>"

definition max_weight :: real where
  "max_weight = 1 / 2"

definition make_prior :: "string \<Rightarrow> pyfloat \<Rightarrow> int \<Rightarrow> scope_prior result" where
  "make_prior dimension weight min_chunks =
     (if dimension \<notin> {''folder'', ''facet''} then Inl (ValueError ''dimension must be folder or facet'')
      else (case weight of
        Fin w \<Rightarrow> if w < 0 then Inl (ValueError ''weight must be >= 0'')
          else if w > max_weight then Inl (ValueError ''weight exceeds MAX_WEIGHT'')
          else if min_chunks < 1 then Inl (ValueError ''min_chunks must be >= 1'')
          else Inr \<lparr>pr_dimension = dimension, pr_weight = w, pr_min_chunks = min_chunks\<rparr>
      | _ \<Rightarrow> Inl (ValueError ''weight must be finite'')))"

definition prior_enabled :: "scope_prior \<Rightarrow> bool" where
  "prior_enabled p \<longleftrightarrow> pr_weight p > 0"

definition scope_value_of :: "scored_chunk \<Rightarrow> string \<Rightarrow> string option result" where
  "scope_value_of hit dimension =
     (let metadata = chunk_metadata (sc_chunk hit) in
      if dimension = ''folder'' then
        (case py_get metadata ''file'' of PStr f \<Rightarrow> Inr (if f \<noteq> [] then Some (folder_of f) else None) | _ \<Rightarrow> Inr None)
      else if dimension = ''facet'' then
        (case py_get metadata ''type'' of
           PStr f \<Rightarrow> Inr (if py_strip f \<noteq> [] then Some (py_lower (py_strip f)) else None) | _ \<Rightarrow> Inr None)
      else Inl (ValueError ''unknown scope dimension''))"

definition cosine :: "real list \<Rightarrow> real list \<Rightarrow> real result" where
  "cosine a b =
     (if length a \<noteq> length b then Inl (ValueError ''vectors differ in length'')
      else (let d = (\<Sum>(x, y)\<leftarrow>zip a b. x * y); na = sqrt (\<Sum>x\<leftarrow>a. x * x); nb = sqrt (\<Sum>y\<leftarrow>b. y * y) in
        Inr (if na = 0 \<or> nb = 0 then 0 else d / (na * nb))))"

type_synonym centroid = "string \<times> int \<times> real list"

fun raw_affinities :: "real list \<Rightarrow> centroid list \<Rightarrow> (string, real) dict \<Rightarrow> (string, real) dict result" where
  "raw_affinities q [] d = Inr d"
| "raw_affinities q ((v, n, vec) # cs) d = and_then (cosine q vec) (\<lambda>c. raw_affinities q cs (dict_set v c d))"

fun list_min :: "real \<Rightarrow> real list \<Rightarrow> real" where
  "list_min m [] = m"
| "list_min m (x # xs) = list_min (if x < m then x else m) xs"

fun list_max :: "real \<Rightarrow> real list \<Rightarrow> real" where
  "list_max m [] = m"
| "list_max m (x # xs) = list_max (if x > m then x else m) xs"

text \<open>\<open>affinities\<close>: the cosines to the centroids, stretched to the unit interval; inert with fewer than two folders.\<close>

definition stretched :: "(string, real) dict \<Rightarrow> (string, real) dict" where
  "stretched raw = (let vs = map snd raw; low = list_min (hd vs) (tl vs); high = list_max (hd vs) (tl vs) in
     map (\<lambda>(v, s). (v, if high - low \<le> 0 then 0 else (s - low) / (high - low))) raw)"

definition affinities :: "real list \<Rightarrow> centroid list \<Rightarrow> (string, real) dict result" where
  "affinities q centroids =
     (if length centroids < 2 then Inr (fold (\<lambda>(v, n, vec). dict_set v 0) centroids [])
      else and_then (raw_affinities q centroids []) (\<lambda>raw. Inr (stretched raw)))"

fun values_of :: "string \<Rightarrow> scored_chunk list \<Rightarrow> (string option \<times> scored_chunk) list result" where
  "values_of dimension [] = Inr []"
| "values_of dimension (h # hs) = and_then (scope_value_of h dimension) (\<lambda>v. and_then (values_of dimension hs) (\<lambda>vs. Inr ((v, h) # vs)))"

definition affinity_of :: "(string, real) dict \<Rightarrow> string option \<Rightarrow> real" where
  "affinity_of aff v = (case v of Some x \<Rightarrow> dict_get aff x 0 | None \<Rightarrow> 0)"

text \<open>
  The sort key of the hit at an index, negated: \<open>sorted\<close> with \<open>reverse\<close> is stable and descending. The base falls from
  one to zero with the rank.
\<close>

definition prior_key :: "scope_prior \<Rightarrow> nat \<Rightarrow> nat \<Rightarrow> real \<Rightarrow> real \<times> real" where
  "prior_key p n i a = (- ((real (n - 1) - real i) / real (n - 1) + pr_weight p * a), - a)"

definition apply_scope_prior ::
  "scored_chunk list \<Rightarrow> (string, real) dict \<Rightarrow> scope_prior \<Rightarrow> scored_chunk list result" where
  "apply_scope_prior hits aff p =
     (if \<not> prior_enabled p \<or> length hits < 2 then Inr hits
      else and_then (values_of (pr_dimension p) hits) (\<lambda>valued.
        Inr (map (snd \<circ> snd) (sort_key (\<lambda>(i, v, h). prior_key p (length hits) i (affinity_of aff v)) (enumerate 0 valued)))))"

section \<open>What the prior can move\<close>

lemma list_min_le: "list_min m xs \<le> m \<and> (\<forall>x\<in>set xs. list_min m xs \<le> x)"
proof (induction xs arbitrary: m)
  case (Cons x xs)
  show ?case using Cons.IH [of x] Cons.IH [of m] by auto
qed simp

lemma list_max_ge: "m \<le> list_max m xs \<and> (\<forall>x\<in>set xs. x \<le> list_max m xs)"
proof (induction xs arbitrary: m)
  case (Cons x xs)
  show ?case using Cons.IH [of x] Cons.IH [of m] by auto
qed simp

lemma stretched_unit: "(v, a) \<in> set (stretched raw) \<Longrightarrow> 0 \<le> a \<and> a \<le> 1"
proof -
  assume "(v, a) \<in> set (stretched raw)"
  let ?vs = "map snd raw" let ?low = "list_min (hd ?vs) (tl ?vs)" and ?high = "list_max (hd ?vs) (tl ?vs)"
  obtain s where s: "(v, s) \<in> set raw" "a = (if ?high - ?low \<le> 0 then 0 else (s - ?low) / (?high - ?low))"
    using \<open>(v, a) \<in> set (stretched raw)\<close> by (auto simp: stretched_def Let_def)
  then have "s \<in> set (hd ?vs # tl ?vs)" by (cases raw) force+
  then have "?low \<le> s" "s \<le> ?high" using list_min_le list_max_ge by auto
  then show ?thesis using s(2) by auto
qed

lemma values_of_map: "values_of dimension hits = Inr valued \<Longrightarrow> map snd valued = hits"
  by (induction hits arbitrary: valued) auto

definition unit_affinities :: "(string, real) dict \<Rightarrow> bool" where
  "unit_affinities aff \<longleftrightarrow> (\<forall>a\<in>snd ` set aff. 0 \<le> a \<and> a \<le> 1)"

lemma affinity_of_unit: "unit_affinities aff \<Longrightarrow> 0 \<le> affinity_of aff v \<and> affinity_of aff v \<le> 1"
  by (auto simp: unit_affinities_def affinity_of_def dict_get_def split: option.split dest!: map_of_SomeD)

lemma affinities_unit:
  assumes "affinities q cs = Inr aff"
  shows "unit_affinities aff"
proof (cases "length cs < 2")
  case True
  have "set (fold (\<lambda>c. dict_set (fst c) 0) cs []) \<subseteq> set [] \<union> (\<lambda>c. (fst c, 0 :: real)) ` set cs"
    by (rule set_fold_dict_set)
  moreover have "aff = fold (\<lambda>c. dict_set (fst c) 0) cs []"
    using True assms by (simp add: affinities_def case_prod_unfold)
  ultimately show ?thesis by (auto simp: unit_affinities_def)
next
  case False
  then obtain raw where "aff = stretched raw" using assms by (auto simp: affinities_def)
  then show ?thesis using stretched_unit by (auto simp: unit_affinities_def)
qed

text \<open>A hit stands before one that was retrieved above it only if it was near enough.\<close>

lemma prior_key_le:
  assumes "prior_key p n j b \<le> prior_key p n i a" "i < j" "j < n" "0 \<le> a" "b \<le> 1" "0 \<le> pr_weight p"
  shows "real j - real i \<le> pr_weight p * (real n - 1)"
proof -
  have n: "0 < real (n - 1)" "real (n - 1) = real n - 1" using assms(2,3) by auto
  have "(real (n - 1) - real i) / real (n - 1) + pr_weight p * a \<le> (real (n - 1) - real j) / real (n - 1) + pr_weight p * b"
    using assms(1) by (auto simp: prior_key_def less_eq_prod_def)
  then have "(real j - real i) / real (n - 1) \<le> pr_weight p * b - pr_weight p * a"
    by (simp add: diff_divide_distrib)
  also have "\<dots> \<le> pr_weight p"
    using mult_left_le [OF assms(5,6)] mult_nonneg_nonneg [OF assms(6,4)] by linarith
  finally show ?thesis using n by (simp add: pos_divide_le_eq)
qed

lemma low_indices_card: "x \<le> real (card {i :: nat. real i < x})"
proof (cases "x \<le> 0")
  case False
  have "i < nat \<lceil>x\<rceil> \<longleftrightarrow> real i < x" for i using less_ceiling_iff [of "int i" x] by (simp add: zless_nat_eq_int_zless)
  then have "{i. real i < x} = {..<nat \<lceil>x\<rceil>}" by blast
  then show ?thesis using False by (simp add: le_of_int_ceiling)
qed simp

lemma sorted_take_before:
  assumes "sorted (map f xs)" "y \<in> set xs" "pos < length xs" "f y < f (xs ! pos)"
  shows "y \<in> set (take pos xs)"
proof -
  obtain m where m: "m < length xs" "xs ! m = y" using assms(2) by (auto simp: in_set_conv_nth)
  have "m < pos"
  proof (rule ccontr)
    assume "\<not> m < pos"
    then have "f (xs ! pos) \<le> f (xs ! m)" using assms(1,3) m(1) by (simp add: sorted_iff_nth_mono)
    then show False using assms(4) m(2) by (simp add: leD)
  qed
  then show ?thesis using m assms(3) by (auto simp: in_set_conv_nth)
qed

lemma prior_order:
  assumes "apply_scope_prior hits aff p = Inr out" "unit_affinities aff" "0 \<le> pr_weight p"
  shows "\<exists>order. mset order = mset [0..<length hits] \<and> out = map ((!) hits) order
     \<and> (\<forall>pos<length hits. real (order ! pos) - real pos \<le> pr_weight p * (real (length hits) - 1))"
proof (cases "\<not> prior_enabled p \<or> length hits < 2")
  case True
  then have "out = map ((!) hits) [0..<length hits]" using assms(1) by (simp add: apply_scope_prior_def map_nth)
  then show ?thesis using assms(3) by (intro exI [of _ "[0..<length hits]"]) (auto intro!: mult_nonneg_nonneg)
next
  case False
  then obtain valued where v: "values_of (pr_dimension p) hits = Inr valued"
    and out: "out = map (snd \<circ> snd) (sort_key (\<lambda>(i, v, h). prior_key p (length hits) i (affinity_of aff v)) (enumerate 0 valued))"
    using assms(1) by (auto simp: apply_scope_prior_def)
  let ?n = "length hits"
  let ?key = "\<lambda>(i, v, h). prior_key p ?n i (affinity_of aff v)"
  let ?xs = "sort_key ?key (enumerate 0 valued)"
  have hits: "map snd valued = hits" by (rule values_of_map [OF v])
  then have len: "length valued = ?n" by (metis length_map)
  have elem: "x \<in> set ?xs \<longleftrightarrow> (\<exists>i<?n. x = (i, valued ! i))" for x
    by (cases x) (auto simp: in_set_enumerate_eq len)
  have "mset (map fst ?xs) = image_mset fst (mset (enumerate 0 valued))" by simp
  also have "\<dots> = mset (map fst (enumerate 0 valued))" by (simp only: mset_map)
  also have "\<dots> = mset [0..<?n]" by (simp only: map_fst_enumerate len add_0)
  finally have order: "mset (map fst ?xs) = mset [0..<?n]" .
  have at: "snd (valued ! i) = hits ! i" if "i < ?n" for i using that hits len by (metis nth_map)
  have "(snd \<circ> snd) x = hits ! fst x" if "x \<in> set ?xs" for x
  proof -
    obtain i where "i < ?n" "x = (i, valued ! i)" using elem \<open>x \<in> set ?xs\<close> by blast
    then show ?thesis using at by simp
  qed
  then have "map (snd \<circ> snd) ?xs = map (\<lambda>x. hits ! fst x) ?xs" by (rule map_cong [OF refl])
  then have "map (snd \<circ> snd) ?xs = map ((!) hits) (map fst ?xs)" by (simp only: map_map o_def)
  moreover have "real (map fst ?xs ! pos) - real pos \<le> pr_weight p * (real ?n - 1)" if pos: "pos < ?n" for pos
  proof -
    have lx: "length ?xs = ?n" by (simp add: len)
    then have "?xs ! pos \<in> set ?xs" using pos by (metis nth_mem)
    then obtain j where j: "j < ?n" "?xs ! pos = (j, valued ! j)" using elem by blast
    let ?w = "pr_weight p * (real ?n - 1)"
    have "i \<in> set (take pos (map fst ?xs))" if i: "real i < real j - ?w" for i
    proof -
      have "0 \<le> ?w" using assms(3) False by (intro mult_nonneg_nonneg) auto
      then have ij: "i < j" using i by linarith
      have "\<not> ?key (j, valued ! j) \<le> ?key (i, valued ! i)"
        using prior_key_le [OF _ ij j(1)] affinity_of_unit [OF assms(2)] assms(3) i by (fastforce simp: case_prod_unfold)
      then have "?key (i, valued ! i) < ?key (?xs ! pos)" using j(2) by (simp add: not_le)
      moreover have "(i, valued ! i) \<in> set ?xs" using elem ij j(1) by auto
      ultimately have "(i, valued ! i) \<in> set (take pos ?xs)"
        using sorted_take_before [of ?key ?xs "(i, valued ! i)" pos] pos lx by simp
      then have "fst (i, valued ! i) \<in> fst ` set (take pos ?xs)" by (rule imageI)
      then show ?thesis by (simp only: take_map set_map fst_conv)
    qed
    then have "{i. real i < real j - ?w} \<subseteq> set (take pos (map fst ?xs))" by blast
    then have "card {i. real i < real j - ?w} \<le> card (set (take pos (map fst ?xs)))" by (rule card_mono [OF finite_set])
    also have "\<dots> \<le> length (take pos (map fst ?xs))" by (rule card_length)
    also have "\<dots> \<le> pos" by simp
    finally show ?thesis using low_indices_card [of "real j - ?w"] j(2) pos lx by simp
  qed
  ultimately show ?thesis using order out by blast
qed

text \<open>
  C33. The folder prior only tilts. For affinities computed from any centroids, applying an enabled or disabled prior
  returns the same hits with the same scores, and a hit climbs at most the weight times the number of the other
  hits: the position of no hit is more than that above its retrieved rank.
\<close>

theorem scope_prior_is_bounded:
  assumes "make_prior dimension (Fin w) min_chunks = Inr p" and "affinities q centroids = Inr aff"
    and "apply_scope_prior hits aff p = Inr out"
  shows "mset out = mset hits \<and> (\<exists>rank. bij_betw rank {..<length hits} {..<length hits} \<and>
     (\<forall>pos<length hits. out ! pos = hits ! rank pos \<and> real (rank pos) - real pos \<le> w * (real (length hits) - 1)))"
proof -
  have w: "pr_weight p = w" "0 \<le> w" using assms(1) by (auto simp: make_prior_def split: if_splits)
  then have "0 \<le> pr_weight p" by simp
  from prior_order [OF assms(3) affinities_unit [OF assms(2)] this, unfolded w(1)]
  obtain order where o: "mset order = mset [0..<length hits]" "out = map ((!) hits) order"
    "\<forall>pos<length hits. real (order ! pos) - real pos \<le> w * (real (length hits) - 1)"
    by blast
  have len: "length order = length hits" using mset_eq_length [OF o(1)] by simp
  have d: "distinct order" using mset_eq_imp_distinct_iff [OF o(1)] by simp
  have "set order = {..<length hits}" using mset_eq_setD [OF o(1)] by (simp add: lessThan_atLeast0)
  then have "bij_betw ((!) order) {..<length hits} {..<length hits}"
    using len by (intro bij_betw_nth [OF d]) simp_all
  moreover have "mset out = image_mset ((!) hits) (mset [0..<length hits])" using o by (simp only: mset_map)
  then have "mset out = mset hits" by (simp only: mset_map [symmetric] map_nth)
  ultimately show ?thesis using o len by (intro conjI exI [of _ "(!) order"]) auto
qed

definition demo_hit :: "string \<Rightarrow> string \<Rightarrow> real \<Rightarrow> scored_chunk" where
  "demo_hit cid file score = \<lparr>sc_chunk = \<lparr>chunk_id = cid, chunk_source = file, chunk_text = [], chunk_metadata = [(''file'', PStr file)]\<rparr>,
     sc_score = Fin score, sc_indexed_at = None, sc_first_indexed_at = None, sc_kind = DenseCosine\<rparr>"

text \<open>Three hits and a weight of one half: the last hit, of the best folder, climbs one place and not two.\<close>

theorem scope_prior_is_bounded_witness:
  "let hits = [demo_hit ''1'' ''a/x.md'' 1, demo_hit ''2'' ''a/y.md'' 1, demo_hit ''3'' ''b/z.md'' 1];
       p = \<lparr>pr_dimension = ''folder'', pr_weight = 1 / 2, pr_min_chunks = 5\<rparr>;
       out = [demo_hit ''1'' ''a/x.md'' 1, demo_hit ''3'' ''b/z.md'' 1, demo_hit ''2'' ''a/y.md'' 1] in
   apply_scope_prior hits [(''a'', 0), (''b'', 1)] p = Inr out \<and> mset out = mset hits"
proof -
  let ?hits = "[demo_hit ''1'' ''a/x.md'' 1, demo_hit ''2'' ''a/y.md'' 1, demo_hit ''3'' ''b/z.md'' 1]"
  let ?p = "\<lparr>pr_dimension = ''folder'', pr_weight = 1 / 2, pr_min_chunks = 5\<rparr>"
  let ?out = "[demo_hit ''1'' ''a/x.md'' 1, demo_hit ''3'' ''b/z.md'' 1, demo_hit ''2'' ''a/y.md'' 1]"
  have p: "make_prior ''folder'' (Fin (1 / 2)) 5 = Inr ?p" by (simp add: make_prior_def max_weight_def)
  have aff: "affinities [1, 0] [(''a'', 9, [0, 1]), (''b'', 7, [1, 0])] = Inr [(''a'', 0), (''b'', 1)]"
    by (simp add: affinities_def cosine_def stretched_def Let_def)
  have out: "apply_scope_prior ?hits [(''a'', 0), (''b'', 1)] ?p = Inr ?out" by code_simp
  from scope_prior_is_bounded [OF p aff out] have "mset ?out = mset ?hits" by (rule conjunct1)
  with out show ?thesis unfolding Let_def by (intro conjI)
qed

end
