(* ===== verification/Retriever.thy ===== *)
theory Retriever
  imports ScopePrior MemoText
begin

text \<open>
  Hybrid retrieval, from \<open>src/recall/retriever.py\<close>: reciprocal rank fusion of the legs of a query, the search over
  them, the search fused with a conversation's history, and the expansions that add chunks of documents already
  found. The store, the embedder, the sparse encoder and the reranker are fields of the record \<open>retriever\<close>, and the
  calls are those that return; measured times, as the diagnostics report them, are an argument that names the stage.
\<close>

section \<open>Expansion of a result\<close>

record document_expansion =
  de_enabled :: bool
  de_max_sources :: int
  de_chunks_per_source :: int
  de_relational_only :: bool

definition make_document_expansion :: "document_expansion \<Rightarrow> document_expansion result" where
  "make_document_expansion p =
     (if de_max_sources p < 1 then Inl (ValueError ''max_sources must be positive'')
      else if de_chunks_per_source p < 1 then Inl (ValueError ''chunks_per_source must be positive'') else Inr p)"

record structural_expansion =
  se_enabled :: bool
  se_max_sources :: int
  se_chunks_per_source :: int
  se_radius :: int
  se_relational_only :: bool

definition make_structural_expansion :: "structural_expansion \<Rightarrow> structural_expansion result" where
  "make_structural_expansion p =
     (if se_max_sources p < 1 then Inl (ValueError ''max_sources must be positive'')
      else if se_chunks_per_source p < 1 then Inl (ValueError ''chunks_per_source must be positive'')
      else if se_radius p < 0 then Inl (ValueError ''radius must not be negative'') else Inr p)"

record successor_expansion =
  ue_enabled :: bool
  ue_max_sources :: int
  ue_chunks_per_source :: int
  ue_ordering :: string

definition make_successor_expansion :: "successor_expansion \<Rightarrow> successor_expansion result" where
  "make_successor_expansion p =
     (if ue_max_sources p < 1 then Inl (ValueError ''max_sources must be positive'')
      else if ue_chunks_per_source p < 1 then Inl (ValueError ''chunks_per_source must be positive'')
      else if ue_ordering p \<notin> {''pool'', ''promoted_first'', ''inherit''}
      then Inl (ValueError ''ordering must be one of inherit, pool, promoted_first'') else Inr p)"

text \<open>
  \<open>_RELATIONAL_QUERY\<close>: some maximal run of word characters is one of the words, in any case. A word character of
  \<open>re\<close> is alphanumeric or an underscore.
\<close>

definition relational_words :: "string list" where
  "relational_words = [''why'', ''how'', ''when'', ''before'', ''after'', ''compare'', ''comparison'', ''difference'',
     ''changed'', ''change'', ''decision'', ''decided'', ''status'', ''result'', ''outcome'', ''outcomes'', ''happened'',
     ''led'', ''caused'', ''consequence'', ''following'', ''subsequent'', ''entity'', ''entities'', ''each'', ''per'',
     ''this'', ''that'', ''it'', ''they'', ''them'']"

definition word_char :: "char \<Rightarrow> bool" where
  "word_char c = (let n = code c in (48 \<le> n \<and> n \<le> 57) \<or> (65 \<le> n \<and> n \<le> 90) \<or> n = 95 \<or> (97 \<le> n \<and> n \<le> 122)
     \<or> n \<in> {170, 178, 179, 181, 185, 186, 188, 189, 190} \<or> (192 \<le> n \<and> n \<noteq> 215 \<and> n \<noteq> 247))"

fun word_runs :: "string \<Rightarrow> string \<Rightarrow> string list" where
  "word_runs w [] = (if w = [] then [] else [rev w])"
| "word_runs w (c # s) = (if word_char c then word_runs (c # w) s else (if w = [] then word_runs [] s else rev w # word_runs [] s))"

definition needs_document_expansion :: "string \<Rightarrow> bool" where
  "needs_document_expansion q \<longleftrightarrow> list_ex (\<lambda>w. py_lower w \<in> set relational_words) (word_runs [] q)"

abbreviation hit_id :: "scored_chunk \<Rightarrow> string" where
  "hit_id h \<equiv> chunk_id (sc_chunk h)"

definition hit_meta :: "scored_chunk \<Rightarrow> string \<Rightarrow> pyval" where
  "hit_meta h key = py_get (chunk_metadata (sc_chunk h)) key"

definition hit_file :: "scored_chunk \<Rightarrow> string option" where
  "hit_file h = (case hit_meta h ''file'' of PStr f \<Rightarrow> if f \<noteq> [] then Some f else None | _ \<Rightarrow> None)"

definition document_key :: "scored_chunk \<Rightarrow> string" where
  "document_key h = (case hit_file h of Some f \<Rightarrow> f | None \<Rightarrow> chunk_source (sc_chunk h))"

fun first_sources :: "int \<Rightarrow> string list \<Rightarrow> scored_chunk list \<Rightarrow> string list" where
  "first_sources m acc [] = acc"
| "first_sources m acc (h # hs) =
     (let acc' = (if document_key h \<in> set acc then acc else acc @ [document_key h]) in
      if int (length acc') \<ge> m then acc' else first_sources m acc' hs)"

text \<open>Append the hits whose chunk the result does not hold yet.\<close>

definition merge_new :: "scored_chunk list \<Rightarrow> scored_chunk list \<Rightarrow> scored_chunk list" where
  "merge_new base expanded = foldl (\<lambda>m h. if hit_id h \<in> hit_id ` set m then m else m @ [h]) base expanded"

definition with_expansion ::
  "retrieval_result \<Rightarrow> scored_chunk list \<Rightarrow> bool \<Rightarrow> string \<Rightarrow> real \<Rightarrow> nat \<Rightarrow> retrieval_result" where
  "with_expansion r hits reranked stage ms sources = r\<lparr>rr_hits := hits, rr_diagnostics := (rr_diagnostics r)\<lparr>rd_reranking_ran := reranked,
     rd_stage_ms := dict_set (stage @ ''_sources'') (real sources) (dict_set stage ms (rd_stage_ms (rr_diagnostics r)))\<rparr>\<rparr>"

type_synonym search_call = "string \<Rightarrow> int \<Rightarrow> string option \<Rightarrow> retrieval_result"

definition any_reranked :: "retrieval_result \<Rightarrow> retrieval_result list \<Rightarrow> bool" where
  "any_reranked r scoped \<longleftrightarrow> rd_reranking_ran (rr_diagnostics r) \<or> list_ex (\<lambda>x. rd_reranking_ran (rr_diagnostics x)) scoped"

definition expand_retrieval_by_source ::
  "real \<Rightarrow> search_call \<Rightarrow> document_expansion \<Rightarrow> retrieval_result \<Rightarrow> retrieval_result" where
  "expand_retrieval_by_source ms search p r =
     (if \<not> de_enabled p \<or> rr_hits r = [] then r
      else if de_relational_only p \<and> \<not> needs_document_expansion (rr_query r) then r
      else (let sources = first_sources (de_max_sources p) [] (rr_hits r);
                scoped = map (\<lambda>s. search (rr_query r) (de_chunks_per_source p) (Some s)) sources in
        with_expansion r (merge_new (rr_hits r) (concat (map rr_hits scoped))) (any_reranked r scoped)
          ''document_expansion'' ms (length sources)))"

text \<open>The seeds of the structural expansion: the first documents and the ordinals found in each.\<close>

definition add_seed :: "int \<Rightarrow> scored_chunk \<Rightarrow> string list \<times> (string, int list) dict \<Rightarrow> string list \<times> (string, int list) dict" where
  "add_seed m h st = (case st of (sources, seeds) \<Rightarrow>
     (let s = document_key h in
      if s \<notin> set sources \<and> int (length sources) \<ge> m then (sources, seeds)
      else (if s \<in> set sources then sources else sources @ [s],
            case as_int (hit_meta h ''ord'') of Some i \<Rightarrow> dict_append s i seeds | None \<Rightarrow> seeds)))"

definition hit_ordinals :: "scored_chunk list \<Rightarrow> int list" where
  "hit_ordinals hits = List.map_filter (\<lambda>h. as_int (hit_meta h ''ord'')) hits"

definition structural_pick :: "int \<Rightarrow> int list \<Rightarrow> scored_chunk list \<Rightarrow> scored_chunk list" where
  "structural_pick radius seeds candidates =
     filter (\<lambda>h. (case as_int (hit_meta h ''ord'') of
         Some i \<Rightarrow> list_ex (\<lambda>s. \<bar>i - s\<bar> \<le> radius) seeds \<or> i = foldl max (hd (hit_ordinals candidates)) (hit_ordinals candidates)
       | None \<Rightarrow> False) \<or> seeds = []) candidates"

definition expand_retrieval_by_structure ::
  "real \<Rightarrow> search_call \<Rightarrow> structural_expansion \<Rightarrow> retrieval_result \<Rightarrow> retrieval_result" where
  "expand_retrieval_by_structure ms search p r =
     (if \<not> se_enabled p \<or> rr_hits r = [] then r
      else if se_relational_only p \<and> \<not> needs_document_expansion (rr_query r) then r
      else (let (sources, seeds) = fold (add_seed (se_max_sources p)) (rr_hits r) ([], []);
                scoped = map (\<lambda>s. (s, search (rr_query r) (se_chunks_per_source p) (Some s))) sources;
                expanded = concat (map (\<lambda>(s, x). structural_pick (se_radius p) (dict_get seeds s []) (rr_hits x)) scoped) in
        with_expansion r (merge_new (rr_hits r) expanded) (any_reranked r (map snd scoped))
          ''structural_expansion'' ms (length sources)))"

fun successor_targets :: "(string \<Rightarrow> string option) \<Rightarrow> int \<Rightarrow> string set \<Rightarrow> string list \<Rightarrow> scored_chunk list \<Rightarrow> string list" where
  "successor_targets resolve m present targets [] = targets"
| "successor_targets resolve m present targets (h # hs) =
     (case hit_file h of
        None \<Rightarrow> successor_targets resolve m present targets hs
      | Some f \<Rightarrow> (case resolve f of
          None \<Rightarrow> successor_targets resolve m present targets hs
        | Some s \<Rightarrow> if s \<in> present then successor_targets resolve m present targets hs
            else if int (length (targets @ [s])) \<ge> m then targets @ [s]
            else successor_targets resolve m (insert s present) (targets @ [s]) hs))"

definition expand_retrieval_by_successor ::
  "real \<Rightarrow> search_call \<Rightarrow> (string \<Rightarrow> string option) \<Rightarrow> successor_expansion \<Rightarrow> retrieval_result \<Rightarrow> retrieval_result" where
  "expand_retrieval_by_successor ms search resolve p r =
     (if \<not> ue_enabled p \<or> rr_hits r = [] then r
      else (let targets = successor_targets resolve (ue_max_sources p) (set (List.map_filter hit_file (rr_hits r))) [] (rr_hits r) in
        if targets = [] then r
        else (let scoped = map (\<lambda>s. search (rr_query r) (ue_chunks_per_source p) (Some s)) targets in
          with_expansion r (merge_new (rr_hits r) (concat (map rr_hits scoped))) (any_reranked r scoped)
            ''successor_expansion'' ms (length targets))))"

section \<open>The history of a conversation\<close>

text \<open>\<open>_SPEAKER_TAG\<close>: a name between two pipes and a colon, at the start of a line.\<close>

definition strip_speaker :: "string \<Rightarrow> string" where
  "strip_speaker line = (case line of
     c # rest \<Rightarrow> if c \<noteq> CHR ''|'' then line
       else (case dropWhile (\<lambda>x. x \<noteq> CHR ''|'') rest of
         p # d # r \<Rightarrow> if d = CHR '':'' then dropWhile py_isspace r else line
       | _ \<Rightarrow> line)
   | [] \<Rightarrow> [])"

definition build_history_query :: "string list \<Rightarrow> string" where
  "build_history_query history = join_with [CHR 0x0A]
     (filter (\<lambda>l. l \<noteq> []) (map (\<lambda>line. py_strip (strip_speaker line)) (concat (map py_splitlines history))))"

section \<open>Fusion\<close>

text \<open>\<open>_rrf\<close>: every appearance of an id at a rank adds the reciprocal of the damped rank.\<close>

definition add_rank :: "int \<Rightarrow> nat \<times> string \<Rightarrow> (string, real) dict \<Rightarrow> (string, real) dict" where
  "add_rank k e scores = (case e of (rank, cid) \<Rightarrow>
     dict_set cid (dict_get scores cid 0 + 1 / of_int (k + int rank + 1)) scores)"

definition rank_scores :: "string list list \<Rightarrow> int \<Rightarrow> (string, real) dict" where
  "rank_scores rankings k = fold (\<lambda>ranking. fold (add_rank k) (enumerate 0 ranking)) rankings []"

definition rrf_order :: "(string, real) dict \<Rightarrow> string list" where
  "rrf_order scores = sort_key (\<lambda>cid. - dict_get scores cid 0) (dict_keys scores)"

section \<open>The retriever\<close>

record legs =
  lg_qvec :: "real list"
  lg_dense :: "scored_chunk list"
  lg_sparse :: "scored_chunk list"
  lg_learned :: "scored_chunk list"
  lg_timings :: "(string, real) dict"

record retriever =
  rt_query_dense :: "real list \<Rightarrow> int \<Rightarrow> scope \<Rightarrow> scored_chunk list"
  rt_query_sparse :: "string \<Rightarrow> int \<Rightarrow> real list \<Rightarrow> scope \<Rightarrow> scored_chunk list"
  rt_query_learned :: "(int \<times> real) list \<Rightarrow> int \<Rightarrow> string \<Rightarrow> real list \<Rightarrow> scope \<Rightarrow> scored_chunk list"
  rt_cosines_for :: "string list \<Rightarrow> real list \<Rightarrow> (string, pyfloat) dict"
  rt_newest_indexed_at :: "instant option"
  rt_scope_centroids :: "string \<Rightarrow> int \<Rightarrow> centroid list option"
  rt_embed :: "string \<Rightarrow> real list"
  rt_embedding_profile :: string
  rt_sparse_encoder :: "((string \<Rightarrow> (int \<times> real) list) \<times> string) option"
  rt_reranker :: "(string \<Rightarrow> scored_chunk list \<Rightarrow> scored_chunk list) option"
  rt_gap_threshold :: pyfloat
  rt_max_age :: int
  rt_candidate_k :: int
  rt_use_sparse :: bool
  rt_use_dense :: bool
  rt_sparse_backend :: string
  rt_retrieval_profile :: string
  rt_index_generation :: string
  rt_scope_prior :: scope_prior
  rt_dense_transform :: "(real list \<Rightarrow> scored_chunk list \<Rightarrow> scored_chunk list) option"
  rt_post_fusion_transform :: "(real list \<Rightarrow> scored_chunk list \<Rightarrow> scored_chunk list \<Rightarrow> scored_chunk list) option"
  rt_centroids :: "centroid list option"

definition wants_lexical :: "retriever \<Rightarrow> bool" where
  "wants_lexical rt \<longleftrightarrow> rt_use_sparse rt \<and> rt_sparse_backend rt \<in> {''lexical'', ''both''}"

text \<open>\<open>__init__\<close>: the configurations it refuses; the learned leg is refused under production.\<close>

definition make_retriever :: "(string \<rightharpoonup> string) \<Rightarrow> retriever \<Rightarrow> retriever result" where
  "make_retriever env rt =
     (let wants_learned = rt_sparse_backend rt \<in> {''splade'', ''both''} in
      if rt_dense_transform rt \<noteq> None \<and> rt_post_fusion_transform rt \<noteq> None
      then Inl (ValueError ''dense_transform and post_fusion_transform are mutually exclusive'')
      else if \<not> rt_use_dense rt \<and> \<not> rt_use_sparse rt then Inl (ValueError ''at least one of use_dense / use_sparse must be True'')
      else if rt_sparse_backend rt \<notin> {''lexical'', ''splade'', ''both''}
      then Inl (ValueError ''sparse_backend must be one of both, lexical, splade'')
      else if wants_learned \<and> rt_sparse_encoder rt = None
      then Inl (ValueError ''sparse_backend needs a sparse_encoder to encode queries'')
      else if wants_learned \<and> py_lower (py_strip (case env ''RECALL_ENV'' of Some v \<Rightarrow> v | None \<Rightarrow> [])) = ''production''
      then Inl (RuntimeError ''the learned sparse leg is not available under RECALL_ENV=production'')
      else Inr (rt\<lparr>rt_centroids := None\<rparr>))"

definition learned_leg :: "retriever \<Rightarrow> string \<Rightarrow> real list \<Rightarrow> scope \<Rightarrow> scored_chunk list result" where
  "learned_leg rt query reporting scope =
     (if rt_use_sparse rt \<and> rt_sparse_backend rt \<in> {''splade'', ''both''}
      then (case rt_sparse_encoder rt of
         None \<Rightarrow> Inl (AssertionError [])
       | Some (encode, profile) \<Rightarrow> Inr (if encode query = [] then []
           else rt_query_learned rt (encode query) (rt_candidate_k rt) profile reporting scope))
      else Inr [])"

text \<open>
  \<open>_retrieve_legs\<close>: the sparse legs may report their cosine against another vector than the one they are searched
  for; the dense transform runs only on an unscoped search.
\<close>

definition retrieve_legs :: "(string \<Rightarrow> real) \<Rightarrow> retriever \<Rightarrow> string \<Rightarrow> real list option \<Rightarrow> scope \<Rightarrow> legs result" where
  "retrieve_legs ms rt query report_vec scope =
     (let qvec = rt_embed rt query;
          reporting = (case report_vec of None \<Rightarrow> qvec | Some v \<Rightarrow> v);
          found = (if rt_use_dense rt then rt_query_dense rt qvec (rt_candidate_k rt) scope else []);
          (dense, rescue) = (case rt_dense_transform rt of
             Some t \<Rightarrow> if scope_is_empty scope then (t qvec found, [(''atomic_rescue'', ms ''atomic_rescue'')]) else (found, [])
           | None \<Rightarrow> (found, []));
          sparse = (if wants_lexical rt then rt_query_sparse rt query (rt_candidate_k rt) reporting scope else []) in
      and_then (learned_leg rt query reporting scope) (\<lambda>learned.
      Inr \<lparr>lg_qvec = qvec, lg_dense = dense, lg_sparse = sparse, lg_learned = learned,
        lg_timings = [(''query_embedding'', ms ''query_embedding''), (''dense_retrieval'', ms ''dense_retrieval'')] @ rescue
          @ [(''sparse_retrieval'', ms ''sparse_retrieval''), (''learned_sparse_retrieval'', ms ''learned_sparse_retrieval'')]\<rparr>))"

definition leg_rankings :: "legs \<Rightarrow> string list list" where
  "leg_rankings lg = [map hit_id (lg_dense lg), map hit_id (lg_sparse lg), map hit_id (lg_learned lg)]"

definition hits_by_id :: "scored_chunk list \<Rightarrow> scored_chunk list \<Rightarrow> (string, scored_chunk) dict" where
  "hits_by_id first rest =
     fold (\<lambda>h. dict_setdefault (hit_id h) h) rest (fold (\<lambda>h. dict_set (hit_id h) h) first [])"

definition dense_scores :: "scored_chunk list \<Rightarrow> (string, pyfloat) dict" where
  "dense_scores dense = fold (\<lambda>h. dict_set (hit_id h) (sc_score h)) dense []"

definition rescored :: "scored_chunk \<Rightarrow> pyfloat \<Rightarrow> scored_chunk" where
  "rescored h s = h\<lparr>sc_score := s\<rparr>"

text \<open>The hits of the ranked ids: a dense score where the dense leg has one, else the score the hit carries.\<close>

definition ranked_hits :: "string list \<Rightarrow> (string, scored_chunk) dict \<Rightarrow> (string, pyfloat) dict \<Rightarrow> scored_chunk list" where
  "ranked_hits ids by_id scores =
     List.map_filter (\<lambda>cid. map_option (\<lambda>h. rescored h (dict_get scores cid (sc_score h))) (map_of by_id cid)) ids"

definition max_score :: "pyfloat list \<Rightarrow> pyfloat option" where
  "max_score xs = (case xs of [] \<Rightarrow> None | x # rest \<Rightarrow> Some (max_by id x rest))"

text \<open>\<open>_scope_centroids\<close>: fetched at most once; a store that cannot answer leaves the prior without centroids.\<close>

definition scope_centroids :: "retriever \<Rightarrow> centroid list \<times> retriever" where
  "scope_centroids rt = (case rt_centroids rt of
     Some cs \<Rightarrow> (cs, rt)
   | None \<Rightarrow> (let cs = (case rt_scope_centroids rt (pr_dimension (rt_scope_prior rt)) (pr_min_chunks (rt_scope_prior rt)) of
       Some cs \<Rightarrow> cs | None \<Rightarrow> []) in (cs, rt\<lparr>rt_centroids := Some cs\<rparr>)))"

definition prior_stage :: "(string \<Rightarrow> real) \<Rightarrow> retriever \<Rightarrow> real list \<Rightarrow> scored_chunk list
    \<Rightarrow> (scored_chunk list \<times> (string, real) dict \<times> retriever) result" where
  "prior_stage ms rt qvec hits =
     (if \<not> prior_enabled (rt_scope_prior rt) then Inr (hits, [], rt)
      else (let (cs, rt') = scope_centroids rt in
        and_then (affinities qvec cs) (\<lambda>aff.
        and_then (apply_scope_prior hits aff (rt_scope_prior rt)) (\<lambda>out. Inr (out, [(''scope_prior'', ms ''scope_prior'')], rt')))))"

definition rescue_stage :: "(string \<Rightarrow> real) \<Rightarrow> retriever \<Rightarrow> legs \<Rightarrow> scope \<Rightarrow> scored_chunk list \<Rightarrow> scored_chunk list \<times> (string, real) dict" where
  "rescue_stage ms rt lg scope hits = (case rt_post_fusion_transform rt of
     Some t \<Rightarrow> if scope_is_empty scope then (t (lg_qvec lg) (lg_dense lg) hits, [(''atomic_rescue'', ms ''atomic_rescue'')]) else (hits, [])
   | None \<Rightarrow> (hits, []))"

definition merge_timings :: "(string, real) dict \<Rightarrow> (string, real) dict \<Rightarrow> (string, real) dict" where
  "merge_timings base extra = fold (\<lambda>(k, v). dict_set k v) extra base"

definition diagnostics_of :: "retriever \<Rightarrow> int \<Rightarrow> bool \<Rightarrow> (string, pyfloat) dict \<Rightarrow> (string, real) dict \<Rightarrow> retrieval_diagnostics" where
  "diagnostics_of rt pool reranked scores timings = default_diagnostics\<lparr>rd_embedding_profile := rt_embedding_profile rt,
     rd_retrieval_profile := rt_retrieval_profile rt, rd_index_generation := rt_index_generation rt,
     rd_candidate_pool_size := pool, rd_reranking_ran := reranked, rd_max_dense_score := max_score (map snd scores), rd_stage_ms := timings\<rparr>"

text \<open>
  \<open>search\<close> before the cut to \<open>k\<close>: fuse, rerank the whole pool, tilt, rescue. The result, the legs handed to a trace
  callback, and the retriever with its centroids.
\<close>

definition search_pool :: "(string \<Rightarrow> real) \<Rightarrow> instant \<Rightarrow> retriever \<Rightarrow> string \<Rightarrow> scope \<Rightarrow> (retrieval_result \<times> legs \<times> retriever) result" where
  "search_pool ms now rt query scope =
     and_then (retrieve_legs ms rt query None scope) (\<lambda>lg.
     (let scores = dense_scores (lg_dense lg);
          by_id = hits_by_id (lg_dense lg) (lg_sparse lg @ lg_learned lg);
          fused = ranked_hits (rrf_order (rank_scores (leg_rankings lg) 60)) by_id scores;
          reranked = (case rt_reranker rt of None \<Rightarrow> fused | Some rr \<Rightarrow> rr query fused) in
      and_then (prior_stage ms rt (lg_qvec lg) reranked) (\<lambda>(tilted, prior_ms, rt').
      (let (hits, rescue_ms) = rescue_stage ms rt lg scope tilted;
           timings = merge_timings (lg_timings lg)
             ([(''fusion'', ms ''fusion''), (''reranking'', ms ''reranking'')] @ prior_ms @ rescue_ms) in
       Inr (\<lparr>rr_query = query, rr_hits = hits, rr_gap_warning = gap_warning (map snd scores) (rt_gap_threshold rt),
          rr_staleness = staleness (rt_newest_indexed_at rt) now (rt_max_age rt),
          rr_diagnostics = diagnostics_of rt (rt_candidate_k rt) (rt_reranker rt \<noteq> None) scores timings\<rparr>, lg, rt')))))"

definition search :: "(string \<Rightarrow> real) \<Rightarrow> instant \<Rightarrow> retriever \<Rightarrow> string \<Rightarrow> int \<Rightarrow> string option \<Rightarrow> scope option
    \<Rightarrow> (retrieval_result \<times> retriever) result" where
  "search ms now rt query k source scope =
     (if k < 1 then Inl (ValueError ''k must be >= 1'')
      else and_then (coerce_scope scope source) (\<lambda>effective.
        and_then (search_pool ms now rt query effective) (\<lambda>(full, lg, rt').
        Inr (full\<lparr>rr_hits := take (nat k) (rr_hits full)\<rparr>, rt'))))"

section \<open>Search fused with the history\<close>

definition fused_rerank_pool_cap :: nat where
  "fused_rerank_pool_cap = 100"

definition fused_history_max_chars :: nat where
  "fused_history_max_chars = 4096"

definition search_fused :: "(string \<Rightarrow> real) \<Rightarrow> instant \<Rightarrow> retriever \<Rightarrow> string \<Rightarrow> string list \<Rightarrow> int \<Rightarrow> string option \<Rightarrow> scope option
    \<Rightarrow> retrieval_result result" where
  "search_fused ms now rt query history k source scope =
     (if k < 1 then Inl (ValueError ''k must be >= 1'')
      else (case rt_reranker rt of
        None \<Rightarrow> Inl (ValueError ''search_fused requires a reranker'')
      | Some rerank \<Rightarrow>
        if history = [] then Inl (ValueError ''search_fused requires a non-empty history'')
        else (let history_query = build_history_query history in
          if length history_query > fused_history_max_chars then Inl (ValueError ''history concatenation is over the budget'')
          else if history_query = [] then Inl (ValueError ''history contained no usable text'')
          else and_then (coerce_scope scope source) (\<lambda>effective.
            and_then (retrieve_legs ms rt query None effective) (\<lambda>primary.
            and_then (retrieve_legs ms rt history_query (Some (lg_qvec primary)) effective) (\<lambda>secondary.
            (let outer = rank_scores [rrf_order (rank_scores (leg_rankings primary) 60), rrf_order (rank_scores (leg_rankings secondary) 60)] 60;
                 ranked = rrf_order outer;
                 pool = take fused_rerank_pool_cap ranked;
                 by_id = hits_by_id [] (lg_dense primary @ lg_sparse primary @ lg_learned primary
                   @ lg_dense secondary @ lg_sparse secondary @ lg_learned secondary);
                 scores = dense_scores (lg_dense primary);
                 served = take (nat k) (rerank query (ranked_hits pool by_id scores));
                 fresh = rt_cosines_for rt (map hit_id served) (lg_qvec primary);
                 hits = List.map_filter (\<lambda>h. map_option (rescored h) (map_of fresh (hit_id h))) served;
                 timings = merge_timings (lg_timings primary) [(''history_retrieval'', ms ''history_retrieval''),
                   (''outer_fusion'', ms ''outer_fusion''), (''reranking'', ms ''reranking''), (''rescore'', ms ''rescore'')] in
             Inr \<lparr>rr_query = query, rr_hits = hits, rr_gap_warning = gap_warning (map snd scores) (rt_gap_threshold rt),
               rr_staleness = staleness (rt_newest_indexed_at rt) now (rt_max_age rt),
               rr_diagnostics = diagnostics_of rt (int (length ranked)) True scores timings\<rparr>)))))))"

section \<open>Rerankers\<close>

text \<open>
  From \<open>src/recall/rerank.py\<close>: the reranker that keeps the order, the cross-encoder whose model scores each pair of
  query and text (its \<open>predict\<close> is an argument), and the one that falls back when the primary fails; that one counts
  its fallbacks and remembers which of the two served.
\<close>

definition noop_rerank :: "string \<Rightarrow> scored_chunk list \<Rightarrow> scored_chunk list" where
  "noop_rerank query hits = hits"

definition cross_encoder_rerank :: "((string \<times> string) list \<Rightarrow> real list) \<Rightarrow> string \<Rightarrow> scored_chunk list \<Rightarrow> scored_chunk list" where
  "cross_encoder_rerank predict query hits =
     (if hits = [] then hits
      else (let scores = predict (map (\<lambda>h. (query, chunk_text (sc_chunk h))) hits) in
        map ((!) hits) (sort_key (\<lambda>i. - (scores ! i)) [0..<length hits])))"

record fallback_state =
  fb_count :: nat
  fb_served_by :: "string option"

definition fallback_rerank ::
  "(string \<Rightarrow> scored_chunk list \<Rightarrow> py_error + scored_chunk list) \<Rightarrow> (string \<Rightarrow> scored_chunk list \<Rightarrow> scored_chunk list)
     \<Rightarrow> string \<Rightarrow> scored_chunk list \<Rightarrow> fallback_state \<Rightarrow> scored_chunk list \<times> fallback_state" where
  "fallback_rerank primary fallback query hits st = (case primary query hits of
     Inr out \<Rightarrow> (out, st\<lparr>fb_served_by := Some ''primary''\<rparr>)
   | Inl _ \<Rightarrow> (fallback query hits, st\<lparr>fb_count := fb_count st + 1, fb_served_by := Some ''fallback''\<rparr>))"

end
