(* ===== verification/RetrieverCorrect.thy ===== *)
theory RetrieverCorrect
  imports Retriever
begin

text \<open>
  Correctness of \<open>Retriever\<close>. The fused score of a chunk is the sum of its reciprocal ranks; a search serves the
  chunks of its legs, each once and with the score its leg reported, and no chunk left out has a better fused
  score; a search fused with a history reports every score against the query; an expansion only appends.
\<close>

section \<open>Reciprocal rank fusion\<close>

text \<open>What one ranking gives an id: the reciprocal of its damped rank, nothing when it is absent.\<close>

definition rank_score :: "int \<Rightarrow> string \<Rightarrow> string list \<Rightarrow> real" where
  "rank_score k cid ranking = (\<Sum>(rank, c)\<leftarrow>enumerate 0 ranking. if c = cid then 1 / of_int (k + int rank + 1) else 0)"

definition fused_score :: "int \<Rightarrow> string list list \<Rightarrow> string \<Rightarrow> real" where
  "fused_score k rankings cid = (\<Sum>ranking\<leftarrow>rankings. rank_score k cid ranking)"

lemma get_add_ranks:
  "dict_get (fold (add_rank k) es d) cid 0 =
     dict_get d cid 0 + (\<Sum>(rank, c)\<leftarrow>es. if c = cid then 1 / of_int (k + int rank + 1) else 0)"
  by (induction es arbitrary: d) (auto simp: add_rank_def split: prod.split)

lemma keys_add_ranks: "fst ` set (fold (add_rank k) es d) = fst ` set d \<union> snd ` set es"
  by (induction es arbitrary: d) (simp_all add: add_rank_def case_prod_unfold)

lemma ok_add_ranks: "dict_ok d \<Longrightarrow> dict_ok (fold (add_rank k) es d)"
  by (induction es arbitrary: d) (auto simp: add_rank_def split: prod.split)

lemma snd_enumerate: "snd ` set (enumerate n xs) = set xs"
  by (metis map_snd_enumerate set_map)

lemma rrf_fold:
  "dict_get (fold (\<lambda>ranking. fold (add_rank k) (enumerate 0 ranking)) rankings d) cid 0 = dict_get d cid 0 + fused_score k rankings cid
   \<and> fst ` set (fold (\<lambda>ranking. fold (add_rank k) (enumerate 0 ranking)) rankings d) = fst ` set d \<union> \<Union> (set ` set rankings)
   \<and> (dict_ok d \<longrightarrow> dict_ok (fold (\<lambda>ranking. fold (add_rank k) (enumerate 0 ranking)) rankings d))"
proof (induction rankings arbitrary: d)
  case (Cons r rs)
  show ?case using Cons.IH [of "fold (add_rank k) (enumerate 0 r) d"]
    by (auto simp: get_add_ranks keys_add_ranks ok_add_ranks snd_enumerate fused_score_def rank_score_def)
qed (simp add: fused_score_def)

lemma rrf_score: "dict_get (rank_scores rankings k) cid 0 = fused_score k rankings cid"
  and rrf_keys: "fst ` set (rank_scores rankings k) = \<Union> (set ` set rankings)"
  and rrf_ok: "dict_ok (rank_scores rankings k)"
  using rrf_fold [of k rankings "[]" cid] by (simp_all add: rank_scores_def)

lemma rrf_order_set: "set (rrf_order (rank_scores rankings k)) = \<Union> (set ` set rankings)"
  by (simp add: rrf_order_def rrf_keys)

lemma rrf_order_distinct: "distinct (rrf_order (rank_scores rankings k))"
  using rrf_ok [of rankings k] by (simp add: rrf_order_def dict_ok_def)

lemma rrf_order_best:
  assumes "i < j" "j < length (rrf_order (rank_scores rankings k))"
  shows "fused_score k rankings (rrf_order (rank_scores rankings k) ! j) \<le> fused_score k rankings (rrf_order (rank_scores rankings k) ! i)"
proof -
  have "sorted (map (\<lambda>cid. - dict_get (rank_scores rankings k) cid 0) (rrf_order (rank_scores rankings k)))" by (simp add: rrf_order_def)
  from sorted_nth_mono [OF this, of i j] assms show ?thesis by (simp add: rrf_score)
qed

lemma sum_list_zero: "(\<And>x. x \<in> set xs \<Longrightarrow> f x = 0) \<Longrightarrow> (\<Sum>x\<leftarrow>xs. f x) = (0 :: real)"
  by (induction xs) simp_all

lemma rank_score_absent: "cid \<notin> set ranking \<Longrightarrow> rank_score k cid ranking = 0"
  unfolding rank_score_def by (rule sum_list_zero) (auto simp: in_set_enumerate_eq)

lemma rank_score_at:
  assumes "distinct ranking" "i < length ranking"
  shows "rank_score k (ranking ! i) ranking = 1 / of_int (k + int i + 1)"
proof -
  let ?f = "\<lambda>(rank, c). if c = ranking ! i then 1 / of_int (k + int rank + 1) else 0 :: real"
  have "rank_score k (ranking ! i) ranking = (\<Sum>j<length ranking. ?f (j, ranking ! j))"
    by (simp add: rank_score_def sum_list_sum_nth lessThan_atLeast0 nth_enumerate_eq)
  also have "\<dots> = (\<Sum>j<length ranking. if j = i then 1 / of_int (k + int i + 1) else 0)"
    using assms by (intro sum.cong) (auto simp: nth_eq_iff_index_eq)
  also have "\<dots> = 1 / of_int (k + int i + 1)" using assms(2) by (simp add: sum.delta)
  finally show ?thesis .
qed

section \<open>Hits by id\<close>

abbreviation last_by_id :: "scored_chunk list \<Rightarrow> (string, scored_chunk) dict" where
  "last_by_id hits \<equiv> fold (\<lambda>h. dict_set (hit_id h) h) hits []"


lemma fold_setdefault_lookup:
  "map_of (fold (\<lambda>h. dict_setdefault (hit_id h) h) rest d) cid =
     (case map_of d cid of Some h \<Rightarrow> Some h | None \<Rightarrow> find (\<lambda>h. hit_id h = cid) rest)"
  by (induction rest arbitrary: d) (auto split: option.split)

lemma hits_by_id_lookup:
  "map_of (hits_by_id first rest) cid =
     (case map_of (last_by_id first) cid of Some h \<Rightarrow> Some h | None \<Rightarrow> find (\<lambda>h. hit_id h = cid) rest)"
  unfolding hits_by_id_def by (rule fold_setdefault_lookup)

lemma last_by_id_cases: "map_of (last_by_id hits) cid = Some h \<Longrightarrow> h \<in> set hits \<and> hit_id h = cid"
  using set_fold_dict_set [of hit_id "\<lambda>h. h" hits "[]"] by (auto dest!: map_of_SomeD)

lemma last_by_id_present: "cid \<in> hit_id ` set hits \<Longrightarrow> \<exists>h. map_of (last_by_id hits) cid = Some h"
  using map_of_fold_dict_set [of cid hit_id hits "\<lambda>h. h" "[]"] by auto

lemma hits_by_id_sound:
  assumes "map_of (hits_by_id first rest) cid = Some h"
  shows "hit_id h = cid" "h \<in> set first \<union> set rest" "cid \<in> hit_id ` set first \<Longrightarrow> h \<in> set first"
proof -
  have "hit_id h = cid \<and> h \<in> set first \<union> set rest \<and> (cid \<in> hit_id ` set first \<longrightarrow> h \<in> set first)"
  proof (cases "map_of (last_by_id first) cid")
    case None
    then have "cid \<notin> hit_id ` set first" using last_by_id_present [of cid first] by fastforce
    moreover have "find (\<lambda>h. hit_id h = cid) rest = Some h" using assms None by (simp add: hits_by_id_lookup)
    then have "hit_id h = cid" "h \<in> set rest" by (auto simp: find_Some_iff)
    ultimately show ?thesis by blast
  next
    case (Some g)
    then have "g = h" using assms by (simp add: hits_by_id_lookup)
    then show ?thesis using last_by_id_cases [OF Some] by blast
  qed
  then show "hit_id h = cid" "h \<in> set first \<union> set rest" "cid \<in> hit_id ` set first \<Longrightarrow> h \<in> set first" by blast+
qed

lemma hits_by_id_present:
  assumes "cid \<in> hit_id ` (set first \<union> set rest)"
  shows "\<exists>h. map_of (hits_by_id first rest) cid = Some h"
proof (cases "map_of (last_by_id first) cid")
  case None
  then have "cid \<in> hit_id ` set rest" using assms last_by_id_present [of cid first] by auto
  then show ?thesis using None by (force simp: hits_by_id_lookup find_None_iff not_None_eq [symmetric] simp del: not_None_eq)
qed (simp add: hits_by_id_lookup)

lemma ranked_hits_ids:
  assumes "set ids \<subseteq> fst ` set by_id" "\<forall>cid h. map_of by_id cid = Some h \<longrightarrow> hit_id h = cid"
  shows "map hit_id (ranked_hits ids by_id scores) = ids"
proof -
  have "\<exists>y. map_option (\<lambda>h. rescored h (dict_get scores cid (sc_score h))) (map_of by_id cid) = Some y \<and> hit_id y = cid"
    if cid: "cid \<in> set ids" for cid
  proof -
    have "cid \<in> set (dict_keys by_id)" using assms(1) cid by auto
    then obtain h where "map_of by_id cid = Some h" using map_of_keys_iff [of by_id cid] by blast
    then show ?thesis using assms(2) by (simp add: rescored_def)
  qed
  from map_map_filter [OF this, where h = id] show ?thesis by (simp add: ranked_hits_def)
qed

section \<open>Rerankers\<close>

lemma distinct_submultiset:
  assumes "mset xs \<subseteq># mset ys" "distinct ys"
  shows "distinct xs"
proof -
  obtain zs where "mset ys = mset xs + mset zs" using assms(1) by (metis mset_subset_eq_exists_conv ex_mset)
  then have "mset ys = mset (xs @ zs)" by simp
  then have "distinct (xs @ zs)" using mset_eq_imp_distinct_iff assms(2) by blast
  then show ?thesis by simp
qed

text \<open>What a search relies on: a reranker returns hits it was given, each at most as often, and changes none.\<close>

locale reranking =
  fixes rerank :: "string \<Rightarrow> scored_chunk list \<Rightarrow> scored_chunk list"
  assumes given: "mset (rerank q hits) \<subseteq># mset hits"
begin

lemma reranked_set: "set (rerank q hits) \<subseteq> set hits"
  using given [of q hits] by (rule set_mset_mono [of "mset (rerank q hits)" "mset hits", unfolded set_mset_mset])

lemma reranked_distinct:
  assumes "distinct (map hit_id hits)"
  shows "distinct (map hit_id (rerank q hits))"
proof -
  have "mset (map hit_id (rerank q hits)) \<subseteq># mset (map hit_id hits)"
    using image_mset_subseteq_mono [OF given [of q hits], of hit_id] by (simp only: mset_map)
  then show ?thesis using assms by (rule distinct_submultiset)
qed

end

interpretation noop: reranking noop_rerank
  by unfold_locales (simp add: noop_rerank_def)

lemma mset_permuted: "mset idx = mset [0..<length xs] \<Longrightarrow> mset (map ((!) xs) idx) = mset xs"
  by (metis map_nth mset_map)

interpretation cross_encoder: reranking "cross_encoder_rerank predict" for predict
proof unfold_locales
  fix q :: string and hits :: "scored_chunk list"
  have "mset (map ((!) hits) (sort_key f [0..<length hits])) = mset hits" for f :: "nat \<Rightarrow> real"
    by (rule mset_permuted) (rule mset_sort)
  then show "mset (cross_encoder_rerank predict q hits) \<subseteq># mset hits" by (simp only: cross_encoder_rerank_def Let_def split: if_split) simp
qed

text \<open>A reranker with a fallback gives what one of the two gives.\<close>

locale reranking_pair = reranking primary_order + fallback: reranking fallback for primary_order fallback
begin

lemma paired: "reranking (\<lambda>q hits. fst (fallback_rerank (\<lambda>q hits. if up q hits then Inr (primary_order q hits) else Inl e) fallback q hits st))"
  by unfold_locales (simp add: fallback_rerank_def given fallback.given)

end

interpretation encoder_or_noop: reranking_pair "cross_encoder_rerank predict" noop_rerank for predict
  by unfold_locales

section \<open>What a search serves\<close>

definition legs_found :: "legs \<Rightarrow> scored_chunk set" where
  "legs_found lg = set (lg_dense lg) \<union> set (lg_sparse lg) \<union> set (lg_learned lg)"

definition fused_pool :: "legs \<Rightarrow> scored_chunk list" where
  "fused_pool lg = ranked_hits (rrf_order (rank_scores (leg_rankings lg) 60))
     (hits_by_id (lg_dense lg) (lg_sparse lg @ lg_learned lg)) (dense_scores (lg_dense lg))"

lemma leg_rankings_ids: "\<Union> (set ` set (leg_rankings lg)) = hit_id ` legs_found lg"
  by (auto simp: leg_rankings_def legs_found_def)

lemma hits_by_id_keys: "hit_id ` (set first \<union> set rest) \<subseteq> fst ` set (hits_by_id first rest)"
proof
  fix cid assume "cid \<in> hit_id ` (set first \<union> set rest)"
  then obtain h where "map_of (hits_by_id first rest) cid = Some h" using hits_by_id_present by blast
  from map_of_SomeD [OF this] show "cid \<in> fst ` set (hits_by_id first rest)" by force
qed

lemma fused_pool_ids: "map hit_id (fused_pool lg) = rrf_order (rank_scores (leg_rankings lg) 60)"
  unfolding fused_pool_def
proof (rule ranked_hits_ids)
  show "set (rrf_order (rank_scores (leg_rankings lg) 60)) \<subseteq> fst ` set (hits_by_id (lg_dense lg) (lg_sparse lg @ lg_learned lg))"
    using hits_by_id_keys [of "lg_dense lg" "lg_sparse lg @ lg_learned lg"]
    by (simp only: rrf_order_set leg_rankings_ids legs_found_def set_append Un_assoc)
qed (use hits_by_id_sound(1) in blast)





lemma rescue_stage_idle:
  "rt_post_fusion_transform rt = None \<or> \<not> scope_is_empty scope \<Longrightarrow> rescue_stage ms rt lg scope hits = (hits, [])"
  by (auto simp: rescue_stage_def split: option.split)

lemma search_result:
  assumes "search ms now rt query k source scope = Inr (res, rt')" "coerce_scope scope source = Inr eff"
    and "retrieve_legs ms rt query None eff = Inr lg" "rt_post_fusion_transform rt = None \<or> \<not> scope_is_empty eff"
  obtains tilted t where "1 \<le> k" "rr_hits res = take (nat k) tilted"
    "prior_stage ms rt (lg_qvec lg) (case rt_reranker rt of None \<Rightarrow> fused_pool lg | Some rr \<Rightarrow> rr query (fused_pool lg)) = Inr (tilted, t, rt')"
    "rr_gap_warning res = gap_warning (map snd (dense_scores (lg_dense lg))) (rt_gap_threshold rt)"
  using assms(1-3) unfolding fused_pool_def
  by (auto simp: search_def search_pool_def rescue_stage_idle [OF assms(4)] Let_def split: if_splits prod.splits)



text \<open>
  C16. Without a reranker and a prior, and without a post-fusion transform or with a scope (the transform runs on
  unscoped searches only), a search serves the best of the fused ranking. It serves as many chunks as it
  may and the legs found, and no chunk it leaves out has a greater fused score than one it serves, where the fused
  score of a chunk is the sum over the legs of the reciprocal of sixty plus its rank, counted from one.
\<close>

theorem search_serves_the_best_fused:
  assumes "search ms now rt query k source scope = Inr (res, rt')" and "coerce_scope scope source = Inr eff"
    and "retrieve_legs ms rt query None eff = Inr lg" and "rt_post_fusion_transform rt = None \<or> \<not> scope_is_empty eff"
    and "rt_reranker rt = None" and "\<not> prior_enabled (rt_scope_prior rt)"
  shows "length (rr_hits res) = min (nat k) (card (hit_id ` legs_found lg))
     \<and> (\<forall>h\<in>set (rr_hits res). \<forall>c\<in>hit_id ` legs_found lg - hit_id ` set (rr_hits res).
          fused_score 60 (leg_rankings lg) c \<le> fused_score 60 (leg_rankings lg) (hit_id h))"
proof -
  let ?order = "rrf_order (rank_scores (leg_rankings lg) 60)"
  have hits: "rr_hits res = take (nat k) (fused_pool lg)"
  proof -
    obtain tilted t where "rr_hits res = take (nat k) tilted" and
      "prior_stage ms rt (lg_qvec lg) (case rt_reranker rt of None \<Rightarrow> fused_pool lg | Some rr \<Rightarrow> rr query (fused_pool lg)) = Inr (tilted, t, rt')"
      using search_result [OF assms(1-4)] by blast
    then show ?thesis using assms(5,6) by (simp add: prior_stage_def)
  qed
  have ids: "map hit_id (rr_hits res) = take (nat k) ?order" unfolding hits take_map [symmetric] by (simp only: fused_pool_ids)
  have set: "set ?order = hit_id ` legs_found lg" by (simp only: rrf_order_set leg_rankings_ids)
  have "length ?order = card (hit_id ` legs_found lg)"
    using distinct_card [OF rrf_order_distinct [of "leg_rankings lg" 60]] set by simp
  then have "length (rr_hits res) = min (nat k) (card (hit_id ` legs_found lg))" using ids by (metis length_map length_take min.commute)
  moreover have "fused_score 60 (leg_rankings lg) c \<le> fused_score 60 (leg_rankings lg) (hit_id h)"
    if h: "h \<in> set (rr_hits res)" and c: "c \<in> hit_id ` legs_found lg - hit_id ` set (rr_hits res)" for h c
  proof -
    have "hit_id h \<in> set (take (nat k) ?order)" using h ids by (metis image_eqI list.set_map)
    then obtain i where i: "i < nat k" "i < length ?order" "?order ! i = hit_id h" by (auto simp: in_set_conv_nth)
    obtain j where j: "j < length ?order" "?order ! j = c" using c set by (metis Diff_iff in_set_conv_nth)
    have "c \<notin> set (take (nat k) ?order)" using c ids by (metis DiffD2 list.set_map)
    then have "nat k \<le> j" using j by (metis in_set_conv_nth length_take min_less_iff_conj not_le nth_take)
    then show ?thesis using rrf_order_best [of i j "leg_rankings lg" 60] i j by simp
  qed
  ultimately show ?thesis by blast
qed

section \<open>A search fused with a history\<close>

lemma ranked_hits_sub:
  assumes "\<forall>cid h. map_of by_id cid = Some h \<longrightarrow> hit_id h = cid \<and> h \<in> H"
  shows "set (map hit_id (ranked_hits ids by_id scores)) \<subseteq> set ids" "sc_chunk ` set (ranked_hits ids by_id scores) \<subseteq> sc_chunk ` H"
    "distinct ids \<Longrightarrow> distinct (map hit_id (ranked_hits ids by_id scores))" "length (ranked_hits ids by_id scores) \<le> length ids"
proof -
  have "set (map hit_id (ranked_hits ids by_id scores)) \<subseteq> set ids \<and> sc_chunk ` set (ranked_hits ids by_id scores) \<subseteq> sc_chunk ` H
     \<and> (distinct ids \<longrightarrow> distinct (map hit_id (ranked_hits ids by_id scores))) \<and> length (ranked_hits ids by_id scores) \<le> length ids"
  proof (induction ids)
    case (Cons cid ids)
    show ?case
    proof (cases "map_of by_id cid")
      case (Some h)
      then have "hit_id h = cid" "h \<in> H" using assms by auto
      then show ?thesis using Cons.IH Some by (auto simp: ranked_hits_def rescored_def List.map_filter_simps)
    qed (use Cons.IH in \<open>auto simp: ranked_hits_def List.map_filter_simps\<close>)
  qed (simp add: ranked_hits_def List.map_filter_simps)
  then show "set (map hit_id (ranked_hits ids by_id scores)) \<subseteq> set ids" "sc_chunk ` set (ranked_hits ids by_id scores) \<subseteq> sc_chunk ` H"
    "distinct ids \<Longrightarrow> distinct (map hit_id (ranked_hits ids by_id scores))" "length (ranked_hits ids by_id scores) \<le> length ids"
    by blast+
qed

text \<open>The rescored hits: those whose chunk still exists, in order, with the fresh score.\<close>

lemma fresh_hits:
  fixes fresh :: "(string, pyfloat) dict" and served :: "scored_chunk list"
  defines "out \<equiv> \<lambda>fresh served. List.map_filter (\<lambda>h. map_option (rescored h) (map_of fresh (hit_id h))) served"
  shows "\<forall>h\<in>set (out fresh served). map_of fresh (hit_id h) = Some (sc_score h) \<and> sc_chunk h \<in> sc_chunk ` set served"
    and "set (map hit_id (out fresh served)) \<subseteq> set (map hit_id served)"
    and "distinct (map hit_id served) \<Longrightarrow> distinct (map hit_id (out fresh served))" and "length (out fresh served) \<le> length served"
proof -
  have "(\<forall>h\<in>set (out fresh served). map_of fresh (hit_id h) = Some (sc_score h) \<and> sc_chunk h \<in> sc_chunk ` set served)
     \<and> set (map hit_id (out fresh served)) \<subseteq> set (map hit_id served)
     \<and> (distinct (map hit_id served) \<longrightarrow> distinct (map hit_id (out fresh served))) \<and> length (out fresh served) \<le> length served"
    unfolding out_def by (induction served) (auto simp: List.map_filter_simps rescored_def split: option.splits)
  then show "\<forall>h\<in>set (out fresh served). map_of fresh (hit_id h) = Some (sc_score h) \<and> sc_chunk h \<in> sc_chunk ` set served"
    "set (map hit_id (out fresh served)) \<subseteq> set (map hit_id served)"
    "distinct (map hit_id served) \<Longrightarrow> distinct (map hit_id (out fresh served))" "length (out fresh served) \<le> length served"
    by blast+
qed

lemma legs_qvec: "retrieve_legs ms rt query rv eff = Inr lg \<Longrightarrow> lg_qvec lg = rt_embed rt query"
  by (auto simp: retrieve_legs_def Let_def split: prod.splits)

text \<open>
  C17. A fused search reports every score against the query. Whatever of its hits came from the history's legs, each
  served hit carries the cosine that the store computes for its chunk against the query's own vector; the hits
  are at most \<open>k\<close> and at most a hundred, hold no chunk twice, and every chunk is one that a leg of the query or of
  the history found.
\<close>

theorem fused_search_scores_the_query:
  assumes "search_fused ms now rt query history k source scope = Inr res"
    and "\<forall>rr. rt_reranker rt = Some rr \<longrightarrow> reranking rr"
  shows "\<exists>eff primary secondary ids. coerce_scope scope source = Inr eff
     \<and> retrieve_legs ms rt query None eff = Inr primary
     \<and> retrieve_legs ms rt (build_history_query history) (Some (rt_embed rt query)) eff = Inr secondary
     \<and> (\<forall>h\<in>set (rr_hits res). map_of (rt_cosines_for rt ids (rt_embed rt query)) (hit_id h) = Some (sc_score h)
          \<and> hit_id h \<in> set ids \<and> sc_chunk h \<in> sc_chunk ` (legs_found primary \<union> legs_found secondary))
     \<and> distinct (map hit_id (rr_hits res)) \<and> length (rr_hits res) \<le> min (nat k) 100"
proof -
  obtain rr eff primary secondary where rr: "rt_reranker rt = Some rr" and eff: "coerce_scope scope source = Inr eff"
    and p: "retrieve_legs ms rt query None eff = Inr primary"
    and s: "retrieve_legs ms rt (build_history_query history) (Some (lg_qvec primary)) eff = Inr secondary"
    using assms(1) by (auto simp: search_fused_def Let_def split: if_splits option.splits)
  define outer where "outer = rank_scores [rrf_order (rank_scores (leg_rankings primary) 60), rrf_order (rank_scores (leg_rankings secondary) 60)] 60"
  define ids where "ids = take 100 (rrf_order outer)"
  define by_id where "by_id = hits_by_id [] (lg_dense primary @ lg_sparse primary @ lg_learned primary
     @ lg_dense secondary @ lg_sparse secondary @ lg_learned secondary)"
  define pool where "pool = ranked_hits ids by_id (dense_scores (lg_dense primary))"
  define served where "served = take (nat k) (rr query pool)"
  define fresh where "fresh = rt_cosines_for rt (map hit_id served) (lg_qvec primary)"
  have hits: "rr_hits res = List.map_filter (\<lambda>h. map_option (rescored h) (map_of fresh (hit_id h))) served"
    using assms(1) rr eff p s unfolding fresh_def served_def pool_def by_id_def ids_def outer_def
    by (auto simp: search_fused_def Let_def fused_rerank_pool_cap_def split: if_splits)
  have "reranking rr" using assms(2) rr by blast
  note rerank = reranking.reranked_set [OF this, of query pool] reranking.reranked_distinct [OF this, of pool query]
  have by_id: "\<forall>cid h. map_of by_id cid = Some h \<longrightarrow> hit_id h = cid \<and> h \<in> legs_found primary \<union> legs_found secondary"
    using hits_by_id_sound(1,2) unfolding by_id_def legs_found_def by fastforce
  note pool = ranked_hits_sub [OF by_id, of ids "dense_scores (lg_dense primary)", folded pool_def]
  have "distinct ids" unfolding ids_def outer_def by (rule distinct_take [OF rrf_order_distinct])
  then have d: "distinct (map hit_id (rr query pool))" using pool(3) rerank(2) by blast
  then have ds: "distinct (map hit_id served)" unfolding served_def take_map [symmetric] by (rule distinct_take)
  have "length (rr query pool) = card (hit_id ` set (rr query pool))" using distinct_card [OF d] by simp
  also have "\<dots> \<le> card (set ids)" using rerank(1) pool(1) by (intro card_mono) auto
  also have "\<dots> \<le> 100" using card_length [of ids] by (simp add: ids_def)
  finally have len: "length served \<le> min (nat k) 100" by (simp add: served_def)
  have chunks: "sc_chunk ` set served \<subseteq> sc_chunk ` (legs_found primary \<union> legs_found secondary)"
    using pool(2) rerank(1) set_take_subset [of "nat k" "rr query pool"] unfolding served_def by blast
  note out = fresh_hits [where fresh = fresh and served = served, folded hits]
  have "\<forall>h\<in>set (rr_hits res). map_of fresh (hit_id h) = Some (sc_score h) \<and> hit_id h \<in> set (map hit_id served)
      \<and> sc_chunk h \<in> sc_chunk ` (legs_found primary \<union> legs_found secondary)"
    using out(1,2) chunks by fastforce
  moreover have "lg_qvec primary = rt_embed rt query" by (rule legs_qvec [OF p])
  moreover have "length (rr_hits res) \<le> min (nat k) 100" using out(4) len by (rule le_trans)
  ultimately show ?thesis
    using eff p s out(3) [OF ds] unfolding fresh_def by (intro exI [of _ "map hit_id served"] exI [of _ eff] exI [of _ primary] exI [of _ secondary]) simp
qed

section \<open>Expansions\<close>

text \<open>A result that holds the hits of another in their places, then further hits of other chunks, and reports the same.\<close>

definition appends :: "retrieval_result \<Rightarrow> retrieval_result \<Rightarrow> scored_chunk list \<Rightarrow> bool" where
  "appends r r' extra \<longleftrightarrow> rr_hits r' = rr_hits r @ extra \<and> distinct (map hit_id extra)
     \<and> hit_id ` set extra \<inter> hit_id ` set (rr_hits r) = {}
     \<and> rr_query r' = rr_query r \<and> rr_gap_warning r' = rr_gap_warning r \<and> rr_staleness r' = rr_staleness r"

text \<open>The contract every expansion keeps: what it adds comes from at most so many searches of one document each.\<close>

locale expansion =
  fixes expand :: "search_call \<Rightarrow> retrieval_result \<Rightarrow> retrieval_result" and width :: int and depth :: int
    and may_search :: "retrieval_result \<Rightarrow> string \<Rightarrow> bool"
  assumes expands: "\<exists>extra sources. appends r (expand call r) extra \<and> int (length sources) \<le> width
     \<and> (\<forall>s\<in>set sources. may_search r s)
     \<and> (\<forall>h\<in>set extra. \<exists>s\<in>set sources. h \<in> set (rr_hits (call (rr_query r) depth (Some s))))"
begin

lemma keeps_distinct: "distinct (map hit_id (rr_hits r)) \<Longrightarrow> distinct (map hit_id (rr_hits (expand call r)))"
  using expands [of r call] by (fastforce simp: appends_def)

lemma keeps_prefix: "take (length (rr_hits r)) (rr_hits (expand call r)) = rr_hits r"
  using expands [of r call] by (auto simp: appends_def)

lemma size_bounded:
  assumes "\<And>q s. length (rr_hits (call q depth (Some s))) \<le> n"
  shows "int (length (rr_hits (expand call r))) \<le> int (length (rr_hits r)) + max 0 width * int n"
proof -
  obtain extra sources where e: "appends r (expand call r) extra" "int (length sources) \<le> width"
    "\<forall>h\<in>set extra. \<exists>s\<in>set sources. h \<in> set (rr_hits (call (rr_query r) depth (Some s)))"
    using expands [of r call] by blast
  let ?found = "concat (map (\<lambda>s. rr_hits (call (rr_query r) depth (Some s))) sources)"
  have "length ?found \<le> length sources * n" using assms by (induction sources) (simp_all add: add_mono)
  have "distinct extra" using e(1) by (auto simp: appends_def distinct_map)
  then have "length extra = card (set extra)" by (simp add: distinct_card)
  also have "\<dots> \<le> card (set ?found)" using e(3) by (intro card_mono) auto
  also have "\<dots> \<le> length sources * n" using card_length [of ?found] \<open>length ?found \<le> length sources * n\<close> by linarith
  finally have "int (length extra) \<le> int (length sources) * int n" by (simp flip: of_nat_mult)
  also have "\<dots> \<le> max 0 width * int n" using e(2) by (intro mult_right_mono) auto
  finally show ?thesis using e(1) by (simp add: appends_def)
qed

end

lemma merge_new_spec:
  "\<exists>extra. merge_new base expanded = base @ extra \<and> set extra \<subseteq> set expanded \<and> distinct (map hit_id extra)
     \<and> hit_id ` set extra \<inter> hit_id ` set base = {}"
proof (induction expanded rule: rev_induct)
  case (snoc h expanded)
  then obtain extra where e: "merge_new base expanded = base @ extra" "set extra \<subseteq> set expanded" "distinct (map hit_id extra)"
    "hit_id ` set extra \<inter> hit_id ` set base = {}" by blast
  have m: "merge_new base (expanded @ [h]) = (if hit_id h \<in> hit_id ` set (base @ extra) then base @ extra else (base @ extra) @ [h])"
    using e(1) by (simp add: merge_new_def)
  show ?case
  proof (cases "hit_id h \<in> hit_id ` set (base @ extra)")
    case True
    then show ?thesis using e m by (intro exI [of _ extra]) auto
  next
    case False
    then show ?thesis using e m by (intro exI [of _ "extra @ [h]"]) auto
  qed
qed (simp add: merge_new_def)

lemma with_expansion_appends:
  assumes "set expanded \<subseteq> found"
  shows "\<exists>extra. appends r (with_expansion r (merge_new (rr_hits r) expanded) b stage ms n) extra \<and> set extra \<subseteq> found"
  using merge_new_spec [of "rr_hits r" expanded] assms by (fastforce simp: appends_def with_expansion_def)

lemma appends_nothing: "appends r r []"
  by (simp add: appends_def)

lemma first_sources_length: "int (length acc) < m \<Longrightarrow> int (length (first_sources m acc hs)) \<le> m"
proof (induction hs arbitrary: acc)
  case (Cons h hs)
  then show ?case using Cons.IH [of acc] Cons.IH [of "acc @ [document_key h]"] by (auto simp: Let_def)
qed simp

lemma first_sources_keys: "set (first_sources m acc hs) \<subseteq> set acc \<union> document_key ` set hs"
proof (induction hs arbitrary: acc)
  case (Cons h hs)
  show ?case using Cons.IH [of acc] Cons.IH [of "acc @ [document_key h]"] by (auto simp: Let_def)
qed simp

lemma add_seeds:
  assumes "int (length (fst st)) \<le> m"
  shows "int (length (fst (fold (add_seed m) hs st))) \<le> m \<and> set (fst (fold (add_seed m) hs st)) \<subseteq> set (fst st) \<union> document_key ` set hs"
  using assms
proof (induction hs arbitrary: st)
  case (Cons h hs)
  have "int (length (fst (add_seed m h st))) \<le> m" "set (fst (add_seed m h st)) \<subseteq> insert (document_key h) (set (fst st))"
    using Cons.prems by (auto simp: add_seed_def Let_def split: prod.split)
  then show ?case using Cons.IH [of "add_seed m h st"] by auto
qed simp

lemma successor_targets_spec:
  "int (length (successor_targets resolve m present targets hs)) \<le> max (int (length targets) + 1) m
     \<and> (\<forall>s\<in>set (successor_targets resolve m present targets hs). s \<in> set targets
          \<or> (s \<notin> present \<and> (\<exists>h\<in>set hs. \<exists>f. hit_file h = Some f \<and> resolve f = Some s)))"
proof (induction hs arbitrary: present targets)
  case (Cons h hs)
  show ?case
  proof (cases "\<exists>f s. hit_file h = Some f \<and> resolve f = Some s \<and> s \<notin> present")
    case False
    then show ?thesis using Cons.IH [of present targets] by (auto split: option.splits)
  next
    case True
    then obtain f s where s: "hit_file h = Some f" "resolve f = Some s" "s \<notin> present" by blast
    show ?thesis
    proof (cases "int (length (targets @ [s])) \<ge> m")
      case True
      then show ?thesis using s by auto
    next
      case False
      then show ?thesis using s Cons.IH [of "insert s present" "targets @ [s]"] by auto
    qed
  qed
qed simp

interpretation expand_source: expansion "\<lambda>call. expand_retrieval_by_source ms call p" "max 1 (de_max_sources p)" "de_chunks_per_source p"
  "\<lambda>r s. s \<in> document_key ` set (rr_hits r)" for ms p
proof unfold_locales
  fix r :: retrieval_result and call :: search_call
  let ?sources = "first_sources (de_max_sources p) [] (rr_hits r)"
  let ?found = "\<Union>s\<in>set ?sources. set (rr_hits (call (rr_query r) (de_chunks_per_source p) (Some s)))"
  have len: "int (length ?sources) \<le> max 1 (de_max_sources p)"
  proof (cases "1 \<le> de_max_sources p")
    case True
    then show ?thesis using first_sources_length [of "[]" "de_max_sources p" "rr_hits r"] by simp
  next
    case False
    then show ?thesis by (cases "rr_hits r") (auto simp: Let_def)
  qed
  show "\<exists>extra sources. appends r (expand_retrieval_by_source ms call p r) extra \<and> int (length sources) \<le> max 1 (de_max_sources p)
     \<and> (\<forall>s\<in>set sources. s \<in> document_key ` set (rr_hits r))
     \<and> (\<forall>h\<in>set extra. \<exists>s\<in>set sources. h \<in> set (rr_hits (call (rr_query r) (de_chunks_per_source p) (Some s))))"
  proof (cases "\<not> de_enabled p \<or> rr_hits r = [] \<or> de_relational_only p \<and> \<not> needs_document_expansion (rr_query r)")
    case True
    then have "expand_retrieval_by_source ms call p r = r" by (auto simp: expand_retrieval_by_source_def)
    then show ?thesis using appends_nothing [of r] by (intro exI [of _ "[]"]) simp
  next
    case False
    let ?call = "\<lambda>s. call (rr_query r) (de_chunks_per_source p) (Some s)"
    have sub: "set (concat (map rr_hits (map ?call ?sources))) \<subseteq> ?found" by auto
    have "expand_retrieval_by_source ms call p r = with_expansion r (merge_new (rr_hits r) (concat (map rr_hits (map ?call ?sources))))
        (any_reranked r (map ?call ?sources)) ''document_expansion'' ms (length ?sources)"
      using False by (auto simp: expand_retrieval_by_source_def Let_def)
    then obtain extra where "appends r (expand_retrieval_by_source ms call p r) extra" "set extra \<subseteq> ?found"
      using with_expansion_appends [OF sub] by metis
    then show ?thesis using len first_sources_keys [of "de_max_sources p" "[]" "rr_hits r"]
      by (intro exI [of _ extra] exI [of _ ?sources]) auto
  qed
qed

lemma structural_pick_sub: "set (structural_pick radius seeds candidates) \<subseteq> set candidates"
  by (auto simp: structural_pick_def)

interpretation expand_structure: expansion "\<lambda>call. expand_retrieval_by_structure ms call p" "max 0 (se_max_sources p)" "se_chunks_per_source p"
  "\<lambda>r s. s \<in> document_key ` set (rr_hits r)" for ms p
proof unfold_locales
  fix r :: retrieval_result and call :: search_call
  obtain sources seeds where st: "fold (add_seed (max 0 (se_max_sources p))) (rr_hits r) ([], []) = (sources, seeds)" by fastforce
  have same: "add_seed (se_max_sources p) = add_seed (max 0 (se_max_sources p))"
    by (auto simp: add_seed_def fun_eq_iff Let_def)
  have st': "fold (add_seed (se_max_sources p)) (rr_hits r) ([], []) = (sources, seeds)" using st unfolding same [symmetric] .
  let ?pick = "\<lambda>s. structural_pick (se_radius p) (dict_get seeds s []) (rr_hits (call (rr_query r) (se_chunks_per_source p) (Some s)))"
  let ?found = "\<Union>s\<in>set sources. set (rr_hits (call (rr_query r) (se_chunks_per_source p) (Some s)))"
  have len: "int (length sources) \<le> max 0 (se_max_sources p)" "set sources \<subseteq> document_key ` set (rr_hits r)"
    using add_seeds [of "([], [])" "max 0 (se_max_sources p)" "rr_hits r"] st by auto
  show "\<exists>extra sources. appends r (expand_retrieval_by_structure ms call p r) extra \<and> int (length sources) \<le> max 0 (se_max_sources p)
     \<and> (\<forall>s\<in>set sources. s \<in> document_key ` set (rr_hits r))
     \<and> (\<forall>h\<in>set extra. \<exists>s\<in>set sources. h \<in> set (rr_hits (call (rr_query r) (se_chunks_per_source p) (Some s))))"
  proof (cases "\<not> se_enabled p \<or> rr_hits r = [] \<or> se_relational_only p \<and> \<not> needs_document_expansion (rr_query r)")
    case True
    then have "expand_retrieval_by_structure ms call p r = r" by (auto simp: expand_retrieval_by_structure_def)
    then show ?thesis using appends_nothing [of r] by (intro exI [of _ "[]"]) simp
  next
    case False
    have sub: "set (concat (map ?pick sources)) \<subseteq> ?found" using structural_pick_sub by fastforce
    have "expand_retrieval_by_structure ms call p r = with_expansion r (merge_new (rr_hits r) (concat (map ?pick sources)))
        (any_reranked r (map (\<lambda>s. call (rr_query r) (se_chunks_per_source p) (Some s)) sources)) ''structural_expansion'' ms (length sources)"
      using False st' by (cases "se_relational_only p") (simp_all add: expand_retrieval_by_structure_def Let_def comp_def)
    then have "\<exists>extra. appends r (expand_retrieval_by_structure ms call p r) extra \<and> set extra \<subseteq> ?found"
      by (simp only: with_expansion_appends [OF sub])
    then obtain extra where "appends r (expand_retrieval_by_structure ms call p r) extra" "set extra \<subseteq> ?found" by blast
    then show ?thesis using len by (intro exI [of _ extra] exI [of _ sources]) auto
  qed
qed

interpretation expand_successor: expansion "\<lambda>call. expand_retrieval_by_successor ms call resolve p" "max 1 (ue_max_sources p)" "ue_chunks_per_source p"
  "\<lambda>r s. \<exists>h\<in>set (rr_hits r). \<exists>f. hit_file h = Some f \<and> resolve f = Some s \<and> Some s \<notin> hit_file ` set (rr_hits r)" for ms resolve p
proof unfold_locales
  fix r :: retrieval_result and call :: search_call
  let ?present = "set (List.map_filter hit_file (rr_hits r))"
  let ?targets = "successor_targets resolve (ue_max_sources p) ?present [] (rr_hits r)"
  let ?call = "\<lambda>s. call (rr_query r) (ue_chunks_per_source p) (Some s)"
  let ?found = "\<Union>s\<in>set ?targets. set (rr_hits (?call s))"
  have len: "int (length ?targets) \<le> max 1 (ue_max_sources p) \<and> (\<forall>s\<in>set ?targets. s \<notin> ?present
      \<and> (\<exists>h\<in>set (rr_hits r). \<exists>f. hit_file h = Some f \<and> resolve f = Some s))"
    using successor_targets_spec [of resolve "ue_max_sources p" ?present "[]" "rr_hits r"] by auto
  have present: "s \<in> ?present \<longleftrightarrow> Some s \<in> hit_file ` set (rr_hits r)" for s by (force simp: set_map_filter)
  show "\<exists>extra sources. appends r (expand_retrieval_by_successor ms call resolve p r) extra \<and> int (length sources) \<le> max 1 (ue_max_sources p)
     \<and> (\<forall>s\<in>set sources. \<exists>h\<in>set (rr_hits r). \<exists>f. hit_file h = Some f \<and> resolve f = Some s \<and> Some s \<notin> hit_file ` set (rr_hits r))
     \<and> (\<forall>h\<in>set extra. \<exists>s\<in>set sources. h \<in> set (rr_hits (call (rr_query r) (ue_chunks_per_source p) (Some s))))"
  proof (cases "\<not> ue_enabled p \<or> rr_hits r = [] \<or> ?targets = []")
    case True
    then have "expand_retrieval_by_successor ms call resolve p r = r" by (auto simp: expand_retrieval_by_successor_def Let_def)
    then show ?thesis using appends_nothing [of r] by (intro exI [of _ "[]"]) simp
  next
    case False
    have sub: "set (concat (map rr_hits (map ?call ?targets))) \<subseteq> ?found" by auto
    have "expand_retrieval_by_successor ms call resolve p r = with_expansion r (merge_new (rr_hits r) (concat (map rr_hits (map ?call ?targets))))
        (any_reranked r (map ?call ?targets)) ''successor_expansion'' ms (length ?targets)"
      using False by (simp add: expand_retrieval_by_successor_def Let_def)
    then obtain extra where "appends r (expand_retrieval_by_successor ms call resolve p r) extra" "set extra \<subseteq> ?found"
      using with_expansion_appends [OF sub] by metis
    then show ?thesis using len present by (intro exI [of _ extra] exI [of _ ?targets]) auto
  qed
qed

text \<open>
  C34. An expansion only appends, and within its bounds. Each of the three expansions returns the retrieved hits in
  their places, with the same gap and staleness reports, then hits of chunks not held before, each once; they come
  from searches of at most \<open>max_sources\<close> documents, which are documents of the retrieved hits, or for the successor
  expansion declared successors of such documents that were not retrieved themselves.
\<close>

theorem expansions_only_append:
  assumes "1 \<le> de_max_sources pd" and "1 \<le> se_max_sources ps" and "1 \<le> ue_max_sources pu"
  shows "(\<exists>extra sources. appends r (expand_retrieval_by_source ms call pd r) extra \<and> int (length sources) \<le> de_max_sources pd
       \<and> (\<forall>s\<in>set sources. s \<in> document_key ` set (rr_hits r))
       \<and> (\<forall>h\<in>set extra. \<exists>s\<in>set sources. h \<in> set (rr_hits (call (rr_query r) (de_chunks_per_source pd) (Some s)))))
   \<and> (\<exists>extra sources. appends r (expand_retrieval_by_structure ms call ps r) extra \<and> int (length sources) \<le> se_max_sources ps
       \<and> (\<forall>s\<in>set sources. s \<in> document_key ` set (rr_hits r))
       \<and> (\<forall>h\<in>set extra. \<exists>s\<in>set sources. h \<in> set (rr_hits (call (rr_query r) (se_chunks_per_source ps) (Some s)))))
   \<and> (\<exists>extra sources. appends r (expand_retrieval_by_successor ms call resolve pu r) extra \<and> int (length sources) \<le> ue_max_sources pu
       \<and> (\<forall>s\<in>set sources. \<exists>h\<in>set (rr_hits r). \<exists>f. hit_file h = Some f \<and> resolve f = Some s \<and> Some s \<notin> hit_file ` set (rr_hits r))
       \<and> (\<forall>h\<in>set extra. \<exists>s\<in>set sources. h \<in> set (rr_hits (call (rr_query r) (ue_chunks_per_source pu) (Some s)))))"
proof -
  have w: "max 1 (de_max_sources pd) = de_max_sources pd" "max 0 (se_max_sources ps) = se_max_sources ps"
    "max 1 (ue_max_sources pu) = ue_max_sources pu" using assms by simp_all
  show ?thesis
    using expand_source.expands [where r = r and call = call and ms = ms and p = pd, unfolded w]
      expand_structure.expands [where r = r and call = call and ms = ms and p = ps, unfolded w]
      expand_successor.expands [where r = r and call = call and ms = ms and p = pu and resolve = resolve, unfolded w]
    by (intro conjI)
qed

lemma search_runs:
  assumes "1 \<le> k" "coerce_scope scope source = Inr eff" "retrieve_legs ms rt query None eff = Inr lg"
    and "rt_post_fusion_transform rt = None" "\<not> prior_enabled (rt_scope_prior rt)"
  obtains res where "search ms now rt query k source scope = Inr (res, rt)"
    "rr_hits res = take (nat k) (case rt_reranker rt of None \<Rightarrow> fused_pool lg | Some rr \<Rightarrow> rr query (fused_pool lg))"
  using assms unfolding fused_pool_def by (auto simp: search_def search_pool_def prior_stage_def rescue_stage_def Let_def)

section \<open>A retriever\<close>

text \<open>A store of three chunks: the dense leg finds two of them, the lexical leg the second and the third.\<close>

definition demo_retriever :: retriever where
  "demo_retriever = \<lparr>rt_query_dense = (\<lambda>v k sc. [demo_hit ''1'' ''a/x.md'' (9 / 10), demo_hit ''2'' ''a/y.md'' (6 / 10)]),
     rt_query_sparse = (\<lambda>q k v sc. [demo_hit ''2'' ''a/y.md'' (6 / 10), demo_hit ''3'' ''b/z.md'' (3 / 10)]),
     rt_query_learned = (\<lambda>w k p v sc. []), rt_cosines_for = (\<lambda>ids v. map (\<lambda>i. (i, Fin (1 / 2))) (remove1 ''3'' ids)),
     rt_newest_indexed_at = None, rt_scope_centroids = (\<lambda>d m. None), rt_embed = (\<lambda>q. [1]), rt_embedding_profile = ''p'',
     rt_sparse_encoder = None, rt_reranker = None, rt_gap_threshold = Fin (1 / 2), rt_max_age = 0, rt_candidate_k = 20,
     rt_use_sparse = True, rt_use_dense = True, rt_sparse_backend = ''lexical'', rt_retrieval_profile = ''legacy'',
     rt_index_generation = ''legacy'', rt_scope_prior = default_prior, rt_dense_transform = None,
     rt_post_fusion_transform = None, rt_centroids = None\<rparr>"

definition demo_reranked :: retriever where
  "demo_reranked = demo_retriever\<lparr>rt_reranker := Some noop_rerank\<rparr>"

definition demo_legs :: legs where
  "demo_legs = projr (retrieve_legs (\<lambda>_. 0) demo_retriever ''q'' None empty_scope)"

lemma demo_legs_run:
  "retrieve_legs (\<lambda>_. 0) demo_retriever ''q'' None empty_scope = Inr demo_legs"
  "retrieve_legs (\<lambda>_. 0) demo_reranked ''q'' None empty_scope = Inr demo_legs"
  "coerce_scope None None = Inr empty_scope"
  by code_simp+

lemma demo_rerank_ok: "\<forall>rr. rt_reranker demo_reranked = Some rr \<longrightarrow> reranking rr"
  by (simp add: demo_reranked_def noop.reranking_axioms)

lemma demo_fields: "rt_post_fusion_transform demo_retriever = None" "rt_post_fusion_transform demo_reranked = None"
  "rt_reranker demo_retriever = None" "\<not> prior_enabled (rt_scope_prior demo_retriever)" "\<not> prior_enabled (rt_scope_prior demo_reranked)"
  by (simp_all add: demo_retriever_def demo_reranked_def default_prior_def prior_enabled_def)


theorem search_serves_the_best_fused_witness:
  "case search (\<lambda>_. 0) 0 demo_retriever ''q'' 2 None None of
     Inl _ \<Rightarrow> False
   | Inr (res, _) \<Rightarrow> map hit_id (rr_hits res) = [''2'', ''1''] \<and> length (rr_hits res) = min 2 (card (hit_id ` legs_found demo_legs))"
proof -
  obtain res where run: "search (\<lambda>_. 0) 0 demo_retriever ''q'' 2 None None = Inr (res, demo_retriever)"
    and hits: "rr_hits res = take 2 (fused_pool demo_legs)"
    by (rule search_runs [OF _ demo_legs_run(3,1) demo_fields(1,4), of 2 0]) (simp_all add: demo_fields(3))
  have "map hit_id (take 2 (fused_pool demo_legs)) = [''2'', ''1'']" by code_simp
  then have ids: "map hit_id (rr_hits res) = [''2'', ''1'']" by (simp only: hits)
  from search_serves_the_best_fused [OF run demo_legs_run(3,1) disjI1 [OF demo_fields(1)] demo_fields(3,4)] ids show ?thesis
    unfolding run by simp
qed

theorem fused_search_scores_the_query_witness:
  "case search_fused (\<lambda>_. 0) 0 demo_reranked ''q'' [''|user|: before''] 5 None None of
     Inl _ \<Rightarrow> False
   | Inr res \<Rightarrow> map hit_id (rr_hits res) = [''2'', ''1''] \<and> distinct (map hit_id (rr_hits res)) \<and> length (rr_hits res) \<le> 5"
proof -
  have ids: "case search_fused (\<lambda>_. 0) 0 demo_reranked ''q'' [''|user|: before''] 5 None None of
     Inl _ \<Rightarrow> False | Inr res \<Rightarrow> map hit_id (rr_hits res) = [''2'', ''1'']" by code_simp
  then obtain res where run: "search_fused (\<lambda>_. 0) 0 demo_reranked ''q'' [''|user|: before''] 5 None None = Inr res"
    by (cases "search_fused (\<lambda>_. 0) 0 demo_reranked ''q'' [''|user|: before''] 5 None None") auto
  have "distinct (map hit_id (rr_hits res)) \<and> length (rr_hits res) \<le> min (nat 5) 100"
    using fused_search_scores_the_query [OF run demo_rerank_ok] by blast
  then show ?thesis using ids unfolding run by simp
qed

definition demo_found :: retrieval_result where
  "demo_found = \<lparr>rr_query = ''why did it change'', rr_hits = [demo_hit ''1'' ''a/x.md'' (9 / 10)], rr_gap_warning = False,
     rr_staleness = staleness None 0 0, rr_diagnostics = default_diagnostics\<rparr>"

definition demo_call :: search_call where
  "demo_call q n s = demo_found\<lparr>rr_hits := [demo_hit ''1'' ''a/x.md'' (9 / 10), demo_hit ''5'' ''a/x.md'' (2 / 10)]\<rparr>"

definition demo_policies :: "document_expansion \<times> structural_expansion \<times> successor_expansion" where
  "demo_policies = (\<lparr>de_enabled = True, de_max_sources = 2, de_chunks_per_source = 3, de_relational_only = True\<rparr>,
     \<lparr>se_enabled = True, se_max_sources = 2, se_chunks_per_source = 8, se_radius = 2, se_relational_only = True\<rparr>,
     \<lparr>ue_enabled = True, ue_max_sources = 2, ue_chunks_per_source = 3, ue_ordering = ''pool''\<rparr>)"

theorem expansions_only_append_witness:
  "(\<exists>extra. appends demo_found (expand_retrieval_by_source 0 demo_call (fst demo_policies) demo_found) extra)
   \<and> map hit_id (rr_hits (expand_retrieval_by_source 0 demo_call (fst demo_policies) demo_found)) = [''1'', ''5'']"
proof
  have "1 \<le> de_max_sources (fst demo_policies)" "1 \<le> se_max_sources (fst (snd demo_policies))" "1 \<le> ue_max_sources (snd (snd demo_policies))"
    by (simp_all add: demo_policies_def)
  from expansions_only_append [OF this] show "\<exists>extra. appends demo_found (expand_retrieval_by_source 0 demo_call (fst demo_policies) demo_found) extra"
    by blast
  show "map hit_id (rr_hits (expand_retrieval_by_source 0 demo_call (fst demo_policies) demo_found)) = [''1'', ''5'']" by code_simp
qed

end
