(* ===== verification/Spec2Isabelle.thy ===== *)
theory Spec2Isabelle
  imports ResolverCorrect TrustGateCorrect DependencyCorrect TrustPolicy FederationCorrect CurrentStateCorrect FactSupersessionCorrect DerivedBlockCorrect
    GenerationCorrect GenerationUpkeep GenerationRecords RedisLimitCorrect RetrieverCorrect
begin

text \<open>
  A verification of the trust core of RE-call (\<open>src/recall\<close>), the agent memory that answers with verdicts
  and refuses what its memory does not support.

  \<^bold>\<open>The program and its parts.\<close> Memos are authored documents whose frontmatter declares a validity window,
  an authority tier, dependencies and the memos they supersede. Indexing turns them into chunks of a
  generation. A query passes the tenant's rate limits; hybrid retrieval fuses its dense and sparse rankings
  into scored chunks; the trust gate gives each a verdict from four inputs: the
  declared window, the supersession graph resolved from all authored claims, the dependency projection of
  the generation, and the calibrated threshold. Around the gate stand the source policy (who may read what),
  the trust policy (when to refuse or to degrade), the federation of several tenants' searches, the
  current-state projection of all memos, and the projections of the fact ledger. Beneath them a tenant's
  chunks live in generations, which are built, validated, promoted, rolled back, erased from and collected by
  processes that share one database.

  \<^bold>\<open>Theories, and the code each models.\<close>
  \<^item> \<open>Prelude\<close>, \<open>PyString\<close>: the Python the sources use. Dictionaries with insertion order, dynamically typed
    metadata, results as sums with the raised error on the left, floats with their non-finite values,
    datetimes with and without a zone, \<open>str\<close> methods and paths.
  \<^item> \<open>Frontmatter\<close> (\<open>frontmatter.py\<close>): authority, dependencies, supersedes values, validity windows.
    \<open>MemoText\<close>: the text of a memo, where its block ends, the parser and the writers; \<open>MemoTextCorrect\<close>: a
    written date is the date read back, for every mix of line endings.
  \<^item> \<open>DerivedBlock\<close> (\<open>derived_block.py\<close>, \<open>document.py\<close>, the canonical JSON of \<open>lineage.py\<close>): the machine-owned block
    at the end of a body. \<open>DerivedBlockCorrect\<close>: rendering and verifying are inverse, a written block never changes
    the human part, and lint's diagnosis is exact.
  \<^item> \<open>SourceIdentity\<close> (\<open>source_identity.py\<close>, \<open>uploads.py\<close>): the name, file and root of an indexed document.
  \<^item> \<open>Supersession\<close>, \<open>SupersessionWalk\<close>, \<open>SupersessionResolver\<close> (\<open>supersession.py\<close>): the graph of claims,
    the walk from a memo to the document that hides it, and the pass that resolves rows and removed memos
    into a graph. \<open>ResolverCorrect\<close>: references are never guessed, the graph invariant, the splice of
    withdrawn memos, unresolved claims fail closed.
  \<^item> \<open>RateLimit\<close>, \<open>RedisLimit\<close> (\<open>limits.py\<close> of \<open>src/recall_mcp\<close>, with the parts of \<open>idempotency_receipts.py\<close> and
    \<open>_env.py\<close> it calls): token buckets, the limiter of a process, the throttle of failed authentications, the limits
    an environment sets; the Lua reservation and the limiter a fleet shares, with replays, conflicts and outages.
    \<open>RateLimitCorrect\<close>: spend is bounded for every interleaving and clock, a refusal's wait is exact, a malformed
    variable never removes a limit. \<open>RedisLimitCorrect\<close>: a mutation is admitted at most once, the shared budget is
    the local one while the server's clock does not go back (and what happens when it does), outages fail closed.
  \<^item> \<open>ScopePrior\<close> (\<open>scope.py\<close>, \<open>scope_prior.py\<close>), \<open>Retriever\<close> (\<open>retriever.py\<close>, \<open>rerank.py\<close>): scopes, the folder
    prior, rank fusion, search, the search fused with a history, expansions and rerankers. \<open>RetrieverCorrect\<close>: a
    search serves what its legs found, the best of the fused ranking first; a fused search scores every hit
    against the query; an expansion only appends.
  \<^item> \<open>Calibration\<close> (\<open>calibration.py\<close>): separability, its interval, the fitted threshold and scale,
    certification and confidence.
  \<^item> \<open>TrustTypes\<close> (\<open>types.py\<close>, \<open>guards.py\<close>), \<open>TrustVerdicts\<close> (\<open>trust_verdicts.py\<close>): the values of the
    trust layer and how verdicts are shown.
  \<^item> \<open>Dependencies\<close> (\<open>dependency_invalidation.py\<close>): one node per document, resolution of references, cycles
    and the memoised invalidation walk. \<open>DependencyCorrect\<close>: the memo never changes an answer, a source
    without an invalidation rests on healthy sources, every invalidation is real.
  \<^item> \<open>TrustGate\<close> (\<open>trust_gate.py\<close>): the verdict of one hit and the evaluation of a result.
    \<open>TrustGateCorrect\<close>: exactly which hits are served, promotion, dependency enforcement, the summary.
  \<^item> \<open>SecurityPolicy\<close> (\<open>security_policy.py\<close>, \<open>scope.py\<close>): rules, decisions, scopes, redaction.
    \<open>TrustPolicy\<close> (\<open>trust_policy.py\<close>, \<open>trust.py\<close>): refusal, degradation, withheld names.
  \<^item> \<open>Federation\<close> (\<open>federation.py\<close>): configuration, the bounded scheduler as a step relation, leg acceptance,
    fusion. \<open>FederationCorrect\<close>: every leg is accounted for, the loop ends, only vetted hits are served.
  \<^item> \<open>CurrentState\<close> (\<open>current_state.py\<close>): the projection of all memos. \<open>CurrentStateCorrect\<close>: it agrees with
    the gate, fails closed, and calls current only what rests on current.
  \<^item> \<open>FactIntervals\<close>, \<open>FactLedger\<close>, \<open>SegmentTree\<close>, \<open>SuccessorIndex\<close>, \<open>FactSupersession\<close>
    (\<open>fact_projection.py\<close>, \<open>fact_events.py\<close>): facts, events, the segment-tree index over the successors of a
    fact and the walk that finds what is hidden and when. \<open>SuccessorIndex\<close> shows that the index refines a
    scan of a plain list; \<open>FactSupersessionCorrect\<close> that the walk finishes, hides nothing without a reason
    and, where claims have no cycle, misses nothing.
  \<^item> \<open>GenerationTypes\<close>, \<open>Generations\<close>, \<open>GenerationErasure\<close>, \<open>GenerationBuild\<close> (\<open>generations.py\<close>, with the parts
    of \<open>calibration_v2.py\<close>, \<open>supersession_records.py\<close>, \<open>lineage.py\<close> and \<open>semantic_graph\<close> it calls): the tenant's
    tables and the transactions over them. \<open>GenerationInvariants\<close>, \<open>GenerationSteps\<close>, \<open>GenerationReach\<close>: the
    invariant of the tables, its preservation by each transaction, and the relation in which the transactions
    of any number of processes interleave. \<open>GenerationCorrect\<close>: one serving generation, a rollback that is always
    possible, permanent erasure, certified production; \<open>GenerationUpkeep\<close>: retention, what a collection takes
    from live generations, validation settles; \<open>GenerationRecords\<close>: a promotion records the claims it leaves
    out. \<open>GenerationExample\<close> runs one tenant's history and gives these theorems concrete states.

  \<^bold>\<open>How state and operations correspond.\<close> A dataclass is a record with the same fields, an enum or literal
  a datatype, a method a function on the record; a loop over a list is a \<open>fold\<close> or a recursive function
  with its termination proof; a raised exception is the left of a sum. The interfaces between components are
  locales, interpreted on the model's own definitions: the claims a walk may follow (\<open>claim_view\<close>), the
  promotion pass of the gate (\<open>promotion_pass\<close>), path prefixes as a forest (\<open>prefix_forest\<close>), the tree of
  observations that both arrays of the successor index instantiate (\<open>observed_tree\<close>), and a predicate that the
  steps of a system preserve (\<open>preserved\<close>), an operation that debits a refilled allowance (\<open>metered\<close>: the limiter,
  the throttle and the outage budget), a reranker that only reorders (\<open>reranking\<close>, \<open>reranking_pair\<close>), and an
  expansion that only appends (\<open>expansion\<close>). A database transaction is one function from tables to tables or an
  error; the row locks of the code serialise the transactions of a tenant, so interleaving is between them.

  \<^bold>\<open>Bounds and fuel.\<close> Loops are total functions with measures, except the walk of \<open>fact_supersession\<close>,
  which takes fuel: twice the number of successors plus one. \<open>fact_supersession_terminates\<close> shows that this
  is enough for every ledger, so a result is always produced. The invalidation walk is bounded by the code's
  own depth (64); what lies deeper is invalidated, as in the code. Instants are integers (microseconds);
  scores are exact numbers with the three non-finite floats, so rounding is not modelled.

  \<^bold>\<open>Parameters.\<close> Content digests (SHA-256 over canonical JSON), the resolution of file URIs against the file
  system, the regular expressions of redaction and the conflict key of a fact are arguments of the
  definitions that use them, as is \<open>json.loads\<close>. The queries of a store, the embedder, the sparse encoder, the
  reranker's model and the transforms are fields of the record \<open>retriever\<close>; the hash and the JSON functions of the
  shared limiter are fields of \<open>codec\<close>, and what the network does to a call to Redis is an argument. Nothing is assumed of them unless a theorem says so.

  The clock, fresh ids, the projection builders and what PostgreSQL knows of its own catalogue are fields of
  the record \<open>world\<close>.

  \<^bold>\<open>Not modelled.\<close> SQL search statements, embedders, the models behind rerankers and other model calls (input and output
  of other systems); bridging threads to the event loop, connections and durable receipts of the limiter; the servers, command line, dashboard and desktop application (plumbing over the parts above); metrics and
  logging; JSON payload shapes; names that are not valid UTF-8.
\<close>

end
